(* ===== verification/Prelude.thy ===== *)
theory Prelude
  imports Complex_Main "HOL-Library.AList"
begin

text \<open>
  Shared vocabulary of the development.  Numbers: a Python \<open>Decimal\<close> and a finite
  Python \<open>float\<close> are both exact rationals, so both are read as \<^typ>\<open>rat\<close>; rounding of
  the arithmetic, NaN and the infinities are not modelled.  A Python \<open>int\<close> is \<^typ>\<open>int\<close>
  (or \<^typ>\<open>nat\<close> for a counter that only grows from 0).  A \<open>dict\<close> whose insertion order
  is observable is an association list with \<^const>\<open>AList.update\<close> (which keeps the place of a
  key that is present and appends a new one, as Python does) and \<^const>\<open>AList.delete\<close>;
  a \<open>dict\<close> whose order does not matter is a map.  Results of awaited calls to code
  outside the repository are values of \<open>outcome\<close>.  The theory also holds the lemmas on
  lists, bounded deques and dictionaries that the components share.
\<close>

type_synonym decimal = rat
type_synonym pyfloat = rat
type_synonym secs = rat
type_synonym ('k, 'v) dict = "('k \<times> 'v) list"

named_theorems dict_simps
named_theorems deque_simps

subsection \<open>Results of awaited calls\<close>

datatype 'a outcome = Returned 'a | TimedOut | Raised string

fun succeeded :: "'a outcome \<Rightarrow> bool" where
  "succeeded (Returned _) = True"
| "succeeded TimedOut = False"
| "succeeded (Raised _) = False"

subsection \<open>Dictionaries with insertion order\<close>

definition dict_get :: "('k, 'v) dict \<Rightarrow> 'k \<Rightarrow> 'v \<Rightarrow> 'v" where
  "dict_get d k v = (case map_of d k of None \<Rightarrow> v | Some w \<Rightarrow> w)"

definition dict_has :: "('k, 'v) dict \<Rightarrow> 'k \<Rightarrow> bool" where
  "dict_has d k \<longleftrightarrow> k \<in> fst ` set d"

abbreviation dict_keys :: "('k, 'v) dict \<Rightarrow> 'k list" where
  "dict_keys d \<equiv> map fst d"

lemma map_of_update [simp, dict_simps]:
  "map_of (AList.update k v d) = (map_of d)(k \<mapsto> v)"
  by (simp add: update_conv')

lemma map_of_delete [simp, dict_simps]:
  "map_of (AList.delete k d) = (map_of d)(k := None)"
  by (simp add: delete_conv')

lemma dict_has_iff [dict_simps]: "dict_has d k \<longleftrightarrow> map_of d k \<noteq> None"
  by (simp add: dict_has_def map_of_eq_None_iff)

lemma dict_get_update [simp]:
  "dict_get (AList.update k v d) k' w = (if k' = k then v else dict_get d k' w)"
  by (simp add: dict_get_def)

lemma keys_update_present:
  "k \<in> set (dict_keys d) \<Longrightarrow> dict_keys (AList.update k v d) = dict_keys d"
  by (induction d) auto

lemma keys_update_absent:
  "k \<notin> set (dict_keys d) \<Longrightarrow> AList.update k v d = d @ [(k, v)]"
  by (induction d) auto

lemma in_set_updateD:
  "(s, c) \<in> set (AList.update k v d) \<Longrightarrow> (s = k \<and> c = v) \<or> (s, c) \<in> set d"
  by (induction d) (auto split: if_splits)

lemma length_update_present:
  "k \<in> set (dict_keys d) \<Longrightarrow> length (AList.update k v d) = length d"
  by (metis keys_update_present length_map)

lemma map_of_filter_keep: "map_of xs k = Some v \<Longrightarrow> P (k, v) \<Longrightarrow> map_of (filter P xs) k = Some v"
  by (induction xs) (auto split: if_splits)

lemma set_update_other: "k \<noteq> k' \<Longrightarrow> (k, x) \<in> set (AList.update k' v d) \<longleftrightarrow> (k, x) \<in> set d"
  by (induction d) auto

lemma set_update_same: "(k, v) \<in> set (AList.update k v d)"
  by (induction d) auto

lemma dict_has_set: "dict_has d k \<longleftrightarrow> (\<exists>v. (k, v) \<in> set d)"
  by (force simp: dict_has_def image_iff)

subsection \<open>Rounding\<close>

text \<open>\<open>round\<close> and \<open>Decimal.quantize\<close> round half to even.\<close>

definition round_half_even :: "rat \<Rightarrow> int" where
  "round_half_even x =
     (let f = \<lfloor>x\<rfloor>; d = x - of_int f
      in if d < 1 / 2 then f else if 1 / 2 < d then f + 1 else if even f then f else f + 1)"

lemma round_half_even_near: "\<bar>of_int (round_half_even x) - x\<bar> \<le> 1 / 2"
proof -
  have "of_int \<lfloor>x\<rfloor> \<le> x" "x < of_int \<lfloor>x\<rfloor> + 1" by linarith+
  then show ?thesis
    by (auto simp: round_half_even_def Let_def abs_le_iff)
qed

lemma round_half_even_int [simp]: "round_half_even (of_int n) = n"
  by (simp add: round_half_even_def)

subsection \<open>Strings\<close>

text \<open>\<open>str.upper\<close> and \<open>str.lower\<close> on ASCII letters, \<open>s.split(pat)[0]\<close> (all of \<open>s\<close> when \<open>pat\<close> does not occur)
  and \<open>pat in s\<close> for a non-empty \<open>pat\<close>.\<close>

definition upper_char :: "char \<Rightarrow> char" where
  "upper_char c = (let n = of_char c :: nat in if 97 \<le> n \<and> n \<le> 122 then char_of (n - 32) else c)"

definition upper :: "string \<Rightarrow> string" where
  "upper s = map upper_char s"

definition lower_char :: "char \<Rightarrow> char" where
  "lower_char c = (let n = of_char c :: nat in if 65 \<le> n \<and> n \<le> 90 then char_of (n + 32) else c)"

definition lower :: "string \<Rightarrow> string" where
  "lower s = map lower_char s"

fun before :: "string \<Rightarrow> string \<Rightarrow> string" where
  "before pat [] = []"
| "before pat (c # cs) = (if take (length pat) (c # cs) = pat then [] else c # before pat cs)"

fun occurs_in :: "string \<Rightarrow> string \<Rightarrow> bool" where
  "occurs_in pat [] = (pat = [])"
| "occurs_in pat (c # cs) = (take (length pat) (c # cs) = pat \<or> occurs_in pat cs)"

text \<open>\<open>s.removeprefix(pre)\<close>.\<close>

definition remove_prefix :: "string \<Rightarrow> string \<Rightarrow> string" where
  "remove_prefix pre s = (if take (length pre) s = pre then drop (length pre) s else s)"

text \<open>\<open>str(n)\<close> of a natural number.\<close>

fun nat_text :: "nat \<Rightarrow> string" where
  "nat_text n = (if n < 10 then [char_of (48 + n)] else nat_text (n div 10) @ [char_of (48 + n mod 10)])"

subsection \<open>Bounded deques\<close>

text \<open>\<open>collections.deque(maxlen=n).append\<close>: the oldest entries fall off on the left.\<close>

definition deque_append :: "nat \<Rightarrow> 'a list \<Rightarrow> 'a \<Rightarrow> 'a list" where
  "deque_append n xs x = (let ys = xs @ [x] in drop (length ys - n) ys)"

lemma length_deque_append [simp, deque_simps]:
  "length (deque_append n xs x) = min n (Suc (length xs))"
  by (auto simp: deque_append_def Let_def)

lemma set_deque_append: "set (deque_append n xs x) \<subseteq> insert x (set xs)"
  by (auto simp: deque_append_def Let_def dest: in_set_dropD)

lemma deque_append_short [deque_simps]:
  "length xs < n \<Longrightarrow> deque_append n xs x = xs @ [x]"
  by (simp add: deque_append_def)

lemma last_deque_append [simp, deque_simps]:
  "0 < n \<Longrightarrow> last (deque_append n xs x) = x"
  by (simp add: deque_append_def Let_def)

lemma deque_append_new [simp, intro]:
  "0 < n \<Longrightarrow> x \<in> set (deque_append n xs x)"
  by (metis last_deque_append last_in_set length_deque_append length_greater_0_conv
      min_less_iff_conj zero_less_Suc)

subsection \<open>Sums over filtered lists\<close>

lemma sum_list_nonneg_rat:
  "(\<forall>x \<in> set xs. 0 \<le> f x) \<Longrightarrow> 0 \<le> (\<Sum>x\<leftarrow>xs. (f x :: rat))"
  by (induction xs) auto

lemma sum_list_filter_le:
  "(\<forall>x \<in> set xs. 0 \<le> f x) \<Longrightarrow> (\<Sum>x\<leftarrow>filter P xs. (f x :: rat)) \<le> (\<Sum>x\<leftarrow>xs. f x)"
  by (induction xs) auto

lemma sum_list_le_length:
  "(\<forall>x \<in> set xs. x \<le> (1::rat)) \<Longrightarrow> sum_list xs \<le> of_nat (length xs)"
  by (induction xs) (auto intro: add_mono)

lemma ratio_unit_interval:
  fixes a b :: rat
  assumes "0 \<le> a" and "a \<le> b"
  shows "0 \<le> a / b" and "a / b \<le> 1"
  using assms by (auto simp: divide_le_eq_1)

lemma filter_implied:
  "(\<And>x. x \<in> set xs \<Longrightarrow> P x \<Longrightarrow> Q x) \<Longrightarrow> filter P (filter Q xs) = filter P xs"
  by (induction xs) auto

end
