(* ===== verification/Interfaces.thy ===== *)
theory Interfaces
  imports Prelude
begin

text \<open>
  The contracts between the components, as locales.  Each is interpreted on the model's
  own operations in the theory of the component that provides them, and its lemmas are
  proved here once for every provider.
\<close>

subsection \<open>Something that can be tripped and then blocks\<close>

text \<open>
  What the risk guardian relies on: after a trip the component blocks.  Providers: the
  halt flag, the global circuit breaker, the per-strategy circuit breaker.
\<close>

locale trip_switch =
  fixes trip :: "'s \<Rightarrow> 's"
    and blocks :: "'s \<Rightarrow> bool"
  assumes trip_blocks: "blocks (trip s)"
begin

lemma trip_again: "blocks (trip (trip s))"
  by (rule trip_blocks)

lemma tripped_any_number: "0 < n \<Longrightarrow> blocks ((trip ^^ n) s)"
  by (cases n) (auto intro: trip_blocks)

end

text \<open>A trip switch that an operator can clear: the halt flag.\<close>

locale halt_switch = trip_switch trip blocks
  for trip :: "'s \<Rightarrow> 's" and blocks :: "'s \<Rightarrow> bool" +
  fixes clear :: "'s \<Rightarrow> 's"
  assumes clear_unblocks: "\<not> blocks (clear s)"
begin

lemma trip_clear_differ: "trip s \<noteq> clear s'"
  using trip_blocks [of s] clear_unblocks [of s'] by auto

lemma last_command_wins:
  "blocks (fold (\<lambda>c. if c then trip else clear) (cs @ [c]) s) \<longleftrightarrow> c"
  by (cases c) (auto intro: trip_blocks simp: clear_unblocks)

end

text \<open>
  A gate that admits only while the switch does not block: the pre-trade check over each of
  its switches.
\<close>

locale admission = trip_switch trip blocks
  for trip :: "'s \<Rightarrow> 's" and blocks :: "'s \<Rightarrow> bool" +
  fixes admits :: "'s \<Rightarrow> bool"
  assumes admits_unblocked: "admits s \<Longrightarrow> \<not> blocks s"
begin

lemma trip_refuses: "\<not> admits (trip s)"
  using admits_unblocked [of "trip s"] trip_blocks [of s] by blast

lemma trips_refuse: "0 < n \<Longrightarrow> \<not> admits ((trip ^^ n) s)"
  using admits_unblocked tripped_any_number by blast

end

subsection \<open>Entries that expire\<close>

text \<open>
  A store of time-stamped entries is pruned with a liveness test that, once false, stays
  false.  Providers: margin reservations, stranded positions, the pending flashes of the
  flash guard.
\<close>

locale expiring =
  fixes live :: "secs \<Rightarrow> 'e \<Rightarrow> bool"
  assumes live_antimono: "t \<le> t' \<Longrightarrow> live t' e \<Longrightarrow> live t e"
begin

lemma prune_prune:
  "t \<le> t' \<Longrightarrow> filter (live t') (filter (live t) es) = filter (live t') es"
  by (rule filter_implied) (rule live_antimono)

lemma prune_same: "filter (live t) (filter (live t) es) = filter (live t) es"
  by (rule prune_prune) simp

lemma prune_total_le:
  fixes f :: "'e \<Rightarrow> rat"
  assumes "t \<le> t'" and "\<forall>e \<in> set es. 0 \<le> f e"
  shows "(\<Sum>e\<leftarrow>filter (live t') es. f e) \<le> (\<Sum>e\<leftarrow>filter (live t) es. f e)"
proof -
  have "filter (live t') es = filter (live t') (filter (live t) es)"
    by (rule prune_prune [OF assms(1), symmetric])
  then show ?thesis
    using assms(2) by (metis filter_is_subset subsetD sum_list_filter_le)
qed

end

subsection \<open>A book of signed amounts\<close>

text \<open>
  A keyed accumulator.  Providers: the net exposure kept by the exposure tracker and the
  one the position manager keeps in Redis.
\<close>

locale signed_book =
  fixes bal :: "'s \<Rightarrow> 'k \<Rightarrow> rat"
    and post :: "'k \<Rightarrow> rat \<Rightarrow> 's \<Rightarrow> 's"
  assumes bal_post: "bal (post k d s) k' = bal s k' + (if k' = k then d else 0)"
begin

lemma bal_posts:
  "bal (fold (\<lambda>(k, d). post k d) ps s) k'
     = bal s k' + (\<Sum>(k, d)\<leftarrow>ps. if k' = k then d else 0)"
  by (induction ps arbitrary: s) (auto simp: bal_post)

lemma post_reversed: "bal (post k (- d) (post k d s)) k' = bal s k'"
  by (simp add: bal_post)

lemma posts_commute:
  "bal (post k d (post k' d' s)) q = bal (post k' d' (post k d s)) q"
  by (simp add: bal_post)

end

subsection \<open>An append-only event log\<close>

text \<open>
  What a writer of the execution journal relies on: an append adds one entry at the end
  of the log, with the order and state it was given, and leaves the entries before it
  alone.  Provider: the execution journal.
\<close>

locale event_log =
  fixes append_ev :: "string \<Rightarrow> string \<Rightarrow> 'p \<Rightarrow> 's \<Rightarrow> 's"
    and entries :: "'s \<Rightarrow> (string \<times> string) list"
    and ready :: "'s \<Rightarrow> bool"
  assumes append_entries: "ready s \<Longrightarrow> entries (append_ev oid st p s) = entries s @ [(oid, st)]"
    and append_ready: "ready s \<Longrightarrow> ready (append_ev oid st p s)"
begin

lemma append_many:
  "ready s \<Longrightarrow> entries (fold (\<lambda>(oid, st, p). append_ev oid st p) es s)
     = entries s @ map (\<lambda>(oid, st, p). (oid, st)) es"
  by (induction es arbitrary: s) (auto simp: append_entries append_ready)

lemma append_other_order:
  "ready s \<Longrightarrow> oid' \<noteq> oid \<Longrightarrow>
   filter (\<lambda>e. fst e = oid') (entries (append_ev oid st p s))
     = filter (\<lambda>e. fst e = oid') (entries s)"
  by (simp add: append_entries)

lemma append_same_order:
  "ready s \<Longrightarrow>
   filter (\<lambda>e. fst e = oid) (entries (append_ev oid st p s))
     = filter (\<lambda>e. fst e = oid) (entries s) @ [(oid, st)]"
  by (simp add: append_entries)

end

subsection \<open>A watcher\<close>

text \<open>
  What a component that is asked about one client at a time promises to who sweeps over
  all clients: the verdict is a function of its state, and asking about one client does not
  change the verdict on another.  Providers: the budget ledger, the circuit breaker per
  strategy.
\<close>

locale watcher =
  fixes trips :: "string \<Rightarrow> 'w \<Rightarrow> bool \<times> 'w"
    and verdict :: "'w \<Rightarrow> string \<Rightarrow> bool"
  assumes verdict_answer: "fst (trips sid w) = verdict w sid"
    and verdict_other: "sid' \<noteq> sid \<Longrightarrow> verdict (snd (trips sid w)) sid' = verdict w sid'"
begin

lemma verdict_after_many:
  "sid \<notin> set sids \<Longrightarrow> verdict (fold (\<lambda>s w. snd (trips s w)) sids w) sid = verdict w sid"
  by (induction sids arbitrary: w) (auto simp: verdict_other)

end

end
