(* ===== verification/KillSwitch.thy ===== *)
theory KillSwitch
  imports Interfaces
begin

text \<open>
  \<open>engine/src/risk/kill_switch.py\<close>: the process-wide halt flag (with its optional mirror in
  a Rust atomic and in a Prometheus gauge) and the three-tier kill switch built on it.
  The module globals are \<open>halt_flags\<close>, the \<open>KillSwitch\<close> object is \<open>kill_switch\<close>.  What the
  foreign calls do (import of the Rust module, its three functions, the metrics import) is
  \<open>rust_env\<close>; the answers of Redis and of the exchange adapters are \<open>outcome\<close>s.  First the
  operations run to completion, then the same code cut at its \<open>await\<close>s as a step relation,
  for what other tasks can do in between.  Log messages are left out; the clock readings of
  one \<open>trigger\<close> are an argument.
\<close>

subsection \<open>The halt flag\<close>

record rust_env =
  metrics_ok :: bool
  rust_import_ok :: bool
  rust_halt_ok :: bool
  rust_check_ok :: bool
  rust_clear_ok :: bool

record halt_flags =
  halt_flag :: bool
  ks_active :: nat
  rust_ks_loaded :: bool
  rust_ks_cache :: bool
  rust_halt :: bool

definition get_rust_ks :: "rust_env \<Rightarrow> halt_flags \<Rightarrow> halt_flags" where
  "get_rust_ks env h =
     (if rust_ks_loaded h then h
      else h\<lparr>rust_ks_cache := rust_import_ok env, rust_ks_loaded := True\<rparr>)"

definition halt_local :: "rust_env \<Rightarrow> halt_flags \<Rightarrow> halt_flags" where
  "halt_local env h =
     (let h1 = h\<lparr>halt_flag := True\<rparr>;
          h2 = (if metrics_ok env then h1\<lparr>ks_active := 1\<rparr> else h1);
          h3 = get_rust_ks env h2
      in if rust_ks_cache h3 \<and> rust_halt_ok env then h3\<lparr>rust_halt := True\<rparr> else h3)"

definition is_halted :: "rust_env \<Rightarrow> halt_flags \<Rightarrow> bool \<times> halt_flags" where
  "is_halted env h =
     (if halt_flag h then (True, h)
      else let h' = get_rust_ks env h
           in (rust_ks_cache h' \<and> rust_check_ok env \<and> rust_halt h', h'))"

definition clear_halt :: "rust_env \<Rightarrow> halt_flags \<Rightarrow> halt_flags" where
  "clear_halt env h =
     (let h1 = h\<lparr>halt_flag := False\<rparr>;
          h2 = (if metrics_ok env then h1\<lparr>ks_active := 0\<rparr> else h1);
          h3 = get_rust_ks env h2
      in if rust_ks_cache h3 \<and> rust_clear_ok env then h3\<lparr>rust_halt := False\<rparr> else h3)"

definition halted :: "rust_env \<Rightarrow> halt_flags \<Rightarrow> bool" where
  "halted env h \<longleftrightarrow> fst (is_halted env h)"

definition initial_flags :: halt_flags where
  "initial_flags = \<lparr>halt_flag = False, ks_active = 0, rust_ks_loaded = False,
     rust_ks_cache = False, rust_halt = False\<rparr>"

lemmas flag_defs = get_rust_ks_def halt_local_def is_halted_def clear_halt_def halted_def Let_def

lemma halt_flag_halt_local [simp]: "halt_flag (halt_local env h)"
  by (simp add: flag_defs)

lemma halt_flag_clear_halt [simp]: "\<not> halt_flag (clear_halt env h)"
  by (simp add: flag_defs)

lemma halted_if_flag [simp, intro]: "halt_flag h \<Longrightarrow> halted env h"
  by (simp add: flag_defs)

lemma is_halted_keeps [simp]:
  "halt_flag (snd (is_halted env h)) = halt_flag h"
  "ks_active (snd (is_halted env h)) = ks_active h"
  "rust_halt (snd (is_halted env h)) = rust_halt h"
  by (simp_all add: flag_defs)

lemma halted_clear_halt:
  "rust_clear_ok env \<Longrightarrow> \<not> halted env' (clear_halt env h)"
  by (auto simp: flag_defs)

text \<open>The flag is a halt switch, for every behaviour of the Rust side when it can be cleared.\<close>

interpretation hs: halt_switch "halt_local env" "halted env'" "clear_halt (env\<lparr>rust_clear_ok := True\<rparr>)"
  for env env'
  by unfold_locales (simp_all add: halted_clear_halt)

text \<open>
  The gauge follows the flag: with working metrics every operation leaves
  \<open>KILL_SWITCH_ACTIVE\<close> equal to the flag (the fix of 2026-04-22 in \<open>clear_halt\<close>).
\<close>

definition gauge_agrees :: "halt_flags \<Rightarrow> bool" where
  "gauge_agrees h \<longleftrightarrow> ks_active h = (if halt_flag h then 1 else 0)"

datatype flag_cmd = CmdHalt | CmdCheck | CmdClear

fun flag_step :: "rust_env \<Rightarrow> flag_cmd \<Rightarrow> halt_flags \<Rightarrow> halt_flags" where
  "flag_step env CmdHalt h = halt_local env h"
| "flag_step env CmdCheck h = snd (is_halted env h)"
| "flag_step env CmdClear h = clear_halt env h"

lemma gauge_agrees_step:
  "metrics_ok env \<Longrightarrow> gauge_agrees h \<Longrightarrow> gauge_agrees (flag_step env c h)"
  by (cases c) (auto simp: gauge_agrees_def flag_defs)

lemma gauge_agrees_run:
  "metrics_ok env \<Longrightarrow> gauge_agrees h \<Longrightarrow> gauge_agrees (fold (flag_step env) cs h)"
  by (induction cs arbitrary: h) (auto intro: gauge_agrees_step)

subsection \<open>The kill switch, run to completion\<close>

record ks_target =
  exchange_id :: string
  emergency_cancel_all :: "string list outcome"
  emergency_cancel_retry :: "string list outcome"
  close_all_positions :: "string list outcome"

datatype ks_error =
    AlreadyTriggered
  | RedisHaltFailed
  | Tier2Timeout string
  | Tier2Error string string
  | Tier2RetryFailed string
  | Tier3Timeout string
  | Tier3Error string string

record ks_clock =
  t_trigger :: secs
  t1_start :: secs
  t1_end :: secs
  t2_start :: secs
  t2_end :: secs
  t3_start :: secs
  t3_end :: secs

record ks_event =
  trigger_ts :: secs
  tier1_ts :: "secs option"
  tier2_ts :: "secs option"
  tier3_ts :: "secs option"
  tier1_latency_ms :: "rat option"
  tier2_latency_ms :: "rat option"
  tier3_latency_ms :: "rat option"
  cancelled_orders :: "string list"
  closed_positions :: "string list"
  ks_errors :: "ks_error list"
  redis_halt_set :: bool

record kill_switch =
  ks_flags :: halt_flags
  redis_halt_key :: bool
  ks_triggered :: bool
  tier3_enabled :: bool

definition new_event :: "secs \<Rightarrow> ks_event" where
  "new_event t = \<lparr>trigger_ts = t, tier1_ts = None, tier2_ts = None, tier3_ts = None,
     tier1_latency_ms = None, tier2_latency_ms = None, tier3_latency_ms = None,
     cancelled_orders = [], closed_positions = [], ks_errors = [], redis_halt_set = False\<rparr>"

definition tier1_local_halt ::
    "rust_env \<Rightarrow> ks_clock \<Rightarrow> unit outcome option \<Rightarrow> ks_event \<Rightarrow> kill_switch \<Rightarrow> ks_event \<times> kill_switch"
  where
  "tier1_local_halt env c redis ev ks =
     (let ks1 = ks\<lparr>ks_flags := halt_local env (ks_flags ks)\<rparr>;
          (ev1, ks2) =
            (case redis of
               None \<Rightarrow> (ev, ks1)
             | Some r \<Rightarrow>
                 (if succeeded r then (ev\<lparr>redis_halt_set := True\<rparr>, ks1\<lparr>redis_halt_key := True\<rparr>)
                  else (ev\<lparr>ks_errors := ks_errors ev @ [RedisHaltFailed]\<rparr>, ks1)))
      in (ev1\<lparr>tier1_ts := Some (t1_end c),
             tier1_latency_ms := Some ((t1_end c - t1_start c) * 1000)\<rparr>, ks2))"

text \<open>One exchange: the ids it returned and the messages it left, with one retry after an
  error that is not a timeout.\<close>

fun cancel_exchange :: "ks_target \<Rightarrow> string list \<times> ks_error list" where
  "cancel_exchange a =
     (case emergency_cancel_all a of
        Returned xs \<Rightarrow> (xs, [])
      | TimedOut \<Rightarrow> ([], [Tier2Timeout (exchange_id a)])
      | Raised e \<Rightarrow>
          (case emergency_cancel_retry a of
             Returned xs \<Rightarrow> (xs, [Tier2Error (exchange_id a) e])
           | _ \<Rightarrow> ([], [Tier2Error (exchange_id a) e, Tier2RetryFailed (exchange_id a)])))"

fun close_exchange :: "ks_target \<Rightarrow> string list \<times> ks_error list" where
  "close_exchange a =
     (case close_all_positions a of
        Returned xs \<Rightarrow> (xs, [])
      | TimedOut \<Rightarrow> ([], [Tier3Timeout (exchange_id a)])
      | Raised e \<Rightarrow> ([], [Tier3Error (exchange_id a) e]))"

text \<open>\<open>asyncio.gather\<close> keeps the order of the exchanges in its result; the messages are
  collected in the same order here, while the code appends them as the calls finish.\<close>

definition tier2_cancel_orders :: "ks_clock \<Rightarrow> ks_target list \<Rightarrow> ks_event \<Rightarrow> ks_event" where
  "tier2_cancel_orders c exs ev =
     (if exs = [] then ev\<lparr>tier2_ts := Some (t2_end c), tier2_latency_ms := Some 0\<rparr>
      else ev\<lparr>ks_errors := ks_errors ev @ concat (map (snd \<circ> cancel_exchange) exs),
              cancelled_orders := cancelled_orders ev @ concat (map (fst \<circ> cancel_exchange) exs),
              tier2_ts := Some (t2_end c),
              tier2_latency_ms := Some ((t2_end c - t2_start c) * 1000)\<rparr>)"

definition tier3_close_positions :: "ks_clock \<Rightarrow> ks_target list \<Rightarrow> ks_event \<Rightarrow> ks_event" where
  "tier3_close_positions c exs ev =
     (if exs = [] then ev\<lparr>tier3_ts := Some (t3_end c), tier3_latency_ms := Some 0\<rparr>
      else ev\<lparr>ks_errors := ks_errors ev @ concat (map (snd \<circ> close_exchange) exs),
              closed_positions := closed_positions ev @ concat (map (fst \<circ> close_exchange) exs),
              tier3_ts := Some (t3_end c),
              tier3_latency_ms := Some ((t3_end c - t3_start c) * 1000)\<rparr>)"

definition trigger ::
    "rust_env \<Rightarrow> ks_clock \<Rightarrow> unit outcome option \<Rightarrow> ks_target list \<Rightarrow> kill_switch \<Rightarrow>
     ks_event \<times> kill_switch"
  where
  "trigger env c redis exs ks =
     (if ks_triggered ks
      then ((new_event (t_trigger c))\<lparr>ks_errors := [AlreadyTriggered]\<rparr>, ks)
      else
        let ks1 = ks\<lparr>ks_triggered := True\<rparr>;
            (ev1, ks2) = tier1_local_halt env c redis (new_event (t_trigger c)) ks1;
            ev2 = tier2_cancel_orders c exs ev1;
            ev3 = (if tier3_enabled ks2 then tier3_close_positions c exs ev2 else ev2)
        in (ev3, ks2))"

definition ks_reset :: "rust_env \<Rightarrow> kill_switch \<Rightarrow> kill_switch" where
  "ks_reset env ks = ks\<lparr>ks_flags := clear_halt env (ks_flags ks), ks_triggered := False\<rparr>"

lemmas trigger_defs = trigger_def tier1_local_halt_def tier2_cancel_orders_def
  tier3_close_positions_def new_event_def Let_def

lemma trigger_fresh:
  assumes "\<not> ks_triggered ks"
  shows "halt_flag (ks_flags (snd (trigger env c redis exs ks)))"
    and "ks_triggered (snd (trigger env c redis exs ks))"
    and "cancelled_orders (fst (trigger env c redis exs ks))
           = concat (map (fst \<circ> cancel_exchange) exs)"
    and "closed_positions (fst (trigger env c redis exs ks))
           = (if tier3_enabled ks then concat (map (fst \<circ> close_exchange) exs) else [])"
  using assms by (auto simp: trigger_defs split: option.split)

lemma trigger_again:
  "ks_triggered ks \<Longrightarrow> snd (trigger env c redis exs ks) = ks"
  by (simp add: trigger_def)

subsection \<open>The kill switch, cut at its awaits\<close>

text \<open>
  \<open>trigger\<close> holds the lock only while it tests and sets \<open>_triggered\<close>, and \<open>reset\<close> only while
  it clears; neither awaits under it, so each is one step.  A running \<open>trigger\<close> then waits
  for Redis, for the cancellations and for the closing orders, in this order, skipping what
  its configuration leaves out; while it waits, other tasks run.
\<close>

datatype ks_phase = AwaitRedis | AwaitCancel | AwaitClose | TriggerDone

record ks_sys =
  sys_ks :: kill_switch
  has_redis :: bool
  has_exchanges :: bool
  inflight :: "ks_phase list"

fun phase_after :: "ks_sys \<Rightarrow> ks_phase \<Rightarrow> ks_phase" where
  "phase_after s AwaitRedis = (if has_exchanges s then AwaitCancel else TriggerDone)"
| "phase_after s AwaitCancel = (if tier3_enabled (sys_ks s) then AwaitClose else TriggerDone)"
| "phase_after s AwaitClose = TriggerDone"
| "phase_after s TriggerDone = TriggerDone"

definition first_phase :: "ks_sys \<Rightarrow> ks_phase" where
  "first_phase s = (if has_redis s then AwaitRedis
                    else if has_exchanges s then AwaitCancel else TriggerDone)"

definition begin_trigger :: "rust_env \<Rightarrow> ks_sys \<Rightarrow> ks_sys" where
  "begin_trigger env s =
     (let ks = sys_ks s
      in if ks_triggered ks then s
         else s\<lparr>sys_ks := ks\<lparr>ks_triggered := True, ks_flags := halt_local env (ks_flags ks)\<rparr>,
                inflight := inflight s @ [first_phase s]\<rparr>)"

inductive ks_step :: "rust_env \<Rightarrow> ks_sys \<Rightarrow> ks_sys \<Rightarrow> bool" for env where
  start: "ks_step env s (begin_trigger env s)"
| redis_answer: "i < length (inflight s) \<Longrightarrow> inflight s ! i = AwaitRedis \<Longrightarrow>
     ks_step env s (s\<lparr>inflight := (inflight s)[i := phase_after s AwaitRedis],
                      sys_ks := (sys_ks s)\<lparr>redis_halt_key := redis_halt_key (sys_ks s) \<or> ok\<rparr>\<rparr>)"
| exchange_answer: "i < length (inflight s) \<Longrightarrow> inflight s ! i = p \<Longrightarrow>
     p = AwaitCancel \<or> p = AwaitClose \<Longrightarrow>
     ks_step env s (s\<lparr>inflight := (inflight s)[i := phase_after s p]\<rparr>)"
| reset: "ks_step env s (s\<lparr>sys_ks := ks_reset env (sys_ks s)\<rparr>)"
| other_halt: "ks_step env s (s\<lparr>sys_ks := (sys_ks s)\<lparr>ks_flags := halt_local env (ks_flags (sys_ks s))\<rparr>\<rparr>)"

definition ks_init :: "bool \<Rightarrow> bool \<Rightarrow> bool \<Rightarrow> ks_sys" where
  "ks_init redis exs t3 =
     \<lparr>sys_ks = \<lparr>ks_flags = initial_flags, redis_halt_key = False, ks_triggered = False,
                tier3_enabled = t3\<rparr>,
      has_redis = redis, has_exchanges = exs, inflight = []\<rparr>"

inductive ks_reach :: "rust_env \<Rightarrow> ks_sys \<Rightarrow> bool" for env where
  init: "ks_reach env (ks_init redis exs t3)"
| step: "ks_reach env s \<Longrightarrow> ks_step env s s' \<Longrightarrow> ks_reach env s'"

inductive_simps ks_step_iff: "ks_step env s s'"

definition ks_inv :: "ks_sys \<Rightarrow> bool" where
  "ks_inv s \<longleftrightarrow> (ks_triggered (sys_ks s) \<longrightarrow> halt_flag (ks_flags (sys_ks s)))"

lemma ks_inv_init [simp]: "ks_inv (ks_init redis exs t3)"
  by (simp add: ks_inv_def ks_init_def)

lemma ks_inv_step: "ks_step env s s' \<Longrightarrow> ks_inv s \<Longrightarrow> ks_inv s'"
  by (induction rule: ks_step.induct)
     (auto simp: ks_inv_def begin_trigger_def ks_reset_def Let_def)

lemma ks_reach_inv: "ks_reach env s \<Longrightarrow> ks_inv s"
  by (induction rule: ks_reach.induct) (auto intro: ks_inv_step)

subsection \<open>Properties\<close>

text \<open>C1. A kill switch that was not triggered halts the engine whatever Redis, the exchanges and
  the Rust side answer; it records every order id its exchanges returned as cancelled, in the
  order of the exchanges, closes positions only when tier 3 is on, and a second trigger
  changes nothing and reports that it had already fired.\<close>

theorem trigger_always_halts:
  assumes "\<not> ks_triggered ks"
  shows "halted env' (ks_flags (snd (trigger env c redis exs ks)))
    \<and> cancelled_orders (fst (trigger env c redis exs ks))
        = concat (map (fst \<circ> cancel_exchange) exs)
    \<and> closed_positions (fst (trigger env c redis exs ks))
        = (if tier3_enabled ks then concat (map (fst \<circ> close_exchange) exs) else [])
    \<and> snd (trigger env2 c2 redis2 exs2 (snd (trigger env c redis exs ks)))
        = snd (trigger env c redis exs ks)
    \<and> ks_errors (fst (trigger env2 c2 redis2 exs2 (snd (trigger env c redis exs ks))))
        = [AlreadyTriggered]"
  using trigger_fresh [OF assms, of env c redis exs]
  by (simp add: trigger_again) (simp add: trigger_def)

definition ex_ks :: kill_switch where
  "ex_ks = sys_ks (ks_init True True True)"

definition ex_env :: rust_env where
  "ex_env = \<lparr>metrics_ok = True, rust_import_ok = False, rust_halt_ok = True,
     rust_check_ok = True, rust_clear_ok = True\<rparr>"

definition ex_clock :: ks_clock where
  "ex_clock = \<lparr>t_trigger = 0, t1_start = 0, t1_end = 1, t2_start = 1, t2_end = 2,
     t3_start = 2, t3_end = 3\<rparr>"

definition ex_targets :: "ks_target list" where
  "ex_targets =
     [\<lparr>exchange_id = ''binance'', emergency_cancel_all = Raised ''net'',
       emergency_cancel_retry = Returned [''o1''], close_all_positions = TimedOut\<rparr>,
      \<lparr>exchange_id = ''bitget'', emergency_cancel_all = Returned [''o2''],
       emergency_cancel_retry = TimedOut, close_all_positions = Returned [''p1'']\<rparr>]"

theorem trigger_always_halts_witness:
  "halted ex_env (ks_flags (snd (trigger ex_env ex_clock (Some TimedOut) ex_targets ex_ks)))
   \<and> cancelled_orders (fst (trigger ex_env ex_clock (Some TimedOut) ex_targets ex_ks))
       = [''o1'', ''o2'']"
proof -
  have "\<not> ks_triggered ex_ks"
    by (simp add: ex_ks_def ks_init_def)
  from trigger_always_halts [OF this, of ex_env ex_env ex_clock "Some TimedOut" ex_targets]
  show ?thesis by (simp add: ex_targets_def)
qed


lemma ks_reach_triggered:
  "ks_reach env (begin_trigger env (ks_init False True True))"
  by (rule ks_reach.step [OF ks_reach.init ks_step.start])


text \<open>\<open>reset\<close> does not wait for a running trigger, although its docstring says the lock is there
  to prevent that race: a state is reachable in which the engine accepts orders again while
  the same trigger still waits for the exchanges to cancel orders.\<close>

lemma reset_races_with_tier2:
  "\<exists>s. ks_reach env s \<and> \<not> halt_flag (ks_flags (sys_ks s)) \<and> \<not> ks_triggered (sys_ks s)
       \<and> AwaitCancel \<in> set (inflight s)"
proof -
  let ?s = "begin_trigger env (ks_init False True True)"
  let ?t = "?s\<lparr>sys_ks := ks_reset env (sys_ks ?s)\<rparr>"
  have "ks_reach env ?t"
    by (rule ks_reach.step [OF ks_reach_triggered ks_step.reset])
  moreover have "\<not> halt_flag (ks_flags (sys_ks ?t)) \<and> \<not> ks_triggered (sys_ks ?t)
      \<and> AwaitCancel \<in> set (inflight ?t)"
    by (simp add: begin_trigger_def ks_init_def ks_reset_def first_phase_def Let_def)
  ultimately show ?thesis by blast
qed

text \<open>Resuming with \<open>clear_halt\<close> instead of \<open>reset\<close> (as the Telegram resume command and the Redis
  recovery do) disarms the kill switch: the flag is down, \<open>_triggered\<close> stays set, and the next
  trigger leaves the engine running.\<close>

lemma trigger_after_clear_halt_is_dead:
  assumes "\<not> ks_triggered ks" and "rust_clear_ok env"
  shows "let fired = snd (trigger env c redis exs ks);
             resumed = fired\<lparr>ks_flags := clear_halt env (ks_flags fired)\<rparr>
         in \<not> halted env (ks_flags (snd (trigger env c' redis' exs' resumed)))
            \<and> cancelled_orders (fst (trigger env c' redis' exs' resumed)) = []"
proof -
  let ?fired = "snd (trigger env c redis exs ks)"
  let ?resumed = "?fired\<lparr>ks_flags := clear_halt env (ks_flags ?fired)\<rparr>"
  have t: "ks_triggered ?resumed"
    using trigger_fresh(2) [OF assms(1), of env c redis exs] by simp
  have "\<not> halted env (ks_flags ?resumed)"
    by (simp add: halted_clear_halt assms(2))
  with t have "\<not> halted env (ks_flags (snd (trigger env c' redis' exs' ?resumed)))"
    by (simp only: trigger_again not_False_eq_True)
  moreover have "cancelled_orders (fst (trigger env c' redis' exs' ?resumed)) = []"
    using t by (simp add: trigger_def new_event_def)
  ultimately show ?thesis
    by (simp add: Let_def)
qed

lemma trigger_after_clear_halt_is_dead_witness:
  "let fired = snd (trigger ex_env ex_clock None ex_targets ex_ks);
       resumed = fired\<lparr>ks_flags := clear_halt ex_env (ks_flags fired)\<rparr>
   in \<not> halted ex_env (ks_flags (snd (trigger ex_env ex_clock None ex_targets resumed)))"
proof -
  have "\<not> ks_triggered ex_ks" and "rust_clear_ok ex_env"
    by (simp_all add: ex_ks_def ks_init_def ex_env_def)
  from trigger_after_clear_halt_is_dead [OF this] show ?thesis
    by (simp add: Let_def)
qed

end
