(* ===== verification/CircuitBreaker.thy ===== *)
theory CircuitBreaker
  imports Interfaces
begin

text \<open>
  \<open>engine/src/risk/circuit_breaker.py\<close>: the global circuit breaker
  CLOSED - OPEN - HALF_OPEN - CLOSED.  Every public method takes the lock for its whole body
  and awaits nothing under it, so it is one step; the cool-down task is the field
  \<open>cooldown_at\<close>, the time its sleep ends (\<open>None\<close> when no task is pending: a new transition
  to OPEN cancels the pending one).  Reasons are values instead of formatted strings, and the
  calls of \<open>on_state_change\<close> are recorded in \<open>notified\<close>.  Each operation takes the reading
  \<open>now\<close> of the monotonic clock.
\<close>

datatype cb_mode = CLOSED | OPEN | HALF_OPEN

datatype cb_reason =
    MddExceeded rat rat
  | ConsecutiveLosses nat int
  | ApiErrorRate rat rat
  | CooldownExpired
  | Recovery
  | NamedReason string

record cb_stats =
  consecutive_losses :: nat
  total_losses :: nat
  total_wins :: nat
  api_errors :: nat
  api_requests :: nat
  current_drawdown_pct :: pyfloat
  last_trigger_reason :: "cb_reason option"
  state_changed_at :: secs
  half_open_tests :: nat
  half_open_successes :: nat

record cb_config =
  mdd_threshold :: pyfloat
  consecutive_loss_limit :: int
  api_error_rate_threshold :: pyfloat
  cooldown_seconds :: secs
  half_open_test_count :: int

record circuit_breaker =
  cb_cfg :: cb_config
  cb_state :: cb_mode
  cb_st :: cb_stats
  cooldown_at :: "secs option"
  notified :: "(cb_mode \<times> cb_reason) list"

definition cb_new :: "cb_config \<Rightarrow> secs \<Rightarrow> circuit_breaker" where
  "cb_new cfg now = \<lparr>cb_cfg = cfg, cb_state = CLOSED,
     cb_st = \<lparr>consecutive_losses = 0, total_losses = 0, total_wins = 0, api_errors = 0,
       api_requests = 0, current_drawdown_pct = 0, last_trigger_reason = None,
       state_changed_at = now, half_open_tests = 0, half_open_successes = 0\<rparr>,
     cooldown_at = None, notified = []\<rparr>"

definition cb_default_config :: cb_config where
  "cb_default_config = \<lparr>mdd_threshold = 2 / 100, consecutive_loss_limit = 5,
     api_error_rate_threshold = 20 / 100, cooldown_seconds = 300, half_open_test_count = 3\<rparr>"

subsection \<open>Queries\<close>

definition cb_is_open :: "circuit_breaker \<Rightarrow> bool" where
  "cb_is_open cb \<longleftrightarrow> cb_state cb = OPEN"

definition allows_trading :: "circuit_breaker \<Rightarrow> bool" where
  "allows_trading cb \<longleftrightarrow> cb_state cb \<in> {CLOSED, HALF_OPEN}"

subsection \<open>Transitions under the lock\<close>

definition transition_to_open :: "secs \<Rightarrow> cb_reason \<Rightarrow> circuit_breaker \<Rightarrow> circuit_breaker" where
  "transition_to_open now r cb =
     cb\<lparr>cb_state := OPEN,
        cb_st := (cb_st cb)\<lparr>last_trigger_reason := Some r, state_changed_at := now\<rparr>,
        notified := notified cb @ [(OPEN, r)],
        cooldown_at := Some (now + cooldown_seconds (cb_cfg cb))\<rparr>"

definition transition_to_closed :: "secs \<Rightarrow> circuit_breaker \<Rightarrow> circuit_breaker" where
  "transition_to_closed now cb =
     cb\<lparr>cb_state := CLOSED,
        cb_st := (cb_st cb)\<lparr>state_changed_at := now, consecutive_losses := 0,
                            api_errors := 0, api_requests := 0\<rparr>,
        notified := notified cb @ [(CLOSED, Recovery)]\<rparr>"

definition trigger_reason :: "circuit_breaker \<Rightarrow> cb_reason option" where
  "trigger_reason cb =
     (let s = cb_st cb; c = cb_cfg cb;
          rate = of_nat (api_errors s) / of_nat (api_requests s) :: rat
      in if mdd_threshold c < current_drawdown_pct s
         then Some (MddExceeded (current_drawdown_pct s) (mdd_threshold c))
         else if consecutive_loss_limit c \<le> int (consecutive_losses s)
         then Some (ConsecutiveLosses (consecutive_losses s) (consecutive_loss_limit c))
         else if 0 < api_requests s \<and> api_error_rate_threshold c < rate
         then Some (ApiErrorRate rate (api_error_rate_threshold c))
         else None)"

definition check_triggers :: "secs \<Rightarrow> circuit_breaker \<Rightarrow> circuit_breaker" where
  "check_triggers now cb =
     (case trigger_reason cb of None \<Rightarrow> cb | Some r \<Rightarrow> transition_to_open now r cb)"

subsection \<open>Public operations\<close>

definition record_loss :: "secs \<Rightarrow> pyfloat option \<Rightarrow> circuit_breaker \<Rightarrow> circuit_breaker" where
  "record_loss now dd cb =
     (let s1 = (cb_st cb)\<lparr>consecutive_losses := consecutive_losses (cb_st cb) + 1,
                           total_losses := total_losses (cb_st cb) + 1\<rparr>;
          s2 = (case dd of None \<Rightarrow> s1 | Some d \<Rightarrow> s1\<lparr>current_drawdown_pct := d\<rparr>);
          cb1 = cb\<lparr>cb_st := s2\<rparr>
      in case cb_state cb of
           CLOSED \<Rightarrow> check_triggers now cb1
         | HALF_OPEN \<Rightarrow> transition_to_open now (NamedReason ''loss_in_half_open'') cb1
         | OPEN \<Rightarrow> cb1)"

definition record_win :: "secs \<Rightarrow> circuit_breaker \<Rightarrow> circuit_breaker" where
  "record_win now cb =
     (let s1 = (cb_st cb)\<lparr>consecutive_losses := 0, total_wins := total_wins (cb_st cb) + 1\<rparr>
      in if cb_state cb = HALF_OPEN then
           let s2 = s1\<lparr>half_open_successes := half_open_successes s1 + 1,
                       half_open_tests := half_open_tests s1 + 1\<rparr>;
               cb1 = cb\<lparr>cb_st := s2\<rparr>
           in if half_open_test_count (cb_cfg cb) \<le> int (half_open_successes s2)
              then transition_to_closed now cb1 else cb1
         else cb\<lparr>cb_st := s1\<rparr>)"

definition record_api_error :: "secs \<Rightarrow> circuit_breaker \<Rightarrow> circuit_breaker" where
  "record_api_error now cb =
     (let cb1 = cb\<lparr>cb_st := (cb_st cb)\<lparr>api_errors := api_errors (cb_st cb) + 1,
                                        api_requests := api_requests (cb_st cb) + 1\<rparr>\<rparr>
      in if cb_state cb = CLOSED then check_triggers now cb1 else cb1)"

definition record_api_success :: "circuit_breaker \<Rightarrow> circuit_breaker" where
  "record_api_success cb =
     cb\<lparr>cb_st := (cb_st cb)\<lparr>api_requests := api_requests (cb_st cb) + 1\<rparr>\<rparr>"

definition update_drawdown :: "secs \<Rightarrow> pyfloat \<Rightarrow> circuit_breaker \<Rightarrow> circuit_breaker" where
  "update_drawdown now d cb =
     (let cb1 = cb\<lparr>cb_st := (cb_st cb)\<lparr>current_drawdown_pct := d\<rparr>\<rparr>
      in if cb_state cb = CLOSED then check_triggers now cb1 else cb1)"

definition trigger_manual :: "secs \<Rightarrow> string \<Rightarrow> circuit_breaker \<Rightarrow> circuit_breaker" where
  "trigger_manual now reason cb =
     (if cb_state cb \<noteq> OPEN then transition_to_open now (NamedReason reason) cb else cb)"

text \<open>The cool-down task wakes up; nothing happens while none is pending or it still sleeps.\<close>

definition cooldown_to_half_open :: "secs \<Rightarrow> circuit_breaker \<Rightarrow> circuit_breaker" where
  "cooldown_to_half_open now cb =
     (case cooldown_at cb of
        None \<Rightarrow> cb
      | Some t \<Rightarrow>
          if now < t then cb
          else let cb1 = cb\<lparr>cooldown_at := None\<rparr>
               in if cb_state cb = OPEN
                  then cb1\<lparr>cb_state := HALF_OPEN,
                           cb_st := (cb_st cb)\<lparr>state_changed_at := now, half_open_tests := 0,
                                               half_open_successes := 0\<rparr>,
                           notified := notified cb @ [(HALF_OPEN, CooldownExpired)]\<rparr>
                  else cb1)"

datatype cb_event =
    RecordLoss "pyfloat option"
  | RecordWin
  | RecordApiError
  | RecordApiSuccess
  | UpdateDrawdown pyfloat
  | TriggerManual string
  | CooldownWakes

fun cb_step :: "secs \<Rightarrow> cb_event \<Rightarrow> circuit_breaker \<Rightarrow> circuit_breaker" where
  "cb_step now (RecordLoss dd) cb = record_loss now dd cb"
| "cb_step now RecordWin cb = record_win now cb"
| "cb_step now RecordApiError cb = record_api_error now cb"
| "cb_step now RecordApiSuccess cb = record_api_success cb"
| "cb_step now (UpdateDrawdown d) cb = update_drawdown now d cb"
| "cb_step now (TriggerManual r) cb = trigger_manual now r cb"
| "cb_step now CooldownWakes cb = cooldown_to_half_open now cb"

fun cb_run :: "(secs \<times> cb_event) list \<Rightarrow> circuit_breaker \<Rightarrow> circuit_breaker" where
  "cb_run [] cb = cb"
| "cb_run ((now, e) # es) cb = cb_run es (cb_step now e cb)"

lemmas cb_op_defs = record_loss_def record_win_def record_api_error_def record_api_success_def
  update_drawdown_def trigger_manual_def cooldown_to_half_open_def Let_def
lemmas cb_trans_defs = transition_to_open_def transition_to_closed_def check_triggers_def

interpretation cb_trip: trip_switch "trigger_manual now reason" "\<lambda>cb. \<not> allows_trading cb"
  for now reason
  by unfold_locales (simp add: trigger_manual_def transition_to_open_def allows_trading_def)

subsection \<open>The state graph and its invariant\<close>

text \<open>The abstract machine of the docstring: the edges between the three states.\<close>

inductive cb_edge :: "cb_mode \<Rightarrow> cb_mode \<Rightarrow> bool" where
  stay: "cb_edge m m"
| trips: "cb_edge CLOSED OPEN"
| cools: "cb_edge OPEN HALF_OPEN"
| fails: "cb_edge HALF_OPEN OPEN"
| recovers: "cb_edge HALF_OPEN CLOSED"

inductive_simps cb_edge_simps [simp]: "cb_edge CLOSED m" "cb_edge OPEN m" "cb_edge HALF_OPEN m"

lemma cb_cfg_step [simp]: "cb_cfg (cb_step now e cb) = cb_cfg cb"
  by (cases e; cases "cb_state cb")
     (auto simp: cb_op_defs cb_trans_defs split: option.splits)

lemma cb_cfg_run [simp]: "cb_cfg (cb_run es cb) = cb_cfg cb"
  by (induction es cb rule: cb_run.induct) simp_all

lemma cb_edge_step: "cb_edge (cb_state cb) (cb_state (cb_step now e cb))"
  by (cases e; cases "cb_state cb")
     (auto simp: cb_op_defs cb_trans_defs split: option.splits)

text \<open>What the fields say about each other between calls.\<close>

definition cb_inv :: "circuit_breaker \<Rightarrow> bool" where
  "cb_inv cb \<longleftrightarrow>
     cooldown_at cb = (if cb_state cb = OPEN
       then Some (state_changed_at (cb_st cb) + cooldown_seconds (cb_cfg cb)) else None)
     \<and> api_errors (cb_st cb) \<le> api_requests (cb_st cb)
     \<and> half_open_successes (cb_st cb) = half_open_tests (cb_st cb)
     \<and> consecutive_losses (cb_st cb) \<le> total_losses (cb_st cb)
     \<and> (cb_state cb = HALF_OPEN \<and> 1 \<le> half_open_test_count (cb_cfg cb) \<longrightarrow>
          int (half_open_successes (cb_st cb)) < half_open_test_count (cb_cfg cb))"

lemma cb_inv_new: "cb_inv (cb_new cfg now)"
  by (simp add: cb_inv_def cb_new_def)

lemma cb_inv_step: "cb_inv cb \<Longrightarrow> cb_inv (cb_step now e cb)"
  by (cases e; cases "cb_state cb")
     (auto simp: cb_inv_def cb_op_defs cb_trans_defs split: option.splits)

lemma cb_inv_run: "cb_inv cb \<Longrightarrow> cb_inv (cb_run es cb)"
  by (induction es cb rule: cb_run.induct) (simp_all add: cb_inv_step)

subsection \<open>Staying open\<close>

lemma open_step:
  assumes "cb_inv cb" and "cb_state cb = OPEN"
    and "now < state_changed_at (cb_st cb) + cooldown_seconds (cb_cfg cb)"
  shows "cb_state (cb_step now e cb) = OPEN"
    and "state_changed_at (cb_st (cb_step now e cb)) = state_changed_at (cb_st cb)"
  using assms by (cases e; auto simp: cb_inv_def cb_op_defs split: option.splits)+

lemma open_run:
  assumes "cb_inv cb" and "cb_state cb = OPEN"
    and "\<forall>(t, e) \<in> set es. t < state_changed_at (cb_st cb) + cooldown_seconds (cb_cfg cb)"
  shows "cb_state (cb_run es cb) = OPEN"
  using assms
proof (induction es cb rule: cb_run.induct)
  case (2 now e es cb)
  then show ?case
    by (simp add: open_step cb_inv_step)
qed simp

subsection \<open>Probing after the cool-down\<close>

lemma win_half_open:
  assumes "cb_state cb = HALF_OPEN"
  shows "cb_state (record_win now cb)
           = (if half_open_test_count (cb_cfg cb) \<le> int (half_open_successes (cb_st cb)) + 1
              then CLOSED else HALF_OPEN)"
    and "half_open_successes (cb_st (record_win now cb)) = half_open_successes (cb_st cb) + 1"
    and "cb_cfg (record_win now cb) = cb_cfg cb"
  using assms by (auto simp: record_win_def transition_to_closed_def Let_def)

fun wins :: "secs list \<Rightarrow> circuit_breaker \<Rightarrow> circuit_breaker" where
  "wins [] cb = cb"
| "wins (t # ts) cb = wins ts (record_win t cb)"

lemma wins_not_half_open:
  "cb_state cb = CLOSED \<Longrightarrow> cb_state (wins ts cb) = CLOSED"
  by (induction ts cb rule: wins.induct) (simp_all add: record_win_def Let_def)

lemma wins_half_open:
  "cb_state cb = HALF_OPEN \<Longrightarrow>
   int (half_open_successes (cb_st cb)) < half_open_test_count (cb_cfg cb) \<Longrightarrow>
   cb_state (wins ts cb) =
     (if half_open_test_count (cb_cfg cb)
           \<le> int (half_open_successes (cb_st cb)) + int (length ts)
      then CLOSED else HALF_OPEN)"
proof (induction ts cb rule: wins.induct)
  case (2 t ts cb)
  show ?case
  proof (cases "half_open_test_count (cb_cfg cb) \<le> int (half_open_successes (cb_st cb)) + 1")
    case True
    with "2.prems" show ?thesis
      by (simp add: win_half_open wins_not_half_open)
  next
    case False
    with "2.prems" "2.IH" show ?thesis
      by (simp add: win_half_open algebra_simps)
  qed
qed simp

subsection \<open>Properties\<close>

text \<open>C20. The circuit breaker refines its three-state machine: from a new breaker, after any
  sequence of calls at any times, the invariant between its fields holds (a cool-down is
  pending exactly while it is OPEN, errors never outnumber requests, a HALF_OPEN breaker has
  fewer successes than it needs) and the next call moves along an edge of the documented
  graph, so it never goes from OPEN to CLOSED or from CLOSED to HALF_OPEN directly.\<close>

theorem cb_refines_graph:
  "cb_inv (cb_run es (cb_new cfg t0))
   \<and> cb_edge (cb_state (cb_run es (cb_new cfg t0)))
             (cb_state (cb_step now e (cb_run es (cb_new cfg t0))))"
  by (simp add: cb_inv_run cb_inv_new cb_edge_step)

text \<open>An OPEN breaker blocks trading for the whole cool-down: no sequence of calls made before
  \<open>state_changed_at + cooldown_seconds\<close>, wins and manual triggers included, lets it trade; the
  first wake-up of the cool-down task at or after that time makes it HALF_OPEN.\<close>

lemma open_blocks_for_cooldown:
  assumes "cb_inv cb" and "cb_state cb = OPEN"
    and "\<forall>(t, e) \<in> set es. t < state_changed_at (cb_st cb) + cooldown_seconds (cb_cfg cb)"
    and "state_changed_at (cb_st cb) + cooldown_seconds (cb_cfg cb) \<le> t'"
  shows "\<not> allows_trading (cb_run es cb)
    \<and> cb_state (cb_step t' CooldownWakes cb) = HALF_OPEN"
  using open_run [OF assms(1-3)] assms(1,2,4)
  by (simp add: allows_trading_def cooldown_to_half_open_def cb_inv_def Let_def)

definition ex_open :: circuit_breaker where
  "ex_open = trigger_manual 10 ''ops'' (cb_new cb_default_config 0)"

lemma ex_open_facts:
  "cb_inv ex_open" "cb_state ex_open = OPEN"
  "state_changed_at (cb_st ex_open) = 10" "cooldown_seconds (cb_cfg ex_open) = 300"
  by (simp_all add: ex_open_def cb_inv_def trigger_manual_def transition_to_open_def cb_new_def
      cb_default_config_def)

lemma open_blocks_for_cooldown_witness:
  "\<not> allows_trading (cb_run [(20, RecordWin), (309, CooldownWakes)] ex_open)"
  using open_blocks_for_cooldown [OF ex_open_facts(1,2),
      of "[(20, RecordWin), (309, CooldownWakes)]" 310]
  by (simp add: ex_open_facts)

text \<open>In CLOSED a recorded loss opens the breaker exactly when the drawdown it reports (or the
  one known before) is over the threshold, or the run of losses has reached the limit, or the
  API error rate is over its threshold; the counters move by one either way.\<close>

lemma record_loss_trips_exactly:
  assumes "cb_state cb = CLOSED"
  shows "(cb_state (record_loss now dd cb) = OPEN \<longleftrightarrow>
      mdd_threshold (cb_cfg cb)
          < (case dd of None \<Rightarrow> current_drawdown_pct (cb_st cb) | Some d \<Rightarrow> d)
      \<or> consecutive_loss_limit (cb_cfg cb) \<le> int (consecutive_losses (cb_st cb)) + 1
      \<or> 0 < api_requests (cb_st cb)
         \<and> api_error_rate_threshold (cb_cfg cb) * of_nat (api_requests (cb_st cb))
             < of_nat (api_errors (cb_st cb)))
    \<and> consecutive_losses (cb_st (record_loss now dd cb)) = consecutive_losses (cb_st cb) + 1
    \<and> current_drawdown_pct (cb_st (record_loss now dd cb))
        = (case dd of None \<Rightarrow> current_drawdown_pct (cb_st cb) | Some d \<Rightarrow> d)"
  using assms
  by (auto simp: record_loss_def cb_trans_defs trigger_reason_def Let_def pos_less_divide_eq
      split: option.splits)

lemma record_loss_trips_exactly_witness:
  "cb_state (record_loss 5 (Some (3 / 100)) (cb_new cb_default_config 0)) = OPEN"
proof -
  have "cb_state (cb_new cb_default_config 0) = CLOSED"
    by (simp add: cb_new_def)
  from record_loss_trips_exactly [OF this, of 5 "Some (3 / 100)"] show ?thesis
    by (simp add: cb_new_def cb_default_config_def)
qed

text \<open>A breaker that has just become HALF_OPEN closes with exactly the configured number of
  wins and not before, and any loss sends it back to OPEN with a fresh cool-down.\<close>

lemma half_open_needs_all_wins:
  assumes "cb_state cb = HALF_OPEN" and "half_open_successes (cb_st cb) = 0"
    and "1 \<le> half_open_test_count (cb_cfg cb)"
  shows "(cb_state (wins ts cb) = CLOSED \<longleftrightarrow> half_open_test_count (cb_cfg cb) \<le> int (length ts))
    \<and> (cb_state (wins ts cb) = HALF_OPEN \<longrightarrow>
         cb_state (record_loss now dd (wins ts cb)) = OPEN
         \<and> cooldown_at (record_loss now dd (wins ts cb))
             = Some (now + cooldown_seconds (cb_cfg (wins ts cb))))"
  using assms
  by (auto simp: wins_half_open record_loss_def transition_to_open_def Let_def split: option.splits)

lemma half_open_needs_all_wins_witness:
  "cb_state (wins [1, 2, 3] (cooldown_to_half_open 310 ex_open)) = CLOSED"
proof -
  let ?cb = "cooldown_to_half_open 310 ex_open"
  have facts: "cb_state ?cb = HALF_OPEN" "half_open_successes (cb_st ?cb) = 0"
    "half_open_test_count (cb_cfg ?cb) = 3"
    by (simp_all add: ex_open_def cooldown_to_half_open_def trigger_manual_def
        transition_to_open_def cb_new_def cb_default_config_def Let_def)
  then have "1 \<le> half_open_test_count (cb_cfg ?cb)" by simp
  from half_open_needs_all_wins [OF facts(1,2) this, of "[1, 2, 3]"] facts(3)
  show ?thesis by simp
qed

end
