(* ===== verification/PerStrategyCB.thy ===== *)
theory PerStrategyCB
  imports Interfaces
begin

text \<open>
  \<open>engine/src/risk/per_strategy_cb.py\<close>: one breaker per strategy with the states ACTIVE,
  THROTTLED, HALTED and SUSPENDED, driven by a composite score over the last 20 trades.
  The object is its dictionary \<open>_strategies\<close>, in insertion order; \<open>_entry\<close> creates an entry
  on first use, so the queries change the dictionary too.  \<open>now\<close> is the reading of the
  monotonic clock an operation makes.  Prometheus series and log lines are left out.
\<close>

datatype cb_level = ACTIVE | THROTTLED | HALTED | SUSPENDED

text \<open>The enum values 0 to 3 order the levels by severity.\<close>

fun level_value :: "cb_level \<Rightarrow> nat" where
  "level_value ACTIVE = 0"
| "level_value THROTTLED = 1"
| "level_value HALTED = 2"
| "level_value SUSPENDED = 3"

lemma level_value_inj: "level_value a = level_value b \<Longrightarrow> a = b"
  by (cases a; cases b) simp_all

instantiation cb_level :: linorder
begin

definition less_eq_cb_level :: "cb_level \<Rightarrow> cb_level \<Rightarrow> bool" where
  "less_eq_cb_level a b \<longleftrightarrow> level_value a \<le> level_value b"

definition less_cb_level :: "cb_level \<Rightarrow> cb_level \<Rightarrow> bool" where
  "less_cb_level a b \<longleftrightarrow> level_value a < level_value b"

instance
  by standard (auto simp: less_eq_cb_level_def less_cb_level_def intro: level_value_inj)

end

record strategy_metrics =
  peak_pnl :: pyfloat
  current_pnl :: pyfloat
  recent_results :: "nat list"
  recent_spreads :: "pyfloat list"
  recent_proposals :: "nat list"
  loss_streak :: nat
  total_trades :: nat

record cb_entry =
  level :: cb_level
  metrics :: strategy_metrics
  halted_at :: secs
  suspended_at :: secs
  halted_events :: "secs list"

type_synonym per_strategy_cb = "(string, cb_entry) dict"

definition new_entry :: cb_entry where
  "new_entry = \<lparr>level = ACTIVE,
     metrics = \<lparr>peak_pnl = 0, current_pnl = 0, recent_results = [], recent_spreads = [],
       recent_proposals = [], loss_streak = 0, total_trades = 0\<rparr>,
     halted_at = 0, suspended_at = 0, halted_events = []\<rparr>"

definition entry :: "string \<Rightarrow> per_strategy_cb \<Rightarrow> cb_entry" where
  "entry sid d = dict_get d sid new_entry"

definition ensure_entry :: "string \<Rightarrow> per_strategy_cb \<Rightarrow> per_strategy_cb" where
  "ensure_entry sid d = (if dict_has d sid then d else AList.update sid new_entry d)"

subsection \<open>The composite score\<close>

definition drawdown_part :: "strategy_metrics \<Rightarrow> rat" where
  "drawdown_part m =
     min 1 (if 0 < peak_pnl m then max 0 ((peak_pnl m - current_pnl m) / peak_pnl m) else 0)"

definition failure_rate :: "nat list \<Rightarrow> rat" where
  "failure_rate xs =
     (if xs = [] then 0 else 1 - of_nat (sum_list xs) / of_nat (length xs))"

definition spread_anomaly :: "pyfloat list \<Rightarrow> rat" where
  "spread_anomaly xs =
     (if 5 \<le> length xs
      then let spreads = sort xs; median = spreads ! (length spreads div 2)
           in if 0 < median
              then of_nat (length (filter (\<lambda>s. 2 * median < s) spreads)) / of_nat (length spreads)
              else 0
      else 0)"

definition raw_score :: "strategy_metrics \<Rightarrow> rat" where
  "raw_score m = 4 / 10 * drawdown_part m + 3 / 10 * failure_rate (recent_results m)
     + 2 / 10 * spread_anomaly (recent_spreads m) + 1 / 10 * failure_rate (recent_proposals m)"

definition score_of :: "strategy_metrics \<Rightarrow> rat" where
  "score_of m = (if total_trades m < 20 then 0 else min 1 (max 0 (raw_score m)))"

definition compute_score :: "string \<Rightarrow> per_strategy_cb \<Rightarrow> rat \<times> per_strategy_cb" where
  "compute_score sid d = (score_of (metrics (entry sid d)), ensure_entry sid d)"

subsection \<open>Transitions of one entry\<close>

definition transition_entry :: "secs \<Rightarrow> cb_level \<Rightarrow> cb_entry \<Rightarrow> cb_entry" where
  "transition_entry now new e =
     (if level e = new then e
      else let e1 = e\<lparr>level := new\<rparr>
           in case new of
                HALTED \<Rightarrow> e1\<lparr>halted_at := now, halted_events := deque_append 10 (halted_events e) now\<rparr>
              | SUSPENDED \<Rightarrow> e1\<lparr>suspended_at := now\<rparr>
              | ACTIVE \<Rightarrow> e1\<lparr>metrics := (metrics e)\<lparr>loss_streak := 0\<rparr>\<rparr>
              | THROTTLED \<Rightarrow> e1)"

definition recent_halts :: "secs \<Rightarrow> cb_entry \<Rightarrow> nat" where
  "recent_halts now e = length (filter (\<lambda>t. now - t < 3600) (halted_events e))"

definition evaluate_transitions :: "secs \<Rightarrow> cb_entry \<Rightarrow> cb_entry" where
  "evaluate_transitions now e =
     (let m = metrics e; score = score_of m
      in if total_trades m < 20 then e
         else case level e of
             ACTIVE \<Rightarrow>
               if 7 / 10 < score then transition_entry now HALTED e
               else if 5 / 10 < score \<or> 3 \<le> loss_streak m then transition_entry now THROTTLED e
               else e
           | THROTTLED \<Rightarrow>
               if 7 / 10 < score then transition_entry now HALTED e
               else if score < 3 / 10 \<and> loss_streak m = 0 then transition_entry now ACTIVE e
               else e
           | HALTED \<Rightarrow>
               if 3 \<le> recent_halts now e then transition_entry now SUSPENDED e else e
           | SUSPENDED \<Rightarrow> e)"

definition maybe_auto_recover :: "secs \<Rightarrow> cb_entry \<Rightarrow> cb_entry" where
  "maybe_auto_recover now e =
     (case level e of
        SUSPENDED \<Rightarrow>
          if 3600 \<le> now - suspended_at e then transition_entry now ACTIVE e else e
      | HALTED \<Rightarrow>
          if 300 \<le> now - halted_at e \<and> score_of (metrics e) < 3 / 10
          then transition_entry now ACTIVE e else e
      | _ \<Rightarrow> e)"

definition trade_metrics :: "rat \<Rightarrow> rat option \<Rightarrow> strategy_metrics \<Rightarrow> strategy_metrics" where
  "trade_metrics pnl spread m =
     (let cur = current_pnl m + pnl; is_loss = pnl < 0
      in m\<lparr>total_trades := total_trades m + 1,
           current_pnl := cur,
           peak_pnl := (if peak_pnl m < cur then cur else peak_pnl m),
           recent_results := deque_append 20 (recent_results m) (if is_loss then 0 else 1),
           loss_streak := (if is_loss then loss_streak m + 1 else 0),
           recent_spreads := (case spread of None \<Rightarrow> recent_spreads m
                              | Some s \<Rightarrow> deque_append 20 (recent_spreads m) s)\<rparr>)"

subsection \<open>The operations on the object\<close>

definition put :: "string \<Rightarrow> cb_entry \<Rightarrow> per_strategy_cb \<Rightarrow> per_strategy_cb" where
  "put sid e d = AList.update sid e d"

definition is_allowed :: "secs \<Rightarrow> string \<Rightarrow> per_strategy_cb \<Rightarrow> bool \<times> per_strategy_cb" where
  "is_allowed now sid d =
     (let e = maybe_auto_recover now (entry sid d)
      in (level e \<in> {ACTIVE, THROTTLED}, put sid e d))"

definition is_throttled :: "secs \<Rightarrow> string \<Rightarrow> per_strategy_cb \<Rightarrow> bool \<times> per_strategy_cb" where
  "is_throttled now sid d =
     (let e = maybe_auto_recover now (entry sid d) in (level e = THROTTLED, put sid e d))"

definition pcb_state :: "secs \<Rightarrow> string \<Rightarrow> per_strategy_cb \<Rightarrow> cb_level \<times> per_strategy_cb" where
  "pcb_state now sid d =
     (let e = maybe_auto_recover now (entry sid d) in (level e, put sid e d))"

definition record_trade ::
    "secs \<Rightarrow> string \<Rightarrow> rat \<Rightarrow> rat option \<Rightarrow> per_strategy_cb \<Rightarrow> per_strategy_cb" where
  "record_trade now sid pnl spread d =
     (let e = entry sid d
      in put sid (evaluate_transitions now
                    (e\<lparr>metrics := trade_metrics pnl spread (metrics e)\<rparr>)) d)"

definition record_proposal :: "string \<Rightarrow> bool \<Rightarrow> per_strategy_cb \<Rightarrow> per_strategy_cb" where
  "record_proposal sid rejected d =
     (let e = entry sid d; m = metrics e
      in put sid (e\<lparr>metrics := m\<lparr>recent_proposals :=
            deque_append 20 (recent_proposals m) (if rejected then 0 else 1)\<rparr>\<rparr>) d)"

definition halted_count :: "per_strategy_cb \<Rightarrow> nat" where
  "halted_count d = length (filter (\<lambda>(_, e). level e \<in> {HALTED, SUSPENDED}) d)"

definition active_count :: "per_strategy_cb \<Rightarrow> nat" where
  "active_count d = length (filter (\<lambda>(_, e). level e \<in> {ACTIVE, THROTTLED}) d)"

definition force_halt :: "secs \<Rightarrow> string \<Rightarrow> per_strategy_cb \<Rightarrow> per_strategy_cb" where
  "force_halt now sid d =
     (let e = entry sid d
      in put sid (if level e \<notin> {HALTED, SUSPENDED} then transition_entry now HALTED e else e) d)"

definition all_states :: "per_strategy_cb \<Rightarrow> (string \<times> cb_level) list" where
  "all_states d = map (\<lambda>(sid, e). (sid, level e)) d"

datatype pcb_op =
    Trade rat "rat option"
  | Proposal bool
  | Query
  | ForceHalt

fun pcb_step :: "secs \<Rightarrow> string \<Rightarrow> pcb_op \<Rightarrow> per_strategy_cb \<Rightarrow> per_strategy_cb" where
  "pcb_step now sid (Trade pnl spread) d = record_trade now sid pnl spread d"
| "pcb_step now sid (Proposal rejected) d = record_proposal sid rejected d"
| "pcb_step now sid Query d = snd (is_allowed now sid d)"
| "pcb_step now sid ForceHalt d = force_halt now sid d"

lemmas pcb_op_defs = record_trade_def record_proposal_def is_allowed_def force_halt_def
  is_throttled_def pcb_state_def Let_def
lemmas pcb_entry_defs = evaluate_transitions_def maybe_auto_recover_def transition_entry_def
  trade_metrics_def

lemma entry_put [simp]: "entry sid' (put sid e d) = (if sid' = sid then e else entry sid' d)"
  by (simp add: entry_def put_def)

lemma entry_ensure [simp]: "entry sid' (ensure_entry sid d) = entry sid' d"
  by (auto simp: ensure_entry_def entry_def dict_get_def dict_has_iff)

lemma ensure_entry_put [simp]: "ensure_entry sid (put sid e d) = put sid e d"
  by (simp add: ensure_entry_def put_def dict_has_iff)

lemma counts_cover: "halted_count d + active_count d = length d"
proof (induction d)
  case (Cons p d)
  then show ?case
    by (cases p; cases "level (snd p)") (auto simp: halted_count_def active_count_def)
qed (simp add: halted_count_def active_count_def)

interpretation pcb_trip: trip_switch "force_halt now sid" "\<lambda>d. level (entry sid d) \<in> {HALTED, SUSPENDED}"
  for now sid
  by unfold_locales (auto simp: force_halt_def transition_entry_def Let_def)

subsection \<open>The invariant of an entry and the graph of levels\<close>

definition entry_ok :: "cb_entry \<Rightarrow> bool" where
  "entry_ok e \<longleftrightarrow> (\<forall>x \<in> set (recent_results (metrics e)). x \<le> 1)
     \<and> (\<forall>x \<in> set (recent_proposals (metrics e)). x \<le> 1)
     \<and> length (recent_results (metrics e)) \<le> 20
     \<and> length (recent_spreads (metrics e)) \<le> 20
     \<and> length (recent_proposals (metrics e)) \<le> 20
     \<and> length (halted_events e) \<le> 10
     \<and> current_pnl (metrics e) \<le> peak_pnl (metrics e)
     \<and> (level e \<in> {HALTED, SUSPENDED} \<longrightarrow> halted_events e \<noteq> [])"

definition pcb_ok :: "per_strategy_cb \<Rightarrow> bool" where
  "pcb_ok d \<longleftrightarrow> (\<forall>sid. entry_ok (entry sid d))"

lemma deque_bits:
  "\<forall>x \<in> set xs. x \<le> (1::nat) \<Longrightarrow> b \<le> 1 \<Longrightarrow> x \<in> set (deque_append n xs b) \<Longrightarrow> x \<le> 1"
  using set_deque_append [of n xs b] by auto

lemma deque_append_nonempty [simp]: "0 < n \<Longrightarrow> deque_append n xs x \<noteq> []"
  by (cases n) (auto simp: deque_append_def Let_def Suc_diff_le)

lemma entry_ok_new: "entry_ok new_entry"
  by (simp add: entry_ok_def new_entry_def)

lemma entry_ok_transition:
  "entry_ok e \<Longrightarrow> new \<noteq> SUSPENDED \<or> halted_events e \<noteq> [] \<Longrightarrow> entry_ok (transition_entry now new e)"
  by (cases new) (auto simp: entry_ok_def transition_entry_def Let_def)

lemma entry_ok_evaluate: "entry_ok e \<Longrightarrow> entry_ok (evaluate_transitions now e)"
  by (cases "level e")
     (auto simp: evaluate_transitions_def Let_def entry_ok_transition entry_ok_def [of e])

lemma entry_ok_recover: "entry_ok e \<Longrightarrow> entry_ok (maybe_auto_recover now e)"
  by (cases "level e") (auto simp: maybe_auto_recover_def entry_ok_transition)

lemma entry_ok_trade:
  "entry_ok e \<Longrightarrow> entry_ok (e\<lparr>metrics := trade_metrics pnl spread (metrics e)\<rparr>)"
  by (auto simp: entry_ok_def trade_metrics_def Let_def split: option.splits
      dest: deque_bits [rotated 2])

lemma entry_ok_proposal:
  "entry_ok e \<Longrightarrow> b \<le> 1 \<Longrightarrow> entry_ok (e\<lparr>metrics := (metrics e)\<lparr>recent_proposals :=
     deque_append 20 (recent_proposals (metrics e)) b\<rparr>\<rparr>)"
  by (auto simp: entry_ok_def dest: deque_bits [rotated 2])

lemma pcb_ok_step: "pcb_ok d \<Longrightarrow> pcb_ok (pcb_step now sid op d)"
  by (cases op)
     (auto simp: pcb_ok_def pcb_op_defs entry_ok_evaluate entry_ok_recover entry_ok_trade
       entry_ok_proposal entry_ok_transition)

lemma pcb_ok_empty: "pcb_ok []"
  by (simp add: pcb_ok_def entry_def dict_get_def entry_ok_new)

inductive level_edge :: "cb_level \<Rightarrow> cb_level \<Rightarrow> bool" where
  stay: "level_edge l l"
| throttle: "level_edge ACTIVE THROTTLED"
| halt: "l \<in> {ACTIVE, THROTTLED} \<Longrightarrow> level_edge l HALTED"
| suspend: "level_edge HALTED SUSPENDED"
| recover: "level_edge l ACTIVE"

inductive_simps level_edge_simps [simp]:
  "level_edge ACTIVE l" "level_edge THROTTLED l" "level_edge HALTED l" "level_edge SUSPENDED l"

lemma level_edge_step:
  "level_edge (level (entry sid d)) (level (entry sid (pcb_step now sid op d)))"
  by (cases op; cases "level (entry sid d)")
     (auto simp: pcb_op_defs pcb_entry_defs split: cb_level.splits)

lemma step_other: "sid' \<noteq> sid \<Longrightarrow> entry sid' (pcb_step now sid op d) = entry sid' d"
  by (cases op) (auto simp: pcb_op_defs)

subsection \<open>Bounds of the score\<close>

lemma sum_bits_le: "\<forall>x \<in> set xs. x \<le> (1::nat) \<Longrightarrow> sum_list xs \<le> length xs"
  by (induction xs) auto

lemma failure_rate_unit:
  assumes "\<forall>x \<in> set xs. x \<le> 1"
  shows "0 \<le> failure_rate xs" and "failure_rate xs \<le> 1"
  using sum_bits_le [OF assms]
  by (auto simp: failure_rate_def divide_le_eq_1)

lemma spread_anomaly_unit: "0 \<le> spread_anomaly xs" "spread_anomaly xs \<le> 1"
  by (auto simp: spread_anomaly_def Let_def divide_le_eq_1 intro: order_trans [OF length_filter_le])

lemma drawdown_unit: "0 \<le> drawdown_part m" "drawdown_part m \<le> 1"
  by (auto simp: drawdown_part_def)

lemma raw_score_unit:
  assumes "entry_ok e"
  shows "0 \<le> raw_score (metrics e)" and "raw_score (metrics e) \<le> 1"
proof -
  have r: "0 \<le> failure_rate (recent_results (metrics e))"
      "failure_rate (recent_results (metrics e)) \<le> 1"
    and p: "0 \<le> failure_rate (recent_proposals (metrics e))"
      "failure_rate (recent_proposals (metrics e)) \<le> 1"
    using assms by (auto simp: entry_ok_def failure_rate_unit)
  note parts = r p drawdown_unit [of "metrics e"] spread_anomaly_unit [of "recent_spreads (metrics e)"]
  show "0 \<le> raw_score (metrics e)" and "raw_score (metrics e) \<le> 1"
    using parts by (simp_all add: raw_score_def)
qed

subsection \<open>Runs\<close>

fun pcb_run :: "(secs \<times> string \<times> pcb_op) list \<Rightarrow> per_strategy_cb \<Rightarrow> per_strategy_cb" where
  "pcb_run [] d = d"
| "pcb_run ((now, sid, op) # es) d = pcb_run es (pcb_step now sid op d)"

lemma pcb_ok_run: "pcb_ok d \<Longrightarrow> pcb_ok (pcb_run es d)"
  by (induction es d rule: pcb_run.induct) (simp_all add: pcb_ok_step)

lemma step_same_entry:
  "entry sid d = entry sid d' \<Longrightarrow>
   entry sid (pcb_step now s op d) = entry sid (pcb_step now s op d')"
  by (cases op; cases "s = sid") (auto simp: pcb_op_defs)

lemma run_same_entry:
  "entry sid d = entry sid d' \<Longrightarrow>
   entry sid (pcb_run es d) = entry sid (pcb_run (filter (\<lambda>(_, s, _). s = sid) es) d')"
proof (induction es d arbitrary: d' rule: pcb_run.induct)
  case (2 now s op es d)
  show ?case
  proof (cases "s = sid")
    case True
    with "2.IH" [OF step_same_entry [OF "2.prems", of now s op]] show ?thesis by simp
  next
    case False
    with "2.prems" "2.IH" [of d'] show ?thesis by (simp add: step_other)
  qed
qed simp

text \<open>A strategy halted at \<open>t0\<close> or suspended since, seen before \<open>t0 + 300\<close>.\<close>

definition blocked_since :: "secs \<Rightarrow> cb_entry \<Rightarrow> bool" where
  "blocked_since t0 e \<longleftrightarrow>
     level e = HALTED \<and> halted_at e = t0 \<or> level e = SUSPENDED \<and> t0 \<le> suspended_at e"

lemma blocked_step:
  assumes "blocked_since t0 (entry sid d)" and "t0 \<le> now" and "now < t0 + 300"
  shows "blocked_since t0 (entry sid (pcb_step now s op d))"
  using assms
  by (cases op; cases "s = sid")
     (auto simp: blocked_since_def pcb_op_defs evaluate_transitions_def maybe_auto_recover_def
       transition_entry_def)

lemma blocked_run:
  assumes "blocked_since t0 (entry sid d)" and "\<forall>(t, s, op) \<in> set es. t0 \<le> t \<and> t < t0 + 300"
  shows "blocked_since t0 (entry sid (pcb_run es d))"
  using assms
  by (induction es d rule: pcb_run.induct) (auto simp: blocked_step)

subsection \<open>Properties\<close>

text \<open>There is no cascade between strategies: after any sequence of trades, proposals, queries
  and forced halts, the entry of a strategy is what the operations on that strategy alone
  make of it; the entries stay well formed (bounded deques, peak not below the current
  PnL), and the next operation moves a strategy along the documented graph of levels.\<close>

lemma strategies_do_not_interfere:
  "entry sid (pcb_run es []) = entry sid (pcb_run (filter (\<lambda>(_, s, _). s = sid) es) [])
   \<and> pcb_ok (pcb_run es [])
   \<and> level_edge (level (entry sid (pcb_run es [])))
       (level (entry sid (pcb_step now sid op (pcb_run es []))))"
  by (intro conjI run_same_entry [OF refl] pcb_ok_run pcb_ok_empty level_edge_step)

text \<open>A strategy halted at \<open>t0\<close> is not released early: whatever trades, proposals, queries and
  forced halts arrive before \<open>t0 + 300\<close> seconds, for it or for other strategies, every
  \<open>is_allowed\<close> in that time answers no.\<close>

lemma halted_is_not_released_early:
  assumes "level (entry sid d) = HALTED"
    and "\<forall>(t, s, op) \<in> set es. halted_at (entry sid d) \<le> t \<and> t < halted_at (entry sid d) + 300"
    and "halted_at (entry sid d) \<le> now" and "now < halted_at (entry sid d) + 300"
  shows "\<not> fst (is_allowed now sid (pcb_run es d))"
proof -
  let ?t0 = "halted_at (entry sid d)"
  have "blocked_since ?t0 (entry sid (pcb_run es d))"
    using assms(1,2) by (intro blocked_run) (auto simp: blocked_since_def)
  with assms(3,4) show ?thesis
    by (auto simp: blocked_since_def is_allowed_def maybe_auto_recover_def Let_def)
qed

lemma halted_is_not_released_early_witness:
  "\<not> fst (is_allowed 299 ''ff'' (pcb_run [(100, ''ff'', Query), (200, ''ff'', Trade 5 None)]
       (force_halt 0 ''ff'' [])))"
proof -
  have e: "entry ''ff'' (force_halt 0 ''ff'' []) = new_entry\<lparr>level := HALTED, halted_at := 0,
      halted_events := [0]\<rparr>"
    by (simp add: force_halt_def Let_def entry_def [of _ "[]"] dict_get_def transition_entry_def
        new_entry_def deque_append_def)
  show ?thesis
    by (rule halted_is_not_released_early) (simp_all add: e)
qed

text \<open>SUSPENDED does not come with the third halt, as the module's docstring says: a halt
  itself always leaves the strategy HALTED, and the only way into SUSPENDED is a trade that
  completes while the strategy is HALTED, past the cold start, with three halts in the last
  hour.\<close>

lemma suspended_only_by_trade_while_halted:
  assumes "level (entry sid d) \<noteq> SUSPENDED"
  shows "level (entry sid (pcb_step now sid op d)) = SUSPENDED \<longleftrightarrow>
    level (entry sid d) = HALTED \<and> (\<exists>pnl spread. op = Trade pnl spread)
    \<and> 20 \<le> total_trades (metrics (entry sid d)) + 1 \<and> 3 \<le> recent_halts now (entry sid d)"
  using assms
  by (cases op; cases "level (entry sid d)")
     (auto simp: pcb_op_defs pcb_entry_defs recent_halts_def)

definition thrice_halted :: per_strategy_cb where
  "thrice_halted = [(''ff'', new_entry\<lparr>level := HALTED, halted_at := 900,
     halted_events := [0, 500, 900],
     metrics := (metrics new_entry)\<lparr>total_trades := 40\<rparr>\<rparr>)]"

lemma suspended_only_by_trade_while_halted_witness:
  "level (entry ''ff'' (pcb_step 1000 ''ff'' (Trade 1 None) thrice_halted)) = SUSPENDED
   \<and> level (entry ''ff'' (pcb_step 1000 ''ff'' Query thrice_halted)) \<noteq> SUSPENDED"
proof -
  have e: "entry ''ff'' thrice_halted = new_entry\<lparr>level := HALTED, halted_at := 900,
     halted_events := [0, 500, 900], metrics := (metrics new_entry)\<lparr>total_trades := 40\<rparr>\<rparr>"
    by (simp add: entry_def dict_get_def thrice_halted_def)
  then have n: "level (entry ''ff'' thrice_halted) \<noteq> SUSPENDED" by simp
  from suspended_only_by_trade_while_halted [OF n, of 1000 "Trade 1 None"]
    suspended_only_by_trade_while_halted [OF n, of 1000 Query]
  show ?thesis by (simp add: e recent_halts_def)
qed

text \<open>The composite score of every reachable entry lies in [0, 1] without the final clamp: past
  the cold start the clamped score is the weighted sum itself, and before 20 trades it is 0,
  so that no trade among the first 19 changes the level of the strategy.\<close>

lemma score_is_weighted_sum:
  "(let e = entry sid (pcb_run es []); m = metrics e
    in score_of m = (if total_trades m < 20 then 0 else raw_score m)
       \<and> 0 \<le> score_of m \<and> score_of m \<le> 1
       \<and> (if total_trades m < 19
          then level (entry sid (record_trade now sid pnl spread (pcb_run es []))) = level e
          else True))"
proof -
  have "entry_ok (entry sid (pcb_run es []))"
    using pcb_ok_run [OF pcb_ok_empty] by (simp add: pcb_ok_def)
  from raw_score_unit [OF this] show ?thesis
    by (simp add: Let_def score_of_def record_trade_def evaluate_transitions_def trade_metrics_def)
qed

end
