(* ===== verification/FlashGuard.thy ===== *)
theory FlashGuard
  imports Interfaces
begin

text \<open>
  \<open>engine/src/risk/flash_guard.py\<close>: detection of rapid price moves and the pause of trading
  that follows.  \<open>price_history\<close> and \<open>pending_flashes\<close> are \<open>defaultdict\<close>s, so they are total
  functions with the empty deque and the empty dictionary as default.  \<open>now\<close> is the reading
  of the monotonic clock an operation makes; the text of the reasons and the log lines are
  left out (\<open>check_allowed\<close> returns the event the text is built from).
\<close>

record flash_event =
  ev_symbol :: string
  ev_exchange :: string
  price_change_pct :: pyfloat
  ev_timestamp :: secs
  old_price :: pyfloat
  new_price :: pyfloat

record flash_guard =
  threshold_pct :: pyfloat
  window_s :: int
  cooldown_s :: int
  min_exchanges_for_trigger :: int
  price_history :: "string \<times> string \<Rightarrow> (secs \<times> pyfloat) list"
  pending_flashes :: "string \<Rightarrow> (string, secs) dict"
  fg_triggered :: bool
  fg_trigger_time :: secs
  last_event :: "flash_event option"
  fg_events :: "flash_event list"
  suppressed_count :: nat

definition flash_guard_new :: "pyfloat \<Rightarrow> int \<Rightarrow> int \<Rightarrow> int \<Rightarrow> flash_guard" where
  "flash_guard_new threshold window cooldown min_ex =
     \<lparr>threshold_pct = threshold, window_s = window, cooldown_s = cooldown,
      min_exchanges_for_trigger = max 1 min_ex,
      price_history = (\<lambda>_. []), pending_flashes = (\<lambda>_. []),
      fg_triggered = False, fg_trigger_time = 0, last_event = None, fg_events = [],
      suppressed_count = 0\<rparr>"

definition is_triggered :: "secs \<Rightarrow> flash_guard \<Rightarrow> bool \<times> flash_guard" where
  "is_triggered now fg =
     (if \<not> fg_triggered fg then (False, fg)
      else if of_int (cooldown_s fg) < now - fg_trigger_time fg
      then (False, fg\<lparr>fg_triggered := False\<rparr>)
      else (True, fg))"

definition prune_history :: "secs \<Rightarrow> int \<Rightarrow> (secs \<times> pyfloat) list \<Rightarrow> (secs \<times> pyfloat) list" where
  "prune_history now window h = dropWhile (\<lambda>(t, p). of_int window < now - t) h"

definition flash_live :: "secs \<Rightarrow> string \<times> secs \<Rightarrow> bool" where
  "flash_live now = (\<lambda>(ex, ts). now - ts \<le> 60)"

interpretation flash_pending: expiring flash_live
  by unfold_locales (auto simp: flash_live_def)

definition change_pct :: "pyfloat \<Rightarrow> pyfloat \<Rightarrow> pyfloat" where
  "change_pct oldest p = \<bar>p - oldest\<bar> / oldest * 100"

definition record_price ::
    "secs \<Rightarrow> string \<Rightarrow> string \<Rightarrow> pyfloat \<Rightarrow> flash_guard \<Rightarrow> bool \<times> flash_guard" where
  "record_price now sb ex p fg =
     (let h = prune_history now (window_s fg) (price_history fg (sb, ex));
          h' = deque_append 600 h (now, p);
          plain = fg\<lparr>price_history := (price_history fg)((sb, ex) := h')\<rparr>
      in case h of
           [] \<Rightarrow> (False, plain)
         | (t0, oldest) # _ \<Rightarrow>
             if 0 < oldest \<and> threshold_pct fg \<le> change_pct oldest p then
               let pending = AList.update ex now (filter (flash_live now) (pending_flashes fg sb));
                   ev = \<lparr>ev_symbol = sb, ev_exchange = ex, price_change_pct = change_pct oldest p,
                         ev_timestamp = now, old_price = oldest, new_price = p\<rparr>;
                   fg1 = plain\<lparr>pending_flashes := (pending_flashes fg)(sb := pending)\<rparr>
               in if min_exchanges_for_trigger fg \<le> int (length pending)
                  then (True, fg1\<lparr>fg_triggered := True, fg_trigger_time := now,
                                  last_event := Some ev,
                                  fg_events := deque_append 100 (fg_events fg) ev\<rparr>)
                  else (False, fg1\<lparr>suppressed_count := suppressed_count fg + 1\<rparr>)
             else (False, plain))"

definition check_allowed :: "secs \<Rightarrow> flash_guard \<Rightarrow> bool \<times> flash_event option \<times> flash_guard" where
  "check_allowed now fg =
     (let (t, fg') = is_triggered now fg
      in if t then (False, last_event fg', fg') else (True, None, fg'))"

definition fg_reset :: "flash_guard \<Rightarrow> flash_guard" where
  "fg_reset fg = fg\<lparr>fg_triggered := False, fg_trigger_time := 0\<rparr>"

subsection \<open>Runs of observations and checks\<close>

datatype fg_event = Observe string string pyfloat | Check

fun fg_step :: "secs \<Rightarrow> fg_event \<Rightarrow> flash_guard \<Rightarrow> flash_guard" where
  "fg_step now (Observe sb ex p) fg = snd (record_price now sb ex p fg)"
| "fg_step now Check fg = snd (is_triggered now fg)"

fun fg_run :: "(secs \<times> fg_event) list \<Rightarrow> flash_guard \<Rightarrow> flash_guard" where
  "fg_run [] fg = fg"
| "fg_run ((now, e) # es) fg = fg_run es (fg_step now e fg)"

lemma fg_config [simp]:
  "min_exchanges_for_trigger (fg_step now e fg) = min_exchanges_for_trigger fg"
  "cooldown_s (fg_step now e fg) = cooldown_s fg"
  by (cases e; simp add: record_price_def is_triggered_def Let_def split: list.split)+

lemma fg_run_config [simp]:
  "min_exchanges_for_trigger (fg_run es fg) = min_exchanges_for_trigger fg"
  "cooldown_s (fg_run es fg) = cooldown_s fg"
  by (induction es fg rule: fg_run.induct) simp_all

text \<open>Every pending flash of a symbol is an observation the guard has made of it.\<close>

definition pending_seen :: "(secs \<times> fg_event) set \<Rightarrow> flash_guard \<Rightarrow> bool" where
  "pending_seen seen fg \<longleftrightarrow>
     (\<forall>sb. distinct (map fst (pending_flashes fg sb)) \<and>
        (\<forall>(ex, ts) \<in> set (pending_flashes fg sb). \<exists>p. (ts, Observe sb ex p) \<in> seen))"

lemma set_alist_update: "set (AList.update k v d) \<subseteq> insert (k, v) (set d)"
  by (induction d) auto

lemma distinct_fst_filter: "distinct (map fst d) \<Longrightarrow> distinct (map fst (filter P d))"
  by (rule distinct_map_filter)

lemma pending_seen_mono: "pending_seen seen fg \<Longrightarrow> seen \<subseteq> seen' \<Longrightarrow> pending_seen seen' fg"
  unfolding pending_seen_def by fast

lemma pending_seen_update:
  assumes "pending_seen seen fg"
    and "pending_flashes fg' = (pending_flashes fg)
           (sb := AList.update ex now (filter (flash_live now) (pending_flashes fg sb)))"
  shows "pending_seen (insert (now, Observe sb ex p) seen) fg'"
proof -
  let ?old = "filter (flash_live now) (pending_flashes fg sb)"
  have "distinct (map fst (AList.update ex now ?old))"
    using assms(1) by (simp add: distinct_update distinct_fst_filter pending_seen_def)
  moreover have "\<exists>q. (ts, Observe sb e q) \<in> insert (now, Observe sb ex p) seen"
    if "(e, ts) \<in> set (AList.update ex now ?old)" for e ts
  proof -
    from that have "(e, ts) = (ex, now) \<or> (e, ts) \<in> set (pending_flashes fg sb)"
      using set_alist_update by fastforce
    then show ?thesis
      using assms(1) unfolding pending_seen_def by fastforce
  qed
  ultimately show ?thesis
    using assms unfolding pending_seen_def by (auto; fastforce)
qed

lemma record_price_pending:
  "pending_flashes (snd (record_price now sb ex p fg)) = pending_flashes fg \<or>
   pending_flashes (snd (record_price now sb ex p fg)) = (pending_flashes fg)
     (sb := AList.update ex now (filter (flash_live now) (pending_flashes fg sb)))"
  by (auto simp: record_price_def Let_def split: list.split)

lemma pending_seen_step:
  assumes "pending_seen seen fg"
  shows "pending_seen (insert (now, e) seen) (fg_step now e fg)"
proof (cases e)
  case (Observe sb ex p)
  from record_price_pending [of now sb ex p fg] show ?thesis
  proof
    assume "pending_flashes (snd (record_price now sb ex p fg)) = pending_flashes fg"
    then have "pending_seen seen (fg_step now e fg)"
      using assms Observe by (simp add: pending_seen_def)
    then show ?thesis by (rule pending_seen_mono) auto
  next
    assume "pending_flashes (snd (record_price now sb ex p fg)) = (pending_flashes fg)
      (sb := AList.update ex now (filter (flash_live now) (pending_flashes fg sb)))"
    from pending_seen_update [OF assms this] show ?thesis by (simp add: Observe)
  qed
next
  case Check
  have "pending_seen seen (fg_step now e fg)"
    using assms by (simp add: Check pending_seen_def is_triggered_def)
  then show ?thesis by (rule pending_seen_mono) auto
qed

lemma pending_seen_run:
  "pending_seen seen fg \<Longrightarrow> pending_seen (seen \<union> set es) (fg_run es fg)"
proof (induction es fg arbitrary: seen rule: fg_run.induct)
  case (2 now e es fg)
  from "2.IH" [OF pending_seen_step [OF "2.prems"]] show ?case
    by (simp add: insert_commute Un_commute)
qed simp

lemma pending_seen_new: "pending_seen {} (flash_guard_new th w c m)"
  by (simp add: pending_seen_def flash_guard_new_def)

lemma record_price_true:
  assumes "fst (record_price now sb ex p fg)"
  shows "min_exchanges_for_trigger fg \<le>
      int (length (AList.update ex now (filter (flash_live now) (pending_flashes fg sb))))"
    and "fg_triggered (snd (record_price now sb ex p fg))"
    and "fg_trigger_time (snd (record_price now sb ex p fg)) = now"
  using assms by (auto simp: record_price_def Let_def split: list.splits if_splits)

text \<open>A guard triggered at or after \<open>t0\<close>.\<close>

lemma triggered_step:
  assumes "fg_triggered fg" and "t0 \<le> fg_trigger_time fg"
    and "t0 \<le> now" and "now \<le> t0 + of_int (cooldown_s fg)"
  shows "fg_triggered (fg_step now e fg) \<and> t0 \<le> fg_trigger_time (fg_step now e fg)"
  using assms
  by (cases e) (auto simp: record_price_def is_triggered_def Let_def split: list.split)

lemma triggered_run:
  assumes "fg_triggered fg" and "t0 \<le> fg_trigger_time fg"
    and "\<forall>(t, e) \<in> set es. t0 \<le> t \<and> t \<le> t0 + of_int (cooldown_s fg)"
  shows "fg_triggered (fg_run es fg) \<and> t0 \<le> fg_trigger_time (fg_run es fg)"
  using assms
proof (induction es fg rule: fg_run.induct)
  case (2 now e es fg)
  then have "fg_triggered (fg_step now e fg) \<and> t0 \<le> fg_trigger_time (fg_step now e fg)"
    by (intro triggered_step) auto
  with "2.IH" "2.prems" show ?case by simp
qed simp

subsection \<open>Properties\<close>

text \<open>A price move pauses trading only with cross-exchange confirmation: when \<open>record_price\<close>
  reports a flash after any history of observations and checks, at least
  \<open>min_exchanges_for_trigger\<close> different exchanges have been observed for this symbol within
  the last 60 seconds (the present observation included), so with the default of two a
  single exchange with stale prices never stops the engine.\<close>

lemma flash_needs_confirmation:
  assumes "fst (record_price now sb ex p (fg_run es (flash_guard_new th w c m)))"
  shows "max 1 m \<le> int (card {ex'. \<exists>t q. (t, Observe sb ex' q) \<in> insert (now, Observe sb ex p) (set es)
                                     \<and> now - t \<le> 60})"
proof -
  let ?fg = "fg_run es (flash_guard_new th w c m)"
  let ?pending = "AList.update ex now (filter (flash_live now) (pending_flashes ?fg sb))"
  let ?E = "{ex'. \<exists>t q. (t, Observe sb ex' q) \<in> insert (now, Observe sb ex p) (set es) \<and> now - t \<le> 60}"
  have seen: "pending_seen (set es) ?fg"
    using pending_seen_run [OF pending_seen_new, of es th w c m] by simp
  then have "distinct (map fst ?pending)"
    by (simp add: pending_seen_def distinct_update distinct_fst_filter)
  then have len: "length ?pending = card (fst ` set ?pending)"
    by (metis distinct_card length_map set_map)
  have sub: "fst ` set ?pending \<subseteq> ?E"
  proof (clarify)
    fix e ts assume "(e, ts) \<in> set ?pending"
    then have "(e, ts) = (ex, now) \<or> (e, ts) \<in> set (filter (flash_live now) (pending_flashes ?fg sb))"
      using set_alist_update by fastforce
    then show "\<exists>t q. (t, Observe sb (fst (e, ts)) q) \<in> insert (now, Observe sb ex p) (set es) \<and> now - t \<le> 60"
      using seen unfolding pending_seen_def flash_live_def by fastforce
  qed
  have fin: "finite ?E"
  proof (rule finite_subset)
    show "?E \<subseteq> (\<lambda>(t, e). case e of Observe s ex' q \<Rightarrow> ex' | Check \<Rightarrow> []) `
        insert (now, Observe sb ex p) (set es)"
    proof
      fix e assume "e \<in> ?E"
      then obtain t q where "(t, Observe sb e q) \<in> insert (now, Observe sb ex p) (set es)"
        by blast
      then show "e \<in> (\<lambda>(t, e). case e of Observe s ex' q \<Rightarrow> ex' | Check \<Rightarrow> []) `
          insert (now, Observe sb ex p) (set es)"
        by (rule rev_image_eqI) simp
    qed
  qed simp
  have "length ?pending \<le> card ?E"
    unfolding len by (rule card_mono [OF fin sub])
  with record_price_true(1) [OF assms] show ?thesis
    by (simp add: flash_guard_new_def)
qed

definition ex_quotes :: "(secs \<times> fg_event) list" where
  "ex_quotes = [(0, Observe ''BTC'' ''upbit'' 100), (1, Observe ''BTC'' ''okx'' 100),
     (2, Observe ''BTC'' ''upbit'' 90)]"

lemma flash_needs_confirmation_witness:
  "fst (record_price 3 ''BTC'' ''okx'' 91 (fg_run ex_quotes (flash_guard_new 3 300 60 2)))
   \<and> 2 \<le> int (card {ex'. \<exists>t q. (t, Observe ''BTC'' ex' q)
          \<in> insert (3, Observe ''BTC'' ''okx'' 91) (set ex_quotes) \<and> 3 - t \<le> 60})"
proof -
  have t: "fst (record_price 3 ''BTC'' ''okx'' 91 (fg_run ex_quotes (flash_guard_new 3 300 60 2)))"
    by (simp add: ex_quotes_def flash_guard_new_def record_price_def prune_history_def
        deque_append_def change_pct_def flash_live_def Let_def)
  with flash_needs_confirmation [OF t] show ?thesis by simp
qed

text \<open>A confirmed flash pauses trading for the whole cool-down: after \<open>record_price\<close> has
  reported a flash at \<open>t0\<close>, any observations and checks made until \<open>t0 + cooldown_s\<close> leave
  \<open>check_allowed\<close> answering no at every time up to then; once that time has passed without
  another flash, the next check answers yes.\<close>

lemma flash_pauses_for_cooldown:
  assumes "fst (record_price t0 sb ex p fg)"
    and "\<forall>(t, e) \<in> set es. t0 \<le> t \<and> t \<le> t0 + of_int (cooldown_s fg)"
    and "t0 \<le> now" and "now \<le> t0 + of_int (cooldown_s fg)"
    and "t0 + of_int (cooldown_s fg) < later"
  shows "\<not> fst (check_allowed now (fg_run es (snd (record_price t0 sb ex p fg))))
    \<and> fst (check_allowed later (snd (record_price t0 sb ex p fg)))"
proof -
  let ?fg = "snd (record_price t0 sb ex p fg)"
  have c: "cooldown_s ?fg = cooldown_s fg"
    using fg_config(2) [of t0 "Observe sb ex p" fg] by simp
  note r = record_price_true(2,3) [OF assms(1)]
  have "fg_triggered (fg_run es ?fg) \<and> t0 \<le> fg_trigger_time (fg_run es ?fg)"
    using r assms(2) by (intro triggered_run) (auto simp: c)
  then have "\<not> fst (check_allowed now (fg_run es ?fg))"
    using assms(4) by (simp add: check_allowed_def is_triggered_def c)
  moreover have "fst (check_allowed later ?fg)"
    using r assms(5) by (simp add: check_allowed_def is_triggered_def c)
  ultimately show ?thesis ..
qed

lemma flash_pauses_for_cooldown_witness:
  "\<not> fst (check_allowed 50 (fg_run [(40, Check)] (snd (record_price 3 ''BTC'' ''okx'' 91
       (fg_run ex_quotes (flash_guard_new 3 300 60 2))))))"
proof -
  let ?fg = "fg_run ex_quotes (flash_guard_new 3 300 60 2)"
  have t: "fst (record_price 3 ''BTC'' ''okx'' 91 ?fg)"
    by (simp add: ex_quotes_def flash_guard_new_def record_price_def prune_history_def
        deque_append_def change_pct_def flash_live_def Let_def)
  have c: "cooldown_s (flash_guard_new 3 300 60 2) = 60"
    by (simp add: flash_guard_new_def)
  from flash_pauses_for_cooldown [OF t, of "[(40, Check)]" 50 64] show ?thesis
    by (simp add: c)
qed

end
