(* ===== verification/Guardian.thy ===== *)
theory Guardian
  imports KillSwitch CircuitBreaker PerStrategyCB FlashGuard
begin

text \<open>
  \<open>engine/src/risk/guardian.py\<close>: the pre-trade checks.  A \<open>risk_guardian\<close> is the object with
  the components wired into it; \<open>check\<close> takes it through one call, because the flash guard,
  the per-strategy breakers, the position sizer and the Rust cache can change while it runs.
  The call is synchronous, so its readings of the clock are one \<open>now\<close>.  The correlation
  monitor and the data quality manager are parameters: the events the first returns and the
  health score the second gives.  Reasons are tags instead of formatted text; metrics, log
  lines and the advisory drawdown report of \<open>portfolio_risk\<close>, which only logs, are left out.
\<close>

record trade_proposal =
  strategy_id :: string
  tp_exchange :: string
  tp_symbol :: string
  tp_side :: string
  tp_size :: decimal
  tp_price :: decimal
  position_value :: decimal
  predicted_slippage_pct :: decimal
  fee_open :: decimal
  fee_close :: decimal

datatype reject_reason =
    EngineHalted
  | FlashGuardActive
  | PositionLimit
  | DrawdownLimit
  | ExposureLimit
  | BreakerOpen
  | NetExposureLimit
  | HealthLow
  | TradeTooLarge
  | VolatilityHigh
  | RollbackCost
  | TooManyPositions
  | AllocationExceeded
  | StrategyBlocked cb_level

record risk_check_result =
  approved :: bool
  rejected_at_check :: "nat option"
  reason :: "reject_reason option"

record portfolio_state =
  total_capital :: decimal
  used_capital :: decimal
  pf_drawdown_pct :: decimal
  total_exposure :: decimal
  position_sizes :: "(string, decimal) dict"
  exchange_health_scores :: "string \<rightharpoonup> decimal"
  volatility_1min :: "string \<rightharpoonup> decimal"
  volatility_24h :: "string \<rightharpoonup> decimal"
  net_exposures :: "string \<times> string \<rightharpoonup> decimal"
  strategy_capital_used :: "string \<rightharpoonup> decimal"

record risk_limits =
  max_position_pct :: decimal
  max_drawdown_pct :: decimal
  max_exposure_pct :: decimal
  exchange_health_threshold :: decimal
  max_single_trade_pct :: decimal
  max_volatility_multiple :: decimal
  max_rollback_threshold :: decimal
  max_net_exposure_per_asset :: decimal
  max_concurrent_positions :: int
  capital_allocation_pct :: "(string, pyfloat) dict"
  warmup_seconds :: secs

record risk_guardian =
  limits :: risk_limits
  rg_start_time :: secs
  rg_flags :: halt_flags
  rg_cb :: circuit_breaker
  rg_flash :: "flash_guard option"
  rg_pcb :: "per_strategy_cb option"
  rg_has_sizer :: bool
  correlation_scales :: "string \<rightharpoonup> rat"
  scheduled_trips :: nat
  emergency_flag :: bool

text \<open>What the optional collaborators answer during a call: the correlation events
  (strategy, scale), the health score of an exchange, and whether an event loop runs.\<close>

record risk_inputs =
  correlation_events :: "(string \<times> rat) list option"
  dqm_health :: "(string \<Rightarrow> rat) option"
  loop_running :: bool

subsection \<open>Construction\<close>

datatype guardian_error = AllocationAbove100

definition clamp_concurrent :: "int option \<Rightarrow> int \<Rightarrow> int" where
  "clamp_concurrent env mcp = max 1 (min (case env of None \<Rightarrow> mcp | Some n \<Rightarrow> n) 1000)"

definition guardian_new ::
    "risk_limits \<Rightarrow> int option \<Rightarrow> secs \<Rightarrow> halt_flags \<Rightarrow> circuit_breaker \<Rightarrow> bool \<Rightarrow>
     guardian_error + risk_guardian" where
  "guardian_new lm env now flags cb sizer =
     (if capital_allocation_pct lm \<noteq> [] \<and> 100 < sum_list (map snd (capital_allocation_pct lm))
      then Inl AllocationAbove100
      else Inr \<lparr>limits = lm\<lparr>max_concurrent_positions :=
                    clamp_concurrent env (max_concurrent_positions lm)\<rparr>,
             rg_start_time = now, rg_flags = flags, rg_cb = cb, rg_flash = None, rg_pcb = None,
             rg_has_sizer = sizer, correlation_scales = Map.empty, scheduled_trips = 0,
             emergency_flag = False\<rparr>)"

subsection \<open>The single limits\<close>

definition position_limit_exceeded :: "risk_limits \<Rightarrow> trade_proposal \<Rightarrow> portfolio_state \<Rightarrow> bool" where
  "position_limit_exceeded l p pf \<longleftrightarrow>
     total_capital pf * max_position_pct l
       < dict_get (position_sizes pf) (tp_symbol p) 0 + position_value p"

definition drawdown_exceeded :: "risk_limits \<Rightarrow> portfolio_state \<Rightarrow> bool" where
  "drawdown_exceeded l pf \<longleftrightarrow> max_drawdown_pct l < pf_drawdown_pct pf"

definition exposure_exceeded :: "risk_limits \<Rightarrow> trade_proposal \<Rightarrow> portfolio_state \<Rightarrow> bool" where
  "exposure_exceeded l p pf \<longleftrightarrow>
     total_capital pf * max_exposure_pct l < total_exposure pf + position_value p"

definition signed_size :: "trade_proposal \<Rightarrow> decimal" where
  "signed_size p = (if upper (tp_side p) = ''BUY'' then tp_size p else - tp_size p)"

definition base_asset :: "string \<Rightarrow> string" where
  "base_asset s = before ''/'' s"

definition net_exposure_exceeded :: "risk_limits \<Rightarrow> trade_proposal \<Rightarrow> portfolio_state \<Rightarrow> bool" where
  "net_exposure_exceeded l p pf \<longleftrightarrow>
     0 < max_net_exposure_per_asset l \<and> occurs_in ''/'' (tp_symbol p)
     \<and> (let current = (case net_exposures pf (tp_exchange p, base_asset (tp_symbol p)) of
                         None \<Rightarrow> 0 | Some x \<Rightarrow> x)
        in max_net_exposure_per_asset l < \<bar>current + signed_size p\<bar>)"

definition health_of :: "risk_inputs \<Rightarrow> trade_proposal \<Rightarrow> portfolio_state \<Rightarrow> decimal" where
  "health_of inp p pf =
     (case dqm_health inp of
        Some f \<Rightarrow> f (tp_exchange p)
      | None \<Rightarrow> (case exchange_health_scores pf (tp_exchange p) of None \<Rightarrow> 0 | Some x \<Rightarrow> x))"

definition health_low ::
    "secs \<Rightarrow> risk_inputs \<Rightarrow> risk_guardian \<Rightarrow> trade_proposal \<Rightarrow> portfolio_state \<Rightarrow> bool" where
  "health_low now inp g p pf \<longleftrightarrow>
     \<not> now - rg_start_time g < warmup_seconds (limits g)
     \<and> health_of inp p pf < exchange_health_threshold (limits g)"

definition trade_too_large :: "risk_limits \<Rightarrow> trade_proposal \<Rightarrow> portfolio_state \<Rightarrow> bool" where
  "trade_too_large l p pf \<longleftrightarrow> total_capital pf * max_single_trade_pct l < position_value p"

definition volatility_high :: "risk_limits \<Rightarrow> trade_proposal \<Rightarrow> portfolio_state \<Rightarrow> bool" where
  "volatility_high l p pf \<longleftrightarrow>
     (case (volatility_1min pf (tp_symbol p), volatility_24h pf (tp_symbol p)) of
        (Some v1, Some v24) \<Rightarrow> 0 < v24 \<and> max_volatility_multiple l < v1 / v24
      | _ \<Rightarrow> False)"

definition rollback_too_costly :: "risk_limits \<Rightarrow> trade_proposal \<Rightarrow> bool" where
  "rollback_too_costly l p \<longleftrightarrow>
     position_value p * max_rollback_threshold l
       < position_value p * (3 * predicted_slippage_pct p + (fee_open p + fee_close p))"

definition too_many_positions :: "risk_limits \<Rightarrow> portfolio_state \<Rightarrow> bool" where
  "too_many_positions l pf \<longleftrightarrow> max_concurrent_positions l \<le> int (length (position_sizes pf))"

definition strategy_base :: "string \<Rightarrow> string" where
  "strategy_base s = before ''_v'' s"

definition allocation_exceeded :: "risk_limits \<Rightarrow> trade_proposal \<Rightarrow> portfolio_state \<Rightarrow> bool" where
  "allocation_exceeded l p pf \<longleftrightarrow>
     (case map_of (capital_allocation_pct l) (strategy_base (strategy_id p)) of
        None \<Rightarrow> False
      | Some pct \<Rightarrow>
          total_capital pf * pct / 100
            < (case strategy_capital_used pf (strategy_base (strategy_id p)) of
                 None \<Rightarrow> 0 | Some u \<Rightarrow> u) + position_value p)"

subsection \<open>The steps that change a component\<close>

definition reject :: "nat \<Rightarrow> reject_reason \<Rightarrow> risk_check_result" where
  "reject n r = \<lparr>approved = False, rejected_at_check = Some n, reason = Some r\<rparr>"

definition approve :: risk_check_result where
  "approve = \<lparr>approved = True, rejected_at_check = None, reason = None\<rparr>"

definition ask_flash :: "secs \<Rightarrow> risk_guardian \<Rightarrow> bool \<times> risk_guardian" where
  "ask_flash now g =
     (case rg_flash g of
        None \<Rightarrow> (True, g)
      | Some fg \<Rightarrow> (let (ok, _, fg') = check_allowed now fg in (ok, g\<lparr>rg_flash := Some fg'\<rparr>)))"

text \<open>Check 9 scales the sizer for the first correlation event of the strategy below 1.\<close>

definition apply_correlation :: "risk_inputs \<Rightarrow> trade_proposal \<Rightarrow> risk_guardian \<Rightarrow> risk_guardian" where
  "apply_correlation inp p g =
     (case correlation_events inp of
        None \<Rightarrow> g
      | Some evs \<Rightarrow>
          (case List.find (\<lambda>(sid, scale). sid = strategy_id p \<and> scale < 1) evs of
             None \<Rightarrow> g
           | Some (sid, scale) \<Rightarrow>
               if rg_has_sizer g
               then g\<lparr>correlation_scales := (correlation_scales g)(strategy_id p \<mapsto> scale)\<rparr>
               else g))"

definition schedule_global_trip :: "risk_inputs \<Rightarrow> per_strategy_cb \<Rightarrow> risk_guardian \<Rightarrow> risk_guardian" where
  "schedule_global_trip inp d g =
     (if 0 < active_count d \<and> active_count d \<le> halted_count d \<and> loop_running inp
      then g\<lparr>scheduled_trips := scheduled_trips g + 1\<rparr> else g)"

definition check_strategy_cb ::
    "secs \<Rightarrow> risk_inputs \<Rightarrow> trade_proposal \<Rightarrow> risk_guardian \<Rightarrow> risk_check_result \<times> risk_guardian" where
  "check_strategy_cb now inp p g =
     (case rg_pcb g of
        None \<Rightarrow> (approve, g)
      | Some d \<Rightarrow>
          let g1 = schedule_global_trip inp d g;
              (ok, d1) = PerStrategyCB.is_allowed now (strategy_id p) d
          in if ok then (approve, g1\<lparr>rg_pcb := Some d1\<rparr>)
             else let (lv, d2) = pcb_state now (strategy_id p) d1
                  in (reject 12 (StrategyBlocked lv), g1\<lparr>rg_pcb := Some d2\<rparr>))"

subsection \<open>The whole check\<close>

definition check ::
    "rust_env \<Rightarrow> secs \<Rightarrow> risk_inputs \<Rightarrow> trade_proposal \<Rightarrow> portfolio_state \<Rightarrow> risk_guardian \<Rightarrow>
     risk_check_result \<times> risk_guardian" where
  "check env now inp p pf g =
     (let (h, flags) = KillSwitch.is_halted env (rg_flags g);
          g0 = g\<lparr>rg_flags := flags\<rparr>;
          l = limits g
      in if h then (reject 0 EngineHalted, g0) else
      let (flash_ok, g1) = ask_flash now g0
      in if \<not> flash_ok then (reject 0 FlashGuardActive, g1)
         else if position_limit_exceeded l p pf then (reject 1 PositionLimit, g1)
         else if drawdown_exceeded l pf then (reject 2 DrawdownLimit, g1)
         else if exposure_exceeded l p pf then (reject 3 ExposureLimit, g1)
         else if \<not> allows_trading (rg_cb g) then (reject 4 BreakerOpen, g1)
         else if net_exposure_exceeded l p pf then (reject 4 NetExposureLimit, g1)
         else if health_low now inp g p pf then (reject 5 HealthLow, g1)
         else if trade_too_large l p pf then (reject 6 TradeTooLarge, g1)
         else if volatility_high l p pf then (reject 7 VolatilityHigh, g1)
         else if rollback_too_costly l p then (reject 8 RollbackCost, g1)
         else
           let g2 = apply_correlation inp p g1
           in if too_many_positions l pf then (reject 10 TooManyPositions, g2)
              else if allocation_exceeded l p pf then (reject 11 AllocationExceeded, g2)
              else check_strategy_cb now inp p g2)"

text \<open>The reduced check of the live path: the halt flag and the notional of the largest leg.\<close>

definition check_trade_request ::
    "rust_env \<Rightarrow> (pyfloat \<times> pyfloat) list \<Rightarrow> pyfloat \<Rightarrow> risk_guardian \<Rightarrow> bool \<times> risk_guardian" where
  "check_trade_request env legs capital g =
     (let (h, flags) = KillSwitch.is_halted env (rg_flags g);
          g0 = g\<lparr>rg_flags := flags\<rparr>
      in if h then (False, g0)
         else if legs \<noteq> [] \<and> 0 < capital
           \<and> capital * max_single_trade_pct (limits g) < Max (set (map (\<lambda>(s, pr). s * pr) legs))
         then (False, g0) else (True, g0))"

definition emergency_pause :: "rust_env \<Rightarrow> risk_guardian \<Rightarrow> risk_guardian" where
  "emergency_pause env g = g\<lparr>rg_flags := halt_local env (rg_flags g), emergency_flag := True\<rparr>"

subsection \<open>Lemmas\<close>

lemma ask_flash_keeps [simp]:
  "limits (snd (ask_flash now g)) = limits g" "rg_cb (snd (ask_flash now g)) = rg_cb g"
  "rg_pcb (snd (ask_flash now g)) = rg_pcb g"
  "scheduled_trips (snd (ask_flash now g)) = scheduled_trips g"
  by (simp_all add: ask_flash_def split: option.split prod.split)

lemma ask_flash_flags [simp]: "fst (ask_flash now (g\<lparr>rg_flags := f\<rparr>)) = fst (ask_flash now g)"
  by (simp add: ask_flash_def split: option.split prod.split)

lemma apply_correlation_keeps [simp]:
  "rg_pcb (apply_correlation inp p g) = rg_pcb g"
  "scheduled_trips (apply_correlation inp p g) = scheduled_trips g"
  by (simp_all add: apply_correlation_def split: option.split prod.split)

lemma reject_not_approved [simp]: "\<not> approved (reject n r)"
  by (simp add: reject_def)

lemma approve_approved [simp]: "approved approve"
  by (simp add: approve_def)

definition strategy_allowed :: "secs \<Rightarrow> string \<Rightarrow> risk_guardian \<Rightarrow> bool" where
  "strategy_allowed now sid g \<longleftrightarrow>
     (case rg_pcb g of None \<Rightarrow> True | Some d \<Rightarrow> fst (PerStrategyCB.is_allowed now sid d))"

lemma check_strategy_cb_approved:
  "approved (fst (check_strategy_cb now inp p g)) \<longleftrightarrow> strategy_allowed now (strategy_id p) g"
  by (simp add: check_strategy_cb_def strategy_allowed_def Let_def split: option.split prod.split)

lemma strategy_allowed_cong: "rg_pcb g = rg_pcb g' \<Longrightarrow> strategy_allowed now sid g = strategy_allowed now sid g'"
  by (simp add: strategy_allowed_def)

definition within_limits ::
    "secs \<Rightarrow> risk_inputs \<Rightarrow> trade_proposal \<Rightarrow> portfolio_state \<Rightarrow> risk_guardian \<Rightarrow> bool" where
  "within_limits now inp p pf g \<longleftrightarrow>
     (let l = limits g
      in \<not> position_limit_exceeded l p pf \<and> \<not> drawdown_exceeded l pf
       \<and> \<not> exposure_exceeded l p pf \<and> allows_trading (rg_cb g)
       \<and> \<not> net_exposure_exceeded l p pf \<and> \<not> health_low now inp g p pf
       \<and> \<not> trade_too_large l p pf \<and> \<not> volatility_high l p pf \<and> \<not> rollback_too_costly l p
       \<and> \<not> too_many_positions l pf \<and> \<not> allocation_exceeded l p pf)"

lemma check_approved_iff:
  "approved (fst (check env now inp p pf g)) \<longleftrightarrow>
     \<not> halted env (rg_flags g) \<and> fst (ask_flash now g) \<and> within_limits now inp p pf g
     \<and> strategy_allowed now (strategy_id p) g"
proof -
  obtain h flags where h: "KillSwitch.is_halted env (rg_flags g) = (h, flags)" by force
  obtain ok g1 where a: "ask_flash now (g\<lparr>rg_flags := flags\<rparr>) = (ok, g1)" by force
  have keep: "rg_pcb g1 = rg_pcb g" "fst (ask_flash now g) = ok"
    using ask_flash_keeps(3) [of now "g\<lparr>rg_flags := flags\<rparr>"] ask_flash_flags [of now flags g]
    by (simp_all add: a)
  have sa: "strategy_allowed now (strategy_id p) (apply_correlation inp p g1)
      = strategy_allowed now (strategy_id p) g"
    by (rule strategy_allowed_cong) (simp add: keep)
  show ?thesis
    by (simp add: check_def h a halted_def within_limits_def check_strategy_cb_approved sa keep Let_def)
qed

text \<open>The check is an admission gate over each of its switches.\<close>

interpretation halt_gate: admission
  "emergency_pause env" "\<lambda>g. halted env' (rg_flags g)" "\<lambda>g. approved (fst (check env' now inp p pf g))"
  for env env' now inp p pf
  by unfold_locales (simp_all add: emergency_pause_def check_approved_iff)

interpretation breaker_gate: admission
  "\<lambda>g. g\<lparr>rg_cb := trigger_manual t r (rg_cb g)\<rparr>" "\<lambda>g. \<not> allows_trading (rg_cb g)"
  "\<lambda>g. approved (fst (check env now inp p pf g))"
  for t r env now inp p pf
  by unfold_locales (simp_all add: cb_trip.trip_blocks check_approved_iff within_limits_def Let_def)


lemma check_halted:
  assumes "halted env (rg_flags g)"
  shows "fst (check env now inp p pf g) = reject 0 EngineHalted"
    and "snd (check env now inp p pf g) = g\<lparr>rg_flags := snd (KillSwitch.is_halted env (rg_flags g))\<rparr>"
proof -
  obtain h flags where h: "KillSwitch.is_halted env (rg_flags g) = (h, flags)" by force
  with assms have "h" by (simp add: halted_def)
  with h show "fst (check env now inp p pf g) = reject 0 EngineHalted"
    and "snd (check env now inp p pf g) = g\<lparr>rg_flags := snd (KillSwitch.is_halted env (rg_flags g))\<rparr>"
    by (simp_all add: check_def)
qed

lemma check_strategy_cb_trips:
  "scheduled_trips (snd (check_strategy_cb now inp p g)) =
     scheduled_trips g + (case rg_pcb g of None \<Rightarrow> 0 | Some d \<Rightarrow>
       if 0 < active_count d \<and> active_count d \<le> halted_count d \<and> loop_running inp then 1 else 0)"
proof (cases "rg_pcb g")
  case (Some d)
  obtain ok d1 where a: "PerStrategyCB.is_allowed now (strategy_id p) d = (ok, d1)" by force
  obtain lv d2 where b: "pcb_state now (strategy_id p) d1 = (lv, d2)" by force
  show ?thesis
    by (simp add: check_strategy_cb_def schedule_global_trip_def Some a b)
qed (simp add: check_strategy_cb_def)

lemma check_trips:
  "scheduled_trips (snd (check env now inp p pf g)) =
     scheduled_trips g +
       (if \<not> halted env (rg_flags g) \<and> fst (ask_flash now g) \<and> within_limits now inp p pf g
        then (case rg_pcb g of None \<Rightarrow> 0 | Some d \<Rightarrow>
          if 0 < active_count d \<and> active_count d \<le> halted_count d \<and> loop_running inp then 1 else 0)
        else 0)"
proof -
  obtain h flags where h: "KillSwitch.is_halted env (rg_flags g) = (h, flags)" by force
  obtain ok g1 where a: "ask_flash now (g\<lparr>rg_flags := flags\<rparr>) = (ok, g1)" by force
  have keep: "rg_pcb g1 = rg_pcb g" "scheduled_trips g1 = scheduled_trips g"
      "fst (ask_flash now g) = ok"
    using ask_flash_keeps(3,4) [of now "g\<lparr>rg_flags := flags\<rparr>"] ask_flash_flags [of now flags g]
    by (simp_all add: a)
  show ?thesis
    by (auto simp: check_def h a halted_def within_limits_def check_strategy_cb_trips keep Let_def)
qed

subsection \<open>Properties\<close>

text \<open>C12. The guardian approves a trade exactly when no check objects: the engine is not halted, the
  flash guard is quiet, the position, drawdown, total exposure, net exposure, trade size,
  volatility, rollback cost, position count and capital allocation limits all hold, the
  exchange is healthy or the warm-up is not over, the global breaker allows trading and the
  breaker of the strategy allows it.\<close>

theorem approval_is_all_checks:
  "approved (fst (check env now inp p pf g)) \<longleftrightarrow>
     \<not> halted env (rg_flags g)
     \<and> (case rg_flash g of None \<Rightarrow> True | Some fg \<Rightarrow> \<not> fst (is_triggered now fg))
     \<and> dict_get (position_sizes pf) (tp_symbol p) 0 + position_value p
         \<le> total_capital pf * max_position_pct (limits g)
     \<and> pf_drawdown_pct pf \<le> max_drawdown_pct (limits g)
     \<and> total_exposure pf + position_value p \<le> total_capital pf * max_exposure_pct (limits g)
     \<and> cb_state (rg_cb g) \<noteq> OPEN
     \<and> \<not> net_exposure_exceeded (limits g) p pf
     \<and> (now - rg_start_time g < warmup_seconds (limits g)
        \<or> exchange_health_threshold (limits g) \<le> health_of inp p pf)
     \<and> position_value p \<le> total_capital pf * max_single_trade_pct (limits g)
     \<and> \<not> volatility_high (limits g) p pf
     \<and> position_value p * (3 * predicted_slippage_pct p + (fee_open p + fee_close p))
         \<le> position_value p * max_rollback_threshold (limits g)
     \<and> int (length (position_sizes pf)) < max_concurrent_positions (limits g)
     \<and> \<not> allocation_exceeded (limits g) p pf
     \<and> (case rg_pcb g of None \<Rightarrow> True
        | Some d \<Rightarrow> fst (PerStrategyCB.is_allowed now (strategy_id p) d))"
proof -
  have f: "fst (ask_flash now g) = (case rg_flash g of None \<Rightarrow> True | Some fg \<Rightarrow> \<not> fst (is_triggered now fg))"
    by (simp add: ask_flash_def check_allowed_def split: option.split prod.split)
  have c: "allows_trading (rg_cb g) \<longleftrightarrow> cb_state (rg_cb g) \<noteq> OPEN"
    by (cases "cb_state (rg_cb g)") (simp_all add: allows_trading_def)
  show ?thesis
    unfolding check_approved_iff f within_limits_def Let_def c strategy_allowed_def
      position_limit_exceeded_def drawdown_exceeded_def exposure_exceeded_def health_low_def
      trade_too_large_def rollback_too_costly_def too_many_positions_def not_less not_le
    by auto
qed

text \<open>C13. The halt check cannot be bypassed: once the kill switch's flag is set (by a trigger, by
  \<open>emergency_pause\<close> or by any other \<open>halt_local\<close>), every check, for any trade, portfolio,
  clock and collaborators, is rejected at check 0 and asks or changes no other component,
  and the reduced check of the live path refuses as well.\<close>

theorem halt_cannot_be_bypassed:
  "fst (check env' now inp p pf (emergency_pause env g)) = reject 0 EngineHalted
   \<and> fst (check env' now inp p pf (g\<lparr>rg_flags := halt_local env (rg_flags g)\<rparr>)) = reject 0 EngineHalted
   \<and> snd (check env' now inp p pf (emergency_pause env g)) = emergency_pause env g
   \<and> \<not> fst (check_trade_request env' legs capital (emergency_pause env g))"
proof -
  let ?g = "emergency_pause env g"
  have h: "halted env' (rg_flags ?g)"
    by (simp add: emergency_pause_def)
  have same: "KillSwitch.is_halted env' (rg_flags ?g) = (True, rg_flags ?g)"
    by (simp add: KillSwitch.is_halted_def emergency_pause_def)
  have "halted env' (rg_flags (g\<lparr>rg_flags := halt_local env (rg_flags g)\<rparr>))"
    by simp
  with check_halted [OF h] check_halted(1) same show ?thesis
    by (simp add: check_trade_request_def)
qed

text \<open>The override that should open the global breaker when the strategies are halted misses the
  worst case: when every tracked strategy is HALTED or SUSPENDED, no check schedules the
  trip (named \<open>per_strategy_all_halted\<close>), because the code also asks for at least one active
  strategy.\<close>

lemma all_halted_never_trips_global_breaker:
  assumes "rg_pcb g = Some d" and "\<forall>(sid, e) \<in> set d. level e \<in> {HALTED, SUSPENDED}"
  shows "scheduled_trips (snd (check env now inp p pf g)) = scheduled_trips g"
proof -
  have "filter (\<lambda>(_, e). level e \<in> {ACTIVE, THROTTLED}) d = []"
    using assms(2) by (auto simp: filter_empty_conv)
  then have "active_count d = 0"
    by (simp add: active_count_def)
  then show ?thesis
    by (simp add: check_trips assms(1))
qed

definition ex_limits :: risk_limits where
  "ex_limits = \<lparr>max_position_pct = 10 / 100, max_drawdown_pct = 2 / 100, max_exposure_pct = 30 / 100,
     exchange_health_threshold = 1 / 2, max_single_trade_pct = 5 / 100,
     max_volatility_multiple = 2, max_rollback_threshold = 2 / 100,
     max_net_exposure_per_asset = 0, max_concurrent_positions = 20,
     capital_allocation_pct = [], warmup_seconds = 120\<rparr>"

definition ex_guardian :: "per_strategy_cb \<Rightarrow> risk_guardian" where
  "ex_guardian d = \<lparr>limits = ex_limits, rg_start_time = 0, rg_flags = initial_flags,
     rg_cb = cb_new cb_default_config 0, rg_flash = None, rg_pcb = Some d, rg_has_sizer = False,
     correlation_scales = Map.empty, scheduled_trips = 0, emergency_flag = False\<rparr>"

definition ex_inputs :: risk_inputs where
  "ex_inputs = \<lparr>correlation_events = None, dqm_health = None, loop_running = True\<rparr>"

definition ex_proposal :: trade_proposal where
  "ex_proposal = \<lparr>strategy_id = ''ff'', tp_exchange = ''okx'', tp_symbol = ''BTC/USDT'',
     tp_side = ''BUY'', tp_size = 1, tp_price = 4, position_value = 4,
     predicted_slippage_pct = 1 / 1000, fee_open = 1 / 1000, fee_close = 1 / 1000\<rparr>"

definition ex_portfolio :: portfolio_state where
  "ex_portfolio = \<lparr>total_capital = 100, used_capital = 0, pf_drawdown_pct = 0,
     total_exposure = 0, position_sizes = [], exchange_health_scores = [''okx'' \<mapsto> 1],
     volatility_1min = Map.empty, volatility_24h = Map.empty, net_exposures = Map.empty,
     strategy_capital_used = Map.empty\<rparr>"

lemma ex_check_rejected:
  "rejected_at_check (fst (check ex_env 1000 ex_inputs ex_proposal ex_portfolio
     (ex_guardian thrice_halted))) = Some 12"
proof -
  have e: "maybe_auto_recover 1000 (entry ''ff'' thrice_halted) = entry ''ff'' thrice_halted"
      "level (entry ''ff'' thrice_halted) = HALTED"
    by (simp_all add: entry_def dict_get_def thrice_halted_def maybe_auto_recover_def)
  have "fst (check ex_env 1000 ex_inputs ex_proposal ex_portfolio (ex_guardian thrice_halted))
      = reject 12 (StrategyBlocked HALTED)"
    by (simp add: check_def KillSwitch.is_halted_def get_rust_ks_def ex_guardian_def initial_flags_def
        ask_flash_def position_limit_exceeded_def drawdown_exceeded_def exposure_exceeded_def
        allows_trading_def net_exposure_exceeded_def health_low_def trade_too_large_def
        volatility_high_def rollback_too_costly_def apply_correlation_def too_many_positions_def
        allocation_exceeded_def ex_limits_def ex_inputs_def ex_proposal_def ex_portfolio_def
        dict_get_def health_of_def cb_new_def ex_env_def check_strategy_cb_def
        schedule_global_trip_def PerStrategyCB.is_allowed_def pcb_state_def e Let_def)
  then show ?thesis by (simp add: reject_def)
qed

lemma all_halted_never_trips_global_breaker_witness:
  "scheduled_trips (snd (check ex_env 1000 ex_inputs ex_proposal ex_portfolio
     (ex_guardian thrice_halted))) = 0
   \<and> rejected_at_check (fst (check ex_env 1000 ex_inputs ex_proposal ex_portfolio
     (ex_guardian thrice_halted))) = Some 12"
proof -
  have "rg_pcb (ex_guardian thrice_halted) = Some thrice_halted"
    and "\<forall>(sid, e) \<in> set thrice_halted. level e \<in> {HALTED, SUSPENDED}"
    by (simp_all add: ex_guardian_def thrice_halted_def)
  from all_halted_never_trips_global_breaker [OF this, of ex_env 1000 ex_inputs ex_proposal ex_portfolio]
  show ?thesis
    by (simp add: ex_check_rejected) (simp add: ex_guardian_def)
qed

end
