(* ===== verification/BudgetLedger.thy ===== *)
theory BudgetLedger
  imports Prelude
begin

text \<open>
  \<open>engine/src/risk/strategy_budget_ledger.py\<close>: the daily loss budget of each strategy, fed by
  the exchanges' income events.  A \<open>datetime\<close> is its number of seconds since the UTC epoch, a
  \<open>date\<close> its number of days.  The database table and the JSON files are part of the state
  (\<open>store\<close>), since a restart reads them; an \<open>io\<close> says which writes succeed during one call.
  \<open>to_dict\<close> and \<open>from_dict\<close> are exact on finite numbers, so a JSON file holds the records.
\<close>

subsection \<open>Data\<close>

definition uncategorized :: string where
  "uncategorized = ''uncategorized''"

definition income_types_counted :: "string list" where
  "income_types_counted = [''REALIZED_PNL'', ''COMMISSION'', ''FUNDING_FEE'', ''INSURANCE_CLEAR'']"

definition utc_date :: "secs \<Rightarrow> int" where
  "utc_date t = \<lfloor>t / 86400\<rfloor>"

definition floor_utc_day :: "secs \<Rightarrow> secs" where
  "floor_utc_day t = of_int (utc_date t) * 86400"

record strategy_budget =
  sb_id :: string
  loss_budget :: decimal
  pnl_balance :: decimal
  reset_ts :: secs
  sb_halted :: bool
  sb_allocated :: decimal
  halt_events :: nat

definition used_of :: "decimal \<Rightarrow> decimal" where
  "used_of balance = (if balance < 0 then - balance else 0)"

definition remaining_usd :: "strategy_budget \<Rightarrow> decimal" where
  "remaining_usd b = max (loss_budget b - used_of (pnl_balance b)) 0"

text \<open>The columns of \<open>strategy_budgets\<close> beside its key.\<close>

record db_row =
  row_budget :: decimal
  row_balance :: decimal
  row_reset_ts :: secs
  row_halted :: bool

record storage =
  db_rows :: "(int \<times> string, db_row) dict"
  json_files :: "(int, (string, strategy_budget) dict) dict"

record io =
  db_ok :: "string \<Rightarrow> bool"
  file_ok :: "string \<Rightarrow> bool"

record ledger =
  strategy_ids :: "string list"
  allocated_capital :: "string \<Rightarrow> decimal option"
  budget_overrides :: "string \<Rightarrow> decimal option"
  default_pct :: decimal
  has_db :: bool
  budgets :: "(string, strategy_budget) dict"
  seen_tran_ids :: "string set"
  ledger_started :: bool
  store :: storage

definition ledger_new ::
    "string list \<Rightarrow> (string \<Rightarrow> decimal option) \<Rightarrow> (string \<Rightarrow> decimal option) \<Rightarrow> decimal \<Rightarrow> bool \<Rightarrow> storage \<Rightarrow> ledger"
  where
  "ledger_new sids alloc over pct dbp st =
     (let ids = rev (remdups (rev (sids @ [uncategorized])))
      in \<lparr>strategy_ids = ids,
          allocated_capital = (\<lambda>sid. if sid \<in> set ids
            then Some (case alloc sid of None \<Rightarrow> 0 | Some a \<Rightarrow> a) else None),
          budget_overrides = over, default_pct = pct, has_db = dbp,
          budgets = [], seen_tran_ids = {}, ledger_started = False, store = st\<rparr>)"

subsection \<open>Sizing\<close>

definition quantize4 :: "decimal \<Rightarrow> decimal" where
  "quantize4 x = of_int (round_half_even (x * 10000)) / 10000"

definition allocated_of :: "string \<Rightarrow> ledger \<Rightarrow> decimal" where
  "allocated_of sid L = (case allocated_capital L sid of None \<Rightarrow> 0 | Some a \<Rightarrow> a)"

definition budget_for :: "string \<Rightarrow> ledger \<Rightarrow> decimal" where
  "budget_for sid L =
     (case budget_overrides L sid of
        Some b \<Rightarrow> b
      | None \<Rightarrow> quantize4 (allocated_of sid L * default_pct L / 100))"

definition fresh_budget :: "string \<Rightarrow> secs \<Rightarrow> ledger \<Rightarrow> strategy_budget" where
  "fresh_budget sid now L =
     \<lparr>sb_id = sid, loss_budget = budget_for sid L, pnl_balance = 0, reset_ts = floor_utc_day now,
      sb_halted = False, sb_allocated = allocated_of sid L, halt_events = 0\<rparr>"

subsection \<open>Persistence\<close>

definition write_json_fallback :: "io \<Rightarrow> strategy_budget \<Rightarrow> ledger \<Rightarrow> ledger" where
  "write_json_fallback io b L =
     (if file_ok io (sb_id b)
      then let day = utc_date (reset_ts b);
               existing = dict_get (json_files (store L)) day [];
               files = AList.update day (AList.update (sb_id b) b existing) (json_files (store L))
           in L\<lparr>store := (store L)\<lparr>json_files := files\<rparr>\<rparr>
      else L)"

text \<open>The upsert: on a conflict the row keeps its \<open>reset_ts_utc\<close>.\<close>

definition upsert :: "strategy_budget \<Rightarrow> (int \<times> string, db_row) dict \<Rightarrow> (int \<times> string, db_row) dict" where
  "upsert b rows =
     (let key = (utc_date (reset_ts b), sb_id b);
          ts = (case map_of rows key of None \<Rightarrow> reset_ts b | Some r \<Rightarrow> row_reset_ts r)
      in AList.update key
           \<lparr>row_budget = loss_budget b, row_balance = pnl_balance b, row_reset_ts = ts,
            row_halted = sb_halted b\<rparr> rows)"

definition persist :: "io \<Rightarrow> strategy_budget \<Rightarrow> ledger \<Rightarrow> ledger" where
  "persist io b L =
     (if has_db L \<and> db_ok io (sb_id b)
      then L\<lparr>store := (store L)\<lparr>db_rows := upsert b (db_rows (store L))\<rparr>\<rparr>
      else write_json_fallback io b L)"

definition load_from_json :: "int \<Rightarrow> ledger \<Rightarrow> (string, strategy_budget) dict" where
  "load_from_json day L = dict_get (json_files (store L)) day []"

definition load_from_db :: "int \<Rightarrow> ledger \<Rightarrow> (string, strategy_budget) dict" where
  "load_from_db day L =
     map (\<lambda>((d, sid), r). (sid,
            \<lparr>sb_id = sid, loss_budget = row_budget r, pnl_balance = row_balance r,
             reset_ts = row_reset_ts r, sb_halted = row_halted r,
             sb_allocated = allocated_of sid L, halt_events = 0\<rparr>))
       (filter (\<lambda>((d, sid), r). d = day) (db_rows (store L)))"

text \<open>\<open>start\<close>: \<open>db_read\<close> says whether the query succeeds.\<close>

definition start :: "bool \<Rightarrow> secs \<Rightarrow> ledger \<Rightarrow> ledger" where
  "start db_read now L =
     (if ledger_started L then L
      else let today = utc_date (floor_utc_day now);
               from_db = (if has_db L \<and> db_read then load_from_db today L else []);
               loaded = (if from_db = [] then load_from_json today L else from_db);
               bs = fold (\<lambda>sid. AList.update sid
                      (case map_of loaded sid of Some b \<Rightarrow> b | None \<Rightarrow> fresh_budget sid now L))
                      (strategy_ids L) (budgets L)
           in L\<lparr>budgets := bs, ledger_started := True\<rparr>)"

subsection \<open>Accessors\<close>

definition is_strategy_halted :: "string \<Rightarrow> ledger \<Rightarrow> bool" where
  "is_strategy_halted sid L =
     (case map_of (budgets L) sid of None \<Rightarrow> False | Some b \<Rightarrow> sb_halted b)"

definition bucket :: "string \<Rightarrow> ledger \<Rightarrow> string" where
  "bucket sid L = (if dict_has (budgets L) sid then sid else uncategorized)"

definition check_remaining :: "string \<Rightarrow> decimal \<Rightarrow> ledger \<Rightarrow> bool" where
  "check_remaining sid worst L =
     (case map_of (budgets L) (bucket sid L) of
        None \<Rightarrow> False
      | Some b \<Rightarrow>
          if sb_halted b then False
          else used_of (pnl_balance b - \<bar>worst\<bar>) < loss_budget b)"

subsection \<open>Daily reset\<close>

definition roll_one :: "io \<Rightarrow> secs \<Rightarrow> string \<Rightarrow> ledger \<Rightarrow> ledger" where
  "roll_one io now sid L =
     (let b = fresh_budget sid now L
      in persist io b (L\<lparr>budgets := AList.update sid b (budgets L)\<rparr>))"

definition reset_daily :: "io \<Rightarrow> secs \<Rightarrow> ledger \<Rightarrow> ledger" where
  "reset_daily io now L = fold (roll_one io now) (strategy_ids L) (L\<lparr>seen_tran_ids := {}\<rparr>)"

definition maybe_roll_day :: "io \<Rightarrow> secs \<Rightarrow> ledger \<Rightarrow> ledger" where
  "maybe_roll_day io now L =
     (case budgets L of
        [] \<Rightarrow> L
      | (sid, any_bud) # rest \<Rightarrow>
          if reset_ts any_bud < floor_utc_day now
          then fold (roll_one io now) (strategy_ids L) (L\<lparr>seen_tran_ids := {}\<rparr>)
          else L)"

subsection \<open>Income\<close>

datatype ledger_error = KeyError string

definition charge :: "decimal \<Rightarrow> strategy_budget \<Rightarrow> strategy_budget" where
  "charge delta b =
     (let bal = pnl_balance b + delta; b' = b\<lparr>pnl_balance := bal\<rparr>
      in if loss_budget b \<le> used_of bal \<and> \<not> sb_halted b
         then b'\<lparr>sb_halted := True, halt_events := halt_events b + 1\<rparr>
         else b')"

text \<open>\<open>ior\<close> covers the writes of a day roll, \<open>io\<close> the write of the record itself.\<close>

definition update_pnl ::
    "io \<Rightarrow> io \<Rightarrow> secs \<Rightarrow> string \<Rightarrow> decimal \<Rightarrow> string \<Rightarrow> ledger \<Rightarrow> ledger_error + strategy_budget \<times> ledger" where
  "update_pnl ior io now strategy_id delta tran_id L =
     (let L1 = maybe_roll_day ior now L; sid = bucket strategy_id L1
      in case map_of (budgets L1) sid of
           None \<Rightarrow> Inl (KeyError sid)
         | Some b0 \<Rightarrow>
             let b = charge delta b0;
                 L2 = L1\<lparr>budgets := AList.update sid b (budgets L1),
                         seen_tran_ids := (if tran_id = [] then seen_tran_ids L1
                                           else insert tran_id (seen_tran_ids L1))\<rparr>
             in Inr (b, persist io b L2))"

text \<open>\<open>ev_amount\<close> is \<open>None\<close> when the amount does not parse; an absent field is empty or 0.\<close>

record income_event =
  ev_income_type :: string
  ev_amount :: "decimal option"
  ev_tran_id :: string
  ev_strategy_id :: string

definition resolve_strategy_id ::
    "(income_event \<Rightarrow> string option outcome) option \<Rightarrow> income_event \<Rightarrow> string option" where
  "resolve_strategy_id lookup ev =
     (if ev_strategy_id ev \<noteq> [] then Some (ev_strategy_id ev)
      else case lookup of
             None \<Rightarrow> None
           | Some f \<Rightarrow> (case f ev of Returned s \<Rightarrow> s | _ \<Rightarrow> None))"

definition attributed_to ::
    "(income_event \<Rightarrow> string option outcome) option \<Rightarrow> income_event \<Rightarrow> string" where
  "attributed_to lookup ev =
     (case resolve_strategy_id lookup ev of None \<Rightarrow> uncategorized | Some s \<Rightarrow> s)"

text \<open>The part of \<open>on_exchange_income_event\<close> before its await: the amount to apply, if any.\<close>

definition income_gate :: "income_event \<Rightarrow> ledger \<Rightarrow> decimal option" where
  "income_gate ev L =
     (let itype = upper (ev_income_type ev)
      in if itype \<noteq> [] \<and> itype \<notin> set income_types_counted then None
         else case ev_amount ev of
                None \<Rightarrow> None
              | Some a \<Rightarrow>
                  if a = 0 then None
                  else if ev_tran_id ev \<noteq> [] \<and> ev_tran_id ev \<in> seen_tran_ids L then None
                  else Some a)"

definition income_apply ::
    "(income_event \<Rightarrow> string option outcome) option \<Rightarrow> io \<Rightarrow> io \<Rightarrow> secs \<Rightarrow> income_event \<Rightarrow> decimal \<Rightarrow> ledger \<Rightarrow>
     ledger_error + ledger" where
  "income_apply lookup ior io now ev a L =
     (case update_pnl ior io now (attributed_to lookup ev) a (ev_tran_id ev) L of
        Inl e \<Rightarrow> Inl e
      | Inr (b, L') \<Rightarrow> Inr L')"

definition on_exchange_income_event ::
    "(income_event \<Rightarrow> string option outcome) option \<Rightarrow> io \<Rightarrow> io \<Rightarrow> secs \<Rightarrow> income_event \<Rightarrow> ledger \<Rightarrow>
     ledger_error + ledger" where
  "on_exchange_income_event lookup ior io now ev L =
     (case income_gate ev L of
        None \<Rightarrow> Inr L
      | Some a \<Rightarrow> income_apply lookup ior io now ev a L)"

subsection \<open>Reporting\<close>

record daily_report =
  rep_reset_ts :: secs
  total_budget :: decimal
  total_balance :: decimal
  halted_strategies :: "string set"
  per_strategy :: "(string, strategy_budget) dict"

definition get_daily_report :: "secs \<Rightarrow> ledger \<Rightarrow> daily_report" where
  "get_daily_report now L =
     \<lparr>rep_reset_ts = floor_utc_day now,
      total_budget = (\<Sum>(sid, b)\<leftarrow>budgets L. loss_budget b),
      total_balance = (\<Sum>(sid, b)\<leftarrow>budgets L. pnl_balance b),
      halted_strategies = set (map fst (filter (\<lambda>(sid, b). sb_halted b) (budgets L))),
      per_strategy = budgets L\<rparr>"

subsection \<open>Frame lemmas\<close>

lemma persist_frame [simp]:
  "budgets (persist io b L) = budgets L" "strategy_ids (persist io b L) = strategy_ids L"
  "seen_tran_ids (persist io b L) = seen_tran_ids L" "has_db (persist io b L) = has_db L"
  "ledger_started (persist io b L) = ledger_started L"
  "allocated_capital (persist io b L) = allocated_capital L"
  "budget_overrides (persist io b L) = budget_overrides L" "default_pct (persist io b L) = default_pct L"
  by (simp_all add: persist_def write_json_fallback_def Let_def)

lemma fresh_budget_cong:
  "allocated_capital L' = allocated_capital L \<Longrightarrow> budget_overrides L' = budget_overrides L \<Longrightarrow>
   default_pct L' = default_pct L \<Longrightarrow> fresh_budget sid now L' = fresh_budget sid now L"
  by (cases "budget_overrides L sid") (simp_all add: fresh_budget_def budget_for_def allocated_of_def)

lemma fresh_budget_simps [simp]:
  "pnl_balance (fresh_budget sid now L) = 0" "\<not> sb_halted (fresh_budget sid now L)"
  "reset_ts (fresh_budget sid now L) = floor_utc_day now"
  "loss_budget (fresh_budget sid now L) = budget_for sid L" "sb_id (fresh_budget sid now L) = sid"
  by (simp_all add: fresh_budget_def)

lemma roll_one_frame [simp]:
  "strategy_ids (roll_one io now sid L) = strategy_ids L"
  "seen_tran_ids (roll_one io now sid L) = seen_tran_ids L" "has_db (roll_one io now sid L) = has_db L"
  "ledger_started (roll_one io now sid L) = ledger_started L"
  "allocated_capital (roll_one io now sid L) = allocated_capital L"
  "budget_overrides (roll_one io now sid L) = budget_overrides L"
  "default_pct (roll_one io now sid L) = default_pct L"
  "budgets (roll_one io now sid L) = AList.update sid (fresh_budget sid now L) (budgets L)"
  by (simp_all add: roll_one_def Let_def)

lemma fold_roll_frame:
  "strategy_ids (fold (roll_one io now) sids L) = strategy_ids L"
  "seen_tran_ids (fold (roll_one io now) sids L) = seen_tran_ids L"
  "ledger_started (fold (roll_one io now) sids L) = ledger_started L"
  "allocated_capital (fold (roll_one io now) sids L) = allocated_capital L"
  "budget_overrides (fold (roll_one io now) sids L) = budget_overrides L"
  "default_pct (fold (roll_one io now) sids L) = default_pct L"
  by (induction sids arbitrary: L) simp_all

lemma fold_roll_budgets:
  "map_of (budgets (fold (roll_one io now) sids L)) sid
     = (if sid \<in> set sids then Some (fresh_budget sid now L) else map_of (budgets L) sid)"
proof (induction sids arbitrary: L)
  case (Cons x sids)
  have "fresh_budget sid now (roll_one io now y L) = fresh_budget sid now L" for sid y
    by (rule fresh_budget_cong) simp_all
  with Cons show ?case by simp
qed simp

lemma reset_daily_budgets:
  "map_of (budgets (reset_daily io now L)) sid
     = (if sid \<in> set (strategy_ids L) then Some (fresh_budget sid now L) else map_of (budgets L) sid)"
  by (simp add: reset_daily_def fold_roll_budgets fresh_budget_cong [of "L\<lparr>seen_tran_ids := {}\<rparr>" L])

lemma used_of_nonneg [simp]: "0 \<le> used_of x"
  by (simp add: used_of_def)

lemma used_of_0 [simp]: "used_of 0 = 0"
  by (simp add: used_of_def)

lemma charge_simps [simp]:
  "pnl_balance (charge d b) = pnl_balance b + d" "loss_budget (charge d b) = loss_budget b"
  "sb_halted (charge d b) \<longleftrightarrow> sb_halted b \<or> loss_budget b \<le> used_of (pnl_balance b + d)"
  "reset_ts (charge d b) = reset_ts b" "sb_id (charge d b) = sb_id b"
  by (auto simp: charge_def Let_def)

text \<open>A started ledger tracks the catch-all bucket, and all its records start on one day.\<close>

definition ledger_wf :: "secs \<Rightarrow> ledger \<Rightarrow> bool" where
  "ledger_wf day L \<longleftrightarrow> uncategorized \<in> set (strategy_ids L)
     \<and> dom (map_of (budgets L)) = set (strategy_ids L)
     \<and> (\<forall>sid b. map_of (budgets L) sid = Some b \<longrightarrow> reset_ts b = day \<and> sb_id b = sid)"

definition balance_of :: "string \<Rightarrow> ledger \<Rightarrow> decimal" where
  "balance_of sid L = (case map_of (budgets L) sid of None \<Rightarrow> 0 | Some b \<Rightarrow> pnl_balance b)"

lemma wf_bucket:
  assumes "ledger_wf day L"
  obtains b where "map_of (budgets L) (bucket sid L) = Some b"
proof -
  have "bucket sid L \<in> dom (map_of (budgets L))"
    using assms by (auto simp: ledger_wf_def bucket_def dict_has_iff)
  then show ?thesis using that by auto
qed

lemma wf_record:
  "ledger_wf day L \<Longrightarrow> map_of (budgets L) sid = Some b \<Longrightarrow> reset_ts b = day \<and> sb_id b = sid"
  by (simp add: ledger_wf_def)

lemma wf_maybe_roll:
  assumes "ledger_wf day L"
  shows "maybe_roll_day io now L = (if day < floor_utc_day now then reset_daily io now L else L)"
proof (cases "budgets L")
  case Nil
  with assms show ?thesis by (auto simp: ledger_wf_def)
next
  case (Cons e rest)
  then have "map_of (budgets L) (fst e) = Some (snd e)" by (cases e) simp
  from wf_record [OF assms this] Cons show ?thesis
    by (cases e) (simp add: maybe_roll_day_def reset_daily_def)
qed

lemma wf_same_day:
  "ledger_wf (floor_utc_day now) L \<Longrightarrow> maybe_roll_day io now L = L"
  by (simp add: wf_maybe_roll)

lemma wf_update:
  assumes "ledger_wf day L" and "dict_has (budgets L) sid" and "reset_ts b = day" "sb_id b = sid"
    and "budgets L' = AList.update sid b (budgets L)" "strategy_ids L' = strategy_ids L"
  shows "ledger_wf day L'"
  using assms by (auto simp: ledger_wf_def dict_has_iff)

lemma update_pnl_same_day:
  assumes "ledger_wf (floor_utc_day now) L"
  obtains b L' where "map_of (budgets L) (bucket sid L) = Some b"
    and "update_pnl ior io now sid d t L = Inr (charge d b, L')"
    and "budgets L' = AList.update (bucket sid L) (charge d b) (budgets L)"
    and "seen_tran_ids L' = (if t = [] then seen_tran_ids L else insert t (seen_tran_ids L))"
    and "ledger_wf (floor_utc_day now) L'" and "strategy_ids L' = strategy_ids L"
proof -
  obtain b where b: "map_of (budgets L) (bucket sid L) = Some b" by (rule wf_bucket [OF assms])
  let ?L2 = "L\<lparr>budgets := AList.update (bucket sid L) (charge d b) (budgets L),
    seen_tran_ids := (if t = [] then seen_tran_ids L else insert t (seen_tran_ids L))\<rparr>"
  have "ledger_wf (floor_utc_day now) (persist io (charge d b) ?L2)"
    by (rule wf_update [OF assms, of "bucket sid L" "charge d b"])
      (use b wf_record [OF assms b] in \<open>simp_all add: dict_has_iff\<close>)
  moreover have "update_pnl ior io now sid d t L = Inr (charge d b, persist io (charge d b) ?L2)"
    by (simp add: update_pnl_def Let_def wf_same_day [OF assms] b)
  ultimately show ?thesis
    using that b by simp
qed

subsection \<open>Runs of income events within a day\<close>

definition counted :: "income_event \<Rightarrow> bool" where
  "counted ev \<longleftrightarrow> (ev_income_type ev = [] \<or> upper (ev_income_type ev) \<in> set income_types_counted)
     \<and> ev_amount ev \<noteq> None \<and> ev_amount ev \<noteq> Some 0"

definition amount_of :: "income_event \<Rightarrow> decimal" where
  "amount_of ev = (case ev_amount ev of None \<Rightarrow> 0 | Some a \<Rightarrow> a)"

text \<open>The counted events of a stream whose transaction id was not seen before.\<close>

fun unique_income :: "string set \<Rightarrow> income_event list \<Rightarrow> income_event list" where
  "unique_income seen [] = []"
| "unique_income seen (ev # evs) =
     (if counted ev \<and> (ev_tran_id ev = [] \<or> ev_tran_id ev \<notin> seen)
      then ev # unique_income (if ev_tran_id ev = [] then seen else insert (ev_tran_id ev) seen) evs
      else unique_income seen evs)"

text \<open>The handler over a stream of events, each with its own clock reading and write outcomes;
  an exception leaves the state as it was.\<close>

fun ingest ::
    "(income_event \<Rightarrow> string option outcome) option \<Rightarrow> (io \<times> io \<times> secs \<times> income_event) list \<Rightarrow> ledger \<Rightarrow> ledger"
  where
  "ingest lookup [] L = L"
| "ingest lookup ((ior, io, now, ev) # es) L =
     ingest lookup es (case on_exchange_income_event lookup ior io now ev L of Inl e \<Rightarrow> L | Inr L' \<Rightarrow> L')"

abbreviation events_of :: "(io \<times> io \<times> secs \<times> income_event) list \<Rightarrow> income_event list" where
  "events_of es \<equiv> map (\<lambda>(ior, io, now, ev). ev) es"

lemma upper_Nil [simp]: "upper s = [] \<longleftrightarrow> s = []"
  by (simp add: upper_def)

lemma income_gate_counted:
  "income_gate ev L = (if counted ev \<and> (ev_tran_id ev = [] \<or> ev_tran_id ev \<notin> seen_tran_ids L)
     then Some (amount_of ev) else None)"
  by (auto simp: income_gate_def counted_def amount_of_def Let_def split: option.splits)

lemma bucket_cong:
  "dom (map_of (budgets L')) = dom (map_of (budgets L)) \<Longrightarrow> bucket sid L' = bucket sid L"
  unfolding bucket_def dict_has_iff domIff [symmetric] by simp

lemma wf_keys_cong:
  "ledger_wf day L \<Longrightarrow> ledger_wf day' L' \<Longrightarrow> strategy_ids L' = strategy_ids L \<Longrightarrow> bucket sid L' = bucket sid L"
  by (rule bucket_cong) (simp add: ledger_wf_def)

lemma apply_same_day:
  assumes "ledger_wf (floor_utc_day now) L"
  obtains L' where "income_apply lookup ior io now ev a L = Inr L'"
    and "ledger_wf (floor_utc_day now) L'" and "strategy_ids L' = strategy_ids L"
    and "seen_tran_ids L' = (if ev_tran_id ev = [] then seen_tran_ids L
                             else insert (ev_tran_id ev) (seen_tran_ids L))"
    and "\<And>s. balance_of s L' = balance_of s L + (if s = bucket (attributed_to lookup ev) L then a else 0)"
    and "\<And>s. is_strategy_halted s L \<Longrightarrow> is_strategy_halted s L'"
proof -
  obtain b L' where b: "map_of (budgets L) (bucket (attributed_to lookup ev) L) = Some b"
    and u: "update_pnl ior io now (attributed_to lookup ev) a (ev_tran_id ev) L = Inr (charge a b, L')"
    and bs: "budgets L' = AList.update (bucket (attributed_to lookup ev) L) (charge a b) (budgets L)"
    and rest: "seen_tran_ids L' = (if ev_tran_id ev = [] then seen_tran_ids L
        else insert (ev_tran_id ev) (seen_tran_ids L))"
      "ledger_wf (floor_utc_day now) L'" "strategy_ids L' = strategy_ids L"
    by (rule update_pnl_same_day [OF assms])
  show ?thesis
  proof (rule that)
    show "income_apply lookup ior io now ev a L = Inr L'"
      by (simp add: income_apply_def u)
    show "balance_of s L' = balance_of s L + (if s = bucket (attributed_to lookup ev) L then a else 0)" for s
      using b by (simp add: balance_of_def bs)
    show "is_strategy_halted s L'" if "is_strategy_halted s L" for s
      using that b by (auto simp: is_strategy_halted_def bs)
  qed (use rest in simp_all)
qed

lemma ingest_day:
  assumes "\<forall>(ior, io, now, ev) \<in> set es. floor_utc_day now = day" and "ledger_wf day L"
  shows "ledger_wf day (ingest lookup es L) \<and>
    balance_of s (ingest lookup es L) = balance_of s L
      + (\<Sum>ev\<leftarrow>filter (\<lambda>ev. bucket (attributed_to lookup ev) L = s)
            (unique_income (seen_tran_ids L) (events_of es)). amount_of ev) \<and>
    (is_strategy_halted s L \<longrightarrow> is_strategy_halted s (ingest lookup es L))"
  using assms
proof (induction es arbitrary: L)
  case (Cons e es)
  obtain ior io now ev where e: "e = (ior, io, now, ev)" by (cases e)
  have day: "floor_utc_day now = day" and rest: "\<forall>(ior, io, now, ev) \<in> set es. floor_utc_day now = day"
    using Cons.prems(1) by (auto simp: e)
  show ?case
  proof (cases "counted ev \<and> (ev_tran_id ev = [] \<or> ev_tran_id ev \<notin> seen_tran_ids L)")
    case True
    obtain L' where L': "income_apply lookup ior io now ev (amount_of ev) L = Inr L'"
      and wf: "ledger_wf day L'" "strategy_ids L' = strategy_ids L"
      and seen: "seen_tran_ids L' = (if ev_tran_id ev = [] then seen_tran_ids L
          else insert (ev_tran_id ev) (seen_tran_ids L))"
      and bal: "\<And>s. balance_of s L' = balance_of s L
          + (if s = bucket (attributed_to lookup ev) L then amount_of ev else 0)"
      and halt: "\<And>s. is_strategy_halted s L \<Longrightarrow> is_strategy_halted s L'"
      using apply_same_day [of now L] Cons.prems(2) unfolding day by metis
    have bk: "bucket x L' = bucket x L" for x
      by (rule wf_keys_cong [OF Cons.prems(2) wf])
    from Cons.IH [OF rest wf(1)] True show ?thesis
      by (auto simp: e on_exchange_income_event_def income_gate_counted L' seen bal bk halt)
  next
    case False
    with Cons.IH [OF rest Cons.prems(2)] show ?thesis
      by (auto simp: e on_exchange_income_event_def income_gate_counted)
  qed
qed simp

lemma unique_income_unseen:
  "ev \<in> set (unique_income seen evs) \<Longrightarrow> ev_tran_id ev \<noteq> [] \<Longrightarrow> ev_tran_id ev \<notin> seen"
  by (induction seen evs rule: unique_income.induct) (auto split: if_splits)

lemma unique_income_distinct:
  "distinct (filter (\<lambda>t. t \<noteq> []) (map ev_tran_id (unique_income seen evs)))"
  by (induction seen evs rule: unique_income.induct) (auto dest: unique_income_unseen)

lemma map_of_load_from_db:
  "map_of (load_from_db day L) sid = map_option (\<lambda>r.
     \<lparr>sb_id = sid, loss_budget = row_budget r, pnl_balance = row_balance r, reset_ts = row_reset_ts r,
      sb_halted = row_halted r, sb_allocated = allocated_of sid L, halt_events = 0\<rparr>)
     (map_of (db_rows (store L)) (day, sid))"
proof -
  have "map_of (map (\<lambda>((d, sid), r). (sid, f sid r)) (filter (\<lambda>((d, sid), r). d = day) rs)) sid
      = map_option (f sid) (map_of rs (day, sid))" for f :: "string \<Rightarrow> db_row \<Rightarrow> strategy_budget" and rs
    by (induction rs) auto
  then show ?thesis unfolding load_from_db_def .
qed

lemma map_of_fold_update:
  "map_of (fold (\<lambda>k. AList.update k (f k)) ks d) k = (if k \<in> set ks then Some (f k) else map_of d k)"
  by (induction ks arbitrary: d) simp_all

definition restart_of :: "ledger \<Rightarrow> ledger" where
  "restart_of L = L\<lparr>budgets := [], seen_tran_ids := {}, ledger_started := False\<rparr>"

lemma start_from_db:
  assumes "has_db L" and "sid \<in> set (strategy_ids L)"
    and "map_of (db_rows (store L)) (utc_date (floor_utc_day now), sid) = Some r"
  shows "is_strategy_halted sid (start True now (restart_of L)) = row_halted r"
    and "balance_of sid (start True now (restart_of L)) = row_balance r"
proof -
  let ?L = "restart_of L"
  have r: "map_of (load_from_db (utc_date (floor_utc_day now)) ?L) sid = Some
     \<lparr>sb_id = sid, loss_budget = row_budget r, pnl_balance = row_balance r, reset_ts = row_reset_ts r,
      sb_halted = row_halted r, sb_allocated = allocated_of sid ?L, halt_events = 0\<rparr>"
    using assms(3) by (simp add: map_of_load_from_db restart_of_def)
  then have ne: "load_from_db (utc_date (floor_utc_day now)) ?L \<noteq> []"
    by auto
  have fields: "has_db ?L" "sid \<in> set (strategy_ids ?L)" "\<not> ledger_started ?L"
    using assms by (simp_all add: restart_of_def)
  show "is_strategy_halted sid (start True now ?L) = row_halted r"
    and "balance_of sid (start True now ?L) = row_balance r"
    using fields ne r by (simp_all add: start_def Let_def is_strategy_halted_def balance_of_def map_of_fold_update)
qed

lemma check_halted_bucket: "is_strategy_halted sid L \<Longrightarrow> \<not> check_remaining sid worst L"
  by (auto simp: is_strategy_halted_def check_remaining_def bucket_def dict_has_iff split: option.splits)

lemma remaining_zero: "remaining_usd b = 0 \<longleftrightarrow> loss_budget b \<le> used_of (pnl_balance b)"
  by (auto simp: remaining_usd_def)

lemma wf_ids: "ledger_wf day L \<Longrightarrow> map_of (budgets L) sid \<noteq> None \<longleftrightarrow> sid \<in> set (strategy_ids L)"
  by (auto simp: ledger_wf_def)

lemma reset_frame [simp]: "strategy_ids (reset_daily io now L) = strategy_ids L"
  by (simp add: reset_daily_def fold_roll_frame)

lemma reset_wf:
  assumes "ledger_wf day L"
  shows "ledger_wf (floor_utc_day now) (reset_daily io now L)"
proof -
  have "map_of (budgets (reset_daily io now L)) sid
      = (if sid \<in> set (strategy_ids L) then Some (fresh_budget sid now L) else None)" for sid
    using wf_ids [OF assms, of sid] by (auto simp: reset_daily_budgets)
  then show ?thesis
    using assms by (auto simp: ledger_wf_def split: if_splits)
qed

lemma budget_for_reset [simp]: "budget_for sid (reset_daily io now L) = budget_for sid L"
  using fresh_budget_cong [of "reset_daily io now L" L sid 0]
  by (simp add: reset_daily_def fold_roll_frame fresh_budget_def)

text \<open>The duplicate test runs before the await of the strategy lookup and the id is recorded after
  it: two deliveries of one event that both pass the test before either is applied count twice,
  while a second delivery after the first has been applied is dropped.\<close>

lemma duplicate_delivery_race:
  assumes "ledger_wf day L" and "floor_utc_day now1 = day" and "floor_utc_day now2 = day"
    and "ev_tran_id ev \<noteq> []" and "income_gate ev L = Some a"
  shows "\<exists>L1 L2. income_apply lookup ior io now1 ev a L = Inr L1
      \<and> income_apply lookup ior io now2 ev a L1 = Inr L2
      \<and> balance_of (bucket (attributed_to lookup ev) L) L2
          = balance_of (bucket (attributed_to lookup ev) L) L + 2 * a
      \<and> on_exchange_income_event lookup ior io now2 ev L1 = Inr L1"
proof -
  have wf: "ledger_wf (floor_utc_day now1) L" using assms by simp
  obtain L1 where L1: "income_apply lookup ior io now1 ev a L = Inr L1"
      "ledger_wf (floor_utc_day now1) L1" "strategy_ids L1 = strategy_ids L"
      "seen_tran_ids L1 = (if ev_tran_id ev = [] then seen_tran_ids L
         else insert (ev_tran_id ev) (seen_tran_ids L))"
      "\<And>s. balance_of s L1 = balance_of s L + (if s = bucket (attributed_to lookup ev) L then a else 0)"
    using apply_same_day [OF wf, where lookup = lookup and ior = ior and io = io and ev = ev and a = a]
    by metis
  have wf1: "ledger_wf (floor_utc_day now2) L1" using L1(2) assms by simp
  obtain L2 where L2: "income_apply lookup ior io now2 ev a L1 = Inr L2"
      "\<And>s. balance_of s L2 = balance_of s L1 + (if s = bucket (attributed_to lookup ev) L1 then a else 0)"
    using apply_same_day [OF wf1, where lookup = lookup and ior = ior and io = io and ev = ev and a = a]
    by metis
  have "bucket (attributed_to lookup ev) L1 = bucket (attributed_to lookup ev) L"
    by (rule wf_keys_cong [OF wf L1(2,3)])
  then show ?thesis
    using assms(4) L1 L2 by (auto simp: on_exchange_income_event_def income_gate_counted)
qed

subsection \<open>Properties\<close>

text \<open>C16. Income is charged to one strategy and nothing cascades: on a well-formed ledger whose
  records start on \<open>day\<close>, \<open>update_pnl\<close> first replaces every record by a fresh one when the
  clock has passed midnight, then adds the amount to the one bucket the strategy maps to
  (\<open>uncategorized\<close> when it is not tracked), which is halted afterwards exactly when it already
  was or nothing of its budget remains; the record of every other strategy is left as it was.\<close>

theorem income_charges_one_strategy:
  assumes "ledger_wf day L"
  shows "\<exists>b L'. update_pnl ior io now strategy d tran L = Inr (b, L') \<and> ledger_wf (max day (floor_utc_day now)) L'
    \<and> (\<forall>s. map_of (budgets L') s =
          (if s = bucket strategy L then Some b
           else if day < floor_utc_day now \<and> s \<in> set (strategy_ids L) then Some (fresh_budget s now L)
           else map_of (budgets L) s))
    \<and> pnl_balance b = (if day < floor_utc_day now then 0 else balance_of (bucket strategy L) L) + d
    \<and> (sb_halted b \<longleftrightarrow> (day \<ge> floor_utc_day now \<and> is_strategy_halted (bucket strategy L) L)
          \<or> remaining_usd b = 0)"
proof -
  let ?L1 = "if day < floor_utc_day now then reset_daily ior now L else L"
  have wf1: "ledger_wf (max day (floor_utc_day now)) ?L1"
    using assms reset_wf [OF assms] by (auto simp: max_def)
  have bk: "bucket strategy ?L1 = bucket strategy L"
    by (rule wf_keys_cong [OF assms wf1]) simp
  obtain b0 where b0: "map_of (budgets ?L1) (bucket strategy L) = Some b0"
    using wf_bucket [OF wf1, of strategy] bk by auto
  let ?b = "charge d b0"
  let ?L2 = "?L1\<lparr>budgets := AList.update (bucket strategy L) ?b (budgets ?L1),
    seen_tran_ids := (if tran = [] then seen_tran_ids ?L1 else insert tran (seen_tran_ids ?L1))\<rparr>"
  have u: "update_pnl ior io now strategy d tran L = Inr (?b, persist io ?b ?L2)"
    unfolding update_pnl_def wf_maybe_roll [OF assms] Let_def bk b0 by simp
  have wf2: "ledger_wf (max day (floor_utc_day now)) (persist io ?b ?L2)"
    by (rule wf_update [OF wf1, of "bucket strategy L" ?b])
      (use b0 wf_record [OF wf1 b0] in \<open>simp_all add: dict_has_iff\<close>)
  have in_ids: "bucket strategy L \<in> set (strategy_ids L)"
    using wf_bucket [OF assms, of strategy] wf_ids [OF assms, of "bucket strategy L"] by auto
  show ?thesis
  proof (intro exI conjI allI)
    show "update_pnl ior io now strategy d tran L = Inr (?b, persist io ?b ?L2)" by (rule u)
    show "ledger_wf (max day (floor_utc_day now)) (persist io ?b ?L2)" by (rule wf2)
    show "map_of (budgets (persist io ?b ?L2)) s =
        (if s = bucket strategy L then Some ?b
         else if day < floor_utc_day now \<and> s \<in> set (strategy_ids L) then Some (fresh_budget s now L)
         else map_of (budgets L) s)" for s
      by (simp add: reset_daily_budgets)
    show "pnl_balance ?b = (if day < floor_utc_day now then 0 else balance_of (bucket strategy L) L) + d"
      using b0 in_ids by (auto simp: reset_daily_budgets balance_of_def split: if_splits)
    show "sb_halted ?b \<longleftrightarrow> (day \<ge> floor_utc_day now \<and> is_strategy_halted (bucket strategy L) L)
        \<or> remaining_usd ?b = 0"
      using b0 in_ids by (auto simp: reset_daily_budgets is_strategy_halted_def remaining_zero split: if_splits)
  qed
qed

text \<open>A started ledger for the witnesses: one strategy with 100 USD of capital per percent.\<close>

definition ex_store :: storage where
  "ex_store = \<lparr>db_rows = [], json_files = []\<rparr>"

definition all_ok :: io where
  "all_ok = \<lparr>db_ok = (\<lambda>_. True), file_ok = (\<lambda>_. True)\<rparr>"

definition ex_ledger :: ledger where
  "ex_ledger = start True 0 (ledger_new [''arb''] [''arb'' \<mapsto> 5000] Map.empty 2 True ex_store)"

lemma ex_times: "floor_utc_day 5 = 0" "floor_utc_day 9 = 0"
  by (simp_all add: floor_utc_day_def utc_date_def floor_eq_iff)

lemma ex_ledger_wf: "ledger_wf 0 ex_ledger"
  by (auto simp: ledger_wf_def ex_ledger_def start_def ledger_new_def ex_store_def Let_def uncategorized_def
      load_from_db_def load_from_json_def dict_get_def fresh_budget_def floor_utc_day_def utc_date_def)

theorem income_charges_one_strategy_witness:
  "\<exists>b L'. update_pnl all_ok all_ok 5 ''arb'' (-100) ''t1'' ex_ledger = Inr (b, L')
     \<and> ledger_wf (max 0 (floor_utc_day 5)) L'"
  using income_charges_one_strategy [OF ex_ledger_wf, of all_ok all_ok 5 "''arb''" "-100" "''t1''"] by blast

text \<open>C17. Within a day the balance of a strategy is the exchange's account of it: after any stream
  of income events, with any write failures and any lookup answers, it is the balance before
  plus the sum of the amounts of the counted events attributed to the strategy, each non-empty
  transaction id at most once; and a strategy that is halted stays halted.\<close>

theorem balance_is_sum_of_unique_income:
  assumes "ledger_wf day L" and "\<forall>(ior, io, now, ev) \<in> set es. floor_utc_day now = day"
  shows "balance_of s (ingest lookup es L) = balance_of s L
      + (\<Sum>ev\<leftarrow>filter (\<lambda>ev. bucket (attributed_to lookup ev) L = s)
            (unique_income (seen_tran_ids L) (events_of es)). amount_of ev)
    \<and> distinct (filter (\<lambda>t. t \<noteq> []) (map ev_tran_id (unique_income (seen_tran_ids L) (events_of es))))
    \<and> (\<forall>ev \<in> set (unique_income (seen_tran_ids L) (events_of es)).
          ev_tran_id ev \<noteq> [] \<longrightarrow> ev_tran_id ev \<notin> seen_tran_ids L)
    \<and> (is_strategy_halted s L \<longrightarrow> is_strategy_halted s (ingest lookup es L))"
  using ingest_day [OF assms(2,1)] unique_income_distinct unique_income_unseen by blast

definition ex_income :: "decimal \<Rightarrow> string \<Rightarrow> income_event" where
  "ex_income a t = \<lparr>ev_income_type = ''COMMISSION'', ev_amount = Some a, ev_tran_id = t, ev_strategy_id = ''arb''\<rparr>"

theorem balance_is_sum_of_unique_income_witness:
  "balance_of ''arb'' (ingest None [(all_ok, all_ok, 5, ex_income (-3) ''t1''), (all_ok, all_ok, 9, ex_income (-3) ''t1'')]
     ex_ledger) = balance_of ''arb'' ex_ledger
      + (\<Sum>ev\<leftarrow>filter (\<lambda>ev. bucket (attributed_to None ev) ex_ledger = ''arb'')
            (unique_income (seen_tran_ids ex_ledger) [ex_income (-3) ''t1'', ex_income (-3) ''t1'']). amount_of ev)"
  using balance_is_sum_of_unique_income [OF ex_ledger_wf,
      of "[(all_ok, all_ok, 5, ex_income (-3) ''t1''), (all_ok, all_ok, 9, ex_income (-3) ''t1'')]" "''arb''" None]
  by (simp add: ex_times del: ingest.simps unique_income.simps)

text \<open>A halt lasts exactly until the reset: once a strategy is halted, no stream of income events
  of the same day lets it trade again, whatever the loss it asks for; after a reset it may
  trade a worst-case loss exactly when that is smaller than its whole budget, so a strategy
  with an empty budget never may.\<close>

lemma budget_halt_lasts_until_reset:
  assumes "ledger_wf day L" and "\<forall>(ior, io, now, ev) \<in> set es. floor_utc_day now = day"
    and "is_strategy_halted s L"
  shows "\<not> check_remaining s worst (ingest lookup es L)
    \<and> (check_remaining s worst (reset_daily io' now' (ingest lookup es L))
        \<longleftrightarrow> \<bar>worst\<bar> < budget_for s (ingest lookup es L))"
proof -
  let ?L = "ingest lookup es L"
  have halted: "is_strategy_halted s ?L" and wf: "ledger_wf day ?L"
    using ingest_day [OF assms(2,1)] assms(3) by blast+
  have "s \<in> set (strategy_ids ?L)"
    using halted wf_ids [OF wf, of s] by (auto simp: is_strategy_halted_def split: option.splits)
  then show ?thesis
    using check_halted_bucket [OF halted]
    by (auto simp: check_remaining_def bucket_def dict_has_iff reset_daily_budgets used_of_def)
qed

text \<open>The same ledger restarted over a row that says the strategy is halted.\<close>

definition ex_halted_ledger :: ledger where
  "ex_halted_ledger = start True 0 (ledger_new [''arb''] [''arb'' \<mapsto> 5000] Map.empty 2 True
     \<lparr>db_rows = [((0, ''arb''), \<lparr>row_budget = 100, row_balance = -120, row_reset_ts = 0, row_halted = True\<rparr>)],
      json_files = []\<rparr>)"

lemma ex_halted_ledger_wf: "ledger_wf 0 ex_halted_ledger" "is_strategy_halted ''arb'' ex_halted_ledger"
  by (auto simp: ledger_wf_def ex_halted_ledger_def start_def ledger_new_def Let_def uncategorized_def
      load_from_db_def fresh_budget_def floor_utc_day_def utc_date_def is_strategy_halted_def)

lemma budget_halt_lasts_until_reset_witness:
  "\<not> check_remaining ''arb'' 0 (ingest None [(all_ok, all_ok, 5, ex_income 500 ''t2'')] ex_halted_ledger)"
  using budget_halt_lasts_until_reset [OF ex_halted_ledger_wf(1) _ ex_halted_ledger_wf(2),
      of "[(all_ok, all_ok, 5, ex_income 500 ''t2'')]" 0 None]
  by (simp add: ex_times del: ingest.simps)

text \<open>A restart on the same day trusts the database: when the write of an update reached the
  database, the restarted ledger has the balance and the halt flag the update left; when it
  did not, although the record then went to the JSON file, the restarted ledger has the
  balance and the flag of the older row of the database wherever there is one.\<close>

lemma restart_trusts_the_database:
  assumes "ledger_wf day L" and "has_db L" and "floor_utc_day now = day" and "floor_utc_day now' = day"
    and "update_pnl ior io now strategy d tran L = Inr (b, L')"
  shows "let sid = bucket strategy L; L2 = start True now' (restart_of L') in
     (db_ok io sid \<longrightarrow> balance_of sid L2 = pnl_balance b \<and> is_strategy_halted sid L2 = sb_halted b)
   \<and> (\<not> db_ok io sid \<longrightarrow> (\<forall>r. map_of (db_rows (store L)) (utc_date day, sid) = Some r \<longrightarrow>
         balance_of sid L2 = row_balance r \<and> is_strategy_halted sid L2 = row_halted r))"
proof -
  let ?sid = "bucket strategy L"
  have wf: "ledger_wf (floor_utc_day now) L" using assms by simp
  obtain b0 where b0: "map_of (budgets L) ?sid = Some b0" by (rule wf_bucket [OF assms(1)])
  then have rec: "reset_ts b0 = day" "sb_id b0 = ?sid"
    using wf_record [OF assms(1)] by auto
  let ?L2 = "L\<lparr>budgets := AList.update ?sid (charge d b0) (budgets L),
    seen_tran_ids := (if tran = [] then seen_tran_ids L else insert tran (seen_tran_ids L))\<rparr>"
  have L': "b = charge d b0" "L' = persist io (charge d b0) ?L2"
    using assms(5) unfolding update_pnl_def Let_def wf_same_day [OF wf] b0 by auto
  have side: "has_db L'" "?sid \<in> set (strategy_ids L')"
    using assms(2) wf_ids [OF assms(1), of ?sid] b0 by (simp_all add: L')
  have row: "map_of (db_rows (store L')) (utc_date day, ?sid) =
      (if db_ok io ?sid then Some \<lparr>row_budget = loss_budget b, row_balance = pnl_balance b,
         row_reset_ts = (case map_of (db_rows (store L)) (utc_date day, ?sid) of None \<Rightarrow> day | Some r \<Rightarrow> row_reset_ts r),
         row_halted = sb_halted b\<rparr>
       else map_of (db_rows (store L)) (utc_date day, ?sid))"
    using assms(2) rec(1)
    by (simp add: L' persist_def write_json_fallback_def upsert_def rec(2) Let_def del: charge_simps(3)
        split: option.split)
  show ?thesis
    unfolding Let_def using row start_from_db [OF side, of now'] assms(4) by simp
qed

lemma restart_trusts_the_database_witness:
  "\<exists>b L'. update_pnl all_ok (all_ok\<lparr>db_ok := (\<lambda>_. False)\<rparr>) 5 ''arb'' (-1) ''t9'' ex_halted_ledger = Inr (b, L')
     \<and> (let sid = bucket ''arb'' ex_halted_ledger; L2 = start True 9 (restart_of L') in
         \<forall>r. map_of (db_rows (store ex_halted_ledger)) (0, sid) = Some r \<longrightarrow> balance_of sid L2 = row_balance r)"
proof -
  obtain b L' where u: "update_pnl all_ok (all_ok\<lparr>db_ok := (\<lambda>_. False)\<rparr>) 5 ''arb'' (-1) ''t9'' ex_halted_ledger
      = Inr (b, L')"
    using update_pnl_same_day [of 5 ex_halted_ledger] ex_halted_ledger_wf(1) ex_times by metis
  have "has_db ex_halted_ledger"
    by (simp add: ex_halted_ledger_def start_def ledger_new_def Let_def)
  from restart_trusts_the_database [OF ex_halted_ledger_wf(1) this ex_times(1) ex_times(2) u] u show ?thesis
    by (auto simp: Let_def utc_date_def)
qed

end
