(* ===== verification/Journal.thy ===== *)
theory Journal
  imports Interfaces
begin

text \<open>
  \<open>engine/src/execution/journal.py\<close>: the hash-chained execution journal.  The SQLite file is
  \<open>journal_db\<close> (the rows in \<open>seq\<close> order and the last number AUTOINCREMENT gave out); no
  operation deletes or changes a row.  Parameters: \<open>H\<close>, the hex digest of SHA-256, and the
  JSON codec (\<open>json.dumps\<close> with sorted keys, \<open>json.loads\<close>, and the dictionary
  \<open>{"__raw__": text}\<close> that replay builds from text that does not parse).  The environment
  flag is an argument of each call because the code reads it on each call.  Each call holds
  the lock while it computes the hash and writes, so it is one step.  The two SQLite back
  ends (aiosqlite, sqlite3 in a thread) write the same rows; metrics and logs are left out.
\<close>

record event_row =
  row_seq :: nat
  ts_ms :: int
  order_id :: string
  row_state :: string
  payload_json :: string
  prev_hash :: string
  self_hash :: string

record 'p execution_event =
  ev_seq :: nat
  ev_ts_ms :: int
  ev_order_id :: string
  ev_state :: string
  ev_payload :: 'p
  ev_prev_hash :: string
  ev_self_hash :: string

record journal_db =
  rows :: "event_row list"
  last_seq :: nat

record journal =
  db :: "journal_db option"
  started :: bool
  last_hash :: string

record 'p json_codec =
  dumps :: "'p \<Rightarrow> string"
  loads :: "string \<Rightarrow> 'p option"
  raw_payload :: "string \<Rightarrow> 'p"
  empty_payload :: 'p

datatype journal_error = NoSuchTable

definition genesis :: string where
  "genesis = replicate 64 (CHR ''0'')"

definition noop_event :: "'p json_codec \<Rightarrow> 'p execution_event" where
  "noop_event c = \<lparr>ev_seq = 0, ev_ts_ms = 0, ev_order_id = '''', ev_state = ''NOOP'',
     ev_payload = empty_payload c, ev_prev_hash = genesis, ev_self_hash = genesis\<rparr>"

definition preimage :: "string \<Rightarrow> string \<Rightarrow> string \<Rightarrow> string \<Rightarrow> string" where
  "preimage prev oid st pj = prev @ ''|'' @ oid @ ''|'' @ st @ ''|'' @ pj"

definition compute_hash ::
    "(string \<Rightarrow> string) \<Rightarrow> string \<Rightarrow> string \<Rightarrow> string \<Rightarrow> string \<Rightarrow> string" where
  "compute_hash H prev oid st pj = H (preimage prev oid st pj)"

definition journal_new :: "journal_db option \<Rightarrow> journal" where
  "journal_new file = \<lparr>db = file, started = False, last_hash = genesis\<rparr>"

definition head_hash :: "event_row list \<Rightarrow> string" where
  "head_hash rs = (if rs = [] then genesis else self_hash (last rs))"

definition start :: "bool \<Rightarrow> journal \<Rightarrow> journal" where
  "start flag j =
     (if started j then j
      else if \<not> flag then j\<lparr>started := True\<rparr>
      else let d = (case db j of None \<Rightarrow> \<lparr>rows = [], last_seq = 0\<rparr> | Some d \<Rightarrow> d)
           in j\<lparr>db := Some d, last_hash := head_hash (rows d), started := True\<rparr>)"

definition stop :: "journal \<Rightarrow> journal" where
  "stop j = (if started j then j\<lparr>started := False\<rparr> else j)"

definition append_event ::
    "(string \<Rightarrow> string) \<Rightarrow> 'p json_codec \<Rightarrow> bool \<Rightarrow> int \<Rightarrow> string \<Rightarrow> string \<Rightarrow> 'p \<Rightarrow> journal \<Rightarrow>
     journal_error + 'p execution_event \<times> journal" where
  "append_event H c flag now oid st p j =
     (if \<not> flag then Inr (noop_event c, j)
      else let j1 = (if started j then j else start flag j);
               pj = dumps c p;
               prev = last_hash j1;
               h = compute_hash H prev oid st pj
           in case db j1 of
                None \<Rightarrow> Inl NoSuchTable
              | Some d \<Rightarrow>
                  let n = last_seq d + 1;
                      r = \<lparr>row_seq = n, ts_ms = now, order_id = oid, row_state = st,
                            payload_json = pj, prev_hash = prev, self_hash = h\<rparr>
                  in Inr (\<lparr>ev_seq = n, ev_ts_ms = now, ev_order_id = oid, ev_state = st,
                           ev_payload = p, ev_prev_hash = prev, ev_self_hash = h\<rparr>,
                          j1\<lparr>db := Some \<lparr>rows = rows d @ [r], last_seq = n\<rparr>,
                             last_hash := h\<rparr>))"

definition event_of_row :: "'p json_codec \<Rightarrow> event_row \<Rightarrow> 'p execution_event" where
  "event_of_row c r = \<lparr>ev_seq = row_seq r, ev_ts_ms = ts_ms r, ev_order_id = order_id r,
     ev_state = row_state r,
     ev_payload = (case loads c (payload_json r) of None \<Rightarrow> raw_payload c (payload_json r) | Some p \<Rightarrow> p),
     ev_prev_hash = prev_hash r, ev_self_hash = self_hash r\<rparr>"

definition replay ::
    "'p json_codec \<Rightarrow> bool \<Rightarrow> int option \<Rightarrow> string option \<Rightarrow> journal \<Rightarrow>
     journal_error + 'p execution_event list \<times> journal" where
  "replay c flag since oid j =
     (if \<not> flag then Inr ([], j)
      else let j1 = (if started j then j else start flag j)
           in case db j1 of
                None \<Rightarrow> Inl NoSuchTable
              | Some d \<Rightarrow>
                  Inr (map (event_of_row c)
                         (filter (\<lambda>r. (case since of None \<Rightarrow> True | Some t \<Rightarrow> t \<le> ts_ms r)
                                    \<and> (case oid of None \<Rightarrow> True | Some o' \<Rightarrow> order_id r = o'))
                           (rows d)), j1))"

fun verify_events :: "(string \<Rightarrow> string) \<Rightarrow> 'p json_codec \<Rightarrow> string \<Rightarrow> 'p execution_event list \<Rightarrow> bool" where
  "verify_events H c prev [] = True"
| "verify_events H c prev (e # es) =
     (if ev_prev_hash e \<noteq> prev then False
      else if compute_hash H (ev_prev_hash e) (ev_order_id e) (ev_state e) (dumps c (ev_payload e))
                \<noteq> ev_self_hash e then False
      else verify_events H c (ev_self_hash e) es)"

definition verify_chain ::
    "(string \<Rightarrow> string) \<Rightarrow> 'p json_codec \<Rightarrow> bool \<Rightarrow> journal \<Rightarrow> journal_error + bool" where
  "verify_chain H c flag j =
     (if \<not> flag then Inr True
      else case replay c flag None None j of
             Inl e \<Rightarrow> Inl e
           | Inr (es, j1) \<Rightarrow> Inr (verify_events H c genesis es))"

definition current_hash :: "bool \<Rightarrow> journal \<Rightarrow> string \<times> journal" where
  "current_hash flag j =
     (if \<not> flag then (genesis, j)
      else let j1 = (if started j then j else start flag j) in (last_hash j1, j1))"

subsection \<open>Chained rows\<close>

fun chained :: "(string \<Rightarrow> string) \<Rightarrow> string \<Rightarrow> event_row list \<Rightarrow> bool" where
  "chained H prev [] = True"
| "chained H prev (r # rs) =
     (prev_hash r = prev
      \<and> self_hash r = compute_hash H prev (order_id r) (row_state r) (payload_json r)
      \<and> chained H (self_hash r) rs)"

definition head_from :: "string \<Rightarrow> event_row list \<Rightarrow> string" where
  "head_from prev rs = (if rs = [] then prev else self_hash (last rs))"

lemma head_from_simps [simp]:
  "head_from prev [] = prev" "head_from prev (r # rs) = head_from (self_hash r) rs"
  "head_from prev (rs @ [r]) = self_hash r"
  by (simp_all add: head_from_def)

lemma head_hash_from: "head_hash rs = head_from genesis rs"
  by (simp add: head_hash_def head_from_def)

lemma chained_append:
  "chained H prev (rs @ rs') \<longleftrightarrow> chained H prev rs \<and> chained H (head_from prev rs) rs'"
  by (induction rs arbitrary: prev) auto

definition codec_stable :: "'p json_codec \<Rightarrow> bool" where
  "codec_stable c \<longleftrightarrow> (\<forall>p. \<exists>q. loads c (dumps c p) = Some q \<and> dumps c q = dumps c p)"

definition row_canonical :: "'p json_codec \<Rightarrow> event_row \<Rightarrow> bool" where
  "row_canonical c r \<longleftrightarrow> dumps c (ev_payload (event_of_row c r)) = payload_json r"

lemma canonical_dumps:
  "codec_stable c \<Longrightarrow> payload_json r = dumps c p \<Longrightarrow> row_canonical c r"
  unfolding codec_stable_def row_canonical_def event_of_row_def
  by (metis execution_event.simps(5) option.simps(5))

lemma verify_chained:
  "\<forall>r \<in> set rs. row_canonical c r \<Longrightarrow>
   verify_events H c prev (map (event_of_row c) rs) \<longleftrightarrow> chained H prev rs"
proof (induction rs arbitrary: prev)
  case (Cons r rs)
  then have "dumps c (ev_payload (event_of_row c r)) = payload_json r"
    by (simp add: row_canonical_def)
  with Cons show ?case by (auto simp: event_of_row_def)
qed simp

text \<open>What a database must satisfy: chained rows in canonical JSON, numbered upwards.\<close>

definition db_ok :: "(string \<Rightarrow> string) \<Rightarrow> 'p json_codec \<Rightarrow> journal_db \<Rightarrow> bool" where
  "db_ok H c d \<longleftrightarrow> chained H genesis (rows d) \<and> (\<forall>r \<in> set (rows d). row_canonical c r)
     \<and> sorted_wrt (<) (map row_seq (rows d)) \<and> (\<forall>r \<in> set (rows d). row_seq r \<le> last_seq d)"

definition journal_ok :: "(string \<Rightarrow> string) \<Rightarrow> 'p json_codec \<Rightarrow> journal \<Rightarrow> bool" where
  "journal_ok H c j \<longleftrightarrow>
     (case db j of None \<Rightarrow> \<not> started j
      | Some d \<Rightarrow> db_ok H c d \<and> (started j \<longrightarrow> last_hash j = head_hash (rows d)))"

definition rows_of :: "journal \<Rightarrow> event_row list" where
  "rows_of j = (case db j of None \<Rightarrow> [] | Some d \<Rightarrow> rows d)"

definition append_on ::
    "(string \<Rightarrow> string) \<Rightarrow> 'p json_codec \<Rightarrow> int \<Rightarrow> string \<Rightarrow> string \<Rightarrow> 'p \<Rightarrow> journal \<Rightarrow> journal" where
  "append_on H c now oid st p j =
     (case append_event H c True now oid st p j of Inl e \<Rightarrow> j | Inr (ev, j') \<Rightarrow> j')"

lemma start_ok: "journal_ok H c j \<Longrightarrow> journal_ok H c (start True j)"
  by (auto simp: journal_ok_def start_def Let_def db_ok_def head_hash_def split: option.splits)

lemma stop_ok: "journal_ok H c j \<Longrightarrow> journal_ok H c (stop j)"
  by (auto simp: journal_ok_def stop_def split: option.splits)

lemma start_ready: "journal_ok H c j \<Longrightarrow> started (start True j) \<and> db (start True j) \<noteq> None"
  by (auto simp: journal_ok_def start_def Let_def split: option.splits)

lemma rows_of_start [simp]: "rows_of (start flag j) = rows_of j"
  by (simp add: start_def rows_of_def Let_def split: option.split)

lemma rows_of_stop [simp]: "rows_of (stop j) = rows_of j"
  by (simp add: stop_def rows_of_def)

lemma append_on_ready:
  assumes "db j = Some d" and "started j"
  shows "db (append_on H c now oid st p j) =
      Some \<lparr>rows = rows d @ [\<lparr>row_seq = last_seq d + 1, ts_ms = now, order_id = oid, row_state = st,
              payload_json = dumps c p, prev_hash = last_hash j,
              self_hash = compute_hash H (last_hash j) oid st (dumps c p)\<rparr>],
            last_seq = last_seq d + 1\<rparr>"
    and "started (append_on H c now oid st p j)"
    and "last_hash (append_on H c now oid st p j) = compute_hash H (last_hash j) oid st (dumps c p)"
  using assms by (simp_all add: append_on_def append_event_def Let_def)

lemma append_on_start:
  "append_on H c now oid st p j = append_on H c now oid st p (start True j)" if "journal_ok H c j"
  using that
  by (auto simp: append_on_def append_event_def Let_def start_def journal_ok_def split: option.split)

lemma append_on_ok:
  assumes "codec_stable c" and "journal_ok H c j"
  shows "journal_ok H c (append_on H c now oid st p j)"
proof -
  let ?j = "start True j"
  have ok: "journal_ok H c ?j" by (rule start_ok [OF assms(2)])
  obtain d where d: "db ?j = Some d" "started ?j"
    using start_ready [OF assms(2)] by auto
  note a = append_on_ready [OF d, of H c now oid st p]
  have "db_ok H c d" "last_hash ?j = head_from genesis (rows d)"
    using ok d by (auto simp: journal_ok_def head_hash_from)
  then show ?thesis
    unfolding append_on_start [OF assms(2)] journal_ok_def a
    by (auto simp: db_ok_def chained_append sorted_wrt_append head_hash_from a(3) le_SucI less_Suc_eq_le
        intro!: canonical_dumps [OF assms(1)])
qed

lemma append_on_rows:
  assumes "journal_ok H c j"
  shows "map (\<lambda>r. (order_id r, row_state r)) (rows_of (append_on H c now oid st p j))
    = map (\<lambda>r. (order_id r, row_state r)) (rows_of j) @ [(oid, st)]"
proof -
  obtain d where d: "db (start True j) = Some d" "started (start True j)"
    using start_ready [OF assms] by auto
  then have "rows_of j = rows d"
    using rows_of_start [of True j] by (simp add: rows_of_def)
  then show ?thesis
    by (simp add: append_on_start [OF assms] rows_of_def append_on_ready [OF d])
qed

interpretation jlog: event_log "append_on H c now" "\<lambda>j. map (\<lambda>r. (order_id r, row_state r)) (rows_of j)"
    "\<lambda>j. codec_stable c \<and> journal_ok H c j"
  for H c now
  by unfold_locales (auto simp: append_on_rows append_on_ok)

lemma verify_ok:
  assumes "journal_ok H c j"
  shows "verify_chain H c True j = Inr True"
proof -
  obtain d where d: "db (start True j) = Some d" "started (start True j)"
    using start_ready [OF assms] by auto
  have "db_ok H c d"
    using start_ok [OF assms] d by (simp add: journal_ok_def)
  then have v: "verify_events H c genesis (map (event_of_row c) (rows d))"
    by (simp add: verify_chained db_ok_def)
  have "(if started j then j else start True j) = start True j"
    by (simp add: start_def)
  with d v show ?thesis
    by (simp add: verify_chain_def replay_def Let_def)
qed

subsection \<open>Runs\<close>

datatype 'p journal_call = CallStart | CallStop | CallAppend int string string 'p

fun journal_step ::
    "(string \<Rightarrow> string) \<Rightarrow> 'p json_codec \<Rightarrow> 'p journal_call \<Rightarrow> journal \<Rightarrow> journal" where
  "journal_step H c CallStart j = start True j"
| "journal_step H c CallStop j = stop j"
| "journal_step H c (CallAppend now oid st p) j = append_on H c now oid st p j"

fun appended :: "'p journal_call list \<Rightarrow> (string \<times> string) list" where
  "appended [] = []"
| "appended (CallAppend now oid st p # cs) = (oid, st) # appended cs"
| "appended (_ # cs) = appended cs"

lemma journal_step_ok:
  "codec_stable c \<Longrightarrow> journal_ok H c j \<Longrightarrow> journal_ok H c (journal_step H c call j)"
  by (cases call) (simp_all add: start_ok stop_ok append_on_ok)

lemma journal_run:
  assumes "codec_stable c" and "journal_ok H c j"
  shows "journal_ok H c (fold (journal_step H c) cs j)
    \<and> map (\<lambda>r. (order_id r, row_state r)) (rows_of (fold (journal_step H c) cs j))
        = map (\<lambda>r. (order_id r, row_state r)) (rows_of j) @ appended cs"
  using assms(2)
proof (induction cs arbitrary: j)
  case (Cons call cs)
  have ok: "journal_ok H c (journal_step H c call j)"
    by (rule journal_step_ok [OF assms(1) Cons.prems])
  show ?case
    using Cons.IH [OF ok] Cons.prems by (cases call) (simp_all add: append_on_rows)
qed simp

subsection \<open>Tampering\<close>

definition fields :: "event_row \<Rightarrow> string \<times> string \<times> string \<times> string \<times> string" where
  "fields r = (prev_hash r, order_id r, row_state r, payload_json r, self_hash r)"

definition no_bar :: "string \<Rightarrow> bool" where
  "no_bar s \<longleftrightarrow> CHR ''|'' \<notin> set s"

definition separable :: "event_row \<Rightarrow> bool" where
  "separable r \<longleftrightarrow> no_bar (order_id r) \<and> no_bar (row_state r)"

lemma split_at_first:
  "x \<notin> set a \<Longrightarrow> x \<notin> set b \<Longrightarrow> a @ x # u = b @ x # v \<longleftrightarrow> a = b \<and> u = v"
proof (induction a arbitrary: b)
  case Nil
  then show ?case by (cases b) auto
next
  case (Cons y a)
  then show ?case by (cases b) auto
qed

lemma preimage_inj:
  assumes "no_bar p" "no_bar o1" "no_bar s1" "no_bar p'" "no_bar o2" "no_bar s2"
  shows "preimage p o1 s1 j1 = preimage p' o2 s2 j2 \<longleftrightarrow> p = p' \<and> o1 = o2 \<and> s1 = s2 \<and> j1 = j2"
  using assms by (simp add: preimage_def no_bar_def split_at_first)

lemma head_no_bar:
  assumes "\<forall>x. no_bar (H x)" and "chained H genesis rs"
  shows "no_bar (head_from genesis rs)"
proof (cases rs rule: rev_cases)
  case Nil
  then show ?thesis by (simp add: genesis_def no_bar_def)
next
  case (snoc rs' r)
  with assms show ?thesis by (simp add: chained_append compute_hash_def)
qed

definition collision :: "(string \<Rightarrow> string) \<Rightarrow> bool" where
  "collision H \<longleftrightarrow> (\<exists>x y. x \<noteq> y \<and> H x = H y)"

definition hits_genesis :: "(string \<Rightarrow> string) \<Rightarrow> bool" where
  "hits_genesis H \<longleftrightarrow> (\<exists>x. H x = genesis)"

lemma chained_same_head:
  assumes hex: "\<forall>x. no_bar (H x)"
  shows "chained H genesis rs \<Longrightarrow> chained H genesis rs' \<Longrightarrow>
    \<forall>r \<in> set rs. separable r \<Longrightarrow> \<forall>r \<in> set rs'. separable r \<Longrightarrow>
    head_from genesis rs = head_from genesis rs' \<Longrightarrow>
    map fields rs = map fields rs' \<or> collision H \<or> hits_genesis H"
proof (induction rs arbitrary: rs' rule: rev_induct)
  case Nil
  show ?case
  proof (cases rs' rule: rev_cases)
    case (snoc rs1 r)
    with Nil.prems have "H (preimage (head_from genesis rs1) (order_id r) (row_state r)
        (payload_json r)) = genesis"
      by (simp add: chained_append compute_hash_def)
    then show ?thesis unfolding hits_genesis_def by blast
  qed simp
next
  case (snoc r rs)
  show ?case
  proof (cases rs' rule: rev_cases)
    case Nil
    with snoc.prems have "H (preimage (head_from genesis rs) (order_id r) (row_state r)
        (payload_json r)) = genesis"
      by (simp add: chained_append compute_hash_def)
    then show ?thesis unfolding hits_genesis_def by blast
  next
    case (snoc rs1 r')
    note prems = snoc.prems [unfolded snoc chained_append]
    let ?x = "preimage (head_from genesis rs) (order_id r) (row_state r) (payload_json r)"
    let ?y = "preimage (head_from genesis rs1) (order_id r') (row_state r') (payload_json r')"
    have h: "H ?x = H ?y"
      using prems by (simp add: compute_hash_def)
    show ?thesis
    proof (cases "?x = ?y")
      case False
      with h show ?thesis by (auto simp: collision_def)
    next
      case True
      have "no_bar (head_from genesis rs)" "no_bar (head_from genesis rs1)"
        using prems by (auto intro: head_no_bar [OF hex])
      with True prems have eq: "head_from genesis rs = head_from genesis rs1"
          "order_id r = order_id r'" "row_state r = row_state r'" "payload_json r = payload_json r'"
        by (auto simp: preimage_inj separable_def)
      have "map fields rs = map fields rs1 \<or> collision H \<or> hits_genesis H"
        using prems eq(1) by (intro snoc.IH) auto
      moreover have "fields r = fields r'"
        using prems eq by (simp add: fields_def)
      ultimately show ?thesis
        using snoc by auto
    qed
  qed
qed

subsection \<open>Properties\<close>


definition ex_hash :: "string \<Rightarrow> string" where
  "ex_hash s = filter (\<lambda>ch. ch \<noteq> CHR ''|'') s @ ''h''"

definition text_codec :: "string json_codec" where
  "text_codec = \<lparr>dumps = id, loads = Some, raw_payload = id, empty_payload = ''{}''\<rparr>"

lemma text_codec_stable: "codec_stable text_codec"
  by (simp add: codec_stable_def text_codec_def)


text \<open>The last hash pins the whole history: two databases that both pass the chain check and end
  in the same hash hold the same order ids, states, payloads and hashes in the same order,
  unless the digest has a collision or maps some text to the genesis value; provided the
  digest writes no bar and no order id or state contains one.\<close>

lemma last_hash_pins_history:
  assumes "\<forall>x. no_bar (H x)"
    and "chained H genesis rs" and "chained H genesis rs'"
    and "\<forall>r \<in> set rs. separable r" and "\<forall>r \<in> set rs'. separable r"
    and "head_hash rs = head_hash rs'"
  shows "map fields rs = map fields rs' \<or> (\<exists>x y. x \<noteq> y \<and> H x = H y) \<or> (\<exists>x. H x = genesis)"
  using chained_same_head [OF assms(1-5)] assms(6)
  by (simp add: head_hash_from collision_def hits_genesis_def)

definition ex_row :: "string \<Rightarrow> string \<Rightarrow> event_row" where
  "ex_row oid st = \<lparr>row_seq = 1, ts_ms = 0, order_id = oid, row_state = st, payload_json = ''{}'',
     prev_hash = genesis, self_hash = compute_hash ex_hash genesis oid st ''{}''\<rparr>"

lemma last_hash_pins_history_witness:
  "map fields [ex_row ''A'' ''SENT''] = map fields [ex_row ''A'' ''SENT'']
   \<or> (\<exists>x y. x \<noteq> y \<and> ex_hash x = ex_hash y) \<or> (\<exists>x. ex_hash x = genesis)"
proof (rule last_hash_pins_history)
  show "\<forall>x. no_bar (ex_hash x)"
    by (simp add: no_bar_def ex_hash_def)
  show "chained ex_hash genesis [ex_row ''A'' ''SENT'']"
    "chained ex_hash genesis [ex_row ''A'' ''SENT'']"
    by (simp_all add: ex_row_def)
  show "\<forall>r \<in> set [ex_row ''A'' ''SENT'']. separable r"
    "\<forall>r \<in> set [ex_row ''A'' ''SENT'']. separable r"
    by (simp_all add: separable_def no_bar_def ex_row_def)
qed simp

text \<open>Without that proviso tampering can pass: the fields are hashed with a plain bar between
  them, so moving text across the bar between order id and state keeps every hash, and for
  any digest and any prefix there are two databases with different order ids that both pass
  \<open>verify_chain\<close> with the same hashes.\<close>

lemma bar_in_order_id_defeats_chain:
  assumes "chained H genesis rs"
  shows "\<exists>r r'. chained H genesis (rs @ [r]) \<and> chained H genesis (rs @ [r'])
    \<and> order_id r \<noteq> order_id r' \<and> row_state r \<noteq> row_state r'
    \<and> prev_hash r = prev_hash r' \<and> self_hash r = self_hash r' \<and> payload_json r = payload_json r'"
proof -
  let ?row = "\<lambda>oid st. \<lparr>row_seq = 1, ts_ms = 0, order_id = oid, row_state = st, payload_json = ''{}'',
      prev_hash = head_from genesis rs,
      self_hash = compute_hash H (head_from genesis rs) oid st ''{}''\<rparr>"
  let ?r = "?row ''A|B'' ''C''" and ?r' = "?row ''A'' ''B|C''"
  have "chained H genesis (rs @ [?r]) \<and> chained H genesis (rs @ [?r'])
    \<and> order_id ?r \<noteq> order_id ?r' \<and> row_state ?r \<noteq> row_state ?r'
    \<and> prev_hash ?r = prev_hash ?r' \<and> self_hash ?r = self_hash ?r' \<and> payload_json ?r = payload_json ?r'"
    using assms by (simp add: chained_append compute_hash_def preimage_def)
  then show ?thesis by blast
qed

lemma bar_in_order_id_defeats_chain_witness:
  "\<exists>r r'. chained ex_hash genesis [r] \<and> chained ex_hash genesis [r']
    \<and> order_id r \<noteq> order_id r' \<and> self_hash r = self_hash r'"
  using bar_in_order_id_defeats_chain [of ex_hash "[]"] by auto

text \<open>A journal that is started while its flag is off never loads the last hash: if the flag is
  turned on later (the code reads it on every call), the next append over a database that
  already holds events links to the genesis value and \<open>verify_chain\<close> fails from then on.\<close>

lemma late_flag_breaks_chain:
  assumes "codec_stable c" and "db_ok H c d" and "head_hash (rows d) \<noteq> genesis"
  shows "verify_chain H c True
    (append_on H c now oid st p (start False (journal_new (Some d)))) = Inr False"
proof -
  let ?j = "start False (journal_new (Some d))"
  have j: "db ?j = Some d" "started ?j" "last_hash ?j = genesis"
    by (simp_all add: start_def journal_new_def)
  note a = append_on_ready [OF j(1,2), of H c now oid st p]
  let ?r = "\<lparr>row_seq = last_seq d + 1, ts_ms = now, order_id = oid, row_state = st,
     payload_json = dumps c p, prev_hash = last_hash ?j,
     self_hash = compute_hash H (last_hash ?j) oid st (dumps c p)\<rparr>"
  have "\<not> chained H genesis (rows d @ [?r])"
    using assms(3) by (simp add: chained_append j(3) head_hash_from)
  moreover have "\<forall>r \<in> set (rows d @ [?r]). row_canonical c r"
    using assms(2) by (auto simp: db_ok_def intro!: canonical_dumps [OF assms(1)])
  ultimately have "\<not> verify_events H c genesis (map (event_of_row c) (rows d @ [?r]))"
    by (simp only: verify_chained not_False_eq_True)
  then show ?thesis
    using a(1,2) by (simp add: verify_chain_def replay_def)
qed

lemma late_flag_breaks_chain_witness:
  "verify_chain ex_hash text_codec True (append_on ex_hash text_codec 5 ''B'' ''SENT'' ''{}''
     (start False (journal_new (Some \<lparr>rows = [ex_row ''A'' ''SENT''], last_seq = 1\<rparr>)))) = Inr False"
proof (rule late_flag_breaks_chain [OF text_codec_stable])
  show "db_ok ex_hash text_codec \<lparr>rows = [ex_row ''A'' ''SENT''], last_seq = 1\<rparr>"
    by (simp add: db_ok_def row_canonical_def event_of_row_def text_codec_def ex_row_def)
  show "head_hash (rows \<lparr>rows = [ex_row ''A'' ''SENT''], last_seq = 1\<rparr>) \<noteq> genesis"
    by (simp add: head_hash_def ex_row_def compute_hash_def ex_hash_def preimage_def genesis_def
        numeral_eq_Suc)
qed

end
