(* ===== verification/OrderState.thy ===== *)
theory OrderState
  imports Journal
begin

text \<open>
  \<open>engine/src/execution/order_state.py\<close>: the nine-state order life cycle over the execution
  journal.  \<open>sm_flag\<close> and \<open>j_flag\<close> are the two environment flags at the time of the call; a
  result is \<open>Inl\<close> of the exception or \<open>Inr\<close> of the returned value and the journal after it.
\<close>

datatype order_state =
  PENDING | SENT | ACKED | PARTIAL | FILLED | CANCELLED | REJECTED | ROLLED_BACK | STRANDED

fun state_value :: "order_state \<Rightarrow> string" where
  "state_value PENDING = ''PENDING''"
| "state_value SENT = ''SENT''"
| "state_value ACKED = ''ACKED''"
| "state_value PARTIAL = ''PARTIAL''"
| "state_value FILLED = ''FILLED''"
| "state_value CANCELLED = ''CANCELLED''"
| "state_value REJECTED = ''REJECTED''"
| "state_value ROLLED_BACK = ''ROLLED_BACK''"
| "state_value STRANDED = ''STRANDED''"

definition all_order_states :: "order_state list" where
  "all_order_states =
     [PENDING, SENT, ACKED, PARTIAL, FILLED, CANCELLED, REJECTED, ROLLED_BACK, STRANDED]"

text \<open>\<open>OrderState(text)\<close>, with \<open>None\<close> for the \<open>ValueError\<close>.\<close>

definition parse_state :: "string \<Rightarrow> order_state option" where
  "parse_state v = List.find (\<lambda>s. state_value s = v) all_order_states"

fun legal_transitions :: "order_state \<Rightarrow> order_state list" where
  "legal_transitions PENDING = [SENT, REJECTED, CANCELLED]"
| "legal_transitions SENT = [ACKED, REJECTED, CANCELLED, STRANDED]"
| "legal_transitions ACKED = [ACKED, PARTIAL, FILLED, CANCELLED, ROLLED_BACK, STRANDED]"
| "legal_transitions PARTIAL = [PARTIAL, FILLED, CANCELLED, STRANDED]"
| "legal_transitions FILLED = []"
| "legal_transitions CANCELLED = []"
| "legal_transitions REJECTED = []"
| "legal_transitions ROLLED_BACK = []"
| "legal_transitions STRANDED = []"

definition is_terminal :: "order_state \<Rightarrow> bool" where
  "is_terminal s \<longleftrightarrow> legal_transitions s = []"

datatype sm_error = TransitionError order_state order_state | ConfigError | JournalFailed journal_error

definition state_machine_new :: "bool \<Rightarrow> bool \<Rightarrow> sm_error + unit" where
  "state_machine_new sm_flag j_flag = (if sm_flag \<and> \<not> j_flag then Inl ConfigError else Inr ())"

definition transition ::
    "(string \<Rightarrow> string) \<Rightarrow> 'p json_codec \<Rightarrow> bool \<Rightarrow> bool \<Rightarrow> int \<Rightarrow> string \<Rightarrow> order_state \<Rightarrow> order_state \<Rightarrow>
     'p \<Rightarrow> journal \<Rightarrow> sm_error + 'p execution_event option \<times> journal" where
  "transition H c sm_flag j_flag now oid src dst p j =
     (if \<not> sm_flag then Inr (None, j)
      else if dst \<notin> set (legal_transitions src) then Inl (TransitionError src dst)
      else case append_event H c j_flag now oid (state_value dst) p j of
             Inl e \<Rightarrow> Inl (JournalFailed e)
           | Inr (ev, j') \<Rightarrow> Inr (Some ev, j'))"

definition current_state ::
    "'p json_codec \<Rightarrow> bool \<Rightarrow> bool \<Rightarrow> string \<Rightarrow> journal \<Rightarrow> sm_error + order_state option \<times> journal" where
  "current_state c sm_flag j_flag oid j =
     (if \<not> sm_flag then Inr (None, j)
      else case replay c j_flag None (Some oid) j of
             Inl e \<Rightarrow> Inl (JournalFailed e)
           | Inr (evs, j') \<Rightarrow>
               Inr (if evs = [] then None else parse_state (ev_state (last evs)), j'))"

subsection \<open>The graph\<close>

lemma parse_state_value [simp]: "parse_state (state_value s) = Some s"
  by (cases s) (simp_all add: parse_state_def all_order_states_def)

lemma state_value_inj [simp]: "state_value a = state_value b \<longleftrightarrow> a = b"
  by (metis parse_state_value option.inject)

fun state_rank :: "order_state \<Rightarrow> nat" where
  "state_rank PENDING = 0"
| "state_rank SENT = 1"
| "state_rank ACKED = 2"
| "state_rank PARTIAL = 3"
| "state_rank _ = 4"

lemma legal_rank: "b \<in> set (legal_transitions a) \<Longrightarrow> state_rank a \<le> state_rank b"
  by (cases a) auto

lemma legal_rank_strict: "b \<in> set (legal_transitions a) \<Longrightarrow> a \<noteq> b \<Longrightarrow> state_rank a < state_rank b"
  by (cases a) auto

fun legal_path :: "order_state list \<Rightarrow> bool" where
  "legal_path [] = True"
| "legal_path [s] = True"
| "legal_path (a # b # ss) = (b \<in> set (legal_transitions a) \<and> legal_path (b # ss))"

lemma legal_path_snoc:
  "legal_path (ss @ [a]) \<Longrightarrow> b \<in> set (legal_transitions a) \<Longrightarrow> legal_path (ss @ [a, b])"
proof (induction ss)
  case (Cons x ss)
  then show ?case by (cases ss) auto
qed simp

lemma legal_path_terminal_last:
  "legal_path (ss @ a # rest) \<Longrightarrow> is_terminal a \<Longrightarrow> rest = []"
proof (induction ss)
  case Nil
  then show ?case by (cases rest) (auto simp: is_terminal_def)
next
  case (Cons x ss)
  then show ?case by (cases ss) auto
qed

subsection \<open>The history of an order in the journal\<close>

definition history :: "string \<Rightarrow> journal \<Rightarrow> string list" where
  "history oid j = map row_state (filter (\<lambda>r. order_id r = oid) (rows_of j))"

lemma history_alt:
  "history oid j = map snd (filter (\<lambda>e. fst e = oid) (map (\<lambda>r. (order_id r, row_state r)) (rows_of j)))"
  by (simp add: history_def filter_map o_def)

lemma history_append:
  assumes "codec_stable c" and "journal_ok H c j"
  shows "history oid' (append_on H c now oid st p j)
    = (if oid' = oid then history oid j @ [st] else history oid' j)"
  using jlog.append_same_order [of c H j oid now st p] jlog.append_other_order [of c H j oid' oid now st p] assms
  by (simp add: history_alt)

lemma append_event_on:
  assumes "journal_ok H c j"
  obtains ev where "append_event H c True now oid st p j = Inr (ev, append_on H c now oid st p j)"
    and "ev_state ev = st" and "ev_order_id ev = oid"
proof -
  let ?j = "if started j then j else start True j"
  have eq: "?j = start True j" by (simp add: start_def)
  obtain d where d: "db (start True j) = Some d"
    using start_ready [OF assms] by auto
  show ?thesis
  proof (rule that)
    let ?ev = "\<lparr>ev_seq = last_seq d + 1, ev_ts_ms = now, ev_order_id = oid, ev_state = st,
      ev_payload = p, ev_prev_hash = last_hash (start True j),
      ev_self_hash = compute_hash H (last_hash (start True j)) oid st (dumps c p)\<rparr>"
    show "append_event H c True now oid st p j = Inr (?ev, append_on H c now oid st p j)"
      unfolding append_on_def by (simp add: append_event_def eq d Let_def)
  qed simp_all
qed

lemma current_state_on:
  assumes "journal_ok H c j"
  shows "current_state c True True oid j =
    Inr (if history oid j = [] then None else parse_state (last (history oid j)), start True j)"
proof -
  have eq: "(if started j then j else start True j) = start True j" by (simp add: start_def)
  obtain d where d: "db (start True j) = Some d"
    using start_ready [OF assms] by auto
  then have r: "rows_of j = rows d"
    using rows_of_start [of True j] by (simp add: rows_of_def)
  let ?evs = "map (event_of_row c) (filter (\<lambda>r. order_id r = oid) (rows d))"
  have "replay c True None (Some oid) j = Inr (?evs, start True j)"
    by (simp add: replay_def eq d)
  moreover have h: "map ev_state ?evs = history oid j"
    by (simp add: history_def r event_of_row_def o_def)
  moreover have "?evs = [] \<longleftrightarrow> history oid j = []"
    by (simp flip: h)
  moreover have "last (history oid j) = ev_state (last ?evs)" if "?evs \<noteq> []"
    using that unfolding h [symmetric] by (rule last_map)
  ultimately show ?thesis
    by (simp add: current_state_def del: map_is_Nil_conv)
qed

text \<open>A caller that always passes the recorded state (PENDING before the first event).\<close>

definition drive ::
    "(string \<Rightarrow> string) \<Rightarrow> 'p json_codec \<Rightarrow> int \<Rightarrow> string \<Rightarrow> order_state \<Rightarrow> 'p \<Rightarrow> journal \<Rightarrow> journal" where
  "drive H c now oid dst p j =
     (case current_state c True True oid j of
        Inl e \<Rightarrow> j
      | Inr (s, j1) \<Rightarrow>
          (case transition H c True True now oid (case s of None \<Rightarrow> PENDING | Some a \<Rightarrow> a) dst p j1 of
             Inl e \<Rightarrow> j1
           | Inr (ev, j2) \<Rightarrow> j2))"

definition orders_legal :: "journal \<Rightarrow> bool" where
  "orders_legal j \<longleftrightarrow> (\<forall>oid. \<exists>ss. history oid j = map state_value ss \<and> legal_path (PENDING # ss))"

lemma transition_on:
  assumes "journal_ok H c j"
  shows "transition H c True True now oid src dst p j = Inl (TransitionError src dst)
      \<and> dst \<notin> set (legal_transitions src)
    \<or> (\<exists>ev. transition H c True True now oid src dst p j
          = Inr (Some ev, append_on H c now oid (state_value dst) p j)
        \<and> ev_state ev = state_value dst \<and> ev_order_id ev = oid)
      \<and> dst \<in> set (legal_transitions src)"
proof -
  obtain ev where "append_event H c True now oid (state_value dst) p j
      = Inr (ev, append_on H c now oid (state_value dst) p j)"
    "ev_state ev = state_value dst" "ev_order_id ev = oid"
    using append_event_on [OF assms] by blast
  then show ?thesis by (auto simp: transition_def)
qed

lemma history_start [simp]: "history oid (start flag j) = history oid j"
  by (simp add: history_def)

definition recorded_state :: "string \<Rightarrow> journal \<Rightarrow> order_state" where
  "recorded_state oid j = (if history oid j = [] then PENDING
     else case parse_state (last (history oid j)) of None \<Rightarrow> PENDING | Some s \<Rightarrow> s)"

lemma drive_cases:
  assumes "journal_ok H c j"
  shows "drive H c now oid dst p j =
    (if dst \<in> set (legal_transitions (recorded_state oid j))
     then append_on H c now oid (state_value dst) p (start True j) else start True j)"
proof -
  have s: "(case (if history oid j = [] then None else parse_state (last (history oid j))) of
      None \<Rightarrow> PENDING | Some a \<Rightarrow> a) = recorded_state oid j"
    by (simp add: recorded_state_def)
  from transition_on [OF start_ok [OF assms], of now oid "recorded_state oid j" dst p] show ?thesis
    unfolding drive_def current_state_on [OF assms] sum.case prod.case s by auto
qed

lemma drive_ok:
  assumes "codec_stable c" and "journal_ok H c j" and "orders_legal j"
  shows "journal_ok H c (drive H c now oid dst p j)" and "orders_legal (drive H c now oid dst p j)"
proof -
  let ?a = "recorded_state oid j"
  have ok: "journal_ok H c (start True j)" by (rule start_ok [OF assms(2)])
  show "journal_ok H c (drive H c now oid dst p j)"
    using ok by (simp add: drive_cases [OF assms(2)] append_on_ok [OF assms(1)])
  obtain ss where ss: "history oid j = map state_value ss" "legal_path (PENDING # ss)"
    using assms(3) unfolding orders_legal_def by blast
  have a: "?a = last (PENDING # ss)"
    using ss(1) by (auto simp: recorded_state_def last_map)
  have "legal_path (PENDING # ss @ [dst])" if "dst \<in> set (legal_transitions ?a)"
  proof -
    have "PENDING # ss = butlast (PENDING # ss) @ [?a]"
      unfolding a by simp
    with legal_path_snoc [of "butlast (PENDING # ss)" ?a dst] ss(2) that show ?thesis
      by (metis append_Cons append_assoc append_Nil)
  qed
  then have "\<exists>ss'. history oid (append_on H c now oid (state_value dst) p (start True j))
      = map state_value ss' \<and> legal_path (PENDING # ss')" if "dst \<in> set (legal_transitions ?a)"
    using that ss(1)
    by (intro exI [of _ "ss @ [dst]"]) (simp add: history_append [OF assms(1) ok])
  moreover have "history oid' (append_on H c now oid (state_value dst) p (start True j)) = history oid' j"
    if "oid' \<noteq> oid" for oid'
    using that by (simp add: history_append [OF assms(1) ok])
  ultimately have step: "\<exists>ss'. history oid' (append_on H c now oid (state_value dst) p (start True j))
      = map state_value ss' \<and> legal_path (PENDING # ss')" if "dst \<in> set (legal_transitions ?a)" for oid'
    using that assms(3) unfolding orders_legal_def by (cases "oid' = oid") auto
  show "orders_legal (drive H c now oid dst p j)"
  proof (cases "dst \<in> set (legal_transitions ?a)")
    case True
    then show ?thesis
      unfolding drive_cases [OF assms(2)] orders_legal_def using step by simp
  next
    case False
    then show ?thesis
      using assms(3) unfolding drive_cases [OF assms(2)] orders_legal_def by simp
  qed
qed

fun drive_all ::
    "(string \<Rightarrow> string) \<Rightarrow> 'p json_codec \<Rightarrow> (int \<times> string \<times> order_state \<times> 'p) list \<Rightarrow> journal \<Rightarrow> journal"
  where
  "drive_all H c [] j = j"
| "drive_all H c ((now, oid, dst, p) # rs) j = drive_all H c rs (drive H c now oid dst p j)"

lemma drive_all_ok:
  "codec_stable c \<Longrightarrow> journal_ok H c j \<Longrightarrow> orders_legal j \<Longrightarrow>
   journal_ok H c (drive_all H c rs j) \<and> orders_legal (drive_all H c rs j)"
  by (induction H c rs j rule: drive_all.induct) (auto simp: drive_ok)

subsection \<open>Properties\<close>

text \<open>C15. A transition is checked before anything is written: over a well-formed journal with both
  flags on, a legal pair appends exactly one row with the new state at the end of that
  order's history and returns its event, leaving the histories of the other orders alone, and
  an illegal pair raises \<open>TransitionError\<close>; with the state machine's flag off nothing is
  written or raised, whatever the pair.\<close>

theorem transition_writes_iff_legal:
  assumes "codec_stable c" and "journal_ok H c j"
  shows "(if dst \<in> set (legal_transitions src)
     then \<exists>ev j'. transition H c True True now oid src dst p j = Inr (Some ev, j')
       \<and> ev_order_id ev = oid \<and> ev_state ev = state_value dst \<and> journal_ok H c j'
       \<and> (\<forall>oid'. history oid' j' =
             (if oid' = oid then history oid j @ [state_value dst] else history oid' j))
     else transition H c True True now oid src dst p j = Inl (TransitionError src dst))
    \<and> transition H c False j_flag now oid src dst p j = Inr (None, j)"
  using transition_on [OF assms(2), of now oid src dst p]
  by (auto simp: history_append [OF assms] append_on_ok [OF assms] transition_def [of H c False])

lemma empty_journal_ok: "journal_ok H c (journal_new None)"
  by (simp add: journal_ok_def journal_new_def)

theorem transition_writes_iff_legal_witness:
  "transition ex_hash text_codec True True 0 ''A'' FILLED SENT ''{}'' (journal_new None)
     = Inl (TransitionError FILLED SENT)"
  using transition_writes_iff_legal [OF text_codec_stable empty_journal_ok,
      where dst = SENT and src = FILLED and now = 0 and oid = "''A''" and p = "''{}''" and H = ex_hash]
  by simp

text \<open>A caller that passes each order's recorded state never corrupts a life cycle: after any
  sequence of transition attempts over any orders, the recorded history of every order is a
  path of legal transitions from PENDING, so nothing follows a terminal state; moreover each
  order leaves every state for good once it has left it.\<close>

lemma driven_orders_stay_legal:
  assumes "codec_stable c"
  shows "\<exists>ss. history oid (drive_all H c rs (journal_new None)) = map state_value ss
    \<and> legal_path (PENDING # ss)
    \<and> (\<forall>pre a rest. ss = pre @ a # rest \<and> is_terminal a \<longrightarrow> rest = [])
    \<and> sorted (map state_rank (PENDING # ss))"
proof -
  have "orders_legal (journal_new None)"
    unfolding orders_legal_def
    by (intro allI exI [of _ "[]"]) (simp add: history_def rows_of_def journal_new_def)
  then have "orders_legal (drive_all H c rs (journal_new None))"
    using drive_all_ok [OF assms empty_journal_ok] by blast
  then obtain ss where ss: "history oid (drive_all H c rs (journal_new None)) = map state_value ss"
      "legal_path (PENDING # ss)"
    unfolding orders_legal_def by blast
  have "sorted (map state_rank xs)" if "legal_path xs" for xs
    using that by (induction xs rule: legal_path.induct) (auto simp: legal_rank intro: order_trans [OF legal_rank])
  with ss legal_path_terminal_last [of "PENDING # _"] show ?thesis
    by (metis append_Cons)
qed

lemma driven_orders_stay_legal_witness:
  "\<exists>ss. history ''A'' (drive_all ex_hash text_codec
      [(0, ''A'', SENT, ''{}''), (1, ''A'', FILLED, ''{}''), (2, ''A'', ACKED, ''{}'')] (journal_new None))
    = map state_value ss \<and> legal_path (PENDING # ss)"
  using driven_orders_stay_legal [OF text_codec_stable, of "''A''" ex_hash] by blast

end
