(* ===== verification/MarginTracker.thy ===== *)
theory MarginTracker
  imports Interfaces
begin

text \<open>
  \<open>engine/src/execution/margin_tracker.py\<close>: reservations of margin in flight, per exchange and
  with a time to live.  Every operation holds the lock from its first to its last access, so
  it is one step; the clock is read several times in a step and each reading is an argument.
\<close>

type_synonym reservation = "string \<times> decimal \<times> secs"

record margin_tracker =
  reservations :: "reservation list"
  ttl_s :: secs

definition margin_new :: "secs \<Rightarrow> margin_tracker" where
  "margin_new ttl = \<lparr>reservations = [], ttl_s = ttl\<rparr>"

definition buffer_pct :: decimal where "buffer_pct = 15 / 100"

definition effective :: "decimal \<Rightarrow> decimal" where
  "effective required = required * (1 + buffer_pct)"

fun reservation_live :: "secs \<Rightarrow> reservation \<Rightarrow> bool" where
  "reservation_live now (ex, amt, expires) \<longleftrightarrow> expires > now"

abbreviation amount :: "reservation \<Rightarrow> decimal" where
  "amount r \<equiv> fst (snd r)"

definition prune_expired :: "secs \<Rightarrow> margin_tracker \<Rightarrow> margin_tracker" where
  "prune_expired now M = M\<lparr>reservations := filter (reservation_live now) (reservations M)\<rparr>"

definition total_reserved :: "secs \<Rightarrow> string \<Rightarrow> margin_tracker \<Rightarrow> decimal" where
  "total_reserved now ex M =
     (\<Sum>r\<leftarrow>filter (\<lambda>r. fst r = ex \<and> reservation_live now r) (reservations M). amount r)"

definition check_and_reserve ::
    "secs \<Rightarrow> secs \<Rightarrow> secs \<Rightarrow> string \<Rightarrow> decimal \<Rightarrow> decimal \<Rightarrow> margin_tracker \<Rightarrow> bool \<times> margin_tracker" where
  "check_and_reserve t1 t2 t3 ex required available M =
     (if required = 0 then (True, M)
      else let M1 = prune_expired t1 M;
               net_available = available - total_reserved t2 ex M1
           in if net_available < effective required then (False, M1)
              else (True, M1\<lparr>reservations := reservations M1 @ [(ex, effective required, t3 + ttl_s M1)]\<rparr>))"

definition matches :: "string \<Rightarrow> decimal \<Rightarrow> reservation \<Rightarrow> bool" where
  "matches ex eff r \<longleftrightarrow> fst r = ex \<and> \<bar>amount r - eff\<bar> / max eff (1 / 100) < 1 / 1000"

fun remove_first :: "('a \<Rightarrow> bool) \<Rightarrow> 'a list \<Rightarrow> 'a list" where
  "remove_first P [] = []"
| "remove_first P (x # xs) = (if P x then xs else x # remove_first P xs)"

definition margin_release :: "secs \<Rightarrow> string \<Rightarrow> decimal \<Rightarrow> margin_tracker \<Rightarrow> margin_tracker" where
  "margin_release t1 ex required M =
     (let M1 = prune_expired t1 M
      in M1\<lparr>reservations := remove_first (matches ex (effective required)) (reservations M1)\<rparr>)"

definition margin_reset :: "string option \<Rightarrow> margin_tracker \<Rightarrow> margin_tracker" where
  "margin_reset ex M =
     (case ex of
        Some e \<Rightarrow> if e = [] then M\<lparr>reservations := []\<rparr>
                   else M\<lparr>reservations := filter (\<lambda>r. fst r \<noteq> e) (reservations M)\<rparr>
      | None \<Rightarrow> M\<lparr>reservations := []\<rparr>)"

definition get_reserved :: "secs \<Rightarrow> string \<Rightarrow> margin_tracker \<Rightarrow> decimal" where
  "get_reserved now ex M = total_reserved now ex M"

interpretation res: expiring reservation_live
  by unfold_locales auto

subsection \<open>Totals\<close>

definition amounts_nonneg :: "margin_tracker \<Rightarrow> bool" where
  "amounts_nonneg M \<longleftrightarrow> (\<forall>r \<in> set (reservations M). 0 \<le> amount r)"

lemma total_reserved_alt:
  "total_reserved now ex M = (\<Sum>r\<leftarrow>filter (reservation_live now) (filter (\<lambda>r. fst r = ex) (reservations M)). amount r)"
  by (simp add: total_reserved_def conj_commute)

lemma total_antimono:
  assumes "amounts_nonneg M" and "t \<le> t'"
  shows "total_reserved t' ex M \<le> total_reserved t ex M"
  unfolding total_reserved_alt using assms by (intro res.prune_total_le) (auto simp: amounts_nonneg_def)

lemma total_prune:
  "t \<le> t' \<Longrightarrow> total_reserved t' ex (prune_expired t M) = total_reserved t' ex M"
  unfolding total_reserved_alt prune_expired_def
  by (simp add: filter_filter conj_commute conj_left_commute) (metis (no_types, lifting) res.live_antimono)

lemma amounts_prune: "amounts_nonneg M \<Longrightarrow> amounts_nonneg (prune_expired t M)"
  by (auto simp: amounts_nonneg_def prune_expired_def)

lemma set_remove_first: "set (remove_first P xs) \<subseteq> set xs"
  by (induction xs) auto

lemma sum_remove_first:
  "\<forall>r \<in> set xs. 0 \<le> amount r \<Longrightarrow>
   (\<Sum>r\<leftarrow>filter Q (remove_first P xs). amount r) \<le> (\<Sum>r\<leftarrow>filter Q xs. amount r)"
  by (induction xs) auto

subsection \<open>Requests\<close>

datatype margin_op =
    Reserve secs secs secs string decimal decimal
  | Release secs string decimal
  | Reset "string option"

fun margin_step :: "margin_op \<Rightarrow> margin_tracker \<Rightarrow> margin_tracker" where
  "margin_step (Reserve t1 t2 t3 ex req avail) M = snd (check_and_reserve t1 t2 t3 ex req avail M)"
| "margin_step (Release t1 ex req) M = margin_release t1 ex req M"
| "margin_step (Reset ex) M = margin_reset ex M"

text \<open>The clock at the end of an operation, and what a caller may ask: readings in order, no negative
  amount, and for the exchange in question a snapshot of at most \<open>A\<close>.\<close>

fun op_ok :: "string \<Rightarrow> decimal \<Rightarrow> secs \<Rightarrow> margin_op \<Rightarrow> bool" where
  "op_ok ex A t (Reserve t1 t2 t3 ex' req avail) \<longleftrightarrow>
     t \<le> t1 \<and> t1 \<le> t2 \<and> t2 \<le> t3 \<and> 0 \<le> req \<and> (ex' = ex \<longrightarrow> avail \<le> A)"
| "op_ok ex A t (Release t1 ex' req) \<longleftrightarrow> t \<le> t1"
| "op_ok ex A t (Reset ex') \<longleftrightarrow> True"

fun op_clock :: "secs \<Rightarrow> margin_op \<Rightarrow> secs" where
  "op_clock t (Reserve t1 t2 t3 ex req avail) = t2"
| "op_clock t (Release t1 ex req) = t1"
| "op_clock t (Reset ex) = t"

fun ops_ok :: "string \<Rightarrow> decimal \<Rightarrow> secs \<Rightarrow> margin_op list \<Rightarrow> bool" where
  "ops_ok ex A t [] \<longleftrightarrow> True"
| "ops_ok ex A t (x # xs) \<longleftrightarrow> op_ok ex A t x \<and> ops_ok ex A (op_clock t x) xs"

fun last_clock :: "secs \<Rightarrow> margin_op list \<Rightarrow> secs" where
  "last_clock t [] = t"
| "last_clock t (x # xs) = last_clock (op_clock t x) xs"

lemma reserve_bound:
  assumes "amounts_nonneg M" and "total_reserved t ex M \<le> A" and "op_ok ex A t (Reserve t1 t2 t3 ex' req avail)"
  shows "amounts_nonneg (snd (check_and_reserve t1 t2 t3 ex' req avail M))
    \<and> total_reserved t2 ex (snd (check_and_reserve t1 t2 t3 ex' req avail M)) \<le> A"
proof -
  let ?M1 = "prune_expired t1 M"
  have nn: "amounts_nonneg ?M1" by (rule amounts_prune [OF assms(1)])
  have t2: "t1 \<le> t2" "t \<le> t2" using assms(3) by auto
  have old: "total_reserved t2 ex M \<le> A"
    using total_antimono [OF assms(1) t2(2)] assms(2) order_trans by blast
  then have pruned: "total_reserved t2 ex ?M1 \<le> A"
    by (simp add: total_prune t2)
  let ?M2 = "?M1\<lparr>reservations := reservations ?M1 @ [(ex', effective req, t3 + ttl_s ?M1)]\<rparr>"
  have eff: "0 \<le> effective req"
    using assms(3) by (simp add: effective_def buffer_pct_def)
  have "total_reserved t2 ex ?M2 \<le> total_reserved t2 ex ?M1 + (if ex' = ex then effective req else 0)"
    using eff by (simp add: total_reserved_def)
  then have "total_reserved t2 ex ?M2 \<le> A" if "\<not> avail - total_reserved t2 ex' ?M1 < effective req"
    using that pruned assms(3) by (auto split: if_splits)
  moreover have "amounts_nonneg ?M2"
    using nn eff by (auto simp: amounts_nonneg_def)
  ultimately show ?thesis
    using nn pruned old assms(1) by (auto simp: check_and_reserve_def Let_def)
qed

lemma release_bound:
  assumes "amounts_nonneg M" and "total_reserved t ex M \<le> A" and "t \<le> t1"
  shows "amounts_nonneg (margin_release t1 ex' req M) \<and> total_reserved t1 ex (margin_release t1 ex' req M) \<le> A"
proof -
  have nn: "amounts_nonneg (prune_expired t1 M)" by (rule amounts_prune [OF assms(1)])
  have "total_reserved t1 ex (margin_release t1 ex' req M) \<le> total_reserved t1 ex (prune_expired t1 M)"
    using nn unfolding amounts_nonneg_def
    by (simp add: total_reserved_def margin_release_def Let_def sum_remove_first)
  also have "\<dots> \<le> A"
    using order_trans [OF total_antimono [OF assms(1,3), of ex] assms(2)] by (simp add: total_prune)
  finally show ?thesis
    using nn set_remove_first [of "matches ex' (effective req)" "reservations (prune_expired t1 M)"]
    by (auto simp: margin_release_def Let_def amounts_nonneg_def)
qed

lemma reset_bound:
  assumes "amounts_nonneg M" and "total_reserved t ex M \<le> A" and "0 \<le> A"
  shows "amounts_nonneg (margin_reset e M) \<and> total_reserved t ex (margin_reset e M) \<le> A"
proof -
  have "margin_reset e M = M\<lparr>reservations := []\<rparr>
      \<or> (\<exists>x. margin_reset e M = M\<lparr>reservations := filter (\<lambda>r. fst r \<noteq> x) (reservations M)\<rparr>)"
    by (auto simp: margin_reset_def split: option.split)
  then show ?thesis
  proof
    assume "\<exists>x. margin_reset e M = M\<lparr>reservations := filter (\<lambda>r. fst r \<noteq> x) (reservations M)\<rparr>"
    then obtain x where x: "margin_reset e M = M\<lparr>reservations := filter (\<lambda>r. fst r \<noteq> x) (reservations M)\<rparr>"
      by blast
    have "total_reserved t ex (margin_reset e M) \<le> total_reserved t ex M"
      using assms(1) sum_list_filter_le
          [of "filter (\<lambda>r. fst r = ex \<and> reservation_live t r) (reservations M)" amount "\<lambda>r. fst r \<noteq> x"]
      by (simp add: x total_reserved_def amounts_nonneg_def conj_commute conj_left_commute)
    then show ?thesis
      using assms by (auto simp: x amounts_nonneg_def)
  qed (use assms in \<open>auto simp: amounts_nonneg_def total_reserved_def\<close>)
qed

lemma step_bound:
  assumes "amounts_nonneg M" and "total_reserved t ex M \<le> A" and "0 \<le> A" and "op_ok ex A t x"
  shows "amounts_nonneg (margin_step x M) \<and> total_reserved (op_clock t x) ex (margin_step x M) \<le> A"
proof (cases x)
  case (Reserve t1 t2 t3 ex' req avail)
  then show ?thesis using reserve_bound [OF assms(1,2), of t1 t2 t3 ex' req avail] assms(4) by simp
next
  case (Release t1 ex' req)
  then show ?thesis using release_bound [OF assms(1,2), of t1 ex' req] assms(4) by simp
next
  case (Reset e)
  then show ?thesis using reset_bound [OF assms(1,2,3), of e] by simp
qed

lemma steps_bound:
  "ops_ok ex A t ops \<Longrightarrow> amounts_nonneg M \<Longrightarrow> total_reserved t ex M \<le> A \<Longrightarrow> 0 \<le> A \<Longrightarrow>
   amounts_nonneg (fold margin_step ops M) \<and> total_reserved (last_clock t ops) ex (fold margin_step ops M) \<le> A"
  by (induction ops arbitrary: t M) (auto simp: step_bound)

subsection \<open>Properties\<close>

text \<open>C18. Concurrent requests cannot oversubscribe an exchange: a request for a non-zero amount is
  approved exactly when the reservations still alive plus the amount with its 15 percent buffer
  fit the snapshot; hence after any sequence of reservations, releases and resets in
  which every snapshot of an exchange is at most \<open>A\<close>, the live reservations of that exchange
  never exceed \<open>A\<close>, at any later time.\<close>

theorem margin_never_oversubscribed:
  assumes "ops_ok ex A t ops" and "0 \<le> A" and "last_clock t ops \<le> now"
  shows "total_reserved now ex (fold margin_step ops (margin_new ttl)) \<le> A
    \<and> (\<forall>M t1 t2 t3 req avail. req \<noteq> 0 \<and> t1 \<le> t2 \<longrightarrow>
         (fst (check_and_reserve t1 t2 t3 ex req avail M)
            \<longleftrightarrow> total_reserved t2 ex M + req * 115 / 100 \<le> avail))"
proof
  have nn: "amounts_nonneg (margin_new ttl)" and z: "total_reserved t ex (margin_new ttl) \<le> A"
    using assms(2) by (simp_all add: margin_new_def amounts_nonneg_def total_reserved_def)
  from steps_bound [OF assms(1) nn z assms(2)]
  show "total_reserved now ex (fold margin_step ops (margin_new ttl)) \<le> A"
    using total_antimono [OF _ assms(3)] order_trans by blast
  show "\<forall>M t1 t2 t3 req avail. req \<noteq> 0 \<and> t1 \<le> t2 \<longrightarrow>
         (fst (check_and_reserve t1 t2 t3 ex req avail M)
            \<longleftrightarrow> total_reserved t2 ex M + req * 115 / 100 \<le> avail)"
    by (auto simp: check_and_reserve_def Let_def total_prune effective_def buffer_pct_def)
qed

theorem margin_never_oversubscribed_witness:
  "total_reserved 3 ''binance'' (fold margin_step
      [Reserve 0 0 0 ''binance'' 60 100, Reserve 1 1 1 ''binance'' 60 100, Release 2 ''binance'' 10] (margin_new 60))
   \<le> 100"
  using margin_never_oversubscribed [of "''binance''" 100 0
      "[Reserve 0 0 0 ''binance'' 60 100, Reserve 1 1 1 ''binance'' 60 100, Release 2 ''binance'' 10]" 3 60]
  by simp

end
