(* ===== verification/Stranded.thy ===== *)
theory Stranded
  imports Interfaces
begin

text \<open>
  \<open>engine/src/execution/stranded.py\<close>: rollback failures and the threshold at which they halt the
  engine.  The forwarder that \<open>TradingSupervisor\<close> installs is called with the new total before
  \<open>True\<close> is returned; the call is recorded in the result.  \<open>now\<close> is the reading taken after
  the benign codes are tested, \<open>made\<close> the reading of the new entry's \<open>created_at\<close>.
\<close>

record stranded_entry =
  st_exchange :: string
  st_symbol :: string
  st_side :: string
  st_size :: pyfloat
  value_usd :: pyfloat
  st_reason :: string
  created_at :: secs

record stranded_tracker =
  threshold :: pyfloat
  entries_of :: "stranded_entry list"

definition tracker_new :: "pyfloat \<Rightarrow> stranded_tracker" where
  "tracker_new thr = \<lparr>threshold = thr, entries_of = []\<rparr>"

definition benign_codes :: "string list" where
  "benign_codes = [''22002'', ''40762'', ''no position to close'', ''position does not exist'']"

definition is_benign :: "string \<Rightarrow> bool" where
  "is_benign reason = list_ex (\<lambda>code. occurs_in code (lower reason)) benign_codes"

definition stranded_live :: "secs \<Rightarrow> stranded_entry \<Rightarrow> bool" where
  "stranded_live now e \<longleftrightarrow> now - created_at e < 3600"

definition is_duplicate :: "secs \<Rightarrow> string \<Rightarrow> string \<Rightarrow> string \<Rightarrow> stranded_entry \<Rightarrow> bool" where
  "is_duplicate now ex symb side e \<longleftrightarrow>
     st_exchange e = ex \<and> st_symbol e = symb \<and> st_side e = side \<and> now - created_at e < 5"

definition total_of :: "stranded_entry list \<Rightarrow> pyfloat" where
  "total_of es = (\<Sum>e\<leftarrow>es. value_usd e)"

definition total_stranded_usd :: "secs \<Rightarrow> stranded_tracker \<Rightarrow> pyfloat" where
  "total_stranded_usd now T = total_of (filter (stranded_live now) (entries_of T))"

text \<open>The result, the total handed to the forwarder if it is called, and the tracker.\<close>

definition register ::
    "secs \<Rightarrow> secs \<Rightarrow> string \<Rightarrow> string \<Rightarrow> string \<Rightarrow> pyfloat \<Rightarrow> pyfloat \<Rightarrow> string \<Rightarrow> stranded_tracker \<Rightarrow>
     bool \<times> pyfloat option \<times> stranded_tracker" where
  "register now made ex symb side sz val reason T =
     (if is_benign reason then (False, None, T)
      else let es = filter (stranded_live now) (entries_of T)
           in if list_ex (is_duplicate now ex symb side) (rev es) then (False, None, T\<lparr>entries_of := es\<rparr>)
              else let e = \<lparr>st_exchange = ex, st_symbol = symb, st_side = side, st_size = sz,
                            value_usd = val, st_reason = reason, created_at = made\<rparr>;
                       es' = es @ [e]; total = total_of es'
                   in if total > threshold T then (True, Some total, T\<lparr>entries_of := es'\<rparr>)
                      else (False, None, T\<lparr>entries_of := es'\<rparr>))"

definition stranded_clear :: "stranded_tracker \<Rightarrow> stranded_tracker" where
  "stranded_clear T = T\<lparr>entries_of := []\<rparr>"

interpretation strand: expiring stranded_live
  by unfold_locales (auto simp: stranded_live_def)

definition values_nonneg :: "stranded_tracker \<Rightarrow> bool" where
  "values_nonneg T \<longleftrightarrow> (\<forall>e \<in> set (entries_of T). 0 \<le> value_usd e)"

lemma total_stranded_antimono:
  "values_nonneg T \<Longrightarrow> t \<le> t' \<Longrightarrow> total_stranded_usd t' T \<le> total_stranded_usd t T"
  unfolding total_stranded_usd_def total_of_def values_nonneg_def by (intro strand.prune_total_le) auto

text \<open>The failures a session reports, with their clock readings, and the answers it got.\<close>

type_synonym failure = "secs \<times> secs \<times> string \<times> string \<times> string \<times> pyfloat \<times> pyfloat \<times> string"

fun report :: "failure \<Rightarrow> stranded_tracker \<Rightarrow> bool \<times> stranded_tracker" where
  "report (now, made, ex, symb, side, sz, val, reason) T =
     (let (halt, fwd, T') = register now made ex symb side sz val reason T in (halt, T'))"

fun report_all :: "failure list \<Rightarrow> stranded_tracker \<Rightarrow> bool list \<times> stranded_tracker" where
  "report_all [] T = ([], T)"
| "report_all (f # fs) T =
     (let (h, T1) = report f T; (hs, T2) = report_all fs T1 in (h # hs, T2))"

fun failures_ok :: "secs \<Rightarrow> failure list \<Rightarrow> bool" where
  "failures_ok t [] \<longleftrightarrow> True"
| "failures_ok t ((now, made, ex, symb, side, sz, val, reason) # fs) \<longleftrightarrow>
     t \<le> now \<and> now \<le> made \<and> 0 \<le> val \<and> failures_ok now fs"

fun last_report :: "secs \<Rightarrow> failure list \<Rightarrow> secs" where
  "last_report t [] = t"
| "last_report t ((now, rest) # fs) = last_report now fs"

lemma register_exact:
  "fst (register now made ex symb side sz val reason T) \<longleftrightarrow>
     \<not> is_benign reason \<and> \<not> list_ex (is_duplicate now ex symb side) (filter (stranded_live now) (entries_of T))
     \<and> threshold T < total_stranded_usd now T + val"
  by (auto simp: register_def Let_def total_stranded_usd_def total_of_def)

lemma register_bound:
  assumes "values_nonneg T" and "0 \<le> val" and "total_stranded_usd t T \<le> threshold T" and "t \<le> now" and "now \<le> made"
    and "\<not> fst (register now made ex symb side sz val reason T)"
    and "register now made ex symb side sz val reason T = (h, fwd, T')"
  shows "values_nonneg T' \<and> threshold T' = threshold T \<and> total_stranded_usd now T' \<le> threshold T'"
proof -
  have t: "total_stranded_usd now T \<le> threshold T"
    using total_stranded_antimono [OF assms(1,4)] assms(3) by (rule order_trans)
  let ?es = "filter (stranded_live now) (entries_of T)"
  let ?e = "\<lparr>st_exchange = ex, st_symbol = symb, st_side = side, st_size = sz,
    value_usd = val, st_reason = reason, created_at = made\<rparr>"
  have "T' = T \<or> T' = T\<lparr>entries_of := ?es\<rparr>
      \<or> total_of ?es + val \<le> threshold T \<and> T' = T\<lparr>entries_of := ?es @ [?e]\<rparr>"
    using assms(6,7) by (auto simp: register_def Let_def total_of_def split: if_splits)
  then show ?thesis
    using assms(1,2) t
    by (auto simp: values_nonneg_def total_stranded_usd_def total_of_def)
qed

lemma report_all_bound:
  "failures_ok t fs \<Longrightarrow> values_nonneg T \<Longrightarrow> total_stranded_usd t T \<le> threshold T \<Longrightarrow>
   report_all fs T = (hs, T') \<Longrightarrow> True \<notin> set hs \<Longrightarrow>
   values_nonneg T' \<and> threshold T' = threshold T \<and> total_stranded_usd (last_report t fs) T' \<le> threshold T'"
proof (induction fs arbitrary: t T hs)
  case (Cons f fs)
  obtain now made ex symb side sz val reason where f: "f = (now, made, ex, symb, side, sz, val, reason)"
    by (cases f) auto
  obtain h fwd T1 where r: "register now made ex symb side sz val reason T = (h, fwd, T1)"
    by (cases "register now made ex symb side sz val reason T")
  obtain hs1 where hs1: "report_all fs T1 = (hs1, T')" "hs = h # hs1"
    using Cons.prems(4) by (auto simp: f r split: prod.splits)
  have "values_nonneg T1 \<and> threshold T1 = threshold T \<and> total_stranded_usd now T1 \<le> threshold T1"
    using register_bound [OF Cons.prems(2) _ Cons.prems(3) _ _ _ r] Cons.prems(1,5) hs1(2)
    by (auto simp: f r)
  with Cons.IH [of now T1 hs1] Cons.prems(1,5) hs1 show ?case by (simp add: f)
qed simp

subsection \<open>Properties\<close>

text \<open>What is tolerated is bounded: a reported failure asks for a halt exactly when its reason
  contains no benign code, no entry for the same exchange, symbol and side is younger than
  five seconds, and the unexpired total with it exceeds the threshold; hence as long as no
  report of a session has asked for a halt, the unexpired total stays within the threshold.\<close>

lemma tolerated_stranded_is_bounded:
  assumes "failures_ok t fs" and "0 \<le> thr" and "report_all fs (tracker_new thr) = (hs, T)"
  shows "(True \<notin> set hs \<longrightarrow> (\<forall>now \<ge> last_report t fs. total_stranded_usd now T \<le> thr))
    \<and> (fst (register now made ex symb side sz val reason T') \<longleftrightarrow>
         \<not> is_benign reason
         \<and> \<not> list_ex (is_duplicate now ex symb side) (filter (stranded_live now) (entries_of T'))
         \<and> threshold T' < total_stranded_usd now T' + val)"
proof -
  have "values_nonneg (tracker_new thr)" "total_stranded_usd t (tracker_new thr) \<le> threshold (tracker_new thr)"
    using assms(2) by (simp_all add: tracker_new_def values_nonneg_def total_stranded_usd_def total_of_def)
  from report_all_bound [OF assms(1) this assms(3)]
  have "True \<notin> set hs \<longrightarrow> values_nonneg T \<and> total_stranded_usd (last_report t fs) T \<le> thr"
    by (auto simp: tracker_new_def)
  then show ?thesis
    using total_stranded_antimono register_exact by (blast intro: order_trans)
qed

definition ex_failure :: failure where
  "ex_failure = (1, 1, ''bitget'', ''BTC'', ''sell'', 1, 12, ''timeout'')"

lemma tolerated_stranded_is_bounded_witness:
  "\<exists>hs T. report_all [ex_failure] (tracker_new 30) = (hs, T)
     \<and> (True \<notin> set hs \<longrightarrow> (\<forall>now \<ge> 1. total_stranded_usd now T \<le> 30))"
proof -
  obtain hs T where r: "report_all [ex_failure] (tracker_new 30) = (hs, T)"
    by (cases "report_all [ex_failure] (tracker_new 30)")
  with tolerated_stranded_is_bounded [of 0 "[ex_failure]" 30 hs T] show ?thesis
    by (simp add: ex_failure_def)
qed

end
