(* ===== verification/DualWrite.thy ===== *)
theory DualWrite
  imports KillSwitch
begin

text \<open>
  \<open>engine/src/infra/db/dual_write.py\<close>: a position event goes to the PostgreSQL log first and to
  Redis second, and a Redis failure halts the engine.  The answers of the two stores are
  \<open>outcome\<close>s; after a timeout or an error a write may still have landed, which \<open>pg_landed\<close>
  and \<open>redis_landed\<close> say.  \<open>H\<close> is SHA-256 and \<open>sd\<close> the text of a \<open>Decimal\<close>.
\<close>

datatype dual_error = TradeRejected | EngineHalt

record position_event =
  pe_strategy :: string
  pe_exchange :: string
  pe_symbol :: string
  pe_side :: string
  pe_quantity :: decimal
  pe_price :: decimal
  pe_type :: string
  pe_metadata :: "(string \<times> decimal) list"

record wal_row =
  wal_event :: position_event
  wal_checksum :: string

record position_hash =
  ph_side :: string
  ph_quantity :: decimal
  ph_price :: decimal
  ph_type :: string
  ph_wal_id :: int

record dual_stores =
  wal :: "wal_row list"
  redis_positions :: "string \<Rightarrow> position_hash option"
  dw_flags :: halt_flags

record dual_io =
  pg_result :: "int outcome"
  pg_landed :: bool
  redis_result :: "unit outcome"
  redis_landed :: bool

definition compute_checksum :: "(string \<Rightarrow> string) \<Rightarrow> (decimal \<Rightarrow> string) \<Rightarrow> position_event \<Rightarrow> string" where
  "compute_checksum H sd e =
     H (pe_strategy e @ pe_exchange e @ pe_symbol e @ pe_side e @ sd (pe_quantity e) @ sd (pe_price e))"

definition position_key :: "position_event \<Rightarrow> string" where
  "position_key e = ''leviathan:position:'' @ pe_strategy e @ '':'' @ pe_exchange e @ '':'' @ pe_symbol e"

definition write_to_postgres :: "string \<Rightarrow> position_event \<Rightarrow> dual_stores \<Rightarrow> dual_stores" where
  "write_to_postgres cs e S = S\<lparr>wal := wal S @ [\<lparr>wal_event = e, wal_checksum = cs\<rparr>]\<rparr>"

definition write_to_redis :: "position_event \<Rightarrow> int \<Rightarrow> dual_stores \<Rightarrow> dual_stores" where
  "write_to_redis e wal_id S =
     S\<lparr>redis_positions := (redis_positions S)(position_key e \<mapsto>
         \<lparr>ph_side = pe_side e, ph_quantity = pe_quantity e, ph_price = pe_price e,
          ph_type = pe_type e, ph_wal_id = wal_id\<rparr>)\<rparr>"

definition pg_write_with_timeout ::
    "dual_io \<Rightarrow> string \<Rightarrow> position_event \<Rightarrow> dual_stores \<Rightarrow> (dual_error + int) \<times> dual_stores" where
  "pg_write_with_timeout io cs e S =
     (case pg_result io of
        Returned wal_id \<Rightarrow> (Inr wal_id, write_to_postgres cs e S)
      | _ \<Rightarrow> (Inl TradeRejected, if pg_landed io then write_to_postgres cs e S else S))"

definition redis_write_with_timeout ::
    "rust_env \<Rightarrow> dual_io \<Rightarrow> position_event \<Rightarrow> int \<Rightarrow> dual_stores \<Rightarrow> (dual_error + unit) \<times> dual_stores" where
  "redis_write_with_timeout env io e wal_id S =
     (case redis_result io of
        Returned _ \<Rightarrow> (Inr (), write_to_redis e wal_id S)
      | _ \<Rightarrow> (let S1 = (if redis_landed io then write_to_redis e wal_id S else S)
              in (Inl EngineHalt, S1\<lparr>dw_flags := halt_local env (dw_flags S1)\<rparr>)))"

definition write_position ::
    "rust_env \<Rightarrow> (string \<Rightarrow> string) \<Rightarrow> (decimal \<Rightarrow> string) \<Rightarrow> dual_io \<Rightarrow> position_event \<Rightarrow> dual_stores \<Rightarrow>
     (dual_error + int) \<times> dual_stores" where
  "write_position env H sd io e S =
     (case pg_write_with_timeout io (compute_checksum H sd e) e S of
        (Inl err, S1) \<Rightarrow> (Inl err, S1)
      | (Inr wal_id, S1) \<Rightarrow>
          (case redis_write_with_timeout env io e wal_id S1 of
             (Inl err, S2) \<Rightarrow> (Inl err, S2)
           | (Inr _, S2) \<Rightarrow> (Inr wal_id, S2)))"

lemmas dual_defs = write_position_def pg_write_with_timeout_def redis_write_with_timeout_def
  write_to_postgres_def write_to_redis_def Let_def

text \<open>The checksum joins its fields without a separator, so it does not tell apart two events whose
  fields differ only in where the strategy ends and the exchange begins.\<close>

lemma checksum_misses_field_boundary:
  "compute_checksum H sd (e\<lparr>pe_strategy := s @ t, pe_exchange := x\<rparr>)
     = compute_checksum H sd (e\<lparr>pe_strategy := s, pe_exchange := t @ x\<rparr>)"
  by (simp add: compute_checksum_def)

subsection \<open>Properties\<close>

text \<open>C22. The dual-write protocol: Redis is written only after the log answered, under the id the log
  returned; when the log fails the call is rejected, Redis and the halt flag are untouched;
  when Redis fails the call raises after the row is in the log and the engine is halted; and
  the call returns an id exactly when both stores answered, with both written and the halt
  flag as it was.\<close>

theorem dual_write_protocol:
  "case write_position env H sd io e S of (r, S') \<Rightarrow>
     (case r of
        Inr wal_id \<Rightarrow>
          pg_result io = Returned wal_id \<and> succeeded (redis_result io)
          \<and> wal S' = wal S @ [\<lparr>wal_event = e, wal_checksum = compute_checksum H sd e\<rparr>]
          \<and> map_option ph_wal_id (redis_positions S' (position_key e)) = Some wal_id
          \<and> dw_flags S' = dw_flags S
      | Inl TradeRejected \<Rightarrow>
          \<not> succeeded (pg_result io) \<and> redis_positions S' = redis_positions S \<and> dw_flags S' = dw_flags S
      | Inl EngineHalt \<Rightarrow>
          succeeded (pg_result io) \<and> \<not> succeeded (redis_result io)
          \<and> wal S' = wal S @ [\<lparr>wal_event = e, wal_checksum = compute_checksum H sd e\<rparr>]
          \<and> halted env' (dw_flags S'))
     \<and> (\<forall>k. k \<noteq> position_key e \<longrightarrow> redis_positions S' k = redis_positions S k)"
  by (cases "pg_result io"; cases "redis_result io") (simp_all add: dual_defs)

definition ex_event :: position_event where
  "ex_event = \<lparr>pe_strategy = ''arb'', pe_exchange = ''okx'', pe_symbol = ''BTC/USDT'', pe_side = ''LONG'',
     pe_quantity = 1, pe_price = 5, pe_type = ''OPEN'',
     pe_metadata = []\<rparr>"

definition ex_dual_io :: dual_io where
  "ex_dual_io = \<lparr>pg_result = Returned 7, pg_landed = True, redis_result = TimedOut, redis_landed = False\<rparr>"

definition ex_dual_stores :: dual_stores where
  "ex_dual_stores = \<lparr>wal = [], redis_positions = Map.empty, dw_flags = initial_flags\<rparr>"

theorem dual_write_protocol_witness:
  "\<exists>r S'. write_position ex_env id (\<lambda>_. ''1'') ex_dual_io ex_event ex_dual_stores = (r, S')
     \<and> redis_positions S' ''leviathan:position:other'' = None"
proof -
  obtain r S' where w: "write_position ex_env id (\<lambda>_. ''1'') ex_dual_io ex_event ex_dual_stores = (r, S')"
    by (cases "write_position ex_env id (\<lambda>_. ''1'') ex_dual_io ex_event ex_dual_stores")
  have "''leviathan:position:other'' \<noteq> position_key ex_event"
    by (simp add: position_key_def ex_event_def)
  with w show ?thesis
    using dual_write_protocol [where env = ex_env and H = id and sd = "\<lambda>_. ''1''" and io = ex_dual_io
        and e = ex_event and S = ex_dual_stores]
    by (simp add: ex_dual_stores_def)
qed

end
