(* ===== verification/Exposure.thy ===== *)
theory Exposure
  imports Guardian
begin

text \<open>
  \<open>engine/src/risk/exposure_tracker.py\<close>: the signed net exposure of each exchange and base
  asset, kept in Redis (or in a dictionary of the tracker) with a local copy for synchronous
  reads.  The Redis keys are those \<open>PositionManager\<close> writes, so the store is an argument
  beside the tracker.  A value is stored as \<open>str(Decimal)\<close>, which is exact.
\<close>

type_synonym exposure_store = "string \<Rightarrow> decimal option"

definition exposure_key :: "string \<Rightarrow> string \<Rightarrow> string" where
  "exposure_key exchange base = ''leviathan:exposure:'' @ exchange @ '':'' @ base"

definition read_exposure :: "exposure_store \<Rightarrow> string \<Rightarrow> decimal" where
  "read_exposure R key = (case R key of None \<Rightarrow> 0 | Some v \<Rightarrow> v)"

definition add_exposure :: "string \<Rightarrow> decimal \<Rightarrow> exposure_store \<Rightarrow> exposure_store" where
  "add_exposure key delta R = R(key \<mapsto> read_exposure R key + delta)"

interpretation expo: signed_book read_exposure add_exposure
  by unfold_locales (simp add: read_exposure_def add_exposure_def)

record exposure_tracker =
  tr_redis :: bool
  tr_memory :: exposure_store
  tr_snapshot :: "string \<times> string \<Rightarrow> decimal option"

definition exposure_tracker_new :: "bool \<Rightarrow> exposure_tracker" where
  "exposure_tracker_new redis = \<lparr>tr_redis = redis, tr_memory = Map.empty, tr_snapshot = Map.empty\<rparr>"

text \<open>Whether the two Redis calls of an update answer; an exception of the client propagates.\<close>

record redis_io =
  get_ok :: bool
  set_ok :: bool

datatype redis_error = RedisError

definition get_net_exposure ::
    "redis_io \<Rightarrow> string \<Rightarrow> string \<Rightarrow> exposure_tracker \<Rightarrow> exposure_store \<Rightarrow> redis_error + decimal" where
  "get_net_exposure io exchange base T R =
     (if tr_redis T
      then if get_ok io then Inr (read_exposure R (exposure_key exchange base)) else Inl RedisError
      else Inr (read_exposure (tr_memory T) (exposure_key exchange base)))"

definition set_snapshot :: "string \<Rightarrow> string \<Rightarrow> decimal \<Rightarrow> exposure_tracker \<Rightarrow> exposure_tracker" where
  "set_snapshot exchange base v T =
     T\<lparr>tr_snapshot := (tr_snapshot T)((exchange, base) := (if v = 0 then None else Some v))\<rparr>"

text \<open>\<open>update_exposure\<close> cut at its await: the write of a value computed from an earlier read.\<close>

definition write_exposure ::
    "redis_io \<Rightarrow> string \<Rightarrow> string \<Rightarrow> decimal \<Rightarrow> exposure_tracker \<Rightarrow> exposure_store \<Rightarrow>
     (redis_error + decimal) \<times> exposure_tracker \<times> exposure_store" where
  "write_exposure io exchange base v T R =
     (let key = exposure_key exchange base
      in if tr_redis T
         then if set_ok io then (Inr v, set_snapshot exchange base v T, R(key \<mapsto> v))
              else (Inl RedisError, T, R)
         else (Inr v, set_snapshot exchange base v (T\<lparr>tr_memory := (tr_memory T)(key \<mapsto> v)\<rparr>), R))"

definition update_exposure ::
    "redis_io \<Rightarrow> string \<Rightarrow> string \<Rightarrow> decimal \<Rightarrow> exposure_tracker \<Rightarrow> exposure_store \<Rightarrow>
     (redis_error + decimal) \<times> exposure_tracker \<times> exposure_store" where
  "update_exposure io exchange base delta T R =
     (case get_net_exposure io exchange base T R of
        Inl e \<Rightarrow> (Inl e, T, R)
      | Inr current \<Rightarrow> write_exposure io exchange base (current + delta) T R)"

definition check_correlation ::
    "redis_io \<Rightarrow> trade_proposal \<Rightarrow> decimal \<Rightarrow> exposure_tracker \<Rightarrow> exposure_store \<Rightarrow> redis_error + bool" where
  "check_correlation io p max_net T R =
     (if \<not> occurs_in ''/'' (tp_symbol p) then Inr True
      else case get_net_exposure io (tp_exchange p) (before ''/'' (tp_symbol p)) T R of
             Inl e \<Rightarrow> Inl e
           | Inr current \<Rightarrow>
               let delta = (if upper (tp_side p) = ''BUY'' then tp_size p else - tp_size p)
               in Inr (\<bar>current + delta\<bar> \<le> max_net))"

definition get_portfolio_exposure ::
    "string list \<Rightarrow> string list \<Rightarrow> exposure_tracker \<Rightarrow> exposure_store \<Rightarrow> (string \<times> string, decimal) dict" where
  "get_portfolio_exposure exchanges assets T R =
     fold (\<lambda>(ex, a) d. case get_net_exposure \<lparr>get_ok = True, set_ok = True\<rparr> ex a T R of
              Inl e \<Rightarrow> d
            | Inr net \<Rightarrow> if net = 0 then d else AList.update (ex, a) net d)
       (List.product exchanges assets) []"

subsection \<open>Keys\<close>

lemma exposure_key_inj:
  assumes "CHR '':'' \<notin> set ex" and "CHR '':'' \<notin> set ex'" and "exposure_key ex b = exposure_key ex' b'"
  shows "ex = ex' \<and> b = b'"
proof -
  have "ex @ '':'' @ b = ex' @ '':'' @ b'" using assms(3) by (simp add: exposure_key_def)
  then show ?thesis
    using assms(1,2)
  proof (induction ex arbitrary: ex')
    case Nil
    then show ?case by (cases ex') auto
  next
    case (Cons c ex)
    then show ?case by (cases ex') auto
  qed
qed

subsection \<open>Runs of updates\<close>

definition backend :: "exposure_tracker \<Rightarrow> exposure_store \<Rightarrow> exposure_store" where
  "backend T R = (if tr_redis T then R else tr_memory T)"

fun update_all ::
    "(redis_io \<times> string \<times> string \<times> decimal) list \<Rightarrow> exposure_tracker \<Rightarrow> exposure_store \<Rightarrow>
     exposure_tracker \<times> exposure_store" where
  "update_all [] T R = (T, R)"
| "update_all ((io, ex, b, d) # us) T R =
     (let (r, T1, R1) = update_exposure io ex b d T R in update_all us T1 R1)"

text \<open>The updates that went through: all of them in memory, in Redis those whose two calls answered.\<close>

definition applied ::
    "bool \<Rightarrow> (redis_io \<times> string \<times> string \<times> decimal) list \<Rightarrow> (string \<times> decimal) list" where
  "applied redis us = map (\<lambda>(io, ex, b, d). (exposure_key ex b, d))
     (filter (\<lambda>(io, ex, b, d). redis \<longrightarrow> get_ok io \<and> set_ok io) us)"

lemma update_exposure_ok:
  assumes "tr_redis T \<longrightarrow> get_ok io \<and> set_ok io"
  obtains T' R' where "update_exposure io ex b d T R = (Inr (read_exposure (backend T R) (exposure_key ex b) + d), T', R')"
    and "tr_redis T' = tr_redis T" and "backend T' R' = add_exposure (exposure_key ex b) d (backend T R)"
    and "tr_snapshot T' = (tr_snapshot T)((ex, b) :=
          (let v = read_exposure (backend T R) (exposure_key ex b) + d in if v = 0 then None else Some v))"
proof (cases "tr_redis T")
  case True
  then show ?thesis
    using assms
    by (intro that [of "set_snapshot ex b (read_exposure R (exposure_key ex b) + d) T"
          "add_exposure (exposure_key ex b) d R"])
      (simp_all add: update_exposure_def get_net_exposure_def write_exposure_def set_snapshot_def
        add_exposure_def backend_def Let_def)
next
  case False
  then show ?thesis
    by (intro that [of "set_snapshot ex b (read_exposure (tr_memory T) (exposure_key ex b) + d)
          (T\<lparr>tr_memory := add_exposure (exposure_key ex b) d (tr_memory T)\<rparr>)" R])
      (simp_all add: update_exposure_def get_net_exposure_def write_exposure_def set_snapshot_def
        add_exposure_def backend_def Let_def)
qed

lemma update_exposure_fails:
  "\<not> (tr_redis T \<longrightarrow> get_ok io \<and> set_ok io) \<Longrightarrow> update_exposure io ex b d T R = (Inl RedisError, T, R)"
  by (auto simp: update_exposure_def get_net_exposure_def write_exposure_def Let_def)

definition mirrors :: "exposure_tracker \<Rightarrow> exposure_store \<Rightarrow> bool" where
  "mirrors T R \<longleftrightarrow> (\<forall>ex b. CHR '':'' \<notin> set ex \<longrightarrow>
     tr_snapshot T (ex, b) = (let v = read_exposure (backend T R) (exposure_key ex b)
                              in if v = 0 then None else Some v))"

lemma update_all_book:
  assumes "\<forall>(io, ex, b, d) \<in> set us. CHR '':'' \<notin> set ex" and "mirrors T R" and "update_all us T R = (T', R')"
  shows "tr_redis T' = tr_redis T \<and> mirrors T' R' \<and>
    read_exposure (backend T' R') k = read_exposure (backend T R) k
      + (\<Sum>(k', d)\<leftarrow>applied (tr_redis T) us. if k = k' then d else 0)"
  using assms
proof (induction us arbitrary: T R)
  case (Cons u us)
  obtain io ex b d where u: "u = (io, ex, b, d)" by (cases u)
  show ?case
  proof (cases "tr_redis T \<longrightarrow> get_ok io \<and> set_ok io")
    case True
    obtain T1 R1 where step: "update_exposure io ex b d T R
          = (Inr (read_exposure (backend T R) (exposure_key ex b) + d), T1, R1)"
      "tr_redis T1 = tr_redis T" "backend T1 R1 = add_exposure (exposure_key ex b) d (backend T R)"
      "tr_snapshot T1 = (tr_snapshot T)((ex, b) :=
          (let v = read_exposure (backend T R) (exposure_key ex b) + d in if v = 0 then None else Some v))"
      by (rule update_exposure_ok [OF True])
    have colon: "CHR '':'' \<notin> set ex" using Cons.prems(1) by (simp add: u)
    have "mirrors T1 R1"
      unfolding mirrors_def step(3) step(4) expo.bal_post
      using Cons.prems(2) exposure_key_inj [OF _ colon] by (auto simp: mirrors_def)
    with Cons.IH [of T1 R1] Cons.prems step True show ?thesis
      by (auto simp: u applied_def expo.bal_post)
  next
    case False
    then have "update_exposure io ex b d T R = (Inl RedisError, T, R)" by (rule update_exposure_fails)
    with Cons.IH [of T R] Cons.prems False show ?thesis
      by (auto simp: u applied_def)
  qed
qed (simp add: applied_def)

text \<open>The read and the write are two calls to Redis: when two updates of one key interleave, the
  first one written is lost.\<close>

lemma interleaved_updates_lose_one:
  assumes "tr_redis T" and "get_ok io" and "set_ok io"
    and "get_net_exposure io ex b T R = Inr c1" and "write_exposure io ex b (c1 + d1) T R = (r1, T1, R1)"
    and "get_net_exposure io ex b T R = Inr c2" and "write_exposure io ex b (c2 + d2) T1 R1 = (r2, T2, R2)"
  shows "read_exposure R2 (exposure_key ex b) = read_exposure R (exposure_key ex b) + d2"
  using assms by (auto simp: get_net_exposure_def write_exposure_def read_exposure_def set_snapshot_def Let_def)

subsection \<open>Properties\<close>

text \<open>The tracker is an account of the fills: after any sequence of completed updates from an empty
  tracker, over Redis with any failing calls or in memory, the net exposure of an exchange and
  asset is what it was plus the sum of the amounts of the updates of that key that went
  through, and the local snapshot the risk check reads has exactly that value, or no
  entry when it is zero (exchange ids without a colon, and Redis empty at the start).\<close>

lemma exposure_is_sum_of_updates:
  assumes "\<forall>(io, ex, b, d) \<in> set us. CHR '':'' \<notin> set ex" and "CHR '':'' \<notin> set ex"
    and "update_all us (exposure_tracker_new redis) Map.empty = (T, R)"
  shows "get_net_exposure \<lparr>get_ok = True, set_ok = True\<rparr> ex b T R
      = Inr (\<Sum>(k, d)\<leftarrow>applied redis us. if exposure_key ex b = k then d else 0)
    \<and> tr_snapshot T (ex, b) =
        (let v = (\<Sum>(k, d)\<leftarrow>applied redis us. if exposure_key ex b = k then d else 0)
         in if v = 0 then None else Some v)"
proof -
  have m: "mirrors (exposure_tracker_new redis) Map.empty"
    by (simp add: mirrors_def exposure_tracker_new_def backend_def read_exposure_def)
  have z: "read_exposure (backend (exposure_tracker_new redis) Map.empty) k = 0" for k
    by (simp add: backend_def exposure_tracker_new_def read_exposure_def)
  have fin: "tr_redis T = redis" "mirrors T R"
    "read_exposure (backend T R) (exposure_key ex b)
       = (\<Sum>(k, d)\<leftarrow>applied redis us. if exposure_key ex b = k then d else 0)"
    using update_all_book [OF assms(1) m assms(3), of "exposure_key ex b"]
    unfolding z by (simp_all add: exposure_tracker_new_def)
  then show ?thesis
    using assms(2) by (simp add: get_net_exposure_def mirrors_def backend_def split: if_splits)
qed

definition ex_updates :: "(redis_io \<times> string \<times> string \<times> decimal) list" where
  "ex_updates = [(\<lparr>get_ok = True, set_ok = True\<rparr>, ''okx'', ''BTC'', 3),
     (\<lparr>get_ok = True, set_ok = False\<rparr>, ''okx'', ''BTC'', 4), (\<lparr>get_ok = True, set_ok = True\<rparr>, ''okx'', ''BTC'', -1)]"

lemma exposure_is_sum_of_updates_witness:
  "\<exists>T R. update_all ex_updates (exposure_tracker_new True) Map.empty = (T, R)
     \<and> get_net_exposure \<lparr>get_ok = True, set_ok = True\<rparr> ''okx'' ''BTC'' T R = Inr 2"
proof -
  obtain T R where u: "update_all ex_updates (exposure_tracker_new True) Map.empty = (T, R)"
    by (cases "update_all ex_updates (exposure_tracker_new True) Map.empty")
  have "\<forall>(io, ex, b, d) \<in> set ex_updates. CHR '':'' \<notin> set ex"
    by (simp add: ex_updates_def)
  from exposure_is_sum_of_updates [OF this _ u, of "''okx''" "''BTC''"] u show ?thesis
    by (simp add: ex_updates_def applied_def)
qed

end
