(* ===== verification/PositionManager.thy ===== *)
theory PositionManager
  imports DualWrite Exposure
begin

text \<open>
  \<open>engine/src/risk/position_manager.py\<close>: the open positions by strategy, exchange and symbol, the
  rows it writes through the dual writer and the net exposure it keeps in Redis, and the path
  on which the engine drives it (\<open>listeners/position_manager_listener.py\<close> and the drain loop of
  \<open>runtime/background_loops.py\<close>): a synchronous index update per fill, then the same operation
  from a queue.  An operation runs without another one in between; the answers of the two
  stores during it are \<open>pm_io\<close>.
\<close>

record position_record =
  pr_side :: string
  pr_quantity :: decimal
  pr_avg :: decimal
  pr_mark :: decimal
  pr_realized :: decimal
  pr_wal_id :: int

type_synonym pos_key = "string \<times> string \<times> string"

record position_manager =
  pm_writer :: bool
  pm_redis :: bool
  pm_positions :: "(pos_key, position_record) dict"
  pm_stores :: dual_stores
  pm_exposure :: exposure_store

record pm_io =
  pi_dual :: dual_io
  pi_redis :: redis_io

text \<open>What the code calls and cannot see into: the Rust side, SHA-256 and the text of a number.\<close>

record pm_env =
  pv_rust :: rust_env
  pv_hash :: "string \<Rightarrow> string"
  pv_text :: "decimal \<Rightarrow> string"

definition unrealized_pnl :: "position_record \<Rightarrow> decimal" where
  "unrealized_pnl r =
     (if pr_mark r = 0 then 0
      else if pr_side r = ''LONG'' then (pr_mark r - pr_avg r) * pr_quantity r
      else (pr_avg r - pr_mark r) * pr_quantity r)"

definition pos_value :: "position_record \<Rightarrow> decimal" where
  "pos_value r = pr_quantity r * (if pr_mark r \<noteq> 0 then pr_mark r else pr_avg r)"

definition signed_quantity :: "position_record \<Rightarrow> decimal" where
  "signed_quantity r = (if pr_side r = ''LONG'' then pr_quantity r else - pr_quantity r)"

definition new_record :: "string \<Rightarrow> decimal \<Rightarrow> decimal \<Rightarrow> int \<Rightarrow> position_record" where
  "new_record side qty avg wid =
     \<lparr>pr_side = side, pr_quantity = qty, pr_avg = avg, pr_mark = 0, pr_realized = 0, pr_wal_id = wid\<rparr>"

text \<open>\<open>_update_redis_exposure\<close>; a symbol without a slash is skipped.\<close>

definition exposure_key_of :: "pos_key \<Rightarrow> string option" where
  "exposure_key_of key = (case key of (sid, ex, symb) \<Rightarrow>
     if occurs_in ''/'' symb then Some (exposure_key ex (before ''/'' symb)) else None)"

definition update_redis_exposure ::
    "redis_io \<Rightarrow> pos_key \<Rightarrow> decimal \<Rightarrow> exposure_store \<Rightarrow> redis_error option \<times> exposure_store" where
  "update_redis_exposure io key delta R =
     (case exposure_key_of key of
        None \<Rightarrow> (None, R)
      | Some k \<Rightarrow>
          if \<not> get_ok io then (Some RedisError, R)
          else if \<not> set_ok io then (Some RedisError, R)
          else (None, add_exposure k delta R))"

text \<open>A write through the dual writer whose exceptions are caught; \<open>None\<close> when it raised.\<close>

definition log_event ::
    "pm_env \<Rightarrow> pm_io \<Rightarrow> position_event \<Rightarrow> position_manager \<Rightarrow> int option \<times> position_manager" where
  "log_event v io e P =
     (if pm_writer P
      then case write_position (pv_rust v) (pv_hash v) (pv_text v) (pi_dual io) e (pm_stores P) of
             (Inl err, S) \<Rightarrow> (None, P\<lparr>pm_stores := S\<rparr>)
           | (Inr wid, S) \<Rightarrow> (Some wid, P\<lparr>pm_stores := S\<rparr>)
      else (Some 0, P))"

definition event_for ::
    "pos_key \<Rightarrow> string \<Rightarrow> decimal \<Rightarrow> decimal \<Rightarrow> string \<Rightarrow> (string \<times> decimal) list \<Rightarrow> position_event" where
  "event_for key side qty price type meta = (case key of (sid, ex, symb) \<Rightarrow>
     \<lparr>pe_strategy = sid, pe_exchange = ex, pe_symbol = symb, pe_side = side, pe_quantity = qty,
      pe_price = price, pe_type = type, pe_metadata = meta\<rparr>)"

definition open_position ::
    "pm_env \<Rightarrow> pm_io \<Rightarrow> pos_key \<Rightarrow> string \<Rightarrow> decimal \<Rightarrow> decimal \<Rightarrow> position_manager \<Rightarrow>
     (redis_error + int) \<times> position_manager" where
  "open_position v io key side qty avg P =
     (let (logged, P1) = log_event v io (event_for key side qty avg ''OPEN'' []) P;
          wid = (case logged of None \<Rightarrow> 0 | Some w \<Rightarrow> w);
          P2 = P1\<lparr>pm_positions := AList.update key (new_record side qty avg wid) (pm_positions P1)\<rparr>
      in if pm_redis P2
         then let (err, R) = update_redis_exposure (pi_redis io) key (if side = ''LONG'' then qty else - qty)
                    (pm_exposure P2)
              in ((case err of None \<Rightarrow> Inr wid | Some e \<Rightarrow> Inl e), P2\<lparr>pm_exposure := R\<rparr>)
         else (Inr wid, P2))"

definition update_position ::
    "pm_env \<Rightarrow> pm_io \<Rightarrow> pos_key \<Rightarrow> decimal \<Rightarrow> position_manager \<Rightarrow> position_manager" where
  "update_position v io key mark P =
     (case map_of (pm_positions P) key of
        None \<Rightarrow> P
      | Some r \<Rightarrow>
          let r' = r\<lparr>pr_mark := mark\<rparr>;
              P1 = P\<lparr>pm_positions := AList.update key r' (pm_positions P)\<rparr>
          in snd (log_event v io (event_for key (pr_side r) (pr_quantity r) (pr_avg r) ''UPDATE''
               [(''mark_price'', mark), (''unrealized_pnl'', unrealized_pnl r')]) P1))"

definition close_position ::
    "pm_env \<Rightarrow> pm_io \<Rightarrow> pos_key \<Rightarrow> decimal \<Rightarrow> position_manager \<Rightarrow> (redis_error + decimal) \<times> position_manager" where
  "close_position v io key close_price P =
     (case map_of (pm_positions P) key of
        None \<Rightarrow> (Inr 0, P)
      | Some r \<Rightarrow>
          let r' = r\<lparr>pr_mark := close_price\<rparr>;
              realized = unrealized_pnl r' + pr_realized r';
              P1 = P\<lparr>pm_positions := AList.update key r' (pm_positions P)\<rparr>;
              P2 = snd (log_event v io (event_for key (pr_side r) (pr_quantity r) close_price ''CLOSE''
                     [(''realized_pnl'', realized)]) P1);
              (err, R) = (if pm_redis P2
                 then update_redis_exposure (pi_redis io) key (- signed_quantity r') (pm_exposure P2)
                 else (None, pm_exposure P2));
              P3 = P2\<lparr>pm_exposure := R\<rparr>
          in case err of
               Some e \<Rightarrow> (Inl e, P3)
             | None \<Rightarrow> (Inr realized, P3\<lparr>pm_positions := AList.delete key (pm_positions P3)\<rparr>))"

datatype index_op =
    IndexOpen pos_key string decimal decimal
  | IndexClose pos_key decimal

fun update_index_sync :: "index_op \<Rightarrow> position_manager \<Rightarrow> position_manager" where
  "update_index_sync (IndexOpen key side qty avg) P =
     P\<lparr>pm_positions := AList.update key (new_record side qty avg 0) (pm_positions P)\<rparr>"
| "update_index_sync (IndexClose key price) P =
     P\<lparr>pm_positions := AList.delete key (pm_positions P)\<rparr>"

definition pm_get_net_exposure ::
    "redis_io \<Rightarrow> string \<Rightarrow> string \<Rightarrow> position_manager \<Rightarrow> redis_error + decimal" where
  "pm_get_net_exposure io ex base P =
     (if get_ok io then Inr (read_exposure (pm_exposure P) (exposure_key ex base)) else Inl RedisError)"

subsection \<open>The listener and the drain loop\<close>

record pm_system =
  sys_pm :: position_manager
  sys_queue :: "index_op list"

text \<open>One leg of a successful execution: the index first, then the queue (1024 places; what happens to
  an operation that finds it full is not modelled).\<close>

definition on_fill :: "index_op \<Rightarrow> pm_system \<Rightarrow> pm_system" where
  "on_fill op s = \<lparr>sys_pm = update_index_sync op (sys_pm s), sys_queue = sys_queue s @ [op]\<rparr>"

definition drain_one :: "pm_env \<Rightarrow> pm_io \<Rightarrow> pm_system \<Rightarrow> pm_system" where
  "drain_one v io s =
     (case sys_queue s of
        [] \<Rightarrow> s
      | op # q \<Rightarrow>
          \<lparr>sys_pm = (case op of
              IndexOpen key side qty avg \<Rightarrow> snd (open_position v io key side qty avg (sys_pm s))
            | IndexClose key price \<Rightarrow> snd (close_position v io key price (sys_pm s))),
           sys_queue = q\<rparr>)"

subsection \<open>Frame lemmas\<close>

lemma log_event_frame [simp]:
  "pm_positions (snd (log_event v io e P)) = pm_positions P"
  "pm_exposure (snd (log_event v io e P)) = pm_exposure P"
  "pm_redis (snd (log_event v io e P)) = pm_redis P"
  "pm_writer (snd (log_event v io e P)) = pm_writer P"
  by (auto simp: log_event_def split: prod.split sum.split)

definition io_ok :: "pm_io \<Rightarrow> bool" where
  "io_ok io \<longleftrightarrow> get_ok (pi_redis io) \<and> set_ok (pi_redis io)"

definition post_exposure :: "pos_key \<Rightarrow> decimal \<Rightarrow> exposure_store \<Rightarrow> exposure_store" where
  "post_exposure key d R = (case exposure_key_of key of None \<Rightarrow> R | Some k \<Rightarrow> add_exposure k d R)"

lemma update_redis_ok: "io_ok io \<Longrightarrow> update_redis_exposure (pi_redis io) key d R = (None, post_exposure key d R)"
  by (simp add: io_ok_def update_redis_exposure_def post_exposure_def split: option.split)

lemma read_post: "read_exposure (post_exposure key d R) k
    = read_exposure R k + (if exposure_key_of key = Some k then d else 0)"
  by (auto simp: post_exposure_def expo.bal_post split: option.split)

lemma open_position_ok:
  assumes "io_ok io"
  shows "pm_redis (snd (open_position v io key side qty avg P)) = pm_redis P"
    and "pm_exposure (snd (open_position v io key side qty avg P))
      = (if pm_redis P then post_exposure key (if side = ''LONG'' then qty else - qty) (pm_exposure P) else pm_exposure P)"
    and "\<exists>wid. pm_positions (snd (open_position v io key side qty avg P))
      = AList.update key (new_record side qty avg wid) (pm_positions P)"
proof -
  obtain w P1 where l: "log_event v io (event_for key side qty avg ''OPEN'' []) P = (w, P1)"
    by (cases "log_event v io (event_for key side qty avg ''OPEN'' []) P")
  have f: "pm_positions P1 = pm_positions P" "pm_exposure P1 = pm_exposure P" "pm_redis P1 = pm_redis P"
    using log_event_frame [of v io "event_for key side qty avg ''OPEN'' []" P] by (simp_all add: l)
  show "pm_redis (snd (open_position v io key side qty avg P)) = pm_redis P"
    and "pm_exposure (snd (open_position v io key side qty avg P))
      = (if pm_redis P then post_exposure key (if side = ''LONG'' then qty else - qty) (pm_exposure P) else pm_exposure P)"
    and "\<exists>wid. pm_positions (snd (open_position v io key side qty avg P))
      = AList.update key (new_record side qty avg wid) (pm_positions P)"
    by (auto simp: open_position_def Let_def l f update_redis_ok [OF assms])
qed

lemma close_position_ok:
  assumes "io_ok io" and "map_of (pm_positions P) key = Some r"
  shows "pm_redis (snd (close_position v io key price P)) = pm_redis P"
    and "pm_exposure (snd (close_position v io key price P))
      = (if pm_redis P then post_exposure key (- signed_quantity r) (pm_exposure P) else pm_exposure P)"
    and "pm_positions (snd (close_position v io key price P)) = AList.delete key (AList.update key (r\<lparr>pr_mark := price\<rparr>) (pm_positions P))"
    and "fst (close_position v io key price P) = Inr (unrealized_pnl (r\<lparr>pr_mark := price\<rparr>) + pr_realized r)"
  using assms by (simp_all add: close_position_def Let_def update_redis_ok signed_quantity_def)

lemma close_position_absent:
  "map_of (pm_positions P) key = None \<Longrightarrow> close_position v io key price P = (Inr 0, P)"
  by (simp add: close_position_def)

subsection \<open>The exposure of the open positions\<close>

definition book_exposure :: "string \<Rightarrow> (pos_key, position_record) dict \<Rightarrow> decimal" where
  "book_exposure k ps = (\<Sum>(key, r)\<leftarrow>ps. if exposure_key_of key = Some k then signed_quantity r else 0)"

lemma book_update_absent:
  "map_of ps key = None \<Longrightarrow> book_exposure k (AList.update key r ps)
     = book_exposure k ps + (if exposure_key_of key = Some k then signed_quantity r else 0)"
  by (simp add: keys_update_absent map_of_eq_None_iff book_exposure_def)

lemma book_update_same:
  "map_of ps key = Some r \<Longrightarrow> signed_quantity r' = signed_quantity r \<Longrightarrow>
   book_exposure k (AList.update key r' ps) = book_exposure k ps"
  by (induction ps) (auto simp: book_exposure_def)

lemma book_delete:
  "distinct (dict_keys ps) \<Longrightarrow> map_of ps key = Some r \<Longrightarrow> book_exposure k (AList.delete key ps)
     = book_exposure k ps - (if exposure_key_of key = Some k then signed_quantity r else 0)"
proof (induction ps)
  case (Cons x ps)
  obtain key' r' where x: "x = (key', r')" by (cases x)
  show ?case
  proof (cases "key' = key")
    case True
    then have "AList.delete key ps = ps"
      using Cons.prems(1) by (intro delete_id) (simp add: x)
    with True Cons.prems show ?thesis by (simp add: x book_exposure_def)
  next
    case False
    with Cons show ?thesis by (simp add: x book_exposure_def)
  qed
qed simp

definition pm_ok :: "position_manager \<Rightarrow> bool" where
  "pm_ok P \<longleftrightarrow> pm_redis P \<and> distinct (dict_keys (pm_positions P))
     \<and> (\<forall>k. read_exposure (pm_exposure P) k = book_exposure k (pm_positions P))"

datatype pm_op =
    OpenOp pm_io pos_key string decimal decimal
  | MarkOp pm_io pos_key decimal
  | CloseOp pm_io pos_key decimal

fun pm_step :: "pm_env \<Rightarrow> pm_op \<Rightarrow> position_manager \<Rightarrow> position_manager" where
  "pm_step v (OpenOp io key side qty avg) P = snd (open_position v io key side qty avg P)"
| "pm_step v (MarkOp io key mark) P = update_position v io key mark P"
| "pm_step v (CloseOp io key price) P = snd (close_position v io key price P)"

text \<open>A position is opened only while none is open under its key, and Redis answers.\<close>

fun op_fresh :: "pm_op \<Rightarrow> position_manager \<Rightarrow> bool" where
  "op_fresh (OpenOp io key side qty avg) P \<longleftrightarrow> io_ok io \<and> \<not> dict_has (pm_positions P) key"
| "op_fresh (MarkOp io key mark) P \<longleftrightarrow> True"
| "op_fresh (CloseOp io key price) P \<longleftrightarrow> io_ok io"

fun ops_fresh :: "pm_env \<Rightarrow> pm_op list \<Rightarrow> position_manager \<Rightarrow> bool" where
  "ops_fresh v [] P \<longleftrightarrow> True"
| "ops_fresh v (x # xs) P \<longleftrightarrow> op_fresh x P \<and> ops_fresh v xs (pm_step v x P)"

lemma signed_mark [simp]: "signed_quantity (r\<lparr>pr_mark := m\<rparr>) = signed_quantity r"
  by (simp add: signed_quantity_def)

lemma signed_new [simp]: "signed_quantity (new_record side qty avg w) = (if side = ''LONG'' then qty else - qty)"
  by (simp add: signed_quantity_def new_record_def)

lemma pm_ok_open:
  assumes "pm_ok P" and "io_ok io" and "map_of (pm_positions P) key = None"
  shows "pm_ok (snd (open_position v io key side qty avg P))"
proof -
  obtain wid where ps: "pm_positions (snd (open_position v io key side qty avg P))
      = AList.update key (new_record side qty avg wid) (pm_positions P)"
    using open_position_ok(3) [OF assms(2)] by blast
  show ?thesis
    using assms(1) unfolding pm_ok_def open_position_ok(1,2) [OF assms(2)] ps
    by (simp add: distinct_update book_update_absent [OF assms(3)] read_post)
qed

lemma pm_ok_close:
  assumes "pm_ok P" and "io_ok io"
  shows "pm_ok (snd (close_position v io key price P))"
proof (cases "map_of (pm_positions P) key")
  case None
  with assms(1) show ?thesis by (simp add: close_position_absent)
next
  case (Some r)
  let ?ps = "AList.update key (r\<lparr>pr_mark := price\<rparr>) (pm_positions P)"
  have d: "distinct (dict_keys ?ps)" using assms(1) by (simp add: pm_ok_def distinct_update)
  have "book_exposure k (AList.delete key ?ps) = book_exposure k (pm_positions P)
      - (if exposure_key_of key = Some k then signed_quantity r else 0)" for k
    using book_delete [OF d, of key "r\<lparr>pr_mark := price\<rparr>" k] book_update_same [OF Some, of "r\<lparr>pr_mark := price\<rparr>" k]
    by simp
  then show ?thesis
    using assms(1) d unfolding pm_ok_def close_position_ok(1,2,3) [OF assms(2) Some]
    by (simp add: distinct_delete read_post)
qed

lemma pm_ok_mark: "pm_ok P \<Longrightarrow> pm_ok (update_position v io key mark P)"
  by (auto simp: update_position_def pm_ok_def Let_def distinct_update book_update_same split: option.split)

lemma pm_ok_step: "pm_ok P \<Longrightarrow> op_fresh x P \<Longrightarrow> pm_ok (pm_step v x P)"
  by (cases x) (auto simp: pm_ok_open pm_ok_close pm_ok_mark dict_has_iff)

lemma pm_ok_run: "pm_ok P \<Longrightarrow> ops_fresh v xs P \<Longrightarrow> pm_ok (fold (pm_step v) xs P)"
  by (induction xs arbitrary: P) (auto simp: pm_ok_step)

definition pm_new :: "bool \<Rightarrow> bool \<Rightarrow> halt_flags \<Rightarrow> position_manager" where
  "pm_new writer redis flags = \<lparr>pm_writer = writer, pm_redis = redis, pm_positions = [],
     pm_stores = \<lparr>wal = [], redis_positions = Map.empty, dw_flags = flags\<rparr>, pm_exposure = Map.empty\<rparr>"

text \<open>Opening a key that is open replaces the record but adds to the exposure, which is then too large
  by the signed quantity of the record that was replaced.\<close>

lemma reopen_counts_twice:
  assumes "pm_ok P" and "io_ok io" and "map_of (pm_positions P) key = Some r" and "exposure_key_of key = Some k"
  shows "read_exposure (pm_exposure (snd (open_position v io key side qty avg P))) k
    = book_exposure k (pm_positions (snd (open_position v io key side qty avg P))) + signed_quantity r"
proof -
  obtain wid where ps: "pm_positions (snd (open_position v io key side qty avg P))
      = AList.update key (new_record side qty avg wid) (pm_positions P)"
    using open_position_ok(3) [OF assms(2)] by blast
  have "distinct (dict_keys ps) \<Longrightarrow> map_of ps key = Some r \<Longrightarrow> book_exposure k (AList.update key n ps)
      = book_exposure k ps - signed_quantity r + signed_quantity n" for ps n
    using assms(4) by (induction ps) (auto simp: book_exposure_def)
  from this [of "pm_positions P" "new_record side qty avg wid"] assms show ?thesis
    unfolding open_position_ok(2) [OF assms(2)] ps by (simp add: pm_ok_def read_post)
qed

subsection \<open>Properties\<close>

text \<open>C21. Net exposure is the sum of the open positions: from an empty manager, after any sequence of
  opens of keys that are not open, mark updates and closes during which Redis answers, whatever
  the dual writer does, the exposure of every exchange and asset in Redis is the sum of
  the signed quantities of the open positions of that exchange and asset; and a close of an
  open position at a non-zero price then returns its signed quantity times the move from its
  entry, plus what it had realized.\<close>

theorem net_exposure_is_open_positions:
  assumes "ops_fresh v xs (pm_new writer True flags)"
  shows "let P = fold (pm_step v) xs (pm_new writer True flags) in
     (\<forall>k. read_exposure (pm_exposure P) k
        = (\<Sum>(key, r)\<leftarrow>pm_positions P. if exposure_key_of key = Some k then signed_quantity r else 0))
   \<and> (\<forall>io key r price. io_ok io \<and> map_of (pm_positions P) key = Some r \<and> price \<noteq> 0 \<longrightarrow>
        fst (close_position v io key price P) = Inr (signed_quantity r * (price - pr_avg r) + pr_realized r))"
proof -
  have "pm_ok (pm_new writer True flags)"
    by (simp add: pm_ok_def pm_new_def book_exposure_def read_exposure_def)
  from pm_ok_run [OF this assms] show ?thesis
    by (auto simp: pm_ok_def book_exposure_def Let_def close_position_ok(4) unrealized_pnl_def signed_quantity_def
        algebra_simps)
qed

definition ex_pm_env :: pm_env where
  "ex_pm_env = \<lparr>pv_rust = ex_env, pv_hash = id, pv_text = (\<lambda>_. ''1'')\<rparr>"

definition ex_pm_io :: pm_io where
  "ex_pm_io = \<lparr>pi_dual = ex_dual_io, pi_redis = \<lparr>get_ok = True, set_ok = True\<rparr>\<rparr>"

theorem net_exposure_is_open_positions_witness:
  "let P = fold (pm_step ex_pm_env) [OpenOp ex_pm_io (''arb'', ''okx'', ''BTC/USDT'') ''SHORT'' 2 100]
       (pm_new False True initial_flags) in
   \<forall>k. read_exposure (pm_exposure P) k
     = (\<Sum>(key, r)\<leftarrow>pm_positions P. if exposure_key_of key = Some k then signed_quantity r else 0)"
proof -
  have "ops_fresh ex_pm_env [OpenOp ex_pm_io (''arb'', ''okx'', ''BTC/USDT'') ''SHORT'' 2 100]
      (pm_new False True initial_flags)"
    by (simp add: io_ok_def ex_pm_io_def dict_has_def pm_new_def)
  from net_exposure_is_open_positions [OF this] show ?thesis by (simp add: Let_def del: fold_simps)
qed

text \<open>Order of the index and the queue: over Redis that answers, a position whose symbol has a base
  asset is opened and later closed by two fills.  When the drain loop has handled the open before
  the closing fill arrives, the drained close finds no record: it changes nothing, writes no row,
  and leaves the exposure at the opened amount with no position open; when the drain is slower
  than the closing fill, the exposure is restored.\<close>

lemma drained_close_loses_exposure:
  assumes "io_ok io" and "exposure_key_of key = Some k" and "pm_redis P" and "\<not> dict_has (pm_positions P) key"
    and "s = \<lparr>sys_pm = P, sys_queue = []\<rparr>"
  shows "let opened = drain_one v io (on_fill (IndexOpen key side qty avg) s);
           closed = on_fill (IndexClose key price) opened;
           prompt = drain_one v io closed;
           late = drain_one v io (drain_one v io
                    (on_fill (IndexClose key price) (on_fill (IndexOpen key side qty avg) s)));
           d = (if side = ''LONG'' then qty else - qty)
       in sys_pm prompt = sys_pm closed \<and> pm_stores (sys_pm prompt) = pm_stores (sys_pm opened)
        \<and> \<not> dict_has (pm_positions (sys_pm prompt)) key
        \<and> read_exposure (pm_exposure (sys_pm prompt)) k = read_exposure (pm_exposure P) k + d
        \<and> \<not> dict_has (pm_positions (sys_pm late)) key
        \<and> read_exposure (pm_exposure (sys_pm late)) k = read_exposure (pm_exposure P) k"
proof -
  let ?o = "IndexOpen key side qty avg" and ?c = "IndexClose key price"
  let ?d = "if side = ''LONG'' then qty else - qty"
  let ?P1 = "update_index_sync ?o P"
  let ?P2 = "snd (open_position v io key side qty avg ?P1)"
  let ?P3 = "update_index_sync ?c ?P2"
  let ?L1 = "update_index_sync ?c ?P1"
  let ?L2 = "snd (open_position v io key side qty avg ?L1)"
  have absent: "close_position v io key price ?P3 = (Inr 0, ?P3)"
    by (rule close_position_absent) simp
  have P2: "pm_exposure ?P2 = post_exposure key ?d (pm_exposure P)"
    unfolding open_position_ok(2) [OF assms(1)] using assms(3) by simp
  obtain wid where ps: "pm_positions ?L2 = AList.update key (new_record side qty avg wid) (pm_positions ?L1)"
    using open_position_ok(3) [OF assms(1)] by blast
  then have some: "map_of (pm_positions ?L2) key = Some (new_record side qty avg wid)" by simp
  have L2: "pm_exposure ?L2 = post_exposure key ?d (pm_exposure P)" "pm_redis ?L2"
    unfolding open_position_ok(1,2) [OF assms(1)] using assms(3) by simp_all
  have L3: "pm_exposure (snd (close_position v io key price ?L2))
      = post_exposure key (- ?d) (post_exposure key ?d (pm_exposure P))"
    unfolding close_position_ok(2) [OF assms(1) some] using L2 by simp
  have L4: "map_of (pm_positions (snd (close_position v io key price ?L2))) key = None"
    unfolding close_position_ok(3) [OF assms(1) some] by simp
  show ?thesis
    unfolding assms(5) Let_def on_fill_def drain_one_def
    using absent P2 L3 L4 assms(2) by (simp add: dict_has_iff read_post)
qed

lemma drained_close_loses_exposure_witness:
  "let s = \<lparr>sys_pm = pm_new False True initial_flags, sys_queue = []\<rparr>;
       opened = drain_one ex_pm_env ex_pm_io (on_fill (IndexOpen (''arb'', ''okx'', ''BTC/USDT'') ''LONG'' 2 100) s);
       prompt = drain_one ex_pm_env ex_pm_io (on_fill (IndexClose (''arb'', ''okx'', ''BTC/USDT'') 110) opened)
   in read_exposure (pm_exposure (sys_pm prompt)) ''leviathan:exposure:okx:BTC'' = 2"
proof -
  have k: "exposure_key_of (''arb'', ''okx'', ''BTC/USDT'') = Some ''leviathan:exposure:okx:BTC''"
    by (simp add: exposure_key_of_def exposure_key_def)
  have io: "io_ok ex_pm_io" by (simp add: io_ok_def ex_pm_io_def)
  have P: "pm_redis (pm_new False True initial_flags)"
    "\<not> dict_has (pm_positions (pm_new False True initial_flags)) (''arb'', ''okx'', ''BTC/USDT'')"
    by (simp_all add: pm_new_def dict_has_def)
  have z: "read_exposure (pm_exposure (pm_new False True initial_flags)) k = 0" for k
    by (simp add: pm_new_def read_exposure_def)
  show ?thesis
    using drained_close_loses_exposure [OF io k P refl, of ex_pm_env "''LONG''" 2 100 110]
    unfolding Let_def z by (elim conjE) simp
qed

end
