(* ===== verification/PositionRegistry.thy ===== *)
theory PositionRegistry
  imports Interfaces
begin

text \<open>
  \<open>engine/src/core/position_registry.py\<close>: one lock per symbol, preempted by a higher priority and
  freed by its time to live.  An operation reads the clock before it takes the mutex (\<open>now\<close>)
  and again where it makes or refreshes an entry (\<open>later\<close>), so between the two other threads
  may run; the body under the mutex is one step.
\<close>

record lock_entry =
  lk_strategy :: string
  lk_priority :: int
  lk_expires :: secs

record position_registry =
  lock_ttl :: secs
  locks :: "string \<Rightarrow> lock_entry option"

definition registry_new :: "secs \<Rightarrow> position_registry" where
  "registry_new ttl = \<lparr>lock_ttl = ttl, locks = Map.empty\<rparr>"

definition priority_table :: "(string \<times> int) list" where
  "priority_table =
     [(''cross_exchange'', 10), (''futures_futures'', 8), (''statistical_arb'', 6), (''triangular'', 4),
      (''funding_rate'', 2), (''spot_futures'', 2), (''cex_dex'', 1)]"

definition effective_priority :: "string \<Rightarrow> int option \<Rightarrow> int" where
  "effective_priority sid prio =
     (case prio of Some p \<Rightarrow> p
      | None \<Rightarrow> (case map_of priority_table sid of None \<Rightarrow> 0 | Some p \<Rightarrow> p))"

definition set_lock :: "string \<Rightarrow> lock_entry option \<Rightarrow> position_registry \<Rightarrow> position_registry" where
  "set_lock symb e R = R\<lparr>locks := (locks R)(symb := e)\<rparr>"

definition try_lock ::
    "secs \<Rightarrow> secs \<Rightarrow> string \<Rightarrow> string \<Rightarrow> int option \<Rightarrow> position_registry \<Rightarrow> bool \<times> position_registry" where
  "try_lock now later symb sid prio R =
     (let p = effective_priority sid prio;
          fresh = \<lparr>lk_strategy = sid, lk_priority = p, lk_expires = later + lock_ttl R\<rparr>;
          existing = (case locks R symb of
             None \<Rightarrow> None
           | Some e \<Rightarrow> if lk_expires e \<le> now then None else Some e)
      in case existing of
           None \<Rightarrow> (True, set_lock symb (Some fresh) R)
         | Some e \<Rightarrow>
             if lk_strategy e = sid
             then (True, set_lock symb (Some (e\<lparr>lk_expires := now + lock_ttl R\<rparr>)) R)
             else if lk_priority e < p then (True, set_lock symb (Some fresh) R)
             else (False, R))"

definition lock_release :: "string \<Rightarrow> string \<Rightarrow> position_registry \<Rightarrow> position_registry" where
  "lock_release symb sid R =
     (case locks R symb of
        None \<Rightarrow> R
      | Some e \<Rightarrow> if lk_strategy e = sid then set_lock symb None R else R)"

definition refresh :: "secs \<Rightarrow> string \<Rightarrow> string \<Rightarrow> position_registry \<Rightarrow> position_registry" where
  "refresh later symb sid R =
     (case locks R symb of
        None \<Rightarrow> R
      | Some e \<Rightarrow>
          if lk_strategy e = sid then set_lock symb (Some (e\<lparr>lk_expires := later + lock_ttl R\<rparr>)) R else R)"

definition is_locked :: "secs \<Rightarrow> string \<Rightarrow> position_registry \<Rightarrow> bool" where
  "is_locked now symb R = (case locks R symb of None \<Rightarrow> False | Some e \<Rightarrow> now < lk_expires e)"

definition get_holder :: "secs \<Rightarrow> string \<Rightarrow> position_registry \<Rightarrow> string option" where
  "get_holder now symb R =
     (case locks R symb of None \<Rightarrow> None | Some e \<Rightarrow> if now < lk_expires e then Some (lk_strategy e) else None)"

definition lock_live :: "secs \<Rightarrow> lock_entry \<Rightarrow> bool" where
  "lock_live now e \<longleftrightarrow> now < lk_expires e"

subsection \<open>Interleaved calls\<close>

datatype lock_call =
    TryLock secs secs string string "int option"
  | ReleaseLock string string
  | RefreshLock secs string string

fun lock_step :: "lock_call \<Rightarrow> position_registry \<Rightarrow> bool option \<times> position_registry" where
  "lock_step (TryLock now later symb sid prio) R = (let (b, R') = try_lock now later symb sid prio R in (Some b, R'))"
| "lock_step (ReleaseLock symb sid) R = (None, lock_release symb sid R)"
| "lock_step (RefreshLock later symb sid) R = (None, refresh later symb sid R)"

fun lock_run :: "lock_call list \<Rightarrow> position_registry \<Rightarrow> (lock_call \<times> bool option) list \<times> position_registry" where
  "lock_run [] R = ([], R)"
| "lock_run (c # cs) R =
     (let (b, R1) = lock_step c R; (bs, R2) = lock_run cs R1 in ((c, b) # bs, R2))"

text \<open>A call of another strategy that, on this symbol, has no higher priority and has read the clock
  before the lock expires.\<close>

fun weaker_call :: "string \<Rightarrow> lock_entry \<Rightarrow> lock_call \<Rightarrow> bool" where
  "weaker_call symb e (TryLock now later symb' sid prio) \<longleftrightarrow>
     sid \<noteq> lk_strategy e \<and> (symb' = symb \<longrightarrow> effective_priority sid prio \<le> lk_priority e \<and> lock_live now e)"
| "weaker_call symb e (ReleaseLock symb' sid) \<longleftrightarrow> sid \<noteq> lk_strategy e"
| "weaker_call symb e (RefreshLock later symb' sid) \<longleftrightarrow> sid \<noteq> lk_strategy e"

definition wins_lock :: "string \<Rightarrow> lock_call \<times> bool option \<Rightarrow> bool" where
  "wins_lock symb x \<longleftrightarrow> snd x = Some True \<and>
     (case fst x of TryLock now later symb' sid prio \<Rightarrow> symb' = symb | _ \<Rightarrow> False)"

lemma try_lock_outcome:
  "fst (try_lock now later symb sid prio R) \<longleftrightarrow>
     (case locks R symb of
        None \<Rightarrow> True
      | Some e \<Rightarrow> \<not> lock_live now e \<or> lk_strategy e = sid \<or> lk_priority e < effective_priority sid prio)"
  by (auto simp: try_lock_def lock_live_def Let_def split: option.split)

lemma try_lock_other: "symb' \<noteq> symb \<Longrightarrow> locks (snd (try_lock now later symb' sid prio R)) symb = locks R symb"
  by (auto simp: try_lock_def set_lock_def Let_def split: option.split)

lemma weaker_step:
  assumes "locks R symb = Some e" and "weaker_call symb e c" and "lock_step c R = (b, R')"
  shows "locks R' symb = Some e \<and> \<not> wins_lock symb (c, b)"
proof (cases c)
  case (TryLock now later symb' sid prio)
  show ?thesis
  proof (cases "symb' = symb")
    case True
    then show ?thesis
      using assms by (auto simp: TryLock try_lock_def lock_live_def Let_def wins_lock_def)
  next
    case False
    then show ?thesis
      using assms try_lock_other [OF False, of now later sid prio R]
      by (auto simp: TryLock wins_lock_def split: prod.splits)
  qed
qed (use assms in \<open>auto simp: lock_release_def refresh_def set_lock_def wins_lock_def split: option.splits\<close>)

lemma weaker_run:
  "locks R symb = Some e \<Longrightarrow> \<forall>c \<in> set cs. weaker_call symb e c \<Longrightarrow> lock_run cs R = (bs, R') \<Longrightarrow>
   locks R' symb = Some e \<and> (\<forall>x \<in> set bs. \<not> wins_lock symb x)"
proof (induction cs arbitrary: R bs)
  case (Cons c cs)
  obtain b R1 where s: "lock_step c R = (b, R1)" by (cases "lock_step c R")
  obtain bs1 where r: "lock_run cs R1 = (bs1, R')" "bs = (c, b) # bs1"
    using Cons.prems(3) by (auto simp: s split: prod.splits)
  from weaker_step [OF Cons.prems(1) _ s] Cons.IH [OF _ _ r(1)] Cons.prems show ?case
    by (auto simp: r(2))
qed simp

subsection \<open>Properties\<close>

text \<open>The lock excludes: an attempt succeeds exactly when the symbol is free, its lock has expired by
  the attempt's clock reading, the holder is the same strategy, or the attempt has a strictly
  higher priority; hence once a strategy has acquired a symbol, whatever calls other
  strategies make on any symbols, as long as none of their attempts on this one has a
  higher priority or read the clock after the expiry, none of them acquires it and it stays held.\<close>

lemma lock_is_exclusive:
  assumes "try_lock now later symb sid prio R = (True, R1)" and "locks R1 symb = Some e"
    and "\<forall>c \<in> set cs. weaker_call symb e c" and "lock_run cs R1 = (bs, R2)"
  shows "(\<forall>x \<in> set bs. \<not> wins_lock symb x)
    \<and> (\<forall>t < lk_expires e. get_holder t symb R2 = Some sid)
    \<and> (\<forall>t sid' prio'. fst (try_lock t later symb sid' prio' R2) \<longleftrightarrow>
         lk_expires e \<le> t \<or> sid' = sid \<or> lk_priority e < effective_priority sid' prio')"
proof -
  have holder: "lk_strategy e = sid"
    using assms(1,2) by (auto simp: try_lock_def set_lock_def Let_def split: option.splits if_splits)
  from weaker_run [OF assms(2,3,4)] show ?thesis
    by (auto simp: get_holder_def holder try_lock_outcome lock_live_def)
qed

lemma lock_is_exclusive_witness:
  "\<exists>bs R2. lock_run [TryLock 1 1 ''BTC'' ''triangular'' None, ReleaseLock ''BTC'' ''triangular'']
      (snd (try_lock 0 0 ''BTC'' ''cross_exchange'' None (registry_new 60))) = (bs, R2)
     \<and> get_holder 59 ''BTC'' R2 = Some ''cross_exchange''"
proof -
  let ?R1 = "snd (try_lock 0 0 ''BTC'' ''cross_exchange'' None (registry_new 60))"
  let ?e = "\<lparr>lk_strategy = ''cross_exchange'', lk_priority = 10, lk_expires = 60\<rparr>"
  let ?cs = "[TryLock 1 1 ''BTC'' ''triangular'' None, ReleaseLock ''BTC'' ''triangular'']"
  obtain bs R2 where r: "lock_run ?cs ?R1 = (bs, R2)" by (cases "lock_run ?cs ?R1")
  have t: "try_lock 0 0 ''BTC'' ''cross_exchange'' None (registry_new 60) = (True, ?R1)"
    and e: "locks ?R1 ''BTC'' = Some ?e"
    by (simp_all add: try_lock_def registry_new_def set_lock_def effective_priority_def priority_table_def)
  have "\<forall>c \<in> set ?cs. weaker_call ''BTC'' ?e c"
    by (simp add: effective_priority_def priority_table_def lock_live_def)
  from lock_is_exclusive [OF t e this r] r show ?thesis by auto
qed

end
