(* ===== verification/OrderBook.thy ===== *)
theory OrderBook
  imports Prelude "HOL-Library.Multiset"
begin

text \<open>
  \<open>engine/src/core/order_book.py\<close>: the two sides of a book as dictionaries from price to
  quantity.  A level arrives as two texts; \<open>None\<close> is a text \<open>Decimal\<close> rejects, which raises
  at that point of the loop.  CRC-32 and the text of a \<open>Decimal\<close> are parameters.
\<close>

type_synonym side_levels = "(decimal, decimal) dict"
type_synonym text_level = "decimal option \<times> decimal option"

record order_book =
  bids :: side_levels
  asks :: side_levels
  last_update_time :: secs
  update_count :: nat

datatype book_error = InvalidDecimal | InvalidSide | EmptyBook | ZeroQuantity

definition book_new :: order_book where
  "book_new = \<lparr>bids = [], asks = [], last_update_time = 0, update_count = 0\<rparr>"

text \<open>The levels put so far, and whether the loop raised.\<close>

fun put_levels ::
    "(decimal \<Rightarrow> decimal \<Rightarrow> side_levels \<Rightarrow> side_levels) \<Rightarrow> text_level list \<Rightarrow> side_levels \<Rightarrow> bool \<times> side_levels" where
  "put_levels put [] d = (True, d)"
| "put_levels put ((p, q) # ls) d =
     (case (p, q) of (Some p', Some q') \<Rightarrow> put_levels put ls (put p' q' d) | _ \<Rightarrow> (False, d))"

definition snapshot_put :: "decimal \<Rightarrow> decimal \<Rightarrow> side_levels \<Rightarrow> side_levels" where
  "snapshot_put p q d = (if q > 0 then AList.update p q d else d)"

definition delta_put :: "decimal \<Rightarrow> decimal \<Rightarrow> side_levels \<Rightarrow> side_levels" where
  "delta_put p q d = (if q = 0 then AList.delete p d else AList.update p q d)"

definition apply_snapshot ::
    "secs \<Rightarrow> text_level list \<Rightarrow> text_level list \<Rightarrow> order_book \<Rightarrow> book_error option \<times> order_book" where
  "apply_snapshot now bs as b =
     (case put_levels snapshot_put bs [] of
        (False, d) \<Rightarrow> (Some InvalidDecimal, b\<lparr>bids := d, asks := []\<rparr>)
      | (True, d) \<Rightarrow>
          (case put_levels snapshot_put as [] of
             (False, d') \<Rightarrow> (Some InvalidDecimal, b\<lparr>bids := d, asks := d'\<rparr>)
           | (True, d') \<Rightarrow>
               (None, b\<lparr>bids := d, asks := d', last_update_time := now, update_count := 0\<rparr>)))"

definition apply_delta ::
    "secs \<Rightarrow> text_level list \<Rightarrow> text_level list \<Rightarrow> order_book \<Rightarrow> book_error option \<times> order_book" where
  "apply_delta now bs as b =
     (case put_levels delta_put bs (bids b) of
        (False, d) \<Rightarrow> (Some InvalidDecimal, b\<lparr>bids := d\<rparr>)
      | (True, d) \<Rightarrow>
          (case put_levels delta_put as (asks b) of
             (False, d') \<Rightarrow> (Some InvalidDecimal, b\<lparr>bids := d, asks := d'\<rparr>)
           | (True, d') \<Rightarrow>
               (None, b\<lparr>bids := d, asks := d', last_update_time := now, update_count := update_count b + 1\<rparr>)))"

definition best_bid :: "order_book \<Rightarrow> decimal option" where
  "best_bid b = (if bids b = [] then None else Some (Max (set (dict_keys (bids b)))))"

definition best_ask :: "order_book \<Rightarrow> decimal option" where
  "best_ask b = (if asks b = [] then None else Some (Min (set (dict_keys (asks b)))))"

definition spread :: "order_book \<Rightarrow> decimal option" where
  "spread b = (case (best_bid b, best_ask b) of (Some bid, Some ask) \<Rightarrow> Some (ask - bid) | _ \<Rightarrow> None)"

definition spread_pct :: "order_book \<Rightarrow> decimal option" where
  "spread_pct b = (case (best_bid b, best_ask b) of
     (Some bid, Some ask) \<Rightarrow> if bid = 0 then None else Some ((ask - bid) / bid) | _ \<Rightarrow> None)"

text \<open>The levels from the best price on.\<close>

definition ascending :: "side_levels \<Rightarrow> side_levels" where
  "ascending d = sort_key fst d"

definition descending :: "side_levels \<Rightarrow> side_levels" where
  "descending d = rev (sort_key fst d)"

definition total_quantity :: "side_levels \<Rightarrow> decimal" where
  "total_quantity ls = (\<Sum>(p, q)\<leftarrow>ls. q)"

definition notional :: "side_levels \<Rightarrow> decimal" where
  "notional ls = (\<Sum>(p, q)\<leftarrow>ls. p * q)"

definition depth_weighted_mid_price :: "nat \<Rightarrow> order_book \<Rightarrow> book_error + decimal" where
  "depth_weighted_mid_price depth b =
     (let bl = take depth (descending (bids b)); al = take depth (ascending (asks b))
      in if bl = [] \<or> al = [] then Inl EmptyBook
         else if total_quantity bl = 0 \<or> total_quantity al = 0 then Inl ZeroQuantity
         else Inr ((notional bl / total_quantity bl + notional al / total_quantity al) / 2))"

definition volume_at_price :: "decimal \<Rightarrow> string \<Rightarrow> order_book \<Rightarrow> book_error + decimal" where
  "volume_at_price price side b =
     (if side = ''bid'' then Inr (dict_get (bids b) price 0)
      else if side = ''ask'' then Inr (dict_get (asks b) price 0)
      else Inl InvalidSide)"

fun join_with :: "string \<Rightarrow> string list \<Rightarrow> string" where
  "join_with sep [] = []"
| "join_with sep [x] = x"
| "join_with sep (x # y # xs) = x @ sep @ join_with sep (y # xs)"

definition compute_checksum :: "(string \<Rightarrow> nat) \<Rightarrow> (decimal \<Rightarrow> string) \<Rightarrow> order_book \<Rightarrow> nat" where
  "compute_checksum crc sd b =
     crc (join_with ''|'' (map (\<lambda>(p, q). sd p @ ''@'' @ sd q)
            (take 5 (descending (bids b)) @ take 5 (ascending (asks b))))) mod 2 ^ 32"

definition validate_checksum :: "(string \<Rightarrow> nat) \<Rightarrow> (decimal \<Rightarrow> string) \<Rightarrow> nat \<Rightarrow> order_book \<Rightarrow> bool" where
  "validate_checksum crc sd expected b \<longleftrightarrow> compute_checksum crc sd b = expected"

text \<open>The loop of \<open>vwap_walk\<close>: the weighted sum and the filled quantity.\<close>

fun walk :: "side_levels \<Rightarrow> decimal \<Rightarrow> decimal \<Rightarrow> decimal \<Rightarrow> decimal \<times> decimal" where
  "walk [] remaining weighted filled = (weighted, filled)"
| "walk ((price, qty) # ls) remaining weighted filled =
     (let fill = min remaining qty;
          weighted' = weighted + price * fill; filled' = filled + fill; remaining' = remaining - fill
      in if remaining' \<le> 0 then (weighted', filled') else walk ls remaining' weighted' filled')"

definition vwap_of :: "side_levels \<Rightarrow> decimal \<Rightarrow> decimal \<times> decimal" where
  "vwap_of levels sz =
     (if levels = [] then (0, 0)
      else let (weighted, filled) = walk levels sz 0 0
           in if filled > 0 then (weighted / filled, filled) else (0, 0))"

definition vwap_walk :: "string \<Rightarrow> decimal \<Rightarrow> order_book \<Rightarrow> book_error + decimal \<times> decimal" where
  "vwap_walk side sz b =
     (if side = ''buy'' then Inr (vwap_of (ascending (asks b)) sz)
      else if side = ''sell'' then Inr (vwap_of (descending (bids b)) sz)
      else Inl InvalidSide)"

subsection \<open>The walk is the greedy fill\<close>

fun cost :: "side_levels \<Rightarrow> decimal \<Rightarrow> decimal" where
  "cost [] r = 0"
| "cost ((p, q) # ls) r = p * min r q + cost ls (r - min r q)"

definition positive :: "side_levels \<Rightarrow> bool" where
  "positive d \<longleftrightarrow> (\<forall>(p, q) \<in> set d. 0 < q)"

lemma total_simps [simp]:
  "total_quantity [] = 0" "total_quantity ((p, q) # ls) = q + total_quantity ls"
  by (simp_all add: total_quantity_def)

lemma positive_Cons [simp]: "positive ((p, q) # ls) \<longleftrightarrow> 0 < q \<and> positive ls"
  by (simp add: positive_def)

lemma total_nonneg: "positive ls \<Longrightarrow> 0 \<le> total_quantity ls"
  by (induction ls) auto

lemma cost_0 [simp]: "positive ls \<Longrightarrow> cost ls 0 = 0"
  by (induction ls) auto

lemma walk_cost:
  "positive ls \<Longrightarrow> 0 < r \<Longrightarrow> walk ls r w f = (w + cost ls r, f + min r (total_quantity ls))"
proof (induction ls arbitrary: r w f)
  case (Cons x ls)
  obtain p q where x: "x = (p, q)" by (cases x)
  show ?case
  proof (cases "r \<le> q")
    case True
    with Cons.prems total_nonneg [of ls] show ?thesis by (simp add: x Let_def min_def)
  next
    case False
    with Cons.prems Cons.IH [of "r - q" "w + p * q" "f + q"] show ?thesis
      by (simp add: x Let_def min_def)
  qed
qed simp

lemma cost_saturates:
  "positive ls \<Longrightarrow> 0 \<le> r \<Longrightarrow> cost ls (min r (total_quantity ls)) = cost ls r"
proof (induction ls arbitrary: r)
  case (Cons x ls)
  obtain p q where x: "x = (p, q)" by (cases x)
  have T: "0 \<le> total_quantity ls" using Cons.prems by (simp add: x total_nonneg)
  show ?case
  proof (cases "r \<le> q")
    case True
    with T show ?thesis by (simp add: x min_def)
  next
    case False
    have "min r (q + total_quantity ls) - q = min (r - q) (total_quantity ls)" by (simp add: min_def)
    moreover have "min (min r (q + total_quantity ls)) q = q" "min r q = q"
      using False T by (auto simp: min_def)
    ultimately show ?thesis
      using False Cons.prems Cons.IH [of "r - q"] by (simp add: x)
  qed
qed simp

text \<open>Every further unit costs at least the lowest price.\<close>

lemma cost_slope:
  "positive ls \<Longrightarrow> \<forall>(p, q) \<in> set ls. p0 \<le> p \<Longrightarrow> 0 \<le> r \<Longrightarrow> 0 \<le> d \<Longrightarrow> r + d \<le> total_quantity ls \<Longrightarrow>
   cost ls r + p0 * d \<le> cost ls (r + d)"
proof (induction ls arbitrary: r d)
  case (Cons x ls)
  obtain p q where x: "x = (p, q)" by (cases x)
  have p: "p0 \<le> p" and q: "0 < q" and ls: "positive ls" and low: "\<forall>(p, q) \<in> set ls. p0 \<le> p"
    using Cons.prems by (auto simp: x)
  consider "r + d \<le> q" | "r \<le> q" "q < r + d" | "q < r" using Cons.prems(4) by linarith
  then show ?case
  proof cases
    case 1
    then have "min r q = r" "min (r + d) q = r + d" using Cons.prems(4) by auto
    with mult_left_mono [OF p Cons.prems(4)] ls show ?thesis
      by (simp add: x algebra_simps)
  next
    case 2
    have "p0 * (r + d - q) \<le> cost ls (r + d - q)"
      using Cons.IH [OF ls low, of 0 "r + d - q"] Cons.prems(5) 2 ls by (simp add: x)
    moreover have "p0 * (q - r) \<le> p * (q - r)"
      using p 2(1) by (intro mult_right_mono) auto
    ultimately show ?thesis
      using 2 ls by (simp add: x min_def algebra_simps)
  next
    case 3
    have "cost ls (r - q) + p0 * d \<le> cost ls (r - q + d)"
      using Cons.IH [OF ls low, of "r - q" d] Cons.prems 3 by (simp add: x)
    then show ?thesis
      using 3 Cons.prems(4) by (simp add: x min_def algebra_simps)
  qed
next
  case Nil
  then have "d = 0" by simp
  then show ?case by simp
qed

text \<open>No other way to take the same quantity from the levels is cheaper.\<close>

lemma cost_least:
  "positive ls \<Longrightarrow> sorted (map fst ls) \<Longrightarrow> \<forall>x \<in> set ls. 0 \<le> a x \<and> a x \<le> snd x \<Longrightarrow> 0 \<le> r \<Longrightarrow>
   (\<Sum>x\<leftarrow>ls. a x) = min r (total_quantity ls) \<Longrightarrow> cost ls r \<le> (\<Sum>x\<leftarrow>ls. fst x * a x)"
proof (induction ls arbitrary: r)
  case (Cons x ls)
  obtain p q where x: "x = (p, q)" by (cases x)
  let ?T = "total_quantity ls" and ?R = "\<Sum>x\<leftarrow>ls. a x"
  have ls: "positive ls" "sorted (map fst ls)" "\<forall>x \<in> set ls. 0 \<le> a x \<and> a x \<le> snd x"
    and low: "\<forall>(p', q') \<in> set ls. p \<le> p'" and a: "0 \<le> a x" "a x \<le> q"
    using Cons.prems by (auto simp: x)
  have T: "0 \<le> ?T" using ls(1) by (rule total_nonneg)
  have R0: "0 \<le> ?R" using ls(3) by (intro sum_list_nonneg_rat) auto
  have "(\<Sum>x\<leftarrow>ls. a x) \<le> (\<Sum>x\<leftarrow>ls. snd x)" using ls(3) by (intro sum_list_mono) auto
  then have RT: "?R \<le> ?T" by (simp add: total_quantity_def case_prod_unfold)
  have sum: "a x + ?R = min r (q + ?T)" using Cons.prems(5) by (simp add: x)
  let ?f = "min r q" and ?m = "min (r - min r q) ?T"
  have f: "a x \<le> ?f" using sum a R0 by (auto simp: min_def split: if_splits)
  have R: "?R = ?m + (?f - a x)" using sum T by (auto simp: min_def split: if_splits)
  have m: "0 \<le> ?m" using T by (simp add: min_def)
  have "cost ls (r - ?f) = cost ls ?m"
    using cost_saturates [OF ls(1), of "r - ?f"] by simp
  then have "cost ls (r - ?f) + p * (?f - a x) \<le> cost ls ?R"
    using cost_slope [OF ls(1) low m, of "?f - a x"] f R RT by simp
  moreover have "cost ls ?R \<le> (\<Sum>x\<leftarrow>ls. fst x * a x)"
    using RT by (intro Cons.IH [OF ls R0]) simp
  ultimately show ?case by (simp add: x algebra_simps)
qed simp

lemma cost_negated: "cost (map (\<lambda>(p, q). (- p, q)) ls) r = - cost ls r"
  by (induction ls arbitrary: r) auto

lemma total_negated: "total_quantity (map (\<lambda>(p, q). (- p, q)) ls) = total_quantity ls"
  by (induction ls) auto

text \<open>The same for levels sorted downwards: no other way to sell the quantity earns more.\<close>

lemma cost_greatest:
  assumes "positive ls" and "sorted (rev (map fst ls))" and "\<forall>x \<in> set ls. 0 \<le> a x \<and> a x \<le> snd x" and "0 \<le> r"
    and "(\<Sum>x\<leftarrow>ls. a x) = min r (total_quantity ls)"
  shows "(\<Sum>x\<leftarrow>ls. fst x * a x) \<le> cost ls r"
proof -
  let ?neg = "\<lambda>(p, q). (- p :: decimal, q :: decimal)"
  have inv: "?neg (?neg x) = x" for x by (cases x) simp
  have "sorted (map fst (map ?neg ls))"
    using assms(2) by (induction ls) (auto simp: sorted_append)
  moreover have "positive (map ?neg ls)" using assms(1) by (auto simp: positive_def)
  moreover have "(\<Sum>x\<leftarrow>map ?neg ls. a (?neg x)) = min r (total_quantity (map ?neg ls))"
    using assms(5) by (simp add: total_negated o_def inv)
  moreover have "\<forall>x \<in> set (map ?neg ls). 0 \<le> a (?neg x) \<and> a (?neg x) \<le> snd x"
    using assms(3) by auto
  ultimately have "cost (map ?neg ls) r \<le> (\<Sum>x\<leftarrow>map ?neg ls. fst x * a (?neg x))"
    using assms(4) by (intro cost_least) auto
  moreover have "(\<Sum>x\<leftarrow>map ?neg ls. fst x * a (?neg x)) = - (\<Sum>x\<leftarrow>ls. fst x * a x)"
    by (induction ls) auto
  ultimately show ?thesis by (simp add: cost_negated)
qed

subsection \<open>Well-formed books\<close>

definition book_ok :: "order_book \<Rightarrow> bool" where
  "book_ok b \<longleftrightarrow> positive (bids b) \<and> positive (asks b)
     \<and> distinct (dict_keys (bids b)) \<and> distinct (dict_keys (asks b))"

definition side_ok :: "side_levels \<Rightarrow> bool" where
  "side_ok d \<longleftrightarrow> positive d \<and> distinct (dict_keys d)"

lemma book_ok_sides: "book_ok b \<longleftrightarrow> side_ok (bids b) \<and> side_ok (asks b)"
  by (auto simp: book_ok_def side_ok_def)

definition quantities_nonneg :: "text_level list \<Rightarrow> bool" where
  "quantities_nonneg ls \<longleftrightarrow> (\<forall>(p, q) \<in> set ls. case q of None \<Rightarrow> True | Some q' \<Rightarrow> 0 \<le> q')"

lemma side_ok_update: "side_ok d \<Longrightarrow> 0 < q \<Longrightarrow> side_ok (AList.update p q d)"
  by (auto simp: side_ok_def positive_def distinct_update dest!: in_set_updateD)

lemma side_ok_delete: "side_ok d \<Longrightarrow> side_ok (AList.delete p d)"
  using distinct_delete [of d p] by (auto simp: side_ok_def positive_def AList.delete_eq)

lemma put_levels_ok:
  assumes "\<And>p q d. side_ok d \<Longrightarrow> P q \<Longrightarrow> side_ok (put p q d)"
    and "\<forall>(p, q) \<in> set ls. case q of None \<Rightarrow> True | Some q' \<Rightarrow> P q'"
  shows "side_ok d \<Longrightarrow> side_ok (snd (put_levels put ls d))"
  using assms(2)
proof (induction ls arbitrary: d)
  case (Cons l ls)
  then show ?case
    using assms(1) by (cases l) (auto split: option.split)
qed simp

datatype book_update =
    Snapshot secs "text_level list" "text_level list"
  | Delta secs "text_level list" "text_level list"

fun book_step :: "book_update \<Rightarrow> order_book \<Rightarrow> order_book" where
  "book_step (Snapshot now bs as) b = snd (apply_snapshot now bs as b)"
| "book_step (Delta now bs as) b = snd (apply_delta now bs as b)"

text \<open>A snapshot may say anything; a delta has no negative quantity.\<close>

fun update_ok :: "book_update \<Rightarrow> bool" where
  "update_ok (Snapshot now bs as) \<longleftrightarrow> True"
| "update_ok (Delta now bs as) \<longleftrightarrow> quantities_nonneg bs \<and> quantities_nonneg as"

lemma side_ok_Nil: "side_ok []"
  by (simp add: side_ok_def positive_def)

lemma snapshot_side: "side_ok (snd (put_levels snapshot_put ls []))"
  by (rule put_levels_ok [where P = "\<lambda>_. True"])
    (auto simp: snapshot_put_def side_ok_update side_ok_Nil split: option.split)

lemma delta_side: "quantities_nonneg ls \<Longrightarrow> side_ok d \<Longrightarrow> side_ok (snd (put_levels delta_put ls d))"
  by (rule put_levels_ok [where P = "\<lambda>q. 0 \<le> q"])
    (auto simp: delta_put_def side_ok_update side_ok_delete quantities_nonneg_def)

lemma book_step_ok:
  assumes "book_ok b" and "update_ok u"
  shows "book_ok (book_step u b)"
proof (cases u)
  case (Snapshot now bs as)
  then show ?thesis
    using snapshot_side [of bs] snapshot_side [of as] side_ok_Nil
    by (auto simp: apply_snapshot_def book_ok_sides split: prod.splits bool.splits)
next
  case (Delta now bs as)
  then show ?thesis
    using assms delta_side [of bs "bids b"] delta_side [of as "asks b"]
    by (auto simp: apply_delta_def book_ok_sides split: prod.splits bool.splits)
qed

lemma book_run_ok: "\<forall>u \<in> set us. update_ok u \<Longrightarrow> book_ok b \<Longrightarrow> book_ok (fold book_step us b)"
  by (induction us arbitrary: b) (auto simp: book_step_ok)

lemma sum_sort_key: "(\<Sum>x\<leftarrow>sort_key k xs. (f x :: decimal)) = (\<Sum>x\<leftarrow>xs. f x)"
  by (metis mset_map mset_sort sum_mset_sum_list)

lemma set_sides [simp]: "set (ascending d) = set d" "set (descending d) = set d"
  by (simp_all add: ascending_def descending_def)

lemma sides_Nil [simp]: "ascending d = [] \<longleftrightarrow> d = []" "descending d = [] \<longleftrightarrow> d = []"
  by (metis set_sides set_empty)+

lemma positive_sides [simp]: "positive (ascending d) \<longleftrightarrow> positive d" "positive (descending d) \<longleftrightarrow> positive d"
  by (simp_all add: positive_def)

lemma sum_ascending: "(\<Sum>x\<leftarrow>ascending d. (f x :: decimal)) = (\<Sum>x\<leftarrow>d. f x)"
  by (simp add: ascending_def sum_sort_key)

lemma sorted_sides: "sorted (map fst (ascending d))" "sorted (rev (map fst (descending d)))"
  by (simp_all add: ascending_def descending_def rev_map)

lemma total_ascending [simp]: "total_quantity (ascending d) = total_quantity d"
  by (simp add: total_quantity_def ascending_def sum_sort_key case_prod_unfold)

lemma sum_descending: "(\<Sum>x\<leftarrow>descending d. (f x :: decimal)) = (\<Sum>x\<leftarrow>d. f x)"
  by (simp add: descending_def rev_map [symmetric] sum_list_rev sum_sort_key)

lemma total_descending [simp]: "total_quantity (descending d) = total_quantity d"
  by (simp add: total_quantity_def sum_descending case_prod_unfold)

lemma total_pos: "positive d \<Longrightarrow> d \<noteq> [] \<Longrightarrow> 0 < total_quantity d"
  using total_nonneg by (cases d) (auto simp: add_pos_nonneg)

lemma vwap_of_cost:
  assumes "positive ls" and "ls \<noteq> []" and "0 < r"
  shows "vwap_of ls r = (cost ls r / min r (total_quantity ls), min r (total_quantity ls))"
  using assms total_pos [OF assms(1,2)] by (simp add: vwap_of_def walk_cost)

lemma ascending_walk_optimal:
  assumes "positive d" and "d \<noteq> []" and "0 < sz"
  shows "\<exists>v f. vwap_of (ascending d) sz = (v, f) \<and> f = min sz (total_quantity d) \<and> 0 < f
      \<and> (\<forall>a. (\<forall>x \<in> set d. 0 \<le> a x \<and> a x \<le> snd x) \<and> (\<Sum>x\<leftarrow>d. a x) = f \<longrightarrow>
             v * f \<le> (\<Sum>x\<leftarrow>d. fst x * a x))"
proof -
  obtain m where m: "m = min sz (total_quantity d)" "0 < m"
    using total_pos [OF assms(1,2)] assms(3) by simp
  have w: "vwap_of (ascending d) sz = (cost (ascending d) sz / m, m)"
    using vwap_of_cost [of "ascending d" sz] assms m(1) by simp
  have "cost (ascending d) sz \<le> (\<Sum>x\<leftarrow>d. fst x * a x)"
    if "\<forall>x \<in> set d. 0 \<le> a x \<and> a x \<le> snd x" "(\<Sum>x\<leftarrow>d. a x) = m" for a
    using cost_least [of "ascending d" a sz] that assms m(1) by (simp add: sum_ascending sorted_sides)
  with m(2) show ?thesis unfolding w m(1) [symmetric] by simp
qed

lemma descending_walk_optimal:
  assumes "positive d" and "d \<noteq> []" and "0 < sz"
  shows "\<exists>v f. vwap_of (descending d) sz = (v, f) \<and> f = min sz (total_quantity d) \<and> 0 < f
      \<and> (\<forall>a. (\<forall>x \<in> set d. 0 \<le> a x \<and> a x \<le> snd x) \<and> (\<Sum>x\<leftarrow>d. a x) = f \<longrightarrow>
             (\<Sum>x\<leftarrow>d. fst x * a x) \<le> v * f)"
proof -
  obtain m where m: "m = min sz (total_quantity d)" "0 < m"
    using total_pos [OF assms(1,2)] assms(3) by simp
  have w: "vwap_of (descending d) sz = (cost (descending d) sz / m, m)"
    using vwap_of_cost [of "descending d" sz] assms m(1) by simp
  have "(\<Sum>x\<leftarrow>d. fst x * a x) \<le> cost (descending d) sz"
    if "\<forall>x \<in> set d. 0 \<le> a x \<and> a x \<le> snd x" "(\<Sum>x\<leftarrow>d. a x) = m" for a
    using cost_greatest [of "descending d" a sz] that assms m(1) by (simp add: sum_descending sorted_sides)
  with m(2) show ?thesis unfolding w m(1) [symmetric] by simp
qed

subsection \<open>Properties\<close>

text \<open>C23. The walk fills what there is at the best achievable price: for every book reached by snapshots
  and deltas (with unparsable texts anywhere, and no negative quantity in a delta), a walk of
  positive size over a non-empty side fills the smaller of the size and the side's total; for a
  buy no other way of taking that quantity from the asks costs less than the returned average
  price times it, and for a sell no other way of giving it to the bids earns more.\<close>

theorem vwap_walk_is_optimal:
  assumes "\<forall>u \<in> set us. update_ok u" and "b = fold book_step us book_new" and "0 < sz"
  shows "(asks b \<noteq> [] \<longrightarrow> (\<exists>v f. vwap_walk ''buy'' sz b = Inr (v, f) \<and> f = min sz (total_quantity (asks b)) \<and> 0 < f
      \<and> (\<forall>a. (\<forall>x \<in> set (asks b). 0 \<le> a x \<and> a x \<le> snd x) \<and> (\<Sum>x\<leftarrow>asks b. a x) = f \<longrightarrow>
             v * f \<le> (\<Sum>x\<leftarrow>asks b. fst x * a x))))
   \<and> (bids b \<noteq> [] \<longrightarrow> (\<exists>v f. vwap_walk ''sell'' sz b = Inr (v, f) \<and> f = min sz (total_quantity (bids b)) \<and> 0 < f
      \<and> (\<forall>a. (\<forall>x \<in> set (bids b). 0 \<le> a x \<and> a x \<le> snd x) \<and> (\<Sum>x\<leftarrow>bids b. a x) = f \<longrightarrow>
             (\<Sum>x\<leftarrow>bids b. fst x * a x) \<le> v * f)))"
proof -
  have "book_ok book_new" by (simp add: book_ok_def book_new_def positive_def)
  then have ok: "positive (asks b)" "positive (bids b)"
    using book_run_ok [OF assms(1)] assms(2) by (auto simp: book_ok_def)
  then show ?thesis
    using ascending_walk_optimal [OF ok(1) _ assms(3)] descending_walk_optimal [OF ok(2) _ assms(3)]
    by (simp add: vwap_walk_def)
qed

theorem vwap_walk_is_optimal_witness:
  "let b = fold book_step [Snapshot 0 [(Some 9, Some 1)] [(Some 10, Some 2), (Some 11, Some 4)],
             Delta 1 [] [(Some 10, Some 0), (Some 12, None)]] book_new
   in \<exists>v f. vwap_walk ''buy'' 3 b = Inr (v, f) \<and> f = min 3 (total_quantity (asks b))"
proof -
  let ?us = "[Snapshot 0 [(Some 9, Some 1)] [(Some 10, Some 2), (Some 11, Some 4)],
     Delta 1 [] [(Some 10, Some 0), (Some 12, None)]]"
  have us: "\<forall>u \<in> set ?us. update_ok u" by (simp add: quantities_nonneg_def)
  have ne: "asks (fold book_step ?us book_new) \<noteq> []"
    by (simp add: apply_snapshot_def apply_delta_def snapshot_put_def delta_put_def book_new_def)
  have "(0 :: decimal) < 3" by simp
  from vwap_walk_is_optimal [OF us refl this] ne show ?thesis
    unfolding Let_def by blast
qed

end
