(* ===== verification/DepthAnalyzer.thy ===== *)
theory DepthAnalyzer
  imports OrderBook
begin

text \<open>
  \<open>engine/src/core/depth_analyzer.py\<close>: the average price of a market order and the liquidity
  near the best price.  The loop is a second way to walk a book; the lemmas relate it to
  \<open>vwap_walk\<close>.
\<close>

record vwap_result =
  vr_vwap :: decimal
  vr_filled :: decimal
  levels_consumed :: nat

datatype depth_error = Insufficient | BadSide

text \<open>What remains, the notional and the number of levels.\<close>

fun fill_levels :: "side_levels \<Rightarrow> decimal \<Rightarrow> decimal \<Rightarrow> nat \<Rightarrow> decimal \<times> decimal \<times> nat" where
  "fill_levels [] remaining spent levels = (remaining, spent, levels)"
| "fill_levels ((price, available) # ls) remaining spent levels =
     (if remaining \<le> 0 then (remaining, spent, levels)
      else let fill = min available remaining
           in fill_levels ls (remaining - fill) (spent + fill * price) (levels + 1))"

definition vwap_for :: "side_levels \<Rightarrow> decimal \<Rightarrow> depth_error + vwap_result" where
  "vwap_for ls sz =
     (let (remaining, spent, levels) = fill_levels ls sz 0 0; filled = sz - remaining
      in if filled = 0 then Inl Insufficient
         else if remaining > 0 then Inl Insufficient
         else Inr \<lparr>vr_vwap = spent / filled, vr_filled = filled, levels_consumed = levels\<rparr>)"

definition vwap_for_buy :: "order_book \<Rightarrow> decimal \<Rightarrow> depth_error + vwap_result" where
  "vwap_for_buy b sz = vwap_for (ascending (asks b)) sz"

definition vwap_for_sell :: "order_book \<Rightarrow> decimal \<Rightarrow> depth_error + vwap_result" where
  "vwap_for_sell b sz = vwap_for (descending (bids b)) sz"

definition liquidity_at_pct_depth :: "order_book \<Rightarrow> decimal \<Rightarrow> string \<Rightarrow> depth_error + decimal" where
  "liquidity_at_pct_depth b pct side =
     (if side = ''bid''
      then Inr (case best_bid b of
             None \<Rightarrow> 0
           | Some best \<Rightarrow> total_quantity (filter (\<lambda>(p, q). p \<ge> best * (1 - pct / 100)) (bids b)))
      else if side = ''ask''
      then Inr (case best_ask b of
             None \<Rightarrow> 0
           | Some best \<Rightarrow> total_quantity (filter (\<lambda>(p, q). p \<le> best * (1 + pct / 100)) (asks b)))
      else Inl BadSide)"

subsection \<open>Agreement with the walk\<close>

lemma fill_levels_cost:
  "positive ls \<Longrightarrow> 0 \<le> r \<Longrightarrow>
   fst (fill_levels ls r n l) = r - min r (total_quantity ls)
   \<and> fst (snd (fill_levels ls r n l)) = n + cost ls r"
proof (induction ls arbitrary: r n l)
  case (Cons x ls)
  obtain p q where x: "x = (p, q)" by (cases x)
  have T: "0 \<le> total_quantity ls" and q: "0 < q" using Cons.prems by (simp_all add: x total_nonneg)
  consider "r \<le> 0" | "0 < r" "r \<le> q" | "q < r" by linarith
  then show ?case
  proof cases
    case 1
    with Cons.prems T q show ?thesis by (simp add: x)
  next
    case 2
    then have "min q r = r" "min r q = r" "min r (q + total_quantity ls) = r" using T by auto
    with 2 Cons.prems Cons.IH [of 0] T show ?thesis by (simp add: x mult.commute)
  next
    case 3
    then have "min q r = q" "min r q = q" "0 < r" using q by auto
    moreover have "min r (q + total_quantity ls) = q + min (r - q) (total_quantity ls)"
      using 3 by (simp add: min_def)
    ultimately show ?thesis
      using 3 Cons.prems Cons.IH [of "r - q"] by (simp add: x mult.commute)
  qed
qed simp

text \<open>Where there is enough, it is the same price; where there is not, \<open>vwap_walk\<close> returns a partial
  fill and this one raises.\<close>

lemma vwap_for_agrees:
  assumes "positive ls" and "ls \<noteq> []" and "0 < sz"
  shows "(case vwap_for ls sz of
       Inl e \<Rightarrow> snd (vwap_of ls sz) < sz
     | Inr r \<Rightarrow> vwap_of ls sz = (vr_vwap r, sz) \<and> vr_filled r = sz)"
proof -
  obtain r n l where f: "fill_levels ls sz 0 0 = (r, n, l)" by (cases "fill_levels ls sz 0 0")
  have T: "0 < total_quantity ls" by (rule total_pos [OF assms(1,2)])
  have r: "r = sz - min sz (total_quantity ls)" "n = cost ls sz"
    using fill_levels_cost [OF assms(1), of sz 0 0] assms(3) f by simp_all
  show ?thesis
    using T assms(3) by (auto simp: vwap_for_def f Let_def vwap_of_cost [OF assms] r min_def)
qed

lemma liquidity_le_total:
  "positive (bids b) \<Longrightarrow> positive (asks b) \<Longrightarrow> liquidity_at_pct_depth b pct side = Inr x \<Longrightarrow>
   0 \<le> x \<and> x \<le> max (total_quantity (bids b)) (total_quantity (asks b))"
proof -
  assume pos: "positive (bids b)" "positive (asks b)" and l: "liquidity_at_pct_depth b pct side = Inr x"
  have bounds: "0 \<le> total_quantity (filter P d) \<and> total_quantity (filter P d) \<le> total_quantity d"
    if "positive d" for P d
    using that by (induction d) (auto simp: total_quantity_def)
  have "0 \<le> total_quantity (bids b)" using pos(1) by (rule total_nonneg)
  then show ?thesis
    using l bounds [OF pos(1)] bounds [OF pos(2)]
    by (auto simp: liquidity_at_pct_depth_def le_max_iff_disj split: if_splits option.splits)
qed

end
