(* ===== verification/AtomicExecutor.thy ===== *)
theory AtomicExecutor
  imports DepthAnalyzer
begin

text \<open>
  \<open>engine/src/execution/atomic.py\<close>: an immediate-or-cancel limit order with a market order for the
  rest, the five-minute deduplication and the reversal of a partial fill.  What an exchange
  does with an order is its answer (an \<open>outcome\<close>) and, separately, the quantity that really
  filled, since an order whose answer never came may have filled; the orders sent are
  recorded in the result.  Latencies and Prometheus series are left out.
\<close>

record order_fill =
  fill_size :: decimal
  fill_price :: decimal

record venue_reply =
  reply :: "order_fill outcome"
  really_filled :: decimal

record order_result =
  filled_size :: decimal
  avg_price :: decimal
  order_type :: string

record sent_order =
  so_kind :: string
  so_side :: string
  so_size :: decimal
  so_filled :: decimal

record atomic_executor =
  partial_fill_stop :: bool
  analyzer :: bool
  depth_sizing :: bool
  ioc_fills :: nat
  market_fills :: nat
  ioc_slippage_sum :: pyfloat
  market_slippage_sum :: pyfloat
  executed_keys :: "(string, secs) dict"
  leg_risk_events :: nat

definition atomic_new :: "bool \<Rightarrow> bool \<Rightarrow> bool \<Rightarrow> atomic_executor" where
  "atomic_new stop an sizing =
     \<lparr>partial_fill_stop = stop, analyzer = an, depth_sizing = sizing, ioc_fills = 0, market_fills = 0,
      ioc_slippage_sum = 0, market_slippage_sum = 0, executed_keys = [], leg_risk_events = 0\<rparr>"

datatype exec_error = VenueError string

definition min_fill_ratio :: decimal where "min_fill_ratio = 95 / 100"

definition cleanup_old_keys :: "secs \<Rightarrow> atomic_executor \<Rightarrow> atomic_executor" where
  "cleanup_old_keys now A = A\<lparr>executed_keys := filter (\<lambda>(k, ts). \<not> ts < now - 300) (executed_keys A)\<rparr>"

text \<open>\<open>try_ioc\<close>: whether it counts as filled, the reported size and price.\<close>

definition try_ioc :: "venue_reply \<Rightarrow> decimal \<Rightarrow> decimal \<Rightarrow> bool \<times> decimal \<times> decimal" where
  "try_ioc v price sz =
     (case reply v of
        Returned f \<Rightarrow> (fill_size f \<ge> sz * min_fill_ratio, fill_size f, fill_price f)
      | _ \<Rightarrow> (False, 0, price))"

definition slippage_bps :: "decimal \<Rightarrow> decimal \<Rightarrow> pyfloat" where
  "slippage_bps avg price = (if price \<noteq> 0 then \<bar>(avg - price) / price\<bar> * 10000 else 0)"

definition close_side_of :: "string \<Rightarrow> string" where
  "close_side_of side = (if side = ''buy'' \<or> side = ''bid'' then ''sell'' else ''buy'')"

definition log_order :: "string \<Rightarrow> string \<Rightarrow> decimal \<Rightarrow> venue_reply \<Rightarrow> sent_order" where
  "log_order kind side sz v = \<lparr>so_kind = kind, so_side = side, so_size = sz, so_filled = really_filled v\<rparr>"

definition close_partial :: "venue_reply \<Rightarrow> decimal \<Rightarrow> exec_error + order_result" where
  "close_partial v entry_price =
     (case reply v of
        Returned f \<Rightarrow> Inr \<lparr>filled_size = fill_size f, avg_price = fill_price f, order_type = ''partial_close''\<rparr>
      | TimedOut \<Rightarrow> Inr \<lparr>filled_size = 0, avg_price = entry_price, order_type = ''partial_close_timeout''\<rparr>
      | Raised e \<Rightarrow> Inl (VenueError e))"

text \<open>The three replies an execution may need.\<close>

record venue =
  v_ioc :: venue_reply
  v_market :: venue_reply
  v_close :: venue_reply

text \<open>From the IOC order on.\<close>

definition run_orders ::
    "venue \<Rightarrow> string \<Rightarrow> decimal \<Rightarrow> decimal \<Rightarrow> atomic_executor \<Rightarrow>
     (exec_error + order_result) \<times> sent_order list \<times> atomic_executor" where
  "run_orders v side price sz A =
     (let (filled, ioc_filled, ioc_avg) = try_ioc (v_ioc v) price sz;
          sent1 = [log_order ''ioc'' side sz (v_ioc v)]
      in if filled
         then (Inr \<lparr>filled_size = ioc_filled, avg_price = ioc_avg, order_type = ''ioc_limit''\<rparr>, sent1,
               A\<lparr>ioc_fills := ioc_fills A + 1,
                 ioc_slippage_sum := ioc_slippage_sum A + slippage_bps ioc_avg price\<rparr>)
         else let remaining = sz - ioc_filled;
                  sent2 = sent1 @ [log_order ''market'' side remaining (v_market v)]
              in case reply (v_market v) of
                   Raised e \<Rightarrow> (Inl (VenueError e), sent2, A)
                 | TimedOut \<Rightarrow>
                     (Inr \<lparr>filled_size = ioc_filled, avg_price = price, order_type = ''market_timeout''\<rparr>, sent2, A)
                 | Returned f \<Rightarrow>
                     let A1 = A\<lparr>market_fills := market_fills A + 1,
                                market_slippage_sum := market_slippage_sum A + slippage_bps (fill_price f) price\<rparr>;
                         total = ioc_filled + fill_size f
                     in if partial_fill_stop A \<and> total > 0 \<and> total < sz * (95 / 100)
                        then let sent3 = sent2 @ [log_order ''close'' (close_side_of side) total (v_close v)]
                             in case close_partial (v_close v) (fill_price f) of
                                  Inl e \<Rightarrow> (Inl e, sent3, A1)
                                | Inr _ \<Rightarrow>
                                    (Inr \<lparr>filled_size = total, avg_price = fill_price f, order_type = ''partial_closed''\<rparr>,
                                     sent3, A1)
                        else (Inr \<lparr>filled_size = total, avg_price = fill_price f, order_type = ''market_fallback''\<rparr>,
                              sent2, A1))"

text \<open>The depth sizing: \<open>None\<close> when the order is rejected.\<close>

definition depth_size ::
    "decimal \<Rightarrow> order_book option \<Rightarrow> string \<Rightarrow> decimal \<Rightarrow> atomic_executor \<Rightarrow> decimal option" where
  "depth_size min_size book side sz A =
     (case book of
        None \<Rightarrow> Some sz
      | Some b \<Rightarrow>
          if analyzer A \<and> depth_sizing A
          then case liquidity_at_pct_depth b 1 (if side = ''buy'' \<or> side = ''bid'' then ''ask'' else ''bid'') of
                 Inl e \<Rightarrow> Some sz
               | Inr available \<Rightarrow>
                   if available < sz
                   then let sz' = sz * (available * (8 / 10) / sz)
                        in if sz' < min_size then None else Some sz'
                   else Some sz
          else Some sz)"

definition idem_key :: "string \<Rightarrow> string \<Rightarrow> string \<Rightarrow> string" where
  "idem_key ex symb sid = ex @ '':'' @ symb @ '':'' @ sid"

definition execute ::
    "venue \<Rightarrow> decimal \<Rightarrow> secs \<Rightarrow> secs \<Rightarrow> string \<Rightarrow> string \<Rightarrow> string \<Rightarrow> decimal \<Rightarrow> decimal \<Rightarrow> string \<Rightarrow> order_book option \<Rightarrow>
     atomic_executor \<Rightarrow> (exec_error + order_result) \<times> sent_order list \<times> atomic_executor" where
  "execute v min_size now1 now2 ex symb side price sz0 sid book A =
     (case depth_size min_size book side sz0 A of
        None \<Rightarrow> (Inr \<lparr>filled_size = 0, avg_price = 0, order_type = ''depth_rejected''\<rparr>, [], A)
      | Some sz \<Rightarrow>
          if sid \<noteq> []
          then let A1 = cleanup_old_keys now1 A; key = idem_key ex symb sid
               in if dict_has (executed_keys A1) key
                  then (Inr \<lparr>filled_size = 0, avg_price = price, order_type = ''duplicate_skip''\<rparr>, [], A1)
                  else run_orders v side price sz (A1\<lparr>executed_keys := AList.update key now2 (executed_keys A1)\<rparr>)
          else run_orders v side price sz A)"

record fill_quality =
  fq_ioc_slippage :: pyfloat
  fq_market_slippage :: pyfloat
  fq_fill_rate :: pyfloat

definition fill_quality_of :: "atomic_executor \<Rightarrow> fill_quality" where
  "fill_quality_of A =
     \<lparr>fq_ioc_slippage = ioc_slippage_sum A / of_nat (max (ioc_fills A) 1),
      fq_market_slippage = market_slippage_sum A / of_nat (max (market_fills A) 1),
      fq_fill_rate = of_nat (ioc_fills A) / of_nat (max (ioc_fills A + market_fills A) 1)\<rparr>"

definition record_leg_risk :: "bool \<Rightarrow> bool \<Rightarrow> atomic_executor \<Rightarrow> atomic_executor" where
  "record_leg_risk buy_filled sell_filled A =
     (if buy_filled = sell_filled then A else A\<lparr>leg_risk_events := leg_risk_events A + 1\<rparr>)"

subsection \<open>Accounts\<close>

text \<open>The position an execution really leaves, in the direction of its own orders.\<close>

definition net_position :: "sent_order list \<Rightarrow> decimal" where
  "net_position os = (\<Sum>o'\<leftarrow>os. if so_kind o' = ''close'' then - so_filled o' else so_filled o')"

text \<open>What filled without being reported, and replies that report what filled.\<close>

definition lost_fill :: "venue_reply \<Rightarrow> decimal" where
  "lost_fill v = (case reply v of Returned f \<Rightarrow> 0 | _ \<Rightarrow> really_filled v)"

definition truthful :: "venue_reply \<Rightarrow> bool" where
  "truthful v \<longleftrightarrow> (case reply v of Returned f \<Rightarrow> really_filled v = fill_size f | _ \<Rightarrow> True)"

definition unreported :: "venue \<Rightarrow> order_result \<Rightarrow> decimal" where
  "unreported v res =
     (if order_type res = ''market_timeout'' then lost_fill (v_ioc v) + lost_fill (v_market v)
      else if order_type res = ''market_fallback'' then lost_fill (v_ioc v)
      else if order_type res = ''partial_closed'' then lost_fill (v_ioc v) - really_filled (v_close v)
      else 0)"

lemma net_simps [simp]:
  "net_position [] = 0"
  "net_position (log_order k s z v # os) = (if k = ''close'' then - really_filled v else really_filled v) + net_position os"
  by (simp_all add: net_position_def log_order_def)

lemma run_orders_accounts:
  assumes "truthful (v_ioc v)" and "truthful (v_market v)" and "run_orders v side price sz A = (Inr res, os, A')"
  shows "net_position os = filled_size res + unreported v res"
  using assms
  by (cases "reply (v_ioc v)"; cases "reply (v_market v)"; cases "reply (v_close v)")
    (auto simp: run_orders_def try_ioc_def Let_def close_partial_def truthful_def lost_fill_def unreported_def
      split: if_splits)

lemma run_orders_keys: "executed_keys (snd (snd (run_orders v side price sz A))) = executed_keys A"
  by (auto simp: run_orders_def Let_def split: prod.split outcome.split sum.split)

lemma run_orders_bounded:
  assumes "truthful (v_ioc v)" and "lost_fill (v_ioc v) = 0" and "run_orders v side price sz A = (r, os, A')"
    and "\<forall>x \<in> set os. 0 \<le> so_filled x \<and> so_filled x \<le> so_size x"
  shows "net_position os \<le> sz"
  using assms
  by (cases "reply (v_ioc v)"; cases "reply (v_market v)"; cases "reply (v_close v)")
    (auto simp: run_orders_def try_ioc_def Let_def close_partial_def truthful_def lost_fill_def log_order_def
      net_position_def split: if_splits)

lemma run_orders_first: "\<exists>x xs. fst (snd (run_orders v side price sz A)) = x # xs \<and> so_size x = sz"
  by (auto simp: run_orders_def Let_def log_order_def split: prod.split outcome.split sum.split)

text \<open>An execution that sent orders is one run of \<open>run_orders\<close>.\<close>

lemma execute_sent:
  assumes "execute v min_size now1 now2 ex symb side price sz0 sid book A = (r, os, A')" and "os \<noteq> []"
  obtains sz B where "run_orders v side price sz B = (r, os, A')"
    and "sid \<noteq> [] \<longrightarrow> map_of (executed_keys B) (idem_key ex symb sid) = Some now2"
  using assms by (auto simp: execute_def Let_def split: option.splits if_splits)

lemma execute_nothing_sent:
  assumes "execute v min_size now1 now2 ex symb side price sz0 sid book A = (r, [], A')"
  shows "\<exists>res. r = Inr res \<and> filled_size res = 0 \<and> order_type res \<in> {''depth_rejected'', ''duplicate_skip''}"
proof -
  have "run_orders v side price sz B \<noteq> (r, [], A')" for sz B
    using run_orders_first [of v side price sz B] by auto
  then show ?thesis
    using assms by (auto simp: execute_def Let_def split: option.splits if_splits)
qed

lemma map_of_in_filter: "map_of d k = Some t \<Longrightarrow> P (k, t) \<Longrightarrow> k \<in> fst ` set (filter P d)"
  by (force dest: map_of_SomeD)

lemma execute_duplicate:
  assumes "map_of (executed_keys A) (idem_key ex symb sid) = Some t" and "sid \<noteq> []" and "now1 \<le> t + 300"
  shows "fst (snd (execute v min_size now1 now2 ex symb side price sz sid book A)) = []"
proof -
  have "dict_has (executed_keys (cleanup_old_keys now1 A)) (idem_key ex symb sid)"
    using map_of_in_filter [OF assms(1), of "\<lambda>(k, ts). \<not> ts < now1 - 300"] assms(3)
    by (simp add: cleanup_old_keys_def dict_has_def)
  with assms(2) show ?thesis by (simp add: execute_def Let_def split: option.split)
qed

subsection \<open>Properties\<close>


definition ex_venue :: venue where
  "ex_venue = \<lparr>v_ioc = \<lparr>reply = TimedOut, really_filled = 10\<rparr>,
     v_market = \<lparr>reply = Returned \<lparr>fill_size = 10, fill_price = 5\<rparr>, really_filled = 10\<rparr>,
     v_close = \<lparr>reply = TimedOut, really_filled = 0\<rparr>\<rparr>"

lemma ex_execution:
  "\<exists>os A'. execute ex_venue 0 0 0 ''okx'' ''BTC/USDT'' ''buy'' 5 10 ''s1'' None (atomic_new True False False)
     = (Inr \<lparr>filled_size = 10, avg_price = 5, order_type = ''market_fallback''\<rparr>, os, A')"
  by (simp add: execute_def depth_size_def run_orders_def try_ioc_def ex_venue_def atomic_new_def Let_def
      cleanup_old_keys_def dict_has_def)


end
