(* ===== verification/Reconciler.thy ===== *)
theory Reconciler
  imports PositionManager
begin

text \<open>
  \<open>engine/src/execution/reconciler.py\<close>: the engine's positions against what the exchanges report,
  with the guard that lets a position the engine does not know pass for one cycle.  What an
  exchange answers is an \<open>outcome\<close>; the messages are values; the callback is called exactly
  when the result has a discrepancy, which the result says.  Metrics and logs are left out.
\<close>

record position =
  po_exchange :: string
  po_symbol :: string
  po_size :: decimal
  po_entry :: decimal
  po_mark :: "decimal option"

type_synonym position_map = "(string, position) dict"

definition position_id :: "string \<Rightarrow> string \<Rightarrow> string" where
  "position_id ex symb = ex @ '':'' @ symb"

text \<open>The exchange a key names.\<close>

definition key_exchange :: "string \<Rightarrow> string" where
  "key_exchange k = before '':'' k"

text \<open>The sign of a record: short when its side mentions SHORT or SELL.\<close>

definition signed_size_of :: "position_record \<Rightarrow> decimal" where
  "signed_size_of r =
     (let side = upper (pr_side r); qty = \<bar>pr_quantity r\<bar>
      in if occurs_in ''SHORT'' side \<or> occurs_in ''SELL'' side then - qty else qty)"

definition aggregate_one :: "pos_key \<times> position_record \<Rightarrow> position_map \<Rightarrow> position_map" where
  "aggregate_one kr agg = (case kr of ((sid, ex, symb), r) \<Rightarrow>
     let key = position_id ex symb
     in case map_of agg key of
          Some p \<Rightarrow> AList.update key \<lparr>po_exchange = po_exchange p, po_symbol = po_symbol p,
                       po_size = po_size p + signed_size_of r, po_entry = po_entry p, po_mark = None\<rparr> agg
        | None \<Rightarrow> AList.update key \<lparr>po_exchange = ex, po_symbol = symb, po_size = signed_size_of r,
                       po_entry = pr_avg r, po_mark = None\<rparr> agg)"

definition aggregate_engine_positions :: "(pos_key, position_record) dict \<Rightarrow> position_map" where
  "aggregate_engine_positions records = fold aggregate_one records []"

datatype discrepancy =
    Unrecorded string
  | Orphan string
  | SizeMismatch string
  | StrandedPosition string

record reconciler =
  exchanges :: "string list"
  size_tolerance :: decimal
  stranded_keys :: "string list"
  prev_unrecorded :: "string set"

definition reconciler_new :: "string list \<Rightarrow> decimal \<Rightarrow> reconciler" where
  "reconciler_new exs tol = \<lparr>exchanges = exs, size_tolerance = tol, stranded_keys = [], prev_unrecorded = {}\<rparr>"

definition mark_stranded :: "string \<Rightarrow> reconciler \<Rightarrow> reconciler" where
  "mark_stranded k rc = rc\<lparr>stranded_keys := List.insert k (stranded_keys rc)\<rparr>"

definition clear_stranded :: "string \<Rightarrow> reconciler \<Rightarrow> reconciler" where
  "clear_stranded k rc = rc\<lparr>stranded_keys := removeAll k (stranded_keys rc)\<rparr>"

record reconciliation_result =
  has_discrepancy :: bool
  discrepancies :: "discrepancy list"
  exchange_positions :: position_map
  fetch_failed :: "string list"
  callback_called :: bool

type_synonym answers = "string \<Rightarrow> position list outcome"

definition fetch_one :: "answers \<Rightarrow> string \<Rightarrow> position_map \<times> string list \<Rightarrow> position_map \<times> string list" where
  "fetch_one ans ex s =
     (case ans ex of
        Returned ps \<Rightarrow>
          (fold (\<lambda>p. AList.update (position_id (po_exchange p) (po_symbol p)) p) ps (fst s), snd s)
      | _ \<Rightarrow> (fst s, snd s @ [ex]))"

definition fetch_all :: "answers \<Rightarrow> string list \<Rightarrow> position_map \<times> string list" where
  "fetch_all ans exs = fold (fetch_one ans) exs ([], [])"

definition is_ghost :: "position \<Rightarrow> bool" where
  "is_ghost p \<longleftrightarrow> po_entry p = 0 \<and>
     (case po_mark p of None \<Rightarrow> 0 | Some m \<Rightarrow> if m > 0 then \<bar>po_size p * m\<bar> else 0) < 1 / 100"

definition unrecorded_keys :: "position_map \<Rightarrow> position_map \<Rightarrow> string list" where
  "unrecorded_keys eng exch = map fst (filter (\<lambda>(k, p). \<not> dict_has eng k \<and> \<not> is_ghost p) exch)"

definition engine_side ::
    "decimal \<Rightarrow> string list \<Rightarrow> position_map \<Rightarrow> string \<times> position \<Rightarrow> discrepancy list" where
  "engine_side tol failed exch kp = (case kp of (k, p) \<Rightarrow>
     if key_exchange k \<in> set failed then []
     else case map_of exch k of
            None \<Rightarrow> if \<bar>po_size p\<bar> > tol then [Orphan k] else []
          | Some q \<Rightarrow> if \<bar>po_size p - po_size q\<bar> > tol then [SizeMismatch k] else [])"

definition reconcile :: "answers \<Rightarrow> position_map \<Rightarrow> reconciler \<Rightarrow> reconciliation_result \<times> reconciler" where
  "reconcile ans eng rc =
     (let (exch, failed) = fetch_all ans (exchanges rc);
          unrec = unrecorded_keys eng exch;
          ds = map Unrecorded (filter (\<lambda>k. k \<in> prev_unrecorded rc) unrec)
             @ concat (map (engine_side (size_tolerance rc) failed exch) eng)
             @ map StrandedPosition (stranded_keys rc);
          successful = set (exchanges rc) - set failed;
          new_prev = {k \<in> set unrec. key_exchange k \<in> successful}
             \<union> {k \<in> prev_unrecorded rc. key_exchange k \<notin> successful}
      in (\<lparr>has_discrepancy = (ds \<noteq> []), discrepancies = ds, exchange_positions = exch, fetch_failed = failed,
           callback_called = (ds \<noteq> [])\<rparr>, rc\<lparr>prev_unrecorded := new_prev\<rparr>))"

subsection \<open>Fetching\<close>

lemma fetch_failed_set: "set (snd (fold (fetch_one ans) exs s)) = set (snd s) \<union> {ex \<in> set exs. \<not> succeeded (ans ex)}"
  by (induction exs arbitrary: s) (auto simp: fetch_one_def split: outcome.splits)

lemma fetch_all_failed: "set (snd (fetch_all ans exs)) = {ex \<in> set exs. \<not> succeeded (ans ex)}"
  by (simp add: fetch_all_def fetch_failed_set)

text \<open>The keys a cycle finds on the exchanges and not in the engine.\<close>

definition unknown_in :: "string list \<Rightarrow> answers \<times> position_map \<Rightarrow> string set" where
  "unknown_in exs c = set (unrecorded_keys (snd c) (fst (fetch_all (fst c) exs)))"

text \<open>Whether a key was unknown in the last of the cycles (latest first) in which its exchange answered.\<close>

fun unknown_last_time :: "string list \<Rightarrow> string \<Rightarrow> (answers \<times> position_map) list \<Rightarrow> bool" where
  "unknown_last_time exs k [] \<longleftrightarrow> False"
| "unknown_last_time exs k (c # cs) \<longleftrightarrow>
     (if key_exchange k \<in> set exs \<and> succeeded (fst c (key_exchange k)) then k \<in> unknown_in exs c
      else unknown_last_time exs k cs)"

fun reconcile_all :: "(answers \<times> position_map) list \<Rightarrow> reconciler \<Rightarrow> reconciler" where
  "reconcile_all [] rc = rc"
| "reconcile_all (c # cs) rc = reconcile_all cs (snd (reconcile (fst c) (snd c) rc))"

lemma reconcile_frame [simp]:
  "exchanges (snd (reconcile ans eng rc)) = exchanges rc"
  "size_tolerance (snd (reconcile ans eng rc)) = size_tolerance rc"
  "stranded_keys (snd (reconcile ans eng rc)) = stranded_keys rc"
  by (simp_all add: reconcile_def Let_def split: prod.split)

lemma prev_after:
  "k \<in> prev_unrecorded (snd (reconcile ans eng rc)) \<longleftrightarrow>
     (if key_exchange k \<in> set (exchanges rc) \<and> succeeded (ans (key_exchange k))
      then k \<in> unknown_in (exchanges rc) (ans, eng) else k \<in> prev_unrecorded rc)"
proof -
  obtain exch failed where f: "fetch_all ans (exchanges rc) = (exch, failed)"
    by (cases "fetch_all ans (exchanges rc)")
  have "set failed = {ex \<in> set (exchanges rc). \<not> succeeded (ans ex)}"
    using fetch_all_failed [of ans "exchanges rc"] f by simp
  then show ?thesis by (auto simp: reconcile_def Let_def f unknown_in_def)
qed

lemma unknown_last_snoc:
  "unknown_last_time exs k (cs @ cs') \<longleftrightarrow>
     (if \<exists>c \<in> set cs. key_exchange k \<in> set exs \<and> succeeded (fst c (key_exchange k))
      then unknown_last_time exs k cs else unknown_last_time exs k cs')"
  by (induction cs) auto

lemma prev_run:
  "exchanges (reconcile_all cs rc) = exchanges rc \<and>
   (k \<in> prev_unrecorded (reconcile_all cs rc) \<longleftrightarrow>
     (if \<exists>c \<in> set cs. key_exchange k \<in> set (exchanges rc) \<and> succeeded (fst c (key_exchange k))
      then unknown_last_time (exchanges rc) k (rev cs) else k \<in> prev_unrecorded rc))"
proof (induction cs arbitrary: rc)
  case (Cons c cs)
  then show ?case
    by (cases c) (auto simp: prev_after unknown_last_snoc)
qed simp

lemma stranded_run: "stranded_keys (reconcile_all cs rc) = stranded_keys rc
    \<and> size_tolerance (reconcile_all cs rc) = size_tolerance rc"
  by (induction cs arbitrary: rc) auto

lemma in_discrepancies:
  assumes "reconcile ans eng rc = (res, rc')" and "distinct (dict_keys eng)"
  shows "Unrecorded k \<in> set (discrepancies res) \<longleftrightarrow>
      k \<in> unknown_in (exchanges rc) (ans, eng) \<and> k \<in> prev_unrecorded rc"
    and "Orphan k \<in> set (discrepancies res) \<longleftrightarrow>
      (\<exists>p. map_of eng k = Some p \<and> \<bar>po_size p\<bar> > size_tolerance rc
         \<and> \<not> (key_exchange k \<in> set (exchanges rc) \<and> \<not> succeeded (ans (key_exchange k)))
         \<and> map_of (exchange_positions res) k = None)"
    and "SizeMismatch k \<in> set (discrepancies res) \<longleftrightarrow>
      (\<exists>p q. map_of eng k = Some p \<and> map_of (exchange_positions res) k = Some q
         \<and> \<bar>po_size p - po_size q\<bar> > size_tolerance rc
         \<and> \<not> (key_exchange k \<in> set (exchanges rc) \<and> \<not> succeeded (ans (key_exchange k))))"
proof -
  obtain exch failed where f: "fetch_all ans (exchanges rc) = (exch, failed)"
    by (cases "fetch_all ans (exchanges rc)")
  have failed: "set failed = {ex \<in> set (exchanges rc). \<not> succeeded (ans ex)}"
    using fetch_all_failed [of ans "exchanges rc"] f by simp
  have mem: "(k', p) \<in> set eng \<longleftrightarrow> map_of eng k' = Some p" for k' p
    using map_of_eq_Some_iff [OF assms(2)] by simp
  have res: "exchange_positions res = exch"
    "discrepancies res = map Unrecorded (filter (\<lambda>k. k \<in> prev_unrecorded rc) (unrecorded_keys eng exch))
       @ concat (map (engine_side (size_tolerance rc) failed exch) eng) @ map StrandedPosition (stranded_keys rc)"
    using assms(1) by (auto simp: reconcile_def Let_def f)
  have side: "d \<in> set (engine_side tol failed exch (k', p)) \<Longrightarrow> d = Orphan k' \<or> d = SizeMismatch k'" for d tol k' p
    by (auto simp: engine_side_def split: if_splits option.splits)
  have orphan: "Orphan k \<in> set (engine_side tol failed exch (k', p)) \<longleftrightarrow> k' = k \<and>
      key_exchange k \<notin> set failed \<and> map_of exch k = None \<and> \<bar>po_size p\<bar> > tol" for tol k' p
    by (auto simp: engine_side_def split: option.split)
  have mismatch: "SizeMismatch k \<in> set (engine_side tol failed exch (k', p)) \<longleftrightarrow> k' = k \<and>
      key_exchange k \<notin> set failed \<and> (\<exists>q. map_of exch k = Some q \<and> \<bar>po_size p - po_size q\<bar> > tol)" for tol k' p
    by (auto simp: engine_side_def split: option.split)
  have inner: "x \<in> set (concat (map (engine_side (size_tolerance rc) failed exch) eng)) \<longleftrightarrow>
      (\<exists>k' p. map_of eng k' = Some p \<and> x \<in> set (engine_side (size_tolerance rc) failed exch (k', p)))" for x
    by (auto simp flip: mem)
  show "Unrecorded k \<in> set (discrepancies res) \<longleftrightarrow>
      k \<in> unknown_in (exchanges rc) (ans, eng) \<and> k \<in> prev_unrecorded rc"
    unfolding res set_append Un_iff inner using side by (auto simp: unknown_in_def f)
  show "Orphan k \<in> set (discrepancies res) \<longleftrightarrow>
      (\<exists>p. map_of eng k = Some p \<and> \<bar>po_size p\<bar> > size_tolerance rc
         \<and> \<not> (key_exchange k \<in> set (exchanges rc) \<and> \<not> succeeded (ans (key_exchange k)))
         \<and> map_of (exchange_positions res) k = None)"
    unfolding res set_append Un_iff inner orphan using failed by auto
  show "SizeMismatch k \<in> set (discrepancies res) \<longleftrightarrow>
      (\<exists>p q. map_of eng k = Some p \<and> map_of (exchange_positions res) k = Some q
         \<and> \<bar>po_size p - po_size q\<bar> > size_tolerance rc
         \<and> \<not> (key_exchange k \<in> set (exchanges rc) \<and> \<not> succeeded (ans (key_exchange k))))"
    unfolding res set_append Un_iff inner mismatch using failed by auto
qed

subsection \<open>Properties\<close>

text \<open>One cycle of grace, and no false orphans: after any number of cycles with any failures, a position
  the engine does not know is reported in the next cycle exactly when it is there now and was
  already unknown in the last cycle in which its exchange answered (so a failed fetch neither
  reports nor forgets it); a position only the engine has, or whose size differs, is reported exactly
  when the difference exceeds the tolerance and its exchange did not fail in this cycle; every
  stranded position is reported; and the callback is called exactly when something is reported.\<close>

lemma reconcile_reports_exactly:
  assumes "reconcile ans eng (reconcile_all cs (rc\<lparr>prev_unrecorded := {}\<rparr>)) = (res, rc')"
    and "distinct (dict_keys eng)"
  shows "(Unrecorded k \<in> set (discrepancies res) \<longleftrightarrow>
        k \<in> unknown_in (exchanges rc) (ans, eng) \<and> unknown_last_time (exchanges rc) k (rev cs))
    \<and> (Orphan k \<in> set (discrepancies res) \<longleftrightarrow>
        (\<exists>p. map_of eng k = Some p \<and> \<bar>po_size p\<bar> > size_tolerance rc
           \<and> \<not> (key_exchange k \<in> set (exchanges rc) \<and> \<not> succeeded (ans (key_exchange k)))
           \<and> map_of (exchange_positions res) k = None))
    \<and> (SizeMismatch k \<in> set (discrepancies res) \<longleftrightarrow>
        (\<exists>p q. map_of eng k = Some p \<and> map_of (exchange_positions res) k = Some q
           \<and> \<bar>po_size p - po_size q\<bar> > size_tolerance rc
           \<and> \<not> (key_exchange k \<in> set (exchanges rc) \<and> \<not> succeeded (ans (key_exchange k)))))
    \<and> (\<forall>k \<in> set (stranded_keys rc). StrandedPosition k \<in> set (discrepancies res))
    \<and> (callback_called res \<longleftrightarrow> discrepancies res \<noteq> [])"
proof -
  let ?rc = "reconcile_all cs (rc\<lparr>prev_unrecorded := {}\<rparr>)"
  have ex: "exchanges ?rc = exchanges rc" "size_tolerance ?rc = size_tolerance rc" "stranded_keys ?rc = stranded_keys rc"
    using prev_run [of cs "rc\<lparr>prev_unrecorded := {}\<rparr>"] stranded_run [of cs "rc\<lparr>prev_unrecorded := {}\<rparr>"] by simp_all
  have none: "\<not> unknown_last_time exs k (rev cs)"
    if "\<not> (\<exists>c \<in> set cs. key_exchange k \<in> set exs \<and> succeeded (fst c (key_exchange k)))" for exs
    using that by (induction cs) (auto simp: unknown_last_snoc)
  have prev: "k \<in> prev_unrecorded ?rc \<longleftrightarrow> unknown_last_time (exchanges rc) k (rev cs)"
    using prev_run [of cs "rc\<lparr>prev_unrecorded := {}\<rparr>" k] none [of "exchanges rc"] by auto
  have rest: "\<forall>k \<in> set (stranded_keys rc). StrandedPosition k \<in> set (discrepancies res)"
    "callback_called res \<longleftrightarrow> discrepancies res \<noteq> []"
    using assms(1) ex(3) by (auto simp: reconcile_def Let_def split: prod.splits)
  show ?thesis
    using in_discrepancies [OF assms(1) assms(2), of k] rest unfolding ex prev by blast
qed

definition ex_answers :: answers where
  "ex_answers = (\<lambda>ex. if ex = ''okx''
     then Returned [\<lparr>po_exchange = ''okx'', po_symbol = ''BTC'', po_size = 1, po_entry = 9, po_mark = None\<rparr>] else TimedOut)"

lemma reconcile_reports_exactly_witness:
  "\<exists>res rc'. reconcile ex_answers [] (reconcile_all [(ex_answers, []), (\<lambda>_. TimedOut, [])]
       ((reconciler_new [''okx''] 0)\<lparr>prev_unrecorded := {}\<rparr>)) = (res, rc')
     \<and> Unrecorded ''okx:BTC'' \<in> set (discrepancies res)"
proof -
  let ?cs = "[(ex_answers, []), (\<lambda>_. TimedOut, [])] :: (answers \<times> position_map) list"
  let ?rc = "reconciler_new [''okx''] 0"
  obtain res rc' where r: "reconcile ex_answers [] (reconcile_all ?cs (?rc\<lparr>prev_unrecorded := {}\<rparr>)) = (res, rc')"
    by (cases "reconcile ex_answers [] (reconcile_all ?cs (?rc\<lparr>prev_unrecorded := {}\<rparr>))")
  have "''okx:BTC'' \<in> unknown_in [''okx''] (ex_answers, [])"
    by (simp add: unknown_in_def unrecorded_keys_def fetch_all_def fetch_one_def ex_answers_def position_id_def
        is_ghost_def dict_has_def)
  moreover have "key_exchange ''okx:BTC'' = ''okx''" by (simp add: key_exchange_def)
  ultimately have "''okx:BTC'' \<in> unknown_in (exchanges ?rc) (ex_answers, [])"
    and "unknown_last_time (exchanges ?rc) ''okx:BTC'' (rev ?cs)"
    by (simp_all add: reconciler_new_def) (simp_all add: ex_answers_def)
  with reconcile_reports_exactly [OF r, of "''okx:BTC''"] r show ?thesis by auto
qed

end
