(* ===== verification/Lifecycle.thy ===== *)
theory Lifecycle
  imports Prelude
begin

text \<open>
  \<open>engine/src/runtime/lifecycle_manager.py\<close>: registration of the background tasks, the start order
  by Kahn's algorithm, start and shutdown.  A task is its status; what the factories do when
  they are called, and whether a cancelled task ends within the time-out, are arguments.
\<close>

datatype task_status = Running | Finished | Cancelled

record lm_entry =
  depends_on :: "string list"
  priority :: int
  lm_task :: "task_status option"

type_synonym lm_entries = "(string, lm_entry) dict"

record lifecycle_manager =
  lm_entries :: lm_entries
  lm_started :: bool

datatype lm_error =
    RegisterAfterStart string
  | DuplicateName string
  | UnknownDependency string string
  | CycleDetected "string set"
  | AlreadyStarted
  | FactoryFailed string

definition lm_new :: lifecycle_manager where
  "lm_new = \<lparr>lm_entries = [], lm_started = False\<rparr>"

definition lm_register ::
    "string \<Rightarrow> string list \<Rightarrow> int \<Rightarrow> lifecycle_manager \<Rightarrow> lm_error + lifecycle_manager" where
  "lm_register name deps prio m =
     (if lm_started m then Inl (RegisterAfterStart name)
      else if dict_has (lm_entries m) name then Inl (DuplicateName name)
      else Inr (m\<lparr>lm_entries := AList.update name \<lparr>depends_on = deps, priority = prio, lm_task = None\<rparr> (lm_entries m)\<rparr>))"

definition task_names :: "lifecycle_manager \<Rightarrow> string list" where
  "task_names m = dict_keys (lm_entries m)"

definition get_task :: "string \<Rightarrow> lifecycle_manager \<Rightarrow> task_status option" where
  "get_task name m = (case map_of (lm_entries m) name of None \<Rightarrow> None | Some e \<Rightarrow> lm_task e)"

subsection \<open>Kahn's algorithm\<close>

definition prio_of :: "lm_entries \<Rightarrow> string \<Rightarrow> int" where
  "prio_of es n = (case map_of es n of None \<Rightarrow> 0 | Some e \<Rightarrow> priority e)"

text \<open>\<open>list.index\<close> on the keys.\<close>

fun index_of :: "string list \<Rightarrow> string \<Rightarrow> nat" where
  "index_of [] n = 0"
| "index_of (k # ks) n = (if k = n then 0 else Suc (index_of ks n))"

definition key_less :: "lm_entries \<Rightarrow> string \<Rightarrow> string \<Rightarrow> bool" where
  "key_less es n r \<longleftrightarrow> prio_of es n < prio_of es r
     \<or> prio_of es n = prio_of es r \<and> index_of (dict_keys es) n < index_of (dict_keys es) r"

fun insert_ready :: "lm_entries \<Rightarrow> string \<Rightarrow> string list \<Rightarrow> string list" where
  "insert_ready es n [] = [n]"
| "insert_ready es n (r # rs) = (if key_less es n r then n # r # rs else r # insert_ready es n rs)"

text \<open>\<open>sorted\<close> with the key \<open>(priority, index)\<close>, which no two names share.\<close>

definition sort_ready :: "lm_entries \<Rightarrow> string list \<Rightarrow> string list" where
  "sort_ready es ns = fold (insert_ready es) ns []"

definition unknown_dependency :: "lm_entries \<Rightarrow> (string \<times> string) option" where
  "unknown_dependency es =
     List.find (\<lambda>(n, d). \<not> dict_has es d) (concat (map (\<lambda>(n, e). map (\<lambda>d. (n, d)) (depends_on e)) es))"

definition initial_degree :: "lm_entries \<Rightarrow> string \<Rightarrow> int" where
  "initial_degree es n = (case map_of es n of None \<Rightarrow> 0 | Some e \<Rightarrow> int (length (depends_on e)))"

definition release_one ::
    "lm_entries \<Rightarrow> string \<Rightarrow> string \<times> lm_entry \<Rightarrow> (string \<Rightarrow> int) \<times> string list \<Rightarrow> (string \<Rightarrow> int) \<times> string list"
  where
  "release_one es c ne s =
     (if c \<in> set (depends_on (snd ne))
      then let n = fst ne; deg = (fst s)(n := fst s n - 1)
           in (deg, if deg n = 0 then insert_ready es n (snd s) else snd s)
      else s)"

fun kahn :: "lm_entries \<Rightarrow> nat \<Rightarrow> string list \<Rightarrow> (string \<Rightarrow> int) \<Rightarrow> string list \<Rightarrow> string list option" where
  "kahn es fuel [] deg order = Some order"
| "kahn es 0 (c # ready) deg order = None"
| "kahn es (Suc fuel) (c # ready) deg order =
     (let s = fold (release_one es c) es (deg, ready) in kahn es fuel (snd s) (fst s) (order @ [c]))"

text \<open>The outer \<open>option\<close> is \<open>None\<close> when the loop has not ended after as many rounds as there are entries.\<close>

definition topological_order :: "lm_entries \<Rightarrow> (lm_error + string list) option" where
  "topological_order es =
     (case unknown_dependency es of
        Some (n, d) \<Rightarrow> Some (Inl (UnknownDependency n d))
      | None \<Rightarrow>
          (case kahn es (length es) (sort_ready es (filter (\<lambda>n. initial_degree es n = 0) (dict_keys es)))
                  (initial_degree es) [] of
             None \<Rightarrow> None
           | Some order \<Rightarrow>
               Some (if length order \<noteq> length es
                     then Inl (CycleDetected (set (dict_keys es) - set order)) else Inr order)))"

subsection \<open>Start and shutdown\<close>

definition set_task :: "string \<Rightarrow> task_status \<Rightarrow> lm_entries \<Rightarrow> lm_entries" where
  "set_task n t es = (case map_of es n of None \<Rightarrow> es | Some e \<Rightarrow> AList.update n (e\<lparr>lm_task := Some t\<rparr>) es)"

text \<open>The loop of \<open>start_all\<close>: the names started, in order, until a factory raises.\<close>

fun start_loop :: "(string \<Rightarrow> bool) \<Rightarrow> string list \<Rightarrow> lm_entries \<Rightarrow> string option \<times> string list \<times> lm_entries" where
  "start_loop factory_ok [] es = (None, [], es)"
| "start_loop factory_ok (n # ns) es =
     (if factory_ok n
      then let (err, tasks, es') = start_loop factory_ok ns (set_task n Running es) in (err, n # tasks, es')
      else (Some n, [], es))"

definition start_all ::
    "(string \<Rightarrow> bool) \<Rightarrow> lifecycle_manager \<Rightarrow> ((lm_error + string list) \<times> lifecycle_manager) option" where
  "start_all factory_ok m =
     (if lm_started m then Some (Inl AlreadyStarted, m)
      else case topological_order (lm_entries m) of
             None \<Rightarrow> None
           | Some (Inl e) \<Rightarrow> Some (Inl e, m)
           | Some (Inr order) \<Rightarrow>
               (case start_loop factory_ok order (lm_entries m) of
                  (Some n, tasks, es) \<Rightarrow> Some (Inl (FactoryFailed n), m\<lparr>lm_entries := es\<rparr>)
                | (None, tasks, es) \<Rightarrow> Some (Inr tasks, \<lparr>lm_entries = es, lm_started = True\<rparr>)))"

text \<open>The shutdown loop over the reversed order; the list is the names it cancelled, in order.\<close>

fun stop_loop :: "(string \<Rightarrow> bool) \<Rightarrow> string list \<Rightarrow> lm_entries \<Rightarrow> string list \<times> lm_entries" where
  "stop_loop ends [] es = ([], es)"
| "stop_loop ends (n # ns) es =
     (if (case map_of es n of None \<Rightarrow> False | Some e \<Rightarrow> lm_task e = Some Running)
      then let (cs, es') = stop_loop ends ns (if ends n then set_task n Cancelled es else es) in (n # cs, es')
      else stop_loop ends ns es)"

definition stop_all ::
    "(string \<Rightarrow> bool) \<Rightarrow> lifecycle_manager \<Rightarrow> ((lm_error + string list) \<times> lifecycle_manager) option" where
  "stop_all ends m =
     (if \<not> lm_started m then Some (Inr [], m)
      else case topological_order (lm_entries m) of
             None \<Rightarrow> None
           | Some (Inl e) \<Rightarrow> Some (Inl e, m)
           | Some (Inr order) \<Rightarrow>
               (case stop_loop ends (rev order) (lm_entries m) of
                  (cs, es) \<Rightarrow> Some (Inr cs, \<lparr>lm_entries = es, lm_started = False\<rparr>)))"

subsection \<open>The ready queue\<close>

lemma set_insert_ready [simp]: "set (insert_ready es n rs) = insert n (set rs)"
  by (induction rs) auto

lemma distinct_insert_ready: "distinct (insert_ready es n rs) \<longleftrightarrow> n \<notin> set rs \<and> distinct rs"
  by (induction rs) auto

lemma sort_ready_aux:
  "set (fold (insert_ready es) ns rs) = set ns \<union> set rs"
  "distinct ns \<Longrightarrow> distinct rs \<Longrightarrow> set ns \<inter> set rs = {} \<Longrightarrow> distinct (fold (insert_ready es) ns rs)"
  by (induction ns arbitrary: rs) (auto simp: distinct_insert_ready)

lemma sort_ready_props [simp]:
  "set (sort_ready es ns) = set ns" "distinct ns \<Longrightarrow> distinct (sort_ready es ns)"
  by (simp_all add: sort_ready_def sort_ready_aux)

subsection \<open>One round\<close>

definition deps_of :: "lm_entries \<Rightarrow> string \<Rightarrow> string list" where
  "deps_of es n = (case map_of es n of None \<Rightarrow> [] | Some e \<Rightarrow> depends_on e)"

lemma fold_release_degree:
  "distinct (map fst xs) \<Longrightarrow>
   fst (fold (release_one es c) xs s) n
     = fst s n - (if \<exists>e. (n, e) \<in> set xs \<and> c \<in> set (depends_on e) then 1 else 0)"
proof (induction xs arbitrary: s)
  case (Cons x xs)
  have "\<not> (\<exists>e. (fst x, e) \<in> set xs)" using Cons.prems by (auto intro: rev_image_eqI)
  with Cons.IH [of "release_one es c x s"] Cons.prems show ?case
    by (cases x) (auto simp: release_one_def Let_def)
qed simp

lemma fold_release_ready:
  "distinct (map fst xs) \<Longrightarrow>
   set (snd (fold (release_one es c) xs s))
     = set (snd s) \<union> {n. fst s n = 1 \<and> (\<exists>e. (n, e) \<in> set xs \<and> c \<in> set (depends_on e))}"
proof (induction xs arbitrary: s)
  case (Cons x xs)
  have "\<not> (\<exists>e. (fst x, e) \<in> set xs)" using Cons.prems by (auto intro: rev_image_eqI)
  with Cons.IH [of "release_one es c x s"] Cons.prems show ?case
    by (cases x) (auto simp: release_one_def Let_def split: if_splits)
qed simp

lemma fold_release_distinct:
  "distinct (map fst xs) \<Longrightarrow> distinct (snd s) \<Longrightarrow>
   (\<And>n e. (n, e) \<in> set xs \<Longrightarrow> c \<in> set (depends_on e) \<Longrightarrow> n \<notin> set (snd s)) \<Longrightarrow>
   distinct (snd (fold (release_one es c) xs s))"
proof (induction xs arbitrary: s)
  case (Cons x xs)
  let ?s = "release_one es c x s"
  have new: "fst x \<notin> fst ` set xs" using Cons.prems(1) by simp
  have x: "c \<in> set (depends_on (snd x)) \<Longrightarrow> fst x \<notin> set (snd s)"
    using Cons.prems(3) [of "fst x" "snd x"] by simp
  have "distinct (snd ?s)"
    using Cons.prems(2) x by (simp add: release_one_def Let_def distinct_insert_ready)
  moreover have "n \<notin> set (snd ?s)" if "(n, e) \<in> set xs" "c \<in> set (depends_on e)" for n e
  proof -
    have "n \<noteq> fst x" using that(1) new by (auto intro: rev_image_eqI)
    moreover have "n \<notin> set (snd s)" using Cons.prems(3) [of n e] that by simp
    ultimately show ?thesis by (simp add: release_one_def Let_def)
  qed
  ultimately show ?case
    using Cons.IH [of ?s] Cons.prems(1) by simp
qed simp

subsection \<open>The invariant of the loop\<close>

text \<open>What is left of the degree of \<open>n\<close> once the tasks of \<open>order\<close> are placed.\<close>

definition left_of :: "lm_entries \<Rightarrow> string list \<Rightarrow> string \<Rightarrow> int" where
  "left_of es order n = int (length (deps_of es n)) - int (card (set (deps_of es n) \<inter> set order))"

text \<open>Every task of the list comes after the tasks it depends on.\<close>

fun in_order :: "lm_entries \<Rightarrow> string list \<Rightarrow> string list \<Rightarrow> bool" where
  "in_order es pre [] \<longleftrightarrow> True"
| "in_order es pre (n # ns) \<longleftrightarrow> set (deps_of es n) \<subseteq> set pre \<and> in_order es (pre @ [n]) ns"

definition kahn_inv :: "lm_entries \<Rightarrow> string list \<Rightarrow> (string \<Rightarrow> int) \<Rightarrow> string list \<Rightarrow> bool" where
  "kahn_inv es ready deg order \<longleftrightarrow> distinct (order @ ready)
     \<and> (\<forall>n \<in> set (dict_keys es). deg n = left_of es order n)
     \<and> set (order @ ready) = {n \<in> set (dict_keys es). left_of es order n = 0}
     \<and> in_order es [] order"

lemma left_of_nonneg: "0 \<le> left_of es order n"
proof -
  have "card (set (deps_of es n) \<inter> set order) \<le> card (set (deps_of es n))"
    by (rule card_mono) auto
  also have "\<dots> \<le> length (deps_of es n)" by (rule card_length)
  finally show ?thesis by (simp add: left_of_def)
qed

lemma left_of_0:
  "left_of es order n = 0 \<longleftrightarrow> distinct (deps_of es n) \<and> set (deps_of es n) \<subseteq> set order"
proof
  assume "left_of es order n = 0"
  then have l: "length (deps_of es n) = card (set (deps_of es n) \<inter> set order)" by (simp add: left_of_def)
  have m: "card (set (deps_of es n) \<inter> set order) \<le> card (set (deps_of es n))" by (rule card_mono) auto
  have c: "card (set (deps_of es n)) = length (deps_of es n)"
    using l m card_length [of "deps_of es n"] by linarith
  then have "set (deps_of es n) \<inter> set order = set (deps_of es n)"
    using l by (intro card_subset_eq) auto
  with c show "distinct (deps_of es n) \<and> set (deps_of es n) \<subseteq> set order"
    by (auto intro: card_distinct)
next
  assume "distinct (deps_of es n) \<and> set (deps_of es n) \<subseteq> set order"
  then show "left_of es order n = 0"
    by (simp add: left_of_def distinct_card Int_absorb2)
qed

lemma left_of_snoc:
  assumes "c \<notin> set order"
  shows "left_of es (order @ [c]) n = left_of es order n - (if c \<in> set (deps_of es n) then 1 else 0)"
proof -
  have "set (deps_of es n) \<inter> set (order @ [c])
      = (if c \<in> set (deps_of es n) then insert c (set (deps_of es n) \<inter> set order) else set (deps_of es n) \<inter> set order)"
    by auto
  then show ?thesis using assms by (simp add: left_of_def)
qed

lemma respects_snoc:
  "in_order es b (ns @ [n]) \<longleftrightarrow> in_order es b ns \<and> set (deps_of es n) \<subseteq> set b \<union> set ns"
  by (induction ns arbitrary: b) auto

lemma in_dict_deps:
  "distinct (dict_keys es) \<Longrightarrow> (\<exists>e. (n, e) \<in> set es \<and> c \<in> set (depends_on e))
     \<longleftrightarrow> n \<in> set (dict_keys es) \<and> c \<in> set (deps_of es n)"
proof -
  assume d: "distinct (dict_keys es)"
  have "(n, e) \<in> set es \<longleftrightarrow> map_of es n = Some e" for e
    using map_of_eq_Some_iff [OF d] by simp
  moreover have "n \<in> set (dict_keys es) \<longleftrightarrow> map_of es n \<noteq> None"
    by (simp add: map_of_eq_None_iff)
  ultimately show ?thesis
    by (auto simp: deps_of_def)
qed

lemma kahn_inv_step:
  assumes d: "distinct (dict_keys es)" and inv: "kahn_inv es (c # ready) deg order"
    and s: "s = fold (release_one es c) es (deg, ready)"
  shows "kahn_inv es (snd s) (fst s) (order @ [c])"
proof -
  have c: "c \<notin> set order" "c \<in> set (dict_keys es)" "left_of es order c = 0" "c \<notin> set ready"
    using inv by (auto simp: kahn_inv_def)
  have ready: "set (c # ready) \<union> set order = {n \<in> set (dict_keys es). left_of es order n = 0}"
    and deg: "\<And>n. n \<in> set (dict_keys es) \<Longrightarrow> deg n = left_of es order n"
    using inv by (auto simp: kahn_inv_def)
  have notin: "left_of es order n \<noteq> 0" if "c \<in> set (deps_of es n)" for n
    using that c(1) by (auto simp: left_of_0)
  have deg': "fst s n = left_of es (order @ [c]) n" if "n \<in> set (dict_keys es)" for n
    unfolding s fold_release_degree [OF d] left_of_snoc [OF c(1)] in_dict_deps [OF d] using deg that by simp
  have set_s: "set (snd s) = set ready \<union> {n \<in> set (dict_keys es). left_of es order n = 1 \<and> c \<in> set (deps_of es n)}"
  proof -
    have "deg n = 1 \<and> n \<in> set (dict_keys es) \<and> c \<in> set (deps_of es n)
        \<longleftrightarrow> n \<in> set (dict_keys es) \<and> left_of es order n = 1 \<and> c \<in> set (deps_of es n)" for n
      using deg [of n] by (cases "n \<in> set (dict_keys es)") (simp_all del: set_map)
    then show ?thesis
      unfolding s fold_release_ready [OF d] in_dict_deps [OF d] fst_conv snd_conv by simp
  qed
  have "distinct (snd s)"
    unfolding s
  proof (rule fold_release_distinct [OF d])
    show "distinct (snd (deg, ready))" using inv by (simp add: kahn_inv_def)
    show "n \<notin> set (snd (deg, ready))" if "(n, e) \<in> set es" "c \<in> set (depends_on e)" for n e
    proof -
      have "c \<in> set (deps_of es n)" using in_dict_deps [OF d, of n c] that by blast
      then show ?thesis using notin ready by auto
    qed
  qed
  moreover have "set (snd s) \<inter> set (order @ [c]) = {}"
    using inv c(3) ready unfolding set_s by (auto simp: kahn_inv_def)
  moreover have "set ((order @ [c]) @ snd s) = {n \<in> set (dict_keys es). left_of es (order @ [c]) n = 0}"
    using ready notin unfolding left_of_snoc [OF c(1)] by (auto simp: set_s)
  moreover have "in_order es [] (order @ [c])"
    using inv c(3) by (simp add: kahn_inv_def respects_snoc left_of_0)
  ultimately show ?thesis
    using inv deg' by (auto simp: kahn_inv_def)
qed

lemma kahn_inv_length:
  assumes "kahn_inv es ready deg order"
  shows "length order + length ready \<le> length es"
proof -
  have "length (order @ ready) = card (set (order @ ready))"
    using assms by (intro distinct_card [symmetric]) (simp add: kahn_inv_def)
  also have "\<dots> \<le> card (set (dict_keys es))"
    using assms by (intro card_mono) (auto simp: kahn_inv_def)
  also have "\<dots> \<le> length es"
    using card_length [of "dict_keys es"] by simp
  finally show ?thesis by simp
qed

lemma kahn_result:
  assumes d: "distinct (dict_keys es)"
  shows "kahn_inv es ready deg order \<Longrightarrow> length es \<le> fuel + length order \<Longrightarrow>
    \<exists>deg' order'. kahn es fuel ready deg order = Some order' \<and> kahn_inv es [] deg' order'"
proof (induction fuel arbitrary: ready deg order)
  case 0
  with kahn_inv_length [OF 0(1)] show ?case by (cases ready) auto
next
  case (Suc fuel)
  show ?case
  proof (cases ready)
    case Nil
    with Suc.prems(1) show ?thesis by auto
  next
    case (Cons c rs)
    let ?s = "fold (release_one es c) es (deg, rs)"
    have "kahn_inv es (snd ?s) (fst ?s) (order @ [c])"
      by (rule kahn_inv_step [OF d]) (use Suc.prems(1) Cons in simp_all)
    from Suc.IH [OF this] Suc.prems(2) show ?thesis
      by (simp add: Cons Let_def)
  qed
qed

lemma deps_known:
  assumes "unknown_dependency es = None" and "d \<in> set (deps_of es n)"
  shows "d \<in> set (dict_keys es)"
proof -
  obtain e where e: "(n, e) \<in> set es" "d \<in> set (depends_on e)"
    using assms(2) by (cases "map_of es n") (auto simp: deps_of_def dest: map_of_SomeD)
  then have "(n, d) \<in> set (concat (map (\<lambda>(n, e). map (\<lambda>d. (n, d)) (depends_on e)) es))"
    by force
  with assms(1) show ?thesis
    by (fastforce simp: unknown_dependency_def find_None_iff dict_has_def)
qed

lemma initial_inv:
  assumes d: "distinct (dict_keys es)"
  shows "kahn_inv es (sort_ready es (filter (\<lambda>n. initial_degree es n = 0) (dict_keys es))) (initial_degree es) []"
proof -
  have "initial_degree es n = left_of es [] n" for n
    by (simp add: initial_degree_def left_of_def deps_of_def split: option.split)
  then show ?thesis
    using d by (auto simp: kahn_inv_def)
qed

text \<open>The result in terms of the final order of the loop.\<close>

lemma topological_order_cases:
  assumes d: "distinct (dict_keys es)" and known: "unknown_dependency es = None"
  obtains deg order where "kahn_inv es [] deg order"
    and "topological_order es = Some (if length order \<noteq> length es
           then Inl (CycleDetected (set (dict_keys es) - set order)) else Inr order)"
proof -
  obtain deg order where "kahn es (length es) (sort_ready es (filter (\<lambda>n. initial_degree es n = 0) (dict_keys es)))
      (initial_degree es) [] = Some order" "kahn_inv es [] deg order"
    using kahn_result [OF d initial_inv [OF d], of "length es"] by auto
  then show ?thesis
    using that known by (simp add: topological_order_def)
qed

lemma in_order_nth:
  "in_order es b ns \<Longrightarrow> i < length ns \<Longrightarrow> set (deps_of es (ns ! i)) \<subseteq> set b \<union> set (take i ns)"
proof (induction ns arbitrary: b i)
  case (Cons n ns)
  show ?case
  proof (cases i)
    case 0
    with Cons.prems show ?thesis by simp
  next
    case (Suc j)
    with Cons.IH [of "b @ [n]" j] Cons.prems show ?thesis by auto
  qed
qed simp

lemma complete_length:
  assumes "distinct (dict_keys es)" and "kahn_inv es [] deg order"
  shows "length order = length es \<longleftrightarrow> set order = set (dict_keys es)"
proof -
  have o: "length order = card (set order)" and k: "length es = card (set (dict_keys es))"
    using assms distinct_card [of order] distinct_card [of "dict_keys es"] by (simp_all add: kahn_inv_def)
  have "set order \<subseteq> set (dict_keys es)" using assms(2) by (auto simp: kahn_inv_def)
  then show ?thesis
    unfolding o k by (metis List.finite_set card_subset_eq)
qed

text \<open>The dependency relation has no cycle: some numbering grows along it.\<close>

definition acyclic_deps :: "lm_entries \<Rightarrow> bool" where
  "acyclic_deps es \<longleftrightarrow> (\<exists>rk :: string \<Rightarrow> nat. \<forall>n. \<forall>d \<in> set (deps_of es n). rk d < rk n)"

lemma kahn_complete:
  assumes "kahn_inv es [] deg order" and "acyclic_deps es" and "unknown_dependency es = None"
    and "\<forall>n \<in> set (dict_keys es). distinct (deps_of es n)"
  shows "set order = set (dict_keys es)"
proof -
  obtain rk :: "string \<Rightarrow> nat" where rk: "\<And>n d. d \<in> set (deps_of es n) \<Longrightarrow> rk d < rk n"
    using assms(2) by (auto simp: acyclic_deps_def)
  have "n \<in> set (dict_keys es) \<longrightarrow> n \<in> set order" for n
  proof (induction n rule: measure_induct_rule [where f = rk])
    case (less n)
    show ?case
    proof
      assume n: "n \<in> set (dict_keys es)"
      have "set (deps_of es n) \<subseteq> set order"
        using less rk deps_known [OF assms(3)] by blast
      then have "left_of es order n = 0" using assms(4) n by (simp add: left_of_0 del: set_map)
      with n assms(1) show "n \<in> set order" by (simp add: kahn_inv_def del: set_map)
    qed
  qed
  with assms(1) show ?thesis by (auto simp: kahn_inv_def)
qed

lemma index_of_nth: "n \<in> set xs \<Longrightarrow> index_of xs n < length xs \<and> xs ! index_of xs n = n"
  by (induction xs) auto

lemma index_of_take: "d \<in> set (take i xs) \<Longrightarrow> index_of xs d < i"
  by (induction xs arbitrary: i) (auto simp: take_Cons split: nat.splits)

lemma in_order_acyclic:
  assumes "in_order es [] order" and "\<forall>n. deps_of es n \<noteq> [] \<longrightarrow> n \<in> set order"
  shows "acyclic_deps es"
proof -
  have "index_of order d < index_of order n" if "d \<in> set (deps_of es n)" for n d
  proof -
    have "deps_of es n \<noteq> []" using that by auto
    then have "n \<in> set order" using assms(2) by blast
    then show ?thesis
      using in_order_nth [OF assms(1), of "index_of order n"] index_of_nth [of n order] that
      by (auto intro: index_of_take)
  qed
  then show ?thesis unfolding acyclic_deps_def by blast
qed

lemma deps_of_registered: "deps_of es n \<noteq> [] \<Longrightarrow> n \<in> set (dict_keys es)"
  by (cases "map_of es n") (auto simp: deps_of_def dest: map_of_SomeD intro: rev_image_eqI)

lemma unknown_iff:
  assumes "distinct (dict_keys es)"
  shows "unknown_dependency es = None \<longleftrightarrow> (\<forall>n. \<forall>d \<in> set (deps_of es n). d \<in> set (dict_keys es))"
proof
  assume r: "\<forall>n. \<forall>d \<in> set (deps_of es n). d \<in> set (dict_keys es)"
  have "d \<in> fst ` set es" if "(n, e) \<in> set es" "d \<in> set (depends_on e)" for n e d
  proof -
    have "map_of es n = Some e" using that(1) assms by simp
    then have "deps_of es n = depends_on e" by (simp add: deps_of_def)
    then show ?thesis using r that(2) by (metis set_map)
  qed
  then show "unknown_dependency es = None"
    unfolding unknown_dependency_def find_None_iff dict_has_def by auto
qed (use deps_known in blast)

text \<open>Only names, dependencies and priorities matter for the order.\<close>

definition strip :: "lm_entries \<Rightarrow> lm_entries" where
  "strip es = map (\<lambda>(n, e). (n, e\<lparr>lm_task := None\<rparr>)) es"

lemma map_of_strip: "map_of (strip es) n = map_option (\<lambda>e. e\<lparr>lm_task := None\<rparr>) (map_of es n)"
  unfolding strip_def by (induction es) auto

lemma keys_strip: "dict_keys (strip es) = dict_keys es"
  by (induction es) (auto simp: strip_def)

lemma dict_has_strip: "dict_has (strip es) n = dict_has es n"
  by (simp add: dict_has_iff map_of_strip)

lemma prio_of_strip: "prio_of (strip es) n = prio_of es n"
  by (cases "map_of es n") (simp_all add: prio_of_def map_of_strip)

lemma initial_degree_strip: "initial_degree (strip es) n = initial_degree es n"
  by (cases "map_of es n") (simp_all add: initial_degree_def map_of_strip)

lemma key_less_strip: "key_less (strip es) = key_less es"
  by (intro ext) (simp add: key_less_def prio_of_strip keys_strip)

lemma insert_ready_strip: "insert_ready (strip es) = insert_ready es"
proof (intro ext)
  show "insert_ready (strip es) n rs = insert_ready es n rs" for n rs
    by (induction rs) (simp_all add: key_less_strip)
qed

lemma fold_release_strip: "fold (release_one (strip es) c) (strip xs) s = fold (release_one es c) xs s"
  by (induction xs arbitrary: s) (auto simp: strip_def release_one_def insert_ready_strip [unfolded strip_def])

lemma kahn_strip: "kahn (strip es) fuel ready deg order = kahn es fuel ready deg order"
  by (induction es fuel ready deg order rule: kahn.induct) (simp_all add: fold_release_strip Let_def)

lemma topological_order_strip: "topological_order (strip es) = topological_order es"
proof -
  have "concat (map (\<lambda>(n, e). map (\<lambda>d. (n, d)) (depends_on e)) (strip es))
      = concat (map (\<lambda>(n, e). map (\<lambda>d. (n, d)) (depends_on e)) es)"
    by (induction es) (auto simp: strip_def)
  then have u: "unknown_dependency (strip es) = unknown_dependency es"
    by (simp add: unknown_dependency_def dict_has_strip)
  have l: "length (strip es) = length es" by (simp add: strip_def)
  have i: "initial_degree (strip es) = initial_degree es"
    by (rule ext) (rule initial_degree_strip)
  show ?thesis
    unfolding topological_order_def kahn_strip sort_ready_def insert_ready_strip keys_strip u l i ..
qed

lemma strip_set_task: "distinct (dict_keys es) \<Longrightarrow> strip (set_task n t es) = strip es"
proof (induction es)
  case (Cons x es)
  have *: "strip (AList.update n (e\<lparr>lm_task := Some t\<rparr>) es) = strip es" if "map_of es n = Some e" for e
    using Cons.IH Cons.prems that by (simp add: set_task_def)
  show ?case
    by (cases x; cases "map_of es n") (auto simp: set_task_def strip_def * [unfolded strip_def])
qed (simp add: set_task_def)

lemma keys_set_task: "dict_keys (set_task n t es) = dict_keys es"
proof (cases "map_of es n")
  case (Some e)
  then have "n \<in> set (dict_keys es)"
    by (metis map_of_eq_None_iff option.distinct(1) set_map)
  with Some show ?thesis by (simp add: set_task_def keys_update_present)
qed (simp add: set_task_def)

lemma task_set_task:
  "map_option lm_task (map_of (set_task n t es) k)
     = (if k = n then map_option (\<lambda>_. Some t) (map_of es n) else map_option lm_task (map_of es k))"
  by (auto simp: set_task_def split: option.split)

lemma start_loop_ok:
  "distinct (dict_keys es) \<Longrightarrow> start_loop f ns es = (None, tasks, es') \<Longrightarrow>
   tasks = ns \<and> strip es' = strip es \<and> dict_keys es' = dict_keys es
   \<and> (\<forall>k \<in> set (dict_keys es). map_option lm_task (map_of es' k)
        = (if k \<in> set ns then Some (Some Running) else map_option lm_task (map_of es k)))"
proof (induction ns arbitrary: es tasks)
  case (Cons n ns)
  obtain ts where ts: "start_loop f ns (set_task n Running es) = (None, ts, es')" "tasks = n # ts"
    using Cons.prems(2) by (auto split: if_splits prod.splits)
  have d: "distinct (dict_keys (set_task n Running es))"
    using Cons.prems(1) by (simp add: keys_set_task)
  have here: "map_option (\<lambda>_. Some Running) (map_of es n) = Some (Some Running)" if "n \<in> set (dict_keys es)"
    using that by (cases "map_of es n") (auto simp: map_of_eq_None_iff)
  show ?case
    using Cons.IH [OF d ts(1)] ts(2) here
    by (simp add: keys_set_task strip_set_task [OF Cons.prems(1)] task_set_task del: set_map)
qed simp

lemma stop_loop_running:
  "distinct ns \<Longrightarrow> (\<forall>n \<in> set ns. map_option lm_task (map_of es n) = Some (Some Running)) \<Longrightarrow>
   fst (stop_loop ends ns es) = ns"
proof (induction ns arbitrary: es)
  case (Cons n ns)
  let ?es = "if ends n then set_task n Cancelled es else es"
  have "fst (stop_loop ends ns ?es) = ns"
    using Cons.prems by (intro Cons.IH) (auto simp: task_set_task simp del: map_option_eq_Some)
  moreover obtain e where "map_of es n = Some e" "lm_task e = Some Running"
    using Cons.prems(2) by auto
  ultimately show ?case
    by (simp add: case_prod_beta)
qed simp

text \<open>A factory that raises leaves the manager not started although the tasks before it run, so the
  shutdown that follows cancels none of them.\<close>

lemma failed_start_leaks_tasks:
  assumes "start_all f m = Some (Inl (FactoryFailed n), m')"
  shows "stop_all ends m' = Some (Inr [], m')"
  using assms by (auto simp: start_all_def stop_all_def split: if_splits option.splits sum.splits prod.splits)

subsection \<open>Properties\<close>

text \<open>Start and shutdown follow the dependencies: when \<open>start_all\<close> of tasks none of which is running
  succeeds, it has started every registered task exactly once, each after all the tasks it
  depends on, and a shutdown of the manager cancels them all in the reverse order.\<close>

lemma start_and_stop_follow_dependencies:
  assumes "distinct (task_names m)" and "start_all f m = Some (Inr tasks, m')"
  shows "distinct tasks \<and> set tasks = set (task_names m) \<and> lm_started m'
    \<and> (\<forall>i < length tasks. \<forall>d \<in> set (deps_of (lm_entries m) (tasks ! i)). d \<in> set (take i tasks))
    \<and> (\<forall>n \<in> set tasks. get_task n m' = Some Running)
    \<and> (\<exists>m''. stop_all ends m' = Some (Inr (rev tasks), m'') \<and> \<not> lm_started m'')"
proof -
  let ?es = "lm_entries m"
  have d: "distinct (dict_keys ?es)" using assms(1) by (simp add: task_names_def)
  obtain order es' where o: "topological_order ?es = Some (Inr order)"
    and loop: "start_loop f order ?es = (None, tasks, es')" and m': "m' = \<lparr>lm_entries = es', lm_started = True\<rparr>"
    using assms(2) by (auto simp: start_all_def split: if_splits option.splits sum.splits prod.splits)
  have known: "unknown_dependency ?es = None"
    using o by (auto simp: topological_order_def split: option.splits prod.splits)
  obtain deg order' where inv: "kahn_inv ?es [] deg order'"
    and res: "topological_order ?es = Some (if length order' \<noteq> length ?es
         then Inl (CycleDetected (set (dict_keys ?es) - set order')) else Inr order')"
    by (rule topological_order_cases [OF d known])
  have len: "length order = length ?es" and inv': "kahn_inv ?es [] deg order"
    using o res inv by (auto split: if_splits)
  have all: "set order = set (dict_keys ?es)"
    using len complete_length [OF d inv'] by simp
  have st: "tasks = order" "strip es' = strip ?es" "dict_keys es' = dict_keys ?es"
      "\<And>k. k \<in> set order \<Longrightarrow> map_option lm_task (map_of es' k) = Some (Some Running)"
    using start_loop_ok [OF d loop] all by auto
  have "topological_order es' = Some (Inr order)"
    using o topological_order_strip [of es'] topological_order_strip [of ?es] st(2) by simp
  moreover have "fst (stop_loop ends (rev order) es') = rev order"
    by (rule stop_loop_running) (use inv' st(4) in \<open>auto simp: kahn_inv_def simp del: map_option_eq_Some\<close>)
  ultimately have stop: "\<exists>m''. stop_all ends m' = Some (Inr (rev tasks), m'') \<and> \<not> lm_started m''"
    by (auto simp: stop_all_def m' st(1) split: prod.split)
  have ord: "set (deps_of ?es (order ! i)) \<subseteq> set (take i order)" if "i < length order" for i
    using in_order_nth [of ?es "[]" order i] inv' that by (simp add: kahn_inv_def)
  have run: "get_task n m' = Some Running" if "n \<in> set order" for n
    using st(4) [OF that] by (auto simp: get_task_def m')
  have "distinct order" using inv' by (simp add: kahn_inv_def)
  then show ?thesis
    using stop ord run all by (auto simp: st(1) m' task_names_def)
qed

definition ex_manager :: lifecycle_manager where
  "ex_manager = \<lparr>lm_entries =
     [(''feed'', \<lparr>depends_on = [''db''], priority = 0, lm_task = None\<rparr>),
      (''db'', \<lparr>depends_on = [], priority = 5, lm_task = None\<rparr>)], lm_started = False\<rparr>"

lemma ex_manager_starts: "\<exists>m'. start_all (\<lambda>_. True) ex_manager = Some (Inr [''db'', ''feed''], m')"
  by (simp add: ex_manager_def start_all_def topological_order_def unknown_dependency_def dict_has_def
      initial_degree_def sort_ready_def release_one_def Let_def)

lemma start_and_stop_follow_dependencies_witness:
  "\<exists>m' m''. start_all (\<lambda>_. True) ex_manager = Some (Inr [''db'', ''feed''], m')
     \<and> stop_all (\<lambda>_. True) m' = Some (Inr [''feed'', ''db''], m'')"
proof -
  obtain m' where m': "start_all (\<lambda>_. True) ex_manager = Some (Inr [''db'', ''feed''], m')"
    using ex_manager_starts by blast
  have "distinct (task_names ex_manager)" by (simp add: task_names_def ex_manager_def)
  from start_and_stop_follow_dependencies [OF this m', of "\<lambda>_. True"] m' show ?thesis by auto
qed

text \<open>When a start order exists: the loop ends within as many rounds as there are tasks, and it
  yields an order exactly when every dependency is registered, the dependencies have no cycle,
  and no task lists a dependency twice (a repeated one is counted twice and released once, so
  the task is reported as a cycle).\<close>

lemma start_order_exists_iff:
  assumes "distinct (dict_keys es)"
  shows "\<exists>r. topological_order es = Some r
    \<and> ((\<exists>order. r = Inr order) \<longleftrightarrow>
         (\<forall>n. \<forall>d \<in> set (deps_of es n). d \<in> set (dict_keys es)) \<and> acyclic_deps es
         \<and> (\<forall>n. distinct (deps_of es n)))"
proof (cases "unknown_dependency es")
  case None
  obtain deg order where inv: "kahn_inv es [] deg order"
    and res: "topological_order es = Some (if length order \<noteq> length es
         then Inl (CycleDetected (set (dict_keys es) - set order)) else Inr order)"
    by (rule topological_order_cases [OF assms None])
  have reg: "\<forall>n. \<forall>d \<in> set (deps_of es n). d \<in> set (dict_keys es)"
    using unknown_iff [OF assms] None by blast
  have "set order = set (dict_keys es) \<longleftrightarrow> acyclic_deps es \<and> (\<forall>n. distinct (deps_of es n))"
  proof
    assume all: "set order = set (dict_keys es)"
    then have left: "left_of es order n = 0" if "n \<in> set (dict_keys es)" for n
      using inv that by (auto simp: kahn_inv_def)
    have "distinct (deps_of es n)" for n
      using left [of n] left_of_0 [of es order n] deps_of_registered [of es n] by (metis distinct.simps(1))
    moreover have "acyclic_deps es"
      using inv all deps_of_registered by (intro in_order_acyclic [of es order]) (auto simp: kahn_inv_def)
    ultimately show "acyclic_deps es \<and> (\<forall>n. distinct (deps_of es n))" by blast
  qed (use kahn_complete [OF inv _ None] in blast)
  then show ?thesis
    using res reg complete_length [OF assms inv] by auto
next
  case (Some nd)
  then have "\<not> (\<forall>n. \<forall>d \<in> set (deps_of es n). d \<in> set (dict_keys es))"
    using unknown_iff [OF assms] by simp
  with Some show ?thesis by (auto simp: topological_order_def split: prod.split)
qed

lemma start_order_exists_iff_witness:
  "\<exists>r. topological_order (lm_entries ex_manager) = Some r"
proof -
  have "distinct (dict_keys (lm_entries ex_manager))" by (simp add: ex_manager_def)
  from start_order_exists_iff [OF this] show ?thesis by blast
qed

end
