(* ===== verification/TwoLeg.thy ===== *)
theory TwoLeg
  imports AtomicExecutor OrderState Stranded
begin

text \<open>
  \<open>engine/src/execution/cross_exchange_v2.py\<close>: both legs of a cross-exchange trade sent at once as
  immediate-or-cancel orders, with the five outcomes of the module.  A leg, the reversal of a
  leg and the registration of a stranded leg do nothing with the answers of the state machine and of
  the tracker (the code swallows or logs them), so each is a result and a list of effects; two
  concurrent tasks give an interleaving of their lists, chosen by a schedule, and the effects are
  then performed on the journal and the tracker.  Cancellation of the caller, latencies and logs
  are left out.  A \<open>text\<close> of an exception is \<open>type: message\<close>.
\<close>

subsection \<open>Requests, legs and results\<close>

record order_leg =
  ol_exchange :: string
  ol_symbol :: string
  ol_side :: string
  ol_size :: decimal
  ol_price :: "decimal option"

record leg_state =
  leg_index :: nat
  lg_exchange :: string
  lg_symbol :: string
  lg_side :: string
  lg_size :: decimal
  lg_price :: decimal
  lg_filled :: bool
  lg_filled_size :: decimal
  lg_avg_price :: decimal
  lg_error :: "string option"
  lg_client_id :: "string option"

datatype v2_status =
  SUCCESS | STRANDED_LEG1 | STRANDED_LEG2 | NEITHER | EDGE_EVAPORATED | ROLLED_BACK_BOTH | DISABLED

record v2_result =
  v2_status :: v2_status
  v2_legs :: "leg_state list"
  v2_trace :: string
  v2_error :: string

datatype v2_failure = NotTwoLegs nat | UnknownSide string | LegCancelled string | MissingFlags "string list" | NoStateMachine

text \<open>What became of a leg's order: the answer of \<open>place_ioc_limit\<close>, an answer without the
  expected fields, or a cancellation inside the adapter; the last two with the quantity that filled.\<close>

datatype leg_answer = Answer venue_reply | Malformed string decimal | Cancelled string decimal

definition is_space :: "char \<Rightarrow> bool" where
  "is_space c \<longleftrightarrow> c \<in> set [CHR '' '', CHR 0x09, CHR 0x0A, CHR 0x0B, CHR 0x0C, CHR 0x0D]"

definition strip :: "string \<Rightarrow> string" where
  "strip s = rev (dropWhile is_space (rev (dropWhile is_space s)))"

definition normalize_side :: "string \<Rightarrow> string option" where
  "normalize_side side =
     (let raw = lower (strip side)
      in if raw \<in> set [''buy'', ''long'', ''bid''] then Some ''buy''
         else if raw \<in> set [''sell'', ''short'', ''ask''] then Some ''sell'' else None)"

text \<open>The constructor: the flags it requires, by name, and the state machine.\<close>

definition cross_v2_new :: "bool \<Rightarrow> bool \<Rightarrow> bool \<Rightarrow> bool \<Rightarrow> bool \<Rightarrow> v2_failure + bool" where
  "cross_v2_new flag j_flag sm_flag router_flag has_sm =
     (let missing = (if j_flag then [] else [''EXECUTION_JOURNAL_ENABLED''])
            @ (if sm_flag then [] else [''EXECUTION_STATE_MACHINE_ENABLED''])
            @ (if router_flag then [] else [''EXECUTION_ROUTER_ENABLED''])
      in if flag \<and> missing \<noteq> [] then Inl (MissingFlags missing)
         else if flag \<and> \<not> has_sm then Inl NoStateMachine
         else Inr has_sm)"

subsection \<open>Effects\<close>

datatype jval = JText string | JNat nat | JDecimal decimal | JFloat pyfloat
type_synonym payload = "(string \<times> jval) list"

datatype effect =
    Transit "string option" order_state order_state payload
  | Strand leg_state pyfloat string

text \<open>The environment of the effects: the state machine and its flags, and the clocks at the n-th
  effect (the journal's milliseconds and the two readings of \<open>register\<close>).\<close>

record v2_env =
  hash_fn :: "string \<Rightarrow> string"
  codec :: "payload json_codec"
  has_machine :: bool
  machine_flag :: bool
  journal_flag :: bool
  clock_ms :: "nat \<Rightarrow> int"
  clock_reg :: "nat \<Rightarrow> secs \<times> secs"

definition safe_transition ::
    "v2_env \<Rightarrow> nat \<Rightarrow> string option \<Rightarrow> order_state \<Rightarrow> order_state \<Rightarrow> payload \<Rightarrow> journal \<Rightarrow> journal" where
  "safe_transition env n oid src dst p j =
     (if has_machine env
      then case oid of
             None \<Rightarrow> j
           | Some i \<Rightarrow>
               (case transition (hash_fn env) (codec env) (machine_flag env) (journal_flag env) (clock_ms env n) i src dst p j of
                  Inl e \<Rightarrow> j
                | Inr (ev, j') \<Rightarrow> j')
      else j)"

fun perform :: "v2_env \<Rightarrow> nat \<Rightarrow> effect \<Rightarrow> journal \<times> stranded_tracker \<Rightarrow> journal \<times> stranded_tracker" where
  "perform env n (Transit oid src dst p) (j, T) = (safe_transition env n oid src dst p j, T)"
| "perform env n (Strand l val reason) (j, T) =
     (let (now, made) = clock_reg env n;
          (halt, fwd, T') = register now made (lg_exchange l) (lg_symbol l) (lg_side l) (lg_filled_size l) val reason T
      in (j, T'))"

fun perform_all :: "v2_env \<Rightarrow> nat \<Rightarrow> effect list \<Rightarrow> journal \<times> stranded_tracker \<Rightarrow> journal \<times> stranded_tracker" where
  "perform_all env n [] S = S"
| "perform_all env n (a # as) S = perform_all env (Suc n) as (perform env n a S)"

text \<open>The interleaving of two tasks: which of them makes the next step.\<close>

fun interleave :: "bool list \<Rightarrow> 'a list \<Rightarrow> 'a list \<Rightarrow> 'a list" where
  "interleave (True # s) (x # xs) ys = x # interleave s xs ys"
| "interleave (False # s) xs (y # ys) = y # interleave s xs ys"
| "interleave s xs ys = xs @ ys"

subsection \<open>One leg\<close>

definition new_leg :: "nat \<Rightarrow> order_leg \<Rightarrow> string \<Rightarrow> string option \<Rightarrow> leg_state" where
  "new_leg i l side cid =
     \<lparr>leg_index = i, lg_exchange = ol_exchange l, lg_symbol = ol_symbol l, lg_side = side, lg_size = ol_size l,
      lg_price = (case ol_price l of None \<Rightarrow> 0 | Some p \<Rightarrow> p), lg_filled = False, lg_filled_size = 0,
      lg_avg_price = 0, lg_error = None, lg_client_id = cid\<rparr>"

definition client_id :: "string \<Rightarrow> nat \<Rightarrow> string" where
  "client_id trace i = trace @ ''.'' @ (if i = 0 then ''0'' else ''1'')"

definition submit_leg :: "nat \<Rightarrow> string \<Rightarrow> order_leg \<Rightarrow> leg_answer \<Rightarrow> (v2_failure + leg_state) \<times> effect list" where
  "submit_leg i trace l a =
     (case normalize_side (ol_side l) of
        None \<Rightarrow> (Inl (UnknownSide (ol_side l)), [])
      | Some side \<Rightarrow>
          let cid = Some (client_id trace i); st = new_leg i l side cid;
              sent = Transit cid PENDING SENT [(''trace_id'', JText trace), (''leg_index'', JNat i)]
          in case a of
               Cancelled msg q \<Rightarrow> (Inl (LegCancelled msg), [sent])
             | Malformed err q \<Rightarrow>
                 (Inr (st\<lparr>lg_error := Some err\<rparr>), [sent, Transit cid SENT REJECTED [(''reason'', JText err)]])
             | Answer v \<Rightarrow>
                 let (filled, fsize, avg) = try_ioc v (lg_price st) (lg_size st);
                     st' = st\<lparr>lg_filled := filled, lg_filled_size := fsize, lg_avg_price := avg\<rparr>
                 in (Inr st',
                     if filled
                     then [sent, Transit cid SENT ACKED [(''filled_size'', JDecimal fsize)],
                           Transit cid ACKED FILLED [(''avg_price'', JDecimal avg)]]
                     else [sent, Transit cid SENT CANCELLED [(''reason'', JText ''ioc_ttl_expired'')]]))"

text \<open>The state of a leg whose task ended with an exception.\<close>

definition failed_leg :: "nat \<Rightarrow> order_leg \<Rightarrow> string \<Rightarrow> v2_failure + leg_state" where
  "failed_leg i l err =
     (case normalize_side (ol_side l) of
        None \<Rightarrow> Inl (UnknownSide (ol_side l))
      | Some side \<Rightarrow> Inr ((new_leg i l side None)\<lparr>lg_error := Some err\<rparr>))"

definition collect_leg :: "nat \<Rightarrow> order_leg \<Rightarrow> v2_failure + leg_state \<Rightarrow> v2_failure + leg_state" where
  "collect_leg i l r =
     (case r of
        Inr st \<Rightarrow> Inr st
      | Inl (LegCancelled msg) \<Rightarrow> failed_leg i l msg
      | Inl e \<Rightarrow> failed_leg i l ''ValueError'')"

definition stranded_value :: "leg_state \<Rightarrow> pyfloat" where
  "stranded_value l = (if lg_avg_price l \<noteq> 0 then lg_filled_size l * lg_avg_price l else 0)"

definition register_stranded :: "leg_state \<Rightarrow> string \<Rightarrow> effect list" where
  "register_stranded l reason =
     [Strand l (stranded_value l) reason,
      Transit (lg_client_id l) FILLED STRANDED
        [(''exchange'', JText (lg_exchange l)), (''symbol'', JText (lg_symbol l)), (''side'', JText (lg_side l)),
         (''size'', JDecimal (lg_filled_size l)), (''value_usd'', JFloat (stranded_value l)), (''reason'', JText reason)]]"

text \<open>The reversal of one leg, with the answer of \<open>place_market\<close>.\<close>

definition unwind_leg :: "string \<Rightarrow> leg_state \<Rightarrow> venue_reply \<Rightarrow> leg_state \<times> effect list" where
  "unwind_leg reason l v =
     (if \<not> lg_filled l then (l, [])
      else case normalize_side (lg_side l) of
             None \<Rightarrow> (l\<lparr>lg_error := Some ''ValueError''\<rparr>, [])
           | Some side \<Rightarrow>
               let close_side = (if side = ''buy'' then ''sell'' else ''buy'');
                   failed = (\<lambda>err. let l' = l\<lparr>lg_error := Some err\<rparr>
                      in (l', register_stranded l' (''both_legs_rollback_failed:'' @ err)))
               in case reply v of
                    Returned f \<Rightarrow>
                      (l, [Transit (lg_client_id l) FILLED ROLLED_BACK
                             [(''reason'', JText reason), (''unwind_side'', JText close_side)]])
                  | TimedOut \<Rightarrow> failed ''TimeoutError: ''
                  | Raised err \<Rightarrow> failed err)"

subsection \<open>The execution\<close>

text \<open>What a trade meets outside the executor: the answers to the two orders and to the two
  reversals, the edge check and the invariant callback, and the schedules of the two gathers.\<close>

record v2_world =
  answer_a :: leg_answer
  answer_b :: leg_answer
  unwind_a :: venue_reply
  unwind_b :: venue_reply
  edge_check :: "bool outcome option"
  both_ok :: "leg_state list \<Rightarrow> bool outcome"
  sched_legs :: "bool list"
  sched_unwind :: "bool list"

definition edge_valid :: "v2_world \<Rightarrow> bool" where
  "edge_valid w \<longleftrightarrow> (case edge_check w of None \<Rightarrow> True | Some (Returned b) \<Rightarrow> b | Some _ \<Rightarrow> False)"

definition invariant_ok :: "v2_world \<Rightarrow> leg_state list \<Rightarrow> bool" where
  "invariant_ok w ls \<longleftrightarrow> (case both_ok w ls of Returned b \<Rightarrow> b | _ \<Rightarrow> False)"

definition settle :: "v2_world \<Rightarrow> string \<Rightarrow> leg_state \<Rightarrow> leg_state \<Rightarrow> v2_result \<times> effect list" where
  "settle w trace sa sb =
     (let result = (\<lambda>s ls err. \<lparr>v2_status = s, v2_legs = ls, v2_trace = trace, v2_error = err\<rparr>)
      in if lg_filled sa \<and> lg_filled sb
         then if invariant_ok w [sa, sb] then (result SUCCESS [sa, sb] [], [])
              else let reason = ''both_legs_invariant_violated'';
                       (ua, ea) = unwind_leg reason sa (unwind_a w); (ub, eb) = unwind_leg reason sb (unwind_b w)
                   in (result ROLLED_BACK_BOTH [ua, ub] reason, interleave (sched_unwind w) ea eb)
         else if lg_filled sa
         then (result STRANDED_LEG1 [sa, sb] ''leg2_ioc_ttl_expired'', register_stranded sa ''leg2_ioc_ttl_expired'')
         else if lg_filled sb
         then (result STRANDED_LEG2 [sa, sb] ''leg1_ioc_ttl_expired'', register_stranded sb ''leg1_ioc_ttl_expired'')
         else (result NEITHER [sa, sb] ''both_legs_ioc_ttl_expired'', []))"

definition two_legs :: "v2_world \<Rightarrow> string \<Rightarrow> order_leg \<Rightarrow> order_leg \<Rightarrow> (v2_failure + v2_result) \<times> effect list" where
  "two_legs w trace a b =
     (if \<not> edge_valid w
      then case (normalize_side (ol_side a), normalize_side (ol_side b)) of
             (Some sa, Some sb) \<Rightarrow>
               (Inr \<lparr>v2_status = EDGE_EVAPORATED, v2_legs = [new_leg 0 a sa None, new_leg 1 b sb None],
                     v2_trace = trace, v2_error = ''pre_gather_edge_invalid''\<rparr>, [])
           | (None, _) \<Rightarrow> (Inl (UnknownSide (ol_side a)), [])
           | (Some _, None) \<Rightarrow> (Inl (UnknownSide (ol_side b)), [])
      else let (ra, ea) = submit_leg 0 trace a (answer_a w); (rb, eb) = submit_leg 1 trace b (answer_b w);
               es = interleave (sched_legs w) ea eb
           in case collect_leg 0 a ra of
                Inl e \<Rightarrow> (Inl e, es)
              | Inr sa \<Rightarrow>
                  (case collect_leg 1 b rb of
                     Inl e \<Rightarrow> (Inl e, es)
                   | Inr sb \<Rightarrow> let (res, es') = settle w trace sa sb in (Inr res, es @ es')))"

text \<open>\<open>execute\<close>: the flag is read at the call, and a request without a trace id gets a fresh one.\<close>

definition trace_of :: "string option \<Rightarrow> string \<Rightarrow> string" where
  "trace_of trace fresh = (case trace of None \<Rightarrow> fresh | Some t \<Rightarrow> if t = [] then fresh else t)"

definition execute_v2 ::
    "v2_env \<Rightarrow> bool \<Rightarrow> v2_world \<Rightarrow> string option \<Rightarrow> string \<Rightarrow> order_leg list \<Rightarrow> journal \<times> stranded_tracker \<Rightarrow>
     (v2_failure + v2_result) \<times> journal \<times> stranded_tracker" where
  "execute_v2 env enabled w trace fresh legs S =
     (if \<not> enabled
      then (Inr \<lparr>v2_status = DISABLED, v2_legs = [], v2_trace = [], v2_error = ''EXECUTION_PARALLEL_LEGS_ENABLED=false''\<rparr>, S)
      else case legs of
             [a, b] \<Rightarrow>
               let (r, es) = two_legs w (trace_of trace fresh) a b
               in (r, perform_all env 0 es S)
           | _ \<Rightarrow> (Inl (NotTwoLegs (length legs)), S))"

subsection \<open>Interleavings\<close>

lemma set_interleave [simp]: "set (interleave s xs ys) = set xs \<union> set ys"
  by (induction s xs ys rule: interleave.induct) auto

lemma interleave_Nil [simp]: "interleave s xs [] = xs" "interleave s [] xs = xs"
proof -
  show "interleave s xs [] = xs"
    by (induction s xs "[] :: 'a list" rule: interleave.induct) auto
  show "interleave s [] xs = xs"
    by (induction s "[] :: 'a list" xs rule: interleave.induct) auto
qed

lemma concat_map_interleave:
  assumes "\<And>y. y \<in> set ys \<Longrightarrow> f y = []"
  shows "concat (map f (interleave s xs ys)) = concat (map f xs)"
    and "concat (map f (interleave s ys xs)) = concat (map f xs)"
proof -
  have nil: "concat (map f ys) = []" using assms by simp
  from assms nil show "concat (map f (interleave s xs ys)) = concat (map f xs)"
    by (induction s xs ys rule: interleave.induct) auto
  from assms nil show "concat (map f (interleave s ys xs)) = concat (map f xs)"
    by (induction s ys xs rule: interleave.induct) auto
qed

subsection \<open>What the effects write\<close>

fun written :: "string \<Rightarrow> effect \<Rightarrow> order_state list" where
  "written oid (Transit i src dst p) = (if i = Some oid \<and> dst \<in> set (legal_transitions src) then [dst] else [])"
| "written oid (Strand l val reason) = []"

definition machine_on :: "v2_env \<Rightarrow> bool" where
  "machine_on env \<longleftrightarrow> has_machine env \<and> machine_flag env \<and> journal_flag env \<and> codec_stable (codec env)"

lemma perform_history:
  assumes "machine_on env" and "journal_ok (hash_fn env) (codec env) j"
  shows "journal_ok (hash_fn env) (codec env) (fst (perform env n e (j, T)))
    \<and> (\<forall>oid. history oid (fst (perform env n e (j, T))) = history oid j @ map state_value (written oid e))"
proof (cases e)
  case (Transit i src dst p)
  show ?thesis
  proof (cases i)
    case None
    then show ?thesis using Transit assms(2) by (simp add: safe_transition_def)
  next
    case (Some k)
    from transition_on [OF assms(2), of "clock_ms env n" k src dst p] show ?thesis
      using assms Transit Some
      by (auto simp: safe_transition_def machine_on_def history_append append_on_ok)
  qed
next
  case (Strand l val reason)
  then show ?thesis using assms(2) by (simp split: prod.split)
qed

lemma perform_all_history:
  assumes "machine_on env" and "journal_ok (hash_fn env) (codec env) j"
  shows "journal_ok (hash_fn env) (codec env) (fst (perform_all env n es (j, T)))
    \<and> history oid (fst (perform_all env n es (j, T)))
        = history oid j @ map state_value (concat (map (written oid) es))"
  using assms(2)
proof (induction es arbitrary: n j T)
  case (Cons e es)
  obtain j' T' where e: "perform env n e (j, T) = (j', T')"
    by (cases "perform env n e (j, T)")
  with perform_history [OF assms(1) Cons.prems, of n e T] Cons.IH [of j' "Suc n" T'] show ?case
    by simp
qed simp

text \<open>What an answer makes of a leg, and the life cycle it should leave in the journal.\<close>

definition limit_price :: "order_leg \<Rightarrow> decimal" where
  "limit_price l = (case ol_price l of None \<Rightarrow> 0 | Some p \<Rightarrow> p)"

definition counts_as_filled :: "order_leg \<Rightarrow> leg_answer \<Rightarrow> bool" where
  "counts_as_filled l a \<longleftrightarrow> (case a of Answer v \<Rightarrow> fst (try_ioc v (limit_price l) (ol_size l)) | _ \<Rightarrow> False)"

definition reported_fill :: "order_leg \<Rightarrow> leg_answer \<Rightarrow> decimal" where
  "reported_fill l a = (case a of Answer v \<Rightarrow> fst (snd (try_ioc v (limit_price l) (ol_size l))) | _ \<Rightarrow> 0)"

definition leg_life :: "order_leg \<Rightarrow> leg_answer \<Rightarrow> order_state list" where
  "leg_life l a =
     (if normalize_side (ol_side l) = None then []
      else case a of
             Cancelled msg q \<Rightarrow> [SENT]
           | Malformed err q \<Rightarrow> [SENT, REJECTED]
           | Answer v \<Rightarrow> if counts_as_filled l a then [SENT, ACKED, FILLED] else [SENT, CANCELLED])"

lemma client_id_simps [simp]: "client_id tr 0 \<noteq> client_id tr (Suc 0)" "client_id tr (Suc 0) \<noteq> client_id tr 0"
  by (simp_all add: client_id_def)

lemma new_leg_simps [simp]:
  "lg_price (new_leg i l side cid) = limit_price l" "lg_size (new_leg i l side cid) = ol_size l"
  "lg_filled (new_leg i l side cid) = False" "lg_filled_size (new_leg i l side cid) = 0"
  "lg_side (new_leg i l side cid) = side" "leg_index (new_leg i l side cid) = i"
  by (simp_all add: new_leg_def limit_price_def)

lemma submit_written:
  "concat (map (written oid) (snd (submit_leg i tr l a))) = (if oid = client_id tr i then leg_life l a else [])"
  by (auto simp: submit_leg_def leg_life_def counts_as_filled_def Let_def split: leg_answer.split option.split prod.split)

lemma submit_other:
  "oid \<noteq> client_id tr i \<Longrightarrow> e \<in> set (snd (submit_leg i tr l a)) \<Longrightarrow> written oid e = []"
  by (auto simp: submit_leg_def Let_def split: leg_answer.splits option.splits prod.splits if_splits)

lemma register_stranded_written: "e \<in> set (register_stranded l reason) \<Longrightarrow> written oid e = []"
  by (auto simp: register_stranded_def)

lemma unwind_written: "e \<in> set (snd (unwind_leg reason l v)) \<Longrightarrow> written oid e = []"
  by (auto simp: unwind_leg_def Let_def register_stranded_written split: if_splits option.splits outcome.splits)

lemma settle_written: "e \<in> set (snd (settle w tr sa sb)) \<Longrightarrow> written oid e = []"
  by (auto simp: settle_def Let_def register_stranded_written unwind_written case_prod_beta split: if_splits)

lemma written_nil: "(\<And>e. e \<in> set es \<Longrightarrow> written oid e = []) \<Longrightarrow> concat (map (written oid) es) = []"
  by simp

lemma legs_written:
  "concat (map (written oid) (interleave s (snd (submit_leg 0 tr a x)) (snd (submit_leg 1 tr b y))))
    = (if oid = client_id tr 0 then leg_life a x else if oid = client_id tr 1 then leg_life b y else [])"
proof (cases "oid = client_id tr 0")
  case True
  then have "written oid e = []" if "e \<in> set (snd (submit_leg 1 tr b y))" for e
    using submit_other [OF _ that] by simp
  with concat_map_interleave(1) [of _ "written oid"] True show ?thesis
    by (simp add: submit_written)
next
  case False
  then have "written oid e = []" if "e \<in> set (snd (submit_leg 0 tr a x))" for e
    using submit_other [OF _ that] by simp
  with concat_map_interleave(2) [of _ "written oid"] False show ?thesis
    by (simp add: submit_written)
qed

lemma two_legs_written:
  assumes "edge_valid w"
  shows "concat (map (written oid) (snd (two_legs w tr a b)))
    = (if oid = client_id tr 0 then leg_life a (answer_a w) else if oid = client_id tr 1 then leg_life b (answer_b w) else [])"
proof -
  let ?es = "interleave (sched_legs w) (snd (submit_leg 0 tr a (answer_a w))) (snd (submit_leg 1 tr b (answer_b w)))"
  have "snd (two_legs w tr a b) = ?es \<or> (\<exists>sa sb. snd (two_legs w tr a b) = ?es @ snd (settle w tr sa sb))"
    using assms by (auto simp: two_legs_def Let_def case_prod_beta split: sum.split)
  then show ?thesis
    using legs_written [of oid "sched_legs w" tr a "answer_a w" b "answer_b w"]
    by (auto simp: settle_written simp del: map_map)
qed

subsection \<open>What is handed to the tracker\<close>

fun strand_of :: "nat \<Rightarrow> effect \<Rightarrow> decimal list" where
  "strand_of i (Strand l val reason) = (if leg_index l = i then [lg_filled_size l] else [])"
| "strand_of i (Transit oid src dst p) = []"

definition handed_over :: "nat \<Rightarrow> effect list \<Rightarrow> decimal list" where
  "handed_over i es = concat (map (strand_of i) es)"

lemma handed_over_simps [simp]:
  "handed_over i [] = []"
  "handed_over i (e # es) = strand_of i e @ handed_over i es"
  "handed_over i (es @ es') = handed_over i es @ handed_over i es'"
  by (simp_all add: handed_over_def)

lemma handed_over_none: "(\<And>e. e \<in> set es \<Longrightarrow> strand_of i e = []) \<Longrightarrow> handed_over i es = []"
  by (simp add: handed_over_def)

lemma handed_over_interleave:
  assumes "\<And>e. e \<in> set ys \<Longrightarrow> strand_of i e = []"
  shows "handed_over i (interleave s xs ys) = handed_over i xs"
    and "handed_over i (interleave s ys xs) = handed_over i xs"
  using concat_map_interleave [of ys "strand_of i"] assms by (simp_all add: handed_over_def)

lemma submit_hands_nothing: "e \<in> set (snd (submit_leg i tr l a)) \<Longrightarrow> strand_of k e = []"
  by (auto simp: submit_leg_def Let_def case_prod_beta split: leg_answer.splits option.splits if_splits)

lemma register_hands [simp]:
  "handed_over i (register_stranded l reason) = (if leg_index l = i then [lg_filled_size l] else [])"
  by (simp add: register_stranded_def)

lemma unwind_hands:
  "normalize_side (lg_side l) \<noteq> None \<Longrightarrow> handed_over i (snd (unwind_leg reason l v))
     = (if lg_filled l \<and> \<not> succeeded (reply v) \<and> leg_index l = i then [lg_filled_size l] else [])"
  by (auto simp: unwind_leg_def Let_def split: outcome.split)

lemma unwind_hands_other:
  "leg_index l \<noteq> i \<Longrightarrow> e \<in> set (snd (unwind_leg reason l v)) \<Longrightarrow> strand_of i e = []"
  by (auto simp: unwind_leg_def Let_def register_stranded_def split: if_splits option.splits outcome.splits)

lemma unwind_interleave:
  "leg_index lb \<noteq> i \<Longrightarrow> handed_over i (interleave s es (snd (unwind_leg r lb v))) = handed_over i es"
  "leg_index lb \<noteq> i \<Longrightarrow> handed_over i (interleave s (snd (unwind_leg r lb v)) es) = handed_over i es"
  by (rule handed_over_interleave, rule unwind_hands_other; assumption)+

lemma normalize_idem: "normalize_side s = Some t \<Longrightarrow> normalize_side t = Some t"
proof -
  have "normalize_side ''buy'' = Some ''buy''" "normalize_side ''sell'' = Some ''sell''" by code_simp+
  then show "normalize_side s = Some t \<Longrightarrow> normalize_side t = Some t"
    by (auto simp: normalize_side_def [of s] Let_def split: if_splits)
qed

text \<open>The state of a leg after the first gather.\<close>

definition leg_done :: "nat \<Rightarrow> string \<Rightarrow> order_leg \<Rightarrow> leg_answer \<Rightarrow> v2_failure + leg_state" where
  "leg_done i tr l a = collect_leg i l (fst (submit_leg i tr l a))"

lemma leg_done_state:
  assumes "normalize_side (ol_side l) \<noteq> None"
  obtains st where "leg_done i tr l a = Inr st" and "leg_index st = i" and "normalize_side (lg_side st) \<noteq> None"
    and "lg_filled st \<longleftrightarrow> counts_as_filled l a" and "lg_filled_size st = reported_fill l a"
    and "lg_exchange st = ol_exchange l" and "lg_symbol st = ol_symbol l"
proof -
  obtain side where side: "normalize_side (ol_side l) = Some side" "normalize_side side = Some side"
    using assms normalize_idem by blast
  show ?thesis
    using side that
    by (cases a)
      (auto simp: leg_done_def collect_leg_def submit_leg_def failed_leg_def counts_as_filled_def reported_fill_def Let_def
        case_prod_beta new_leg_def limit_price_def)
qed

lemma leg_done_bad_side:
  "normalize_side (ol_side l) = None \<Longrightarrow> leg_done i tr l a = Inl (UnknownSide (ol_side l))"
  by (simp add: leg_done_def collect_leg_def submit_leg_def failed_leg_def)

lemma two_legs_done:
  assumes "edge_valid w" and "leg_done 0 tr a (answer_a w) = Inr sa" and "leg_done 1 tr b (answer_b w) = Inr sb"
  shows "two_legs w tr a b = (Inr (fst (settle w tr sa sb)),
      interleave (sched_legs w) (snd (submit_leg 0 tr a (answer_a w))) (snd (submit_leg 1 tr b (answer_b w)))
        @ snd (settle w tr sa sb))"
  using assms by (simp add: two_legs_def leg_done_def Let_def case_prod_beta)

lemma settle_status:
  "v2_status (fst (settle w tr sa sb)) =
     (if lg_filled sa \<and> lg_filled sb then if invariant_ok w [sa, sb] then SUCCESS else ROLLED_BACK_BOTH
      else if lg_filled sa then STRANDED_LEG1 else if lg_filled sb then STRANDED_LEG2 else NEITHER)"
  by (simp add: settle_def Let_def case_prod_beta)

lemma settle_hands:
  assumes "leg_index sa = 0" and "leg_index sb = 1"
    and "normalize_side (lg_side sa) \<noteq> None" and "normalize_side (lg_side sb) \<noteq> None"
  shows "handed_over 0 (snd (settle w tr sa sb)) =
      (if lg_filled sa \<and> (\<not> lg_filled sb \<or> \<not> invariant_ok w [sa, sb] \<and> \<not> succeeded (reply (unwind_a w)))
       then [lg_filled_size sa] else [])"
    and "handed_over 1 (snd (settle w tr sa sb)) =
      (if lg_filled sb \<and> (\<not> lg_filled sa \<or> \<not> invariant_ok w [sa, sb] \<and> \<not> succeeded (reply (unwind_b w)))
       then [lg_filled_size sb] else [])"
  using assms by (auto simp: settle_def Let_def case_prod_beta unwind_hands unwind_interleave)

lemma execute_v2_enabled:
  "execute_v2 env True w trace fresh [a, b] S =
     (fst (two_legs w (trace_of trace fresh) a b), perform_all env 0 (snd (two_legs w (trace_of trace fresh) a b)) S)"
  by (simp add: execute_v2_def case_prod_beta)

lemma leg_life_legal: "legal_path (PENDING # leg_life l x)"
  by (simp add: leg_life_def split: leg_answer.split)

lemma leg_life_states: "STRANDED \<notin> set (leg_life l x) \<and> ROLLED_BACK \<notin> set (leg_life l x)"
  by (simp add: leg_life_def split: leg_answer.split)

lemma no_edge_no_effect:
  "\<not> edge_valid w \<Longrightarrow> snd (execute_v2 env True w trace fresh [a, b] S) = S"
  by (simp add: execute_v2_enabled two_legs_def split: option.split)

text \<open>A fill below the 95 per cent is dropped: when neither leg counts as filled, however much of
  each was reported, the trade is NEITHER and the tracker is untouched.\<close>

lemma perform_all_tracker:
  "(\<And>i. handed_over i es = []) \<Longrightarrow> snd (perform_all env n es S) = snd S"
proof (induction es arbitrary: n S)
  case (Cons e es)
  then show ?case
  proof (cases e)
    case (Strand l val reason)
    with Cons.prems [of "leg_index l"] show ?thesis by simp
  qed (use Cons in \<open>cases S; simp\<close>)
qed simp

lemma partial_fill_is_dropped:
  assumes "edge_valid w" and "normalize_side (ol_side a) \<noteq> None" and "normalize_side (ol_side b) \<noteq> None"
    and "\<not> counts_as_filled a (answer_a w)" and "\<not> counts_as_filled b (answer_b w)"
  shows "\<exists>res S'. execute_v2 env True w trace fresh [a, b] S = (Inr res, S') \<and> v2_status res = NEITHER \<and> snd S' = snd S"
proof -
  let ?tr = "trace_of trace fresh"
  obtain sa where a: "leg_done 0 ?tr a (answer_a w) = Inr sa" "\<not> lg_filled sa"
    using leg_done_state [OF assms(2), of 0 ?tr "answer_a w"] assms(4) by metis
  obtain sb where b: "leg_done 1 ?tr b (answer_b w) = Inr sb" "\<not> lg_filled sb"
    using leg_done_state [OF assms(3), of 1 ?tr "answer_b w"] assms(5) by metis
  have "handed_over i (interleave s (snd (submit_leg 0 ?tr a x)) (snd (submit_leg 1 ?tr b y))) = []" for i s x y
    by (rule handed_over_none) (auto intro: submit_hands_nothing)
  with a b show ?thesis
    by (simp add: execute_v2_enabled two_legs_done [OF assms(1) a(1) b(1)] settle_status perform_all_tracker)
      (simp add: settle_def Let_def perform_all_tracker)
qed

text \<open>A side that is not recognised is only noticed inside the leg's task and again after both tasks
  have ended: the other leg has been sent, its fill is journaled, and the exception leaves it with nobody.\<close>

lemma bad_side_leaks_other_leg:
  assumes "edge_valid w" and "normalize_side (ol_side a) \<noteq> None" and "normalize_side (ol_side b) = None"
  shows "two_legs w tr a b = (Inl (UnknownSide (ol_side b)), snd (submit_leg 0 tr a (answer_a w)))"
    and "handed_over i (snd (two_legs w tr a b)) = []"
proof -
  obtain sa where "leg_done 0 tr a (answer_a w) = Inr sa"
    by (rule leg_done_state [OF assms(2)])
  with assms(1,3) leg_done_bad_side [OF assms(3), of 1 tr "answer_b w"]
  show eq: "two_legs w tr a b = (Inl (UnknownSide (ol_side b)), snd (submit_leg 0 tr a (answer_a w)))"
    by (simp add: two_legs_def leg_done_def Let_def case_prod_beta submit_leg_def [of "Suc 0"])
  show "handed_over i (snd (two_legs w tr a b)) = []"
    by (rule handed_over_none) (auto simp: eq intro: submit_hands_nothing)
qed

subsection \<open>Properties\<close>

text \<open>C11. The outcomes of a two-leg trade: with recognised sides and a valid edge the execution returns
  for every pair of answers and every interleaving of the two tasks; the status is the one of the
  module's table, SUCCESS exactly when both legs count as filled and the invariant callback
  agrees; and a leg that counts as filled is handed to the stranded tracker exactly once and with
  its whole fill when the other leg does not count as filled, or when both are reversed and its
  reversal failed, while no other leg ever is.\<close>

theorem two_leg_outcomes:
  assumes "edge_valid w" and "normalize_side (ol_side a) \<noteq> None" and "normalize_side (ol_side b) \<noteq> None"
  shows "\<exists>res es sa sb. two_legs w (trace_of trace fresh) a b = (Inr res, es)
    \<and> execute_v2 env True w trace fresh [a, b] S = (Inr res, perform_all env 0 es S)
    \<and> v2_status res =
        (if counts_as_filled a (answer_a w) \<and> counts_as_filled b (answer_b w)
         then if invariant_ok w [sa, sb] then SUCCESS else ROLLED_BACK_BOTH
         else if counts_as_filled a (answer_a w) then STRANDED_LEG1
         else if counts_as_filled b (answer_b w) then STRANDED_LEG2 else NEITHER)
    \<and> leg_done 0 (trace_of trace fresh) a (answer_a w) = Inr sa \<and> leg_done 1 (trace_of trace fresh) b (answer_b w) = Inr sb
    \<and> handed_over 0 es =
        (if v2_status res = STRANDED_LEG1 \<or> v2_status res = ROLLED_BACK_BOTH \<and> \<not> succeeded (reply (unwind_a w))
         then [reported_fill a (answer_a w)] else [])
    \<and> handed_over 1 es =
        (if v2_status res = STRANDED_LEG2 \<or> v2_status res = ROLLED_BACK_BOTH \<and> \<not> succeeded (reply (unwind_b w))
         then [reported_fill b (answer_b w)] else [])"
proof -
  let ?tr = "trace_of trace fresh"
  obtain sa where a: "leg_done 0 ?tr a (answer_a w) = Inr sa" "leg_index sa = 0" "normalize_side (lg_side sa) \<noteq> None"
      "lg_filled sa \<longleftrightarrow> counts_as_filled a (answer_a w)" "lg_filled_size sa = reported_fill a (answer_a w)"
    by (rule leg_done_state [OF assms(2)])
  obtain sb where b: "leg_done 1 ?tr b (answer_b w) = Inr sb" "leg_index sb = 1" "normalize_side (lg_side sb) \<noteq> None"
      "lg_filled sb \<longleftrightarrow> counts_as_filled b (answer_b w)" "lg_filled_size sb = reported_fill b (answer_b w)"
    by (rule leg_done_state [OF assms(3)])
  have none: "handed_over i (interleave s (snd (submit_leg 0 ?tr a x)) (snd (submit_leg 1 ?tr b y))) = []" for i s x y
    by (rule handed_over_none) (auto intro: submit_hands_nothing)
  show ?thesis
    unfolding execute_v2_enabled two_legs_done [OF assms(1) a(1) b(1)]
    using settle_hands [OF a(2) b(2) a(3) b(3), of w ?tr] none a b
    by (simp add: settle_status)
qed

text \<open>The journal of a two-leg trade: with the state machine on and a valid edge, every execution,
  whatever the answers, the outcome and the interleavings, keeps the journal's chain, gives each leg
  exactly its legal life cycle from PENDING (SENT then ACKED and FILLED, CANCELLED, REJECTED, or SENT
  alone after a cancellation, nothing for an unknown side) and touches no other order; in
  particular a leg that was stranded or rolled back stays FILLED in the journal.\<close>

lemma two_leg_journal:
  assumes "machine_on env" and "journal_ok (hash_fn env) (codec env) j" and "edge_valid w"
    and "execute_v2 env True w trace fresh [a, b] (j, T) = (r, j', T')"
  shows "journal_ok (hash_fn env) (codec env) j'
    \<and> (\<forall>oid. history oid j' = history oid j @ map state_value
          (if oid = client_id (trace_of trace fresh) 0 then leg_life a (answer_a w)
           else if oid = client_id (trace_of trace fresh) 1 then leg_life b (answer_b w) else []))
    \<and> (\<forall>l x. legal_path (PENDING # leg_life l x) \<and> STRANDED \<notin> set (leg_life l x) \<and> ROLLED_BACK \<notin> set (leg_life l x))"
proof -
  have "j' = fst (perform_all env 0 (snd (two_legs w (trace_of trace fresh) a b)) (j, T))"
    using assms(4) by (auto simp: execute_v2_enabled)
  with perform_all_history [OF assms(1,2)] leg_life_legal leg_life_states two_legs_written [OF assms(3)]
  show ?thesis by simp
qed

definition ex_leg :: "string \<Rightarrow> string \<Rightarrow> order_leg" where
  "ex_leg ex side = \<lparr>ol_exchange = ex, ol_symbol = ''BTC/USDT'', ol_side = side, ol_size = 10, ol_price = Some 5\<rparr>"

definition ex_reply :: "decimal \<Rightarrow> venue_reply" where
  "ex_reply q = \<lparr>reply = Returned \<lparr>fill_size = q, fill_price = 5\<rparr>, really_filled = q\<rparr>"

definition ex_world :: "decimal \<Rightarrow> decimal \<Rightarrow> v2_world" where
  "ex_world p q = \<lparr>answer_a = Answer (ex_reply p), answer_b = Answer (ex_reply q), unwind_a = ex_reply 10,
     unwind_b = ex_reply 10, edge_check = None, both_ok = (\<lambda>ls. Returned True),
     sched_legs = [True, False, False], sched_unwind = []\<rparr>"

definition ex_codec :: "payload json_codec" where
  "ex_codec = \<lparr>dumps = (\<lambda>p. ''{}''), loads = (\<lambda>s. Some []), raw_payload = (\<lambda>s. []), empty_payload = []\<rparr>"

definition ex_v2_env :: v2_env where
  "ex_v2_env = \<lparr>hash_fn = ex_hash, codec = ex_codec, has_machine = True, machine_flag = True, journal_flag = True,
     clock_ms = (\<lambda>n. 0), clock_reg = (\<lambda>n. (1, 1))\<rparr>"

lemma ex_facts:
  "edge_valid (ex_world p q)" "machine_on ex_v2_env"
  "normalize_side (ol_side (ex_leg ex '' Long'')) = Some ''buy''" "normalize_side (ol_side (ex_leg ex ''SELL'')) = Some ''sell''"
  "counts_as_filled (ex_leg ex side) (answer_a (ex_world p q)) \<longleftrightarrow> 19 / 2 \<le> p"
  "counts_as_filled (ex_leg ex side) (answer_b (ex_world p q)) \<longleftrightarrow> 19 / 2 \<le> q"
proof -
  show "normalize_side (ol_side (ex_leg ex '' Long'')) = Some ''buy''" "normalize_side (ol_side (ex_leg ex ''SELL'')) = Some ''sell''"
    unfolding ex_leg_def by (simp, code_simp)+
qed (simp_all add: edge_valid_def ex_world_def machine_on_def ex_v2_env_def ex_codec_def codec_stable_def
    counts_as_filled_def try_ioc_def ex_leg_def ex_reply_def min_fill_ratio_def)

theorem two_leg_outcomes_witness:
  "\<exists>res es. two_legs (ex_world 10 9) (trace_of (Some ''t'') ''u'') (ex_leg ''okx'' '' Long'') (ex_leg ''bybit'' ''SELL'')
     = (Inr res, es) \<and> v2_status res = STRANDED_LEG1 \<and> handed_over 0 es = [10] \<and> handed_over 1 es = []"
  using two_leg_outcomes [where w = "ex_world 10 9" and a = "ex_leg ''okx'' '' Long''" and b = "ex_leg ''bybit'' ''SELL''"
      and trace = "Some ''t''" and fresh = "''u''" and env = ex_v2_env and S = "(journal_new None, tracker_new 30)"] ex_facts
  by (auto simp: reported_fill_def try_ioc_def ex_world_def ex_reply_def)

lemma two_leg_journal_witness:
  "\<exists>r j' T'. execute_v2 ex_v2_env True (ex_world 10 9) (Some ''t'') ''u'' [ex_leg ''okx'' '' Long'', ex_leg ''bybit'' ''SELL'']
      (journal_new None, tracker_new 30) = (r, j', T')
    \<and> history ''t.0'' j' = [''SENT'', ''ACKED'', ''FILLED''] \<and> history ''t.1'' j' = [''SENT'', ''CANCELLED'']"
proof -
  obtain r j' T' where e: "execute_v2 ex_v2_env True (ex_world 10 9) (Some ''t'') ''u''
      [ex_leg ''okx'' '' Long'', ex_leg ''bybit'' ''SELL''] (journal_new None, tracker_new 30) = (r, j', T')"
    by (metis prod_cases3)
  from two_leg_journal [OF ex_facts(2) empty_journal_ok ex_facts(1) e] ex_facts e show ?thesis
    by (auto simp: trace_of_def client_id_def leg_life_def history_def rows_of_def journal_new_def ex_world_def
        dest: spec [of _ "''t.0''"] spec [of _ "''t.1''"])
qed

end
