(* ===== verification/TokenBucket.thy ===== *)
theory TokenBucket
  imports Prelude
begin

text \<open>
  \<open>engine/src/infra/exchange/rate_limiter.py\<close>: the token bucket and the named buckets of an exchange.
  Every reading of the monotonic clock is an argument; \<open>acquire\<close> gets the readings of the successive
  rounds of its loop and is \<open>None\<close> while it still waits after the last of them.
\<close>

record rate_limit_config =
  requests_per_second :: pyfloat
  burst :: int

record token_bucket =
  tb_rate :: pyfloat
  tb_capacity :: pyfloat
  tokens :: pyfloat
  last_refill :: secs

definition bucket_new :: "pyfloat \<Rightarrow> pyfloat \<Rightarrow> secs \<Rightarrow> token_bucket" where
  "bucket_new rt cap now = \<lparr>tb_rate = rt, tb_capacity = cap, tokens = cap, last_refill = now\<rparr>"

definition refill :: "secs \<Rightarrow> token_bucket \<Rightarrow> token_bucket" where
  "refill now b =
     b\<lparr>tokens := min (tb_capacity b) (tokens b + (now - last_refill b) * tb_rate b), last_refill := now\<rparr>"

definition try_acquire :: "secs \<Rightarrow> pyfloat \<Rightarrow> token_bucket \<Rightarrow> bool \<times> token_bucket" where
  "try_acquire now n b =
     (let b1 = refill now b
      in if tokens b1 \<ge> n then (True, b1\<lparr>tokens := tokens b1 - n\<rparr>) else (False, b1))"

text \<open>\<open>acquire\<close> returns the seconds it slept for with the bucket.\<close>

fun acquire :: "secs list \<Rightarrow> pyfloat \<Rightarrow> token_bucket \<Rightarrow> (secs list \<times> token_bucket) option" where
  "acquire [] n b = None"
| "acquire (now # later) n b =
     (let b1 = refill now b
      in if tokens b1 \<ge> n then Some ([], b1\<lparr>tokens := tokens b1 - n\<rparr>)
         else case acquire later n b1 of
                None \<Rightarrow> None
              | Some (slept, b') \<Rightarrow> Some ((n - tokens b1) / tb_rate b1 # slept, b'))"

type_synonym limiter = "string \<rightharpoonup> token_bucket"

definition limiter_new :: "(string \<rightharpoonup> rate_limit_config) \<Rightarrow> (string \<Rightarrow> secs) \<Rightarrow> limiter" where
  "limiter_new cfgs now name =
     map_option (\<lambda>c. bucket_new (requests_per_second c) (of_int (burst c)) (now name)) (cfgs name)"

text \<open>The bucket of the endpoint, else the default one, else no limit at all.\<close>

definition bucket_name :: "limiter \<Rightarrow> string \<Rightarrow> string option" where
  "bucket_name L endpoint =
     (if L endpoint \<noteq> None then Some endpoint else if L ''default'' \<noteq> None then Some ''default'' else None)"

definition limiter_acquire :: "secs list \<Rightarrow> string \<Rightarrow> pyfloat \<Rightarrow> limiter \<Rightarrow> limiter option" where
  "limiter_acquire readings endpoint n L =
     (case bucket_name L endpoint of
        None \<Rightarrow> Some L
      | Some name \<Rightarrow>
          (case L name of
             None \<Rightarrow> Some L
           | Some b \<Rightarrow> map_option (\<lambda>(slept, b'). L(name \<mapsto> b')) (acquire readings n b)))"

subsection \<open>Accounts\<close>

definition bucket_ok :: "token_bucket \<Rightarrow> bool" where
  "bucket_ok b \<longleftrightarrow> 0 \<le> tokens b \<and> tokens b \<le> tb_capacity b \<and> 0 \<le> tb_rate b"

fun try_all :: "(secs \<times> pyfloat) list \<Rightarrow> token_bucket \<Rightarrow> pyfloat \<times> token_bucket" where
  "try_all [] b = (0, b)"
| "try_all ((now, n) # rs) b =
     (let (ok, b1) = try_acquire now n b; (got, b2) = try_all rs b1
      in ((if ok then n else 0) + got, b2))"

fun timed :: "secs \<Rightarrow> (secs \<times> pyfloat) list \<Rightarrow> bool" where
  "timed t [] \<longleftrightarrow> True"
| "timed t ((now, n) # rs) \<longleftrightarrow> t \<le> now \<and> 0 \<le> n \<and> timed now rs"

lemma refill_ok:
  "bucket_ok b \<Longrightarrow> last_refill b \<le> now \<Longrightarrow>
   bucket_ok (refill now b) \<and> last_refill (refill now b) = now \<and> tb_rate (refill now b) = tb_rate b
     \<and> tb_capacity (refill now b) = tb_capacity b
     \<and> tokens (refill now b) \<le> tokens b + (now - last_refill b) * tb_rate b"
  by (simp add: bucket_ok_def refill_def)

lemma try_acquire_ok:
  assumes "bucket_ok b" and "last_refill b \<le> now" and "0 \<le> n" and "try_acquire now n b = (ok, b')"
  shows "bucket_ok b' \<and> last_refill b' = now \<and> tb_rate b' = tb_rate b \<and> tb_capacity b' = tb_capacity b
    \<and> tokens b' + (if ok then n else 0) \<le> tokens b + (now - last_refill b) * tb_rate b"
  using refill_ok [OF assms(1,2)] assms(3,4)
  by (auto simp: try_acquire_def Let_def bucket_ok_def split: if_splits)

lemma try_all_ok:
  "timed (last_refill b) rs \<Longrightarrow> bucket_ok b \<Longrightarrow> try_all rs b = (got, b') \<Longrightarrow>
   bucket_ok b' \<and> last_refill b \<le> last_refill b' \<and> tb_rate b' = tb_rate b \<and> tb_capacity b' = tb_capacity b
     \<and> got + tokens b' \<le> tokens b + (last_refill b' - last_refill b) * tb_rate b"
proof (induction rs arbitrary: b got)
  case (Cons r rs)
  obtain now n where r: "r = (now, n)" by (cases r)
  obtain ok b1 where b1: "try_acquire now n b = (ok, b1)" by (cases "try_acquire now n b")
  obtain got1 where t: "try_all rs b1 = (got1, b')" and got: "got = (if ok then n else 0) + got1"
    using Cons.prems(3) by (auto simp: r b1 split: prod.splits)
  have 1: "bucket_ok b1" "last_refill b1 = now" "tb_rate b1 = tb_rate b" "tb_capacity b1 = tb_capacity b"
    "tokens b1 + (if ok then n else 0) \<le> tokens b + (now - last_refill b) * tb_rate b"
    using try_acquire_ok [OF Cons.prems(2) _ _ b1] Cons.prems(1) by (auto simp: r)
  have "timed (last_refill b1) rs" using Cons.prems(1) by (simp add: r 1(2))
  from Cons.IH [OF this 1(1) t] 1 Cons.prems(1) show ?case
    by (auto simp: r got algebra_simps)
qed simp

lemma acquire_never:
  "bucket_ok b \<Longrightarrow> tb_capacity b < n \<Longrightarrow> sorted_wrt (\<le>) (last_refill b # readings) \<Longrightarrow> acquire readings n b = None"
proof (induction readings arbitrary: b)
  case (Cons now later)
  then have "bucket_ok (refill now b)" "last_refill (refill now b) = now" "tb_capacity (refill now b) = tb_capacity b"
    using refill_ok [of b now] by auto
  with Cons show ?case by (auto simp: bucket_ok_def Let_def)
qed simp

subsection \<open>Properties\<close>

text \<open>The bucket limits the rate: for every sequence of requests at non-decreasing times, what is
  granted is at most the tokens there were plus the rate times the time passed, so from a new
  bucket at most the capacity plus that; the tokens never leave the range from 0 to the capacity.\<close>

lemma bucket_limits_rate:
  assumes "timed t0 rs" and "0 \<le> rt" and "0 \<le> cap" and "try_all rs (bucket_new rt cap t0) = (got, b')"
  shows "got + tokens b' \<le> cap + (last_refill b' - t0) * rt \<and> 0 \<le> tokens b' \<and> tokens b' \<le> cap \<and> t0 \<le> last_refill b'"
  using try_all_ok [of "bucket_new rt cap t0" rs got b'] assms by (simp add: bucket_new_def bucket_ok_def)

lemma bucket_limits_rate_witness:
  "\<exists>got b'. try_all [(0, 1), (0, 1), (1, 1)] (bucket_new (1 / 2) 1 0) = (got, b') \<and> got = 1
     \<and> got + tokens b' \<le> 1 + (last_refill b' - 0) * (1 / 2)"
proof -
  have e: "try_all [(0, 1), (0, 1), (1, 1)] (bucket_new (1 / 2) 1 0)
      = (1, \<lparr>tb_rate = 1 / 2, tb_capacity = 1, tokens = 1 / 2, last_refill = 1\<rparr>)"
    by (simp add: bucket_new_def try_acquire_def refill_def)
  with bucket_limits_rate [OF _ _ _ e] show ?thesis by simp
qed

text \<open>A blocking request larger than the capacity waits for ever; any other one is granted in the first
  round whose reading is late enough.\<close>

lemma oversized_request_never_served:
  "rt \<ge> 0 \<Longrightarrow> cap \<ge> 0 \<Longrightarrow> cap < n \<Longrightarrow> sorted_wrt (\<le>) (t0 # readings) \<Longrightarrow> acquire readings n (bucket_new rt cap t0) = None"
  by (rule acquire_never) (auto simp: bucket_new_def bucket_ok_def)

lemma request_served_after_wait:
  assumes "bucket_ok b" and "0 < tb_rate b" and "n \<le> tb_capacity b" and "last_refill b \<le> now"
    and "now + (n - tokens (refill now b)) / tb_rate b \<le> now'"
  shows "acquire [now, now'] n b \<noteq> None"
proof -
  have "n - tokens (refill now b) \<le> (now' - now) * tb_rate b"
    using assms(2,5) by (simp add: field_simps)
  with assms(3) show ?thesis
    by (auto simp: Let_def refill_def)
qed

end
