(* ===== verification/Dedup.thy ===== *)
theory Dedup
  imports Prelude
begin

text \<open>
  \<open>engine/src/execution/dedup.py\<close>: the gate that lets a key pass once per window.  Each operation holds
  the lock and awaits nothing under it, so it is one step with one clock reading.
\<close>

record dedup_gate =
  window_s :: secs
  timestamps :: "string \<rightharpoonup> secs"

definition dedup_new :: "secs \<Rightarrow> dedup_gate" where
  "dedup_new w = \<lparr>window_s = w, timestamps = Map.empty\<rparr>"

definition check_and_register :: "secs \<Rightarrow> string \<Rightarrow> dedup_gate \<Rightarrow> bool \<times> dedup_gate" where
  "check_and_register now key d =
     (case timestamps d key of
        Some seen \<Rightarrow> if now - seen < window_s d then (False, d)
                     else (True, d\<lparr>timestamps := (timestamps d)(key \<mapsto> now)\<rparr>)
      | None \<Rightarrow> (True, d\<lparr>timestamps := (timestamps d)(key \<mapsto> now)\<rparr>))"

definition cleanup_stale :: "secs \<Rightarrow> dedup_gate \<Rightarrow> dedup_gate" where
  "cleanup_stale now d =
     d\<lparr>timestamps := (\<lambda>k. case timestamps d k of
          Some t \<Rightarrow> if now - t > window_s d * 2 then None else Some t | None \<Rightarrow> None)\<rparr>"

text \<open>A key that passed keeps its time while the window lasts, also through a cleanup.\<close>

lemma passed_key_is_held:
  "check_and_register now key d = (True, d') \<Longrightarrow> timestamps d' key = Some now"
  by (auto simp: check_and_register_def split: option.splits if_splits)

lemma held_key_is_blocked:
  "timestamps d key = Some t \<Longrightarrow> now - t < window_s d \<Longrightarrow> check_and_register now key d = (False, d)"
  by (simp add: check_and_register_def)

lemma cleanup_keeps_window:
  "0 \<le> window_s d \<Longrightarrow> timestamps d key = Some t \<Longrightarrow> now - t < window_s d \<Longrightarrow> timestamps (cleanup_stale now d) key = Some t"
  by (simp add: cleanup_stale_def)

end
