(* ===== verification/PreTrade.thy ===== *)
theory PreTrade
  imports Guardian TwoLeg TokenBucket Dedup "HOL-Library.Char_ord" "HOL-Library.List_Lexorder"
begin

text \<open>
  \<open>engine/src/execution/pre_trade_validator.py\<close> with \<open>dedup.py\<close>, \<open>core/reason_codes.py\<close>,
  \<open>infra/exchange/min_notional_registry.py\<close> and the two helpers of \<open>modes/live.py\<close> that are injected
  into it: the twelve gates of the live path in their order.  A run carries the validator with the
  components it shares with the rest of the engine, the legs of the request (the last gate rewrites
  their sizes) and the two flags written to the context.  Parameters: the clock readings, the session
  loss, the answer of a \<open>check\<close> method of the flash guard (the guard of \<open>FlashGuard\<close> has none), the
  configured cap and the adapters' minimum notionals.  Details, metric labels, metrics and the
  Telegram alert are left out.
\<close>

datatype reason_code =
    STRATEGY_FILTERED
  | STRATEGY_COOLDOWN
  | KILL_SWITCH_HALT
  | CIRCUIT_BREAKER_OPEN
  | RATE_LIMITED
  | FLASH_GUARD_BLOCKED
  | SESSION_LOSS_LIMIT
  | RISK_GUARDIAN_REJECTED
  | SYMBOL_COOLDOWN
  | MARGIN_INSUFFICIENT
  | NOTIONAL_BELOW_MIN
  | NOTIONAL_BUMP_EXCEEDS_RISK
  | DEDUP_COLLISION
  | UNIVERSE_MISS
  | ORDERBOOK_TOXIC
  | MARKET_IMPACT_HIGH
  | NO_VALID_ORDERS
  | BUDGET_EXHAUSTED

record request_leg = order_leg +
  reduce_only :: bool

record verdict =
  passed :: bool
  code :: "reason_code option"
  bumped :: bool
  skip_rollback_notify :: bool

definition rejected :: "reason_code \<Rightarrow> verdict" where
  "rejected c = \<lparr>passed = False, code = Some c, bumped = False, skip_rollback_notify = False\<rparr>"

subsection \<open>Injected helpers\<close>

definition is_reduceonly_request :: "request_leg list \<Rightarrow> bool" where
  "is_reduceonly_request ls \<longleftrightarrow> ls \<noteq> [] \<and> list_all reduce_only ls"

fun join :: "string \<Rightarrow> string list \<Rightarrow> string" where
  "join sep [] = []"
| "join sep [x] = x"
| "join sep (x # xs) = x @ sep @ join sep xs"

definition build_collision_key :: "string \<Rightarrow> request_leg list \<Rightarrow> string" where
  "build_collision_key strategy ls =
     (let symbols = sort (remdups (map ol_symbol ls)); exchanges = sort (remdups (map ol_exchange ls));
          suffix = (if is_reduceonly_request ls then '':close'' else '':open'')
      in strategy @ '':'' @ join '','' symbols @ ''|'' @ join '','' exchanges @ suffix)"

text \<open>\<open>MinNotionalRegistry.get\<close>: no adapter, no method, an exception and no value all give 5.\<close>

type_synonym notional_adapters = "string \<rightharpoonup> (string \<Rightarrow> decimal option outcome) option"

definition min_notional :: "notional_adapters \<Rightarrow> string \<Rightarrow> string \<Rightarrow> decimal" where
  "min_notional adapters ex symb =
     (case adapters ex of
        Some (Some get) \<Rightarrow> (case get symb of Returned (Some x) \<Rightarrow> x | _ \<Rightarrow> 5)
      | _ \<Rightarrow> 5)"

text \<open>\<open>s.split('/')[-1]\<close>.\<close>

definition after_last :: "char \<Rightarrow> string \<Rightarrow> string" where
  "after_last c s = rev (takeWhile (\<lambda>x. x \<noteq> c) (rev s))"

text \<open>\<open>quantize(Decimal('0.00000001'))\<close> rounds half to even.\<close>

definition quantize8 :: "decimal \<Rightarrow> decimal" where
  "quantize8 x = of_int (round_half_even (x * 100000000)) / 100000000"

subsection \<open>The validator\<close>

record validator =
  strategy_filter :: "string list option"
  disable_until :: "string \<rightharpoonup> secs"
  has_kill_switch :: bool
  pv_flags :: halt_flags
  pv_breaker :: "circuit_breaker option"
  rate_buckets :: "(string \<rightharpoonup> token_bucket) option"
  pv_guardian :: "risk_guardian option"
  pv_dedup :: dedup_gate
  symbol_last_trade :: "string \<rightharpoonup> secs"
  symbol_cooldown_s :: secs
  cached_margin :: "string \<rightharpoonup> decimal"
  total_capital_usd :: pyfloat
  max_session_loss_usd :: pyfloat
  cleared_entries :: "(string \<times> string) list"

record run =
  vd :: validator
  run_legs :: "request_leg list"
  risk_blocked :: bool
  margin_blocked :: bool

record inputs =
  rust :: rust_env
  t_cooldown :: secs
  t_bucket :: "nat \<Rightarrow> secs \<times> secs"
  flash_check :: "bool outcome option"
  session_loss :: pyfloat
  t_symbol :: secs
  t_dedup :: secs
  adapters :: notional_adapters
  max_position_pct_cfg :: decimal

type_synonym gate = "inputs \<Rightarrow> string \<Rightarrow> string \<Rightarrow> bool \<Rightarrow> run \<Rightarrow> verdict option \<times> run"

text \<open>A gate gets the strategy id of the call, that of the request, and whether the request is an exit.\<close>

definition check_strategy_filter :: gate where
  "check_strategy_filter i sid tr_sid is_close r =
     (case strategy_filter (vd r) of
        None \<Rightarrow> (None, r)
      | Some allowed \<Rightarrow> if sid \<in> set allowed \<or> is_close then (None, r) else (Some (rejected STRATEGY_FILTERED), r))"

definition check_strategy_cooldown :: gate where
  "check_strategy_cooldown i sid tr_sid is_close r =
     (case disable_until (vd r) sid of
        None \<Rightarrow> (None, r)
      | Some t \<Rightarrow>
          if t_cooldown i \<ge> t then (None, r\<lparr>vd := (vd r)\<lparr>disable_until := (disable_until (vd r))(sid := None)\<rparr>\<rparr>)
          else if is_close then (None, r)
          else (Some (rejected STRATEGY_COOLDOWN), r))"

definition check_kill_switch :: gate where
  "check_kill_switch i sid tr_sid is_close r =
     (if has_kill_switch (vd r)
      then let (h, flags) = KillSwitch.is_halted (rust i) (pv_flags (vd r)); r1 = r\<lparr>vd := (vd r)\<lparr>pv_flags := flags\<rparr>\<rparr>
           in if h then (Some (rejected KILL_SWITCH_HALT), r1) else (None, r1)
      else (None, r))"

definition check_circuit_breaker :: gate where
  "check_circuit_breaker i sid tr_sid is_close r =
     (case pv_breaker (vd r) of
        None \<Rightarrow> (None, r)
      | Some cb \<Rightarrow> if cb_is_open cb then (Some (rejected CIRCUIT_BREAKER_OPEN), r) else (None, r))"

definition bucket_exchange :: "request_leg \<Rightarrow> string" where
  "bucket_exchange l = remove_prefix ''sandbox_'' (remove_prefix ''paper_'' (ol_exchange l))"

text \<open>One token per leg; \<open>n\<close> counts the legs for the clock.\<close>

fun take_tokens ::
    "(nat \<Rightarrow> secs \<times> secs) \<Rightarrow> nat \<Rightarrow> request_leg list \<Rightarrow> (string \<rightharpoonup> token_bucket) \<Rightarrow> bool \<times> (string \<rightharpoonup> token_bucket)"
  where
  "take_tokens clk n [] bs = (True, bs)"
| "take_tokens clk n (l # ls) bs =
     (let ex = bucket_exchange l; (made, now) = clk n;
          b = (case bs ex of None \<Rightarrow> bucket_new 5 10 made | Some b \<Rightarrow> b);
          (ok, b') = try_acquire now 1 b; bs' = bs(ex \<mapsto> b')
      in if ok then take_tokens clk (Suc n) ls bs' else (False, bs'))"

definition check_rate_limiter :: gate where
  "check_rate_limiter i sid tr_sid is_close r =
     (case rate_buckets (vd r) of
        None \<Rightarrow> (None, r)
      | Some bs \<Rightarrow>
          let (ok, bs') = take_tokens (t_bucket i) 0 (run_legs r) bs; r1 = r\<lparr>vd := (vd r)\<lparr>rate_buckets := Some bs'\<rparr>\<rparr>
          in if ok then (None, r1) else (Some (rejected RATE_LIMITED), r1))"

definition check_flash_guard :: gate where
  "check_flash_guard i sid tr_sid is_close r =
     (case flash_check i of
        Some (Returned True) \<Rightarrow> (Some (rejected FLASH_GUARD_BLOCKED), r)
      | _ \<Rightarrow> (None, r))"

definition check_session_loss :: gate where
  "check_session_loss i sid tr_sid is_close r =
     (if session_loss i < max_session_loss_usd (vd r) then (None, r)
      else (Some (rejected SESSION_LOSS_LIMIT),
            r\<lparr>vd := (vd r)\<lparr>pv_flags := halt_local (rust i) (pv_flags (vd r))\<rparr>\<rparr>))"

text \<open>The guardian reads the same halt flag.\<close>

definition check_risk_guardian :: gate where
  "check_risk_guardian i sid tr_sid is_close r =
     (case pv_guardian (vd r) of
        None \<Rightarrow> (None, r)
      | Some g \<Rightarrow>
          let (ok, g') = check_trade_request (rust i)
                (map (\<lambda>l. (ol_size l, case ol_price l of None \<Rightarrow> 0 | Some p \<Rightarrow> p)) (run_legs r))
                (total_capital_usd (vd r)) (g\<lparr>rg_flags := pv_flags (vd r)\<rparr>);
              r1 = r\<lparr>vd := (vd r)\<lparr>pv_guardian := Some g', pv_flags := rg_flags g'\<rparr>\<rparr>
          in if ok then (None, r1) else (Some (rejected RISK_GUARDIAN_REJECTED), r1\<lparr>risk_blocked := True\<rparr>))"

definition symbol_keys :: "request_leg list \<Rightarrow> string list" where
  "symbol_keys ls = filter (\<lambda>s. s \<noteq> []) (map ol_symbol ls)"

definition cooling :: "secs \<Rightarrow> validator \<Rightarrow> string \<Rightarrow> bool" where
  "cooling now v s \<longleftrightarrow> now - (case symbol_last_trade v s of None \<Rightarrow> 0 | Some t \<Rightarrow> t) < symbol_cooldown_s v"

definition check_symbol_cooldown :: gate where
  "check_symbol_cooldown i sid tr_sid is_close r =
     (let keys = symbol_keys (run_legs r); now = t_symbol i
      in if keys = [] \<or> is_close then (None, r)
         else if list_ex (cooling now (vd r)) keys then (Some (rejected SYMBOL_COOLDOWN), r)
         else (None, r\<lparr>vd := (vd r)\<lparr>symbol_last_trade := fold (\<lambda>k m. m(k \<mapsto> now)) keys (symbol_last_trade (vd r))\<rparr>\<rparr>))"

definition min_margin_entry_usd :: decimal where "min_margin_entry_usd = 3"

text \<open>An unknown margin counts as infinite.\<close>

definition margin_short :: "validator \<Rightarrow> request_leg \<Rightarrow> bool" where
  "margin_short v l \<longleftrightarrow> ol_exchange l \<noteq> [] \<and> occurs_in ''futures'' (ol_exchange l)
     \<and> (case cached_margin v (ol_exchange l) of None \<Rightarrow> False | Some m \<Rightarrow> m < min_margin_entry_usd)"

definition check_margin_guard :: gate where
  "check_margin_guard i sid tr_sid is_close r =
     (if \<not> is_close \<and> list_ex (margin_short (vd r)) (run_legs r)
      then (Some ((rejected MARGIN_INSUFFICIENT)\<lparr>skip_rollback_notify := True\<rparr>),
            r\<lparr>vd := (vd r)\<lparr>cleared_entries := cleared_entries (vd r) @ map (\<lambda>s. (sid, s)) (symbol_keys (run_legs r))\<rparr>,
              margin_blocked := True\<rparr>)
      else (None, r))"

definition check_dedup :: gate where
  "check_dedup i sid tr_sid is_close r =
     (let (ok, d) = check_and_register (t_dedup i) (build_collision_key tr_sid (run_legs r)) (pv_dedup (vd r));
          r1 = r\<lparr>vd := (vd r)\<lparr>pv_dedup := d\<rparr>\<rparr>
      in if ok then (None, r1)
         else (Some ((rejected DEDUP_COLLISION)\<lparr>skip_rollback_notify := is_close\<rparr>), r1))"

definition usd_quotes :: "string list" where
  "usd_quotes = [''USDT'', ''USDC'', ''USD'', ''BUSD'', ''DAI'', ''KRW'']"

text \<open>The size a leg is bumped to, when its notional is too small.\<close>

definition bump_size :: "notional_adapters \<Rightarrow> request_leg \<Rightarrow> decimal option" where
  "bump_size ads l =
     (case ol_price l of
        None \<Rightarrow> None
      | Some p \<Rightarrow>
          let quote = (if CHR ''/'' \<in> set (ol_symbol l) then upper (after_last (CHR ''/'') (ol_symbol l)) else []);
              required = min_notional ads (ol_exchange l) (ol_symbol l)
          in if p > 0 \<and> quote \<in> set usd_quotes \<and> ol_size l * p < required
             then Some (quantize8 (required / p)) else None)"

definition bumped_notional :: "notional_adapters \<Rightarrow> request_leg \<Rightarrow> decimal option" where
  "bumped_notional ads l =
     (case (bump_size ads l, ol_price l) of (Some s, Some p) \<Rightarrow> Some (s * p) | _ \<Rightarrow> None)"

definition risk_cap_usd :: "inputs \<Rightarrow> validator \<Rightarrow> decimal" where
  "risk_cap_usd i v = total_capital_usd v * (max_position_pct_cfg i / 100)"

definition bump_leg :: "notional_adapters \<Rightarrow> request_leg \<Rightarrow> request_leg" where
  "bump_leg ads l = (case bump_size ads l of None \<Rightarrow> l | Some s \<Rightarrow> l\<lparr>ol_size := s\<rparr>)"

definition check_notional_with_bump :: gate where
  "check_notional_with_bump i sid tr_sid is_close r =
     (let small = List.map_filter (bumped_notional (adapters i)) (run_legs r)
      in if small = [] then (None, r)
         else if Max (set small) > risk_cap_usd i (vd r) then (Some (rejected NOTIONAL_BUMP_EXCEEDS_RISK), r)
         else (Some \<lparr>passed = True, code = None, bumped = True, skip_rollback_notify = False\<rparr>,
               r\<lparr>run_legs := map (bump_leg (adapters i)) (run_legs r)\<rparr>))"

subsection \<open>The pipeline\<close>

definition all_gates :: "gate list" where
  "all_gates =
     [check_strategy_filter, check_strategy_cooldown, check_kill_switch, check_circuit_breaker,
      check_rate_limiter, check_flash_guard, check_session_loss, check_risk_guardian,
      check_symbol_cooldown, check_margin_guard, check_dedup, check_notional_with_bump]"

fun run_gates :: "gate list \<Rightarrow> inputs \<Rightarrow> string \<Rightarrow> string \<Rightarrow> bool \<Rightarrow> run \<Rightarrow> verdict \<times> run" where
  "run_gates [] i sid tr_sid is_close r =
     (\<lparr>passed = True, code = None, bumped = False, skip_rollback_notify = False\<rparr>, r)"
| "run_gates (g # gs) i sid tr_sid is_close r =
     (case g i sid tr_sid is_close r of
        (None, r') \<Rightarrow> run_gates gs i sid tr_sid is_close r'
      | (Some v, r') \<Rightarrow> if passed v \<and> bumped v then run_gates gs i sid tr_sid is_close r' else (v, r'))"

definition validate :: "inputs \<Rightarrow> string \<Rightarrow> string \<Rightarrow> request_leg list \<Rightarrow> validator \<Rightarrow> verdict \<times> run" where
  "validate i sid tr_sid ls v =
     run_gates all_gates i sid tr_sid (is_reduceonly_request ls)
       \<lparr>vd = v, run_legs = ls, risk_blocked = False, margin_blocked = False\<rparr>"

subsection \<open>The gates one by one\<close>

text \<open>What each gate asks, and what it leaves when it lets the request pass.\<close>

definition filter_allows :: "string \<Rightarrow> bool \<Rightarrow> validator \<Rightarrow> bool" where
  "filter_allows sid is_close v \<longleftrightarrow>
     is_close \<or> (case strategy_filter v of None \<Rightarrow> True | Some allowed \<Rightarrow> sid \<in> set allowed)"

definition cooldown_over :: "inputs \<Rightarrow> string \<Rightarrow> bool \<Rightarrow> validator \<Rightarrow> bool" where
  "cooldown_over i sid is_close v \<longleftrightarrow>
     is_close \<or> (case disable_until v sid of None \<Rightarrow> True | Some t \<Rightarrow> t \<le> t_cooldown i)"

definition breaker_shut :: "validator \<Rightarrow> bool" where
  "breaker_shut v \<longleftrightarrow> (case pv_breaker v of None \<Rightarrow> True | Some cb \<Rightarrow> \<not> cb_is_open cb)"

definition tokens_left :: "inputs \<Rightarrow> request_leg list \<Rightarrow> validator \<Rightarrow> bool" where
  "tokens_left i ls v \<longleftrightarrow>
     (case rate_buckets v of None \<Rightarrow> True | Some bs \<Rightarrow> fst (take_tokens (t_bucket i) 0 ls bs))"

definition leg_notional :: "request_leg \<Rightarrow> decimal" where
  "leg_notional l = ol_size l * (case ol_price l of None \<Rightarrow> 0 | Some p \<Rightarrow> p)"

definition guardian_allows :: "request_leg list \<Rightarrow> validator \<Rightarrow> bool" where
  "guardian_allows ls v \<longleftrightarrow>
     (case pv_guardian v of
        None \<Rightarrow> True
      | Some g \<Rightarrow> total_capital_usd v \<le> 0
          \<or> (\<forall>l \<in> set ls. leg_notional l \<le> total_capital_usd v * max_single_trade_pct (limits g)))"

definition bumps_within :: "inputs \<Rightarrow> request_leg list \<Rightarrow> validator \<Rightarrow> bool" where
  "bumps_within i ls v \<longleftrightarrow> (\<forall>l \<in> set ls. \<forall>n. bumped_notional (adapters i) l = Some n \<longrightarrow> n \<le> risk_cap_usd i v)"

definition not_halted :: "inputs \<Rightarrow> validator \<Rightarrow> bool" where
  "not_halted i v \<longleftrightarrow> (has_kill_switch v \<or> pv_guardian v \<noteq> None \<longrightarrow> \<not> halted (rust i) (pv_flags v))"

definition fresh_key :: "inputs \<Rightarrow> string \<Rightarrow> request_leg list \<Rightarrow> validator \<Rightarrow> bool" where
  "fresh_key i tr_sid ls v \<longleftrightarrow>
     (case timestamps (pv_dedup v) (build_collision_key tr_sid ls) of
        None \<Rightarrow> True | Some seen \<Rightarrow> window_s (pv_dedup v) \<le> t_dedup i - seen)"

definition entry_unlocked :: "inputs \<Rightarrow> request_leg list \<Rightarrow> validator \<Rightarrow> bool" where
  "entry_unlocked i ls v \<longleftrightarrow>
     (\<forall>k \<in> set (symbol_keys ls). \<not> cooling (t_symbol i) v k) \<and> (\<forall>l \<in> set ls. \<not> margin_short v l)"

text \<open>A gate that rejects when \<open>P\<close> fails leaves the rest of the pipeline to \<open>r1\<close>.\<close>

lemma run_step:
  "g i sid tr_sid c r = (if P then (None, r1) else (Some v, r2)) \<Longrightarrow> \<not> passed v \<Longrightarrow>
   run_gates (g # gs) i sid tr_sid c r = (if P then run_gates gs i sid tr_sid c r1 else (v, r2))"
  by simp

lemma rejected_simps [simp]:
  "\<not> passed (rejected c)" "code (rejected c) = Some c" "\<not> bumped (rejected c)"
  by (simp_all add: rejected_def)

lemma filter_gate:
  "check_strategy_filter i sid tr_sid c r =
     (if filter_allows sid c (vd r) then (None, r) else (Some (rejected STRATEGY_FILTERED), r))"
  by (auto simp: check_strategy_filter_def filter_allows_def split: option.split)

lemma cooldown_gate:
  "check_strategy_cooldown i sid tr_sid c r =
     (if cooldown_over i sid c (vd r)
      then (None, r\<lparr>vd := (vd r)\<lparr>disable_until := (case disable_until (vd r) sid of
              Some t \<Rightarrow> if t_cooldown i \<ge> t then (disable_until (vd r))(sid := None) else disable_until (vd r)
            | None \<Rightarrow> disable_until (vd r))\<rparr>\<rparr>)
      else (Some (rejected STRATEGY_COOLDOWN), r))"
  by (cases r; cases "vd r") (auto simp: check_strategy_cooldown_def cooldown_over_def split: option.split)

lemma kill_gate:
  "check_kill_switch i sid tr_sid c r =
     (if has_kill_switch (vd r) \<longrightarrow> \<not> halted (rust i) (pv_flags (vd r))
      then (None, r\<lparr>vd := (vd r)\<lparr>pv_flags := (if has_kill_switch (vd r) then snd (KillSwitch.is_halted (rust i) (pv_flags (vd r))) else pv_flags (vd r))\<rparr>\<rparr>)
      else (Some (rejected KILL_SWITCH_HALT), r\<lparr>vd := (vd r)\<lparr>pv_flags := snd (KillSwitch.is_halted (rust i) (pv_flags (vd r)))\<rparr>\<rparr>))"
  by (cases r; cases "vd r") (auto simp: check_kill_switch_def halted_def split: prod.split)

lemma breaker_gate:
  "check_circuit_breaker i sid tr_sid c r =
     (if breaker_shut (vd r) then (None, r) else (Some (rejected CIRCUIT_BREAKER_OPEN), r))"
  by (auto simp: check_circuit_breaker_def breaker_shut_def split: option.split)

lemma rate_gate:
  "check_rate_limiter i sid tr_sid c r =
     (let r1 = r\<lparr>vd := (vd r)\<lparr>rate_buckets := map_option (\<lambda>bs. snd (take_tokens (t_bucket i) 0 (run_legs r) bs)) (rate_buckets (vd r))\<rparr>\<rparr>
      in if tokens_left i (run_legs r) (vd r) then (None, r1) else (Some (rejected RATE_LIMITED), r1))"
  by (cases r; cases "vd r")
    (auto simp: check_rate_limiter_def tokens_left_def Let_def split: option.split prod.split)

lemma flash_gate:
  "check_flash_guard i sid tr_sid c r =
     (if flash_check i \<noteq> Some (Returned True) then (None, r) else (Some (rejected FLASH_GUARD_BLOCKED), r))"
  by (auto simp: check_flash_guard_def split: option.split outcome.split)

lemma halted_again: "halted env (snd (KillSwitch.is_halted env h)) = halted env h"
  by (auto simp: flag_defs)

lemma largest_leg:
  assumes "ls \<noteq> []"
  shows "x < Max (set (map (\<lambda>(s, pr). s * pr) (map (\<lambda>l. (ol_size l, case ol_price l of None \<Rightarrow> 0 | Some p \<Rightarrow> p)) ls)))
    \<longleftrightarrow> (\<exists>l \<in> set ls. x < leg_notional l)"
  using assms by (simp add: Max_gr_iff leg_notional_def o_def)

lemma guardian_gate:
  "check_risk_guardian i sid tr_sid c r =
     (let flags = (if pv_guardian (vd r) = None then pv_flags (vd r) else snd (KillSwitch.is_halted (rust i) (pv_flags (vd r))));
          r1 = r\<lparr>vd := (vd r)\<lparr>pv_guardian := map_option (\<lambda>g. g\<lparr>rg_flags := flags\<rparr>) (pv_guardian (vd r)), pv_flags := flags\<rparr>\<rparr>
      in if (pv_guardian (vd r) \<noteq> None \<longrightarrow> \<not> halted (rust i) (pv_flags (vd r))) \<and> guardian_allows (run_legs r) (vd r)
         then (None, r1) else (Some (rejected RISK_GUARDIAN_REJECTED), r1\<lparr>risk_blocked := True\<rparr>))"
proof (cases "pv_guardian (vd r)")
  case None
  then show ?thesis by (cases r; cases "vd r") (simp add: check_risk_guardian_def guardian_allows_def)
next
  case (Some g)
  have "(run_legs r \<noteq> [] \<and> 0 < total_capital_usd (vd r) \<and> total_capital_usd (vd r) * max_single_trade_pct (limits g)
      < Max (set (map (\<lambda>(s, pr). s * pr) (map (\<lambda>l. (ol_size l, case ol_price l of None \<Rightarrow> 0 | Some p \<Rightarrow> p)) (run_legs r)))))
      \<longleftrightarrow> \<not> guardian_allows (run_legs r) (vd r)"
    unfolding guardian_allows_def Some option.case de_Morgan_disj ball_simps not_le
    by (cases "run_legs r = []") (simp_all only: largest_leg simp_thms list.set ball_empty bex_empty not_False_eq_True)
  then show ?thesis
    using Some
    by (cases r; cases "vd r")
      (simp add: check_risk_guardian_def check_trade_request_def halted_def Let_def case_prod_beta del: set_map map_map)
qed

lemma loss_gate:
  "check_session_loss i sid tr_sid c r =
     (if session_loss i < max_session_loss_usd (vd r) then (None, r)
      else (Some (rejected SESSION_LOSS_LIMIT), r\<lparr>vd := (vd r)\<lparr>pv_flags := halt_local (rust i) (pv_flags (vd r))\<rparr>\<rparr>))"
  by (simp add: check_session_loss_def)

lemma symbol_gate:
  "check_symbol_cooldown i sid tr_sid c r =
     (if c \<or> (\<forall>k \<in> set (symbol_keys (run_legs r)). \<not> cooling (t_symbol i) (vd r) k)
      then (None, r\<lparr>vd := (vd r)\<lparr>symbol_last_trade :=
              fold (\<lambda>k m. m(k \<mapsto> t_symbol i)) (if c then [] else symbol_keys (run_legs r)) (symbol_last_trade (vd r))\<rparr>\<rparr>)
      else (Some (rejected SYMBOL_COOLDOWN), r))"
  by (cases r; cases "vd r") (auto simp: check_symbol_cooldown_def Let_def list_ex_iff)

lemma margin_gate:
  "check_margin_guard i sid tr_sid c r =
     (if c \<or> (\<forall>l \<in> set (run_legs r). \<not> margin_short (vd r) l) then (None, r)
      else (Some ((rejected MARGIN_INSUFFICIENT)\<lparr>skip_rollback_notify := True\<rparr>),
            r\<lparr>vd := (vd r)\<lparr>cleared_entries := cleared_entries (vd r) @ map (\<lambda>s. (sid, s)) (symbol_keys (run_legs r))\<rparr>,
              margin_blocked := True\<rparr>))"
  by (auto simp: check_margin_guard_def list_ex_iff)

lemma dedup_gate:
  "check_dedup i sid tr_sid c r =
     (if fresh_key i tr_sid (run_legs r) (vd r)
      then (None, r\<lparr>vd := (vd r)\<lparr>pv_dedup := (pv_dedup (vd r))\<lparr>timestamps :=
              (timestamps (pv_dedup (vd r)))(build_collision_key tr_sid (run_legs r) \<mapsto> t_dedup i)\<rparr>\<rparr>\<rparr>)
      else (Some ((rejected DEDUP_COLLISION)\<lparr>skip_rollback_notify := c\<rparr>), r))"
  by (cases r; cases "vd r") (auto simp: check_dedup_def check_and_register_def fresh_key_def Let_def split: option.split)

lemma bump_leg_id: "bumped_notional ads l = None \<Longrightarrow> bump_leg ads l = l"
proof (cases "ol_price l")
  case None
  then show ?thesis by (simp add: bump_leg_def bump_size_def)
next
  case (Some p)
  moreover assume "bumped_notional ads l = None"
  ultimately have "bump_size ads l = None" by (simp add: bumped_notional_def split: option.splits)
  then show ?thesis by (simp add: bump_leg_def)
qed

lemma set_map_filter: "set (List.map_filter f xs) = {y. \<exists>x \<in> set xs. f x = Some y}"
  by (induction xs) (auto simp: List.map_filter_def)

lemma bump_gate:
  "run_gates [check_notional_with_bump] i sid tr_sid c r =
     (if bumps_within i (run_legs r) (vd r)
      then (\<lparr>passed = True, code = None, bumped = False, skip_rollback_notify = False\<rparr>,
            r\<lparr>run_legs := map (bump_leg (adapters i)) (run_legs r)\<rparr>)
      else (rejected NOTIONAL_BUMP_EXCEEDS_RISK, r))"
proof (cases "List.map_filter (bumped_notional (adapters i)) (run_legs r) = []")
  case True
  then have none: "bumped_notional (adapters i) l = None" if "l \<in> set (run_legs r)" for l
    using that True set_map_filter [of "bumped_notional (adapters i)" "run_legs r"]
    by (cases "bumped_notional (adapters i) l") auto
  then have "map (bump_leg (adapters i)) (run_legs r) = run_legs r"
    by (simp add: bump_leg_id map_idI)
  with True none show ?thesis
    by (cases r) (auto simp: check_notional_with_bump_def bumps_within_def)
next
  case False
  have "Max (set (List.map_filter (bumped_notional (adapters i)) (run_legs r))) > risk_cap_usd i (vd r)
      \<longleftrightarrow> \<not> bumps_within i (run_legs r) (vd r)"
    using False Max_gr_iff [OF List.finite_set, of "List.map_filter (bumped_notional (adapters i)) (run_legs r)" "risk_cap_usd i (vd r)"]
    by (auto simp: bumps_within_def not_le) (auto simp: set_map_filter)
  with False show ?thesis
    by (auto simp: check_notional_with_bump_def Let_def)
qed

lemma pass_step:
  "g i sid tr_sid c r = (if P then (None, r1) else (Some v, r2)) \<Longrightarrow> \<not> passed v \<Longrightarrow>
   passed (fst (run_gates (g # gs) i sid tr_sid c r)) \<longleftrightarrow> P \<and> passed (fst (run_gates gs i sid tr_sid c r1))"
  by simp

lemmas pass_steps =
  pass_step [OF filter_gate] pass_step [OF cooldown_gate] pass_step [OF kill_gate] pass_step [OF breaker_gate]
  pass_step [OF rate_gate [unfolded Let_def]] pass_step [OF flash_gate] pass_step [OF loss_gate]
  pass_step [OF guardian_gate [unfolded Let_def]] pass_step [OF symbol_gate] pass_step [OF margin_gate] pass_step [OF dedup_gate]

text \<open>The conditions look only at fields no earlier gate changes.\<close>

definition admissible :: "inputs \<Rightarrow> string \<Rightarrow> string \<Rightarrow> request_leg list \<Rightarrow> validator \<Rightarrow> bool" where
  "admissible i sid tr_sid ls v \<longleftrightarrow>
     (let c = is_reduceonly_request ls
      in filter_allows sid c v \<and> cooldown_over i sid c v \<and> not_halted i v \<and> breaker_shut v \<and> tokens_left i ls v
         \<and> flash_check i \<noteq> Some (Returned True) \<and> session_loss i < max_session_loss_usd v \<and> guardian_allows ls v
         \<and> (c \<or> entry_unlocked i ls v) \<and> fresh_key i tr_sid ls v \<and> bumps_within i ls v)"

lemmas gate_conds = filter_allows_def cooldown_over_def breaker_shut_def tokens_left_def guardian_allows_def
  bumps_within_def fresh_key_def cooling_def margin_short_def risk_cap_usd_def

lemma unchanged_conds [simp]:
  "breaker_shut (v\<lparr>disable_until := d\<rparr>) = breaker_shut v"
  "breaker_shut (v\<lparr>pv_flags := f\<rparr>) = breaker_shut v"
  "tokens_left i ls (v\<lparr>disable_until := d\<rparr>) = tokens_left i ls v"
  "tokens_left i ls (v\<lparr>pv_flags := f\<rparr>) = tokens_left i ls v"
  "guardian_allows ls (v\<lparr>disable_until := d\<rparr>) = guardian_allows ls v"
  "guardian_allows ls (v\<lparr>pv_flags := f\<rparr>) = guardian_allows ls v"
  "guardian_allows ls (v\<lparr>rate_buckets := b\<rparr>) = guardian_allows ls v"
  "cooling t (v\<lparr>disable_until := d\<rparr>) = cooling t v"
  "cooling t (v\<lparr>pv_flags := f\<rparr>) = cooling t v"
  "cooling t (v\<lparr>rate_buckets := b\<rparr>) = cooling t v"
  "cooling t (v\<lparr>pv_guardian := g\<rparr>) = cooling t v"
  "margin_short (v\<lparr>disable_until := d\<rparr>) = margin_short v"
  "margin_short (v\<lparr>pv_flags := f\<rparr>) = margin_short v"
  "margin_short (v\<lparr>rate_buckets := b\<rparr>) = margin_short v"
  "margin_short (v\<lparr>pv_guardian := g\<rparr>) = margin_short v"
  "margin_short (v\<lparr>symbol_last_trade := m\<rparr>) = margin_short v"
  "fresh_key i tr_sid ls (v\<lparr>disable_until := d\<rparr>) = fresh_key i tr_sid ls v"
  "fresh_key i tr_sid ls (v\<lparr>pv_flags := f\<rparr>) = fresh_key i tr_sid ls v"
  "fresh_key i tr_sid ls (v\<lparr>rate_buckets := b\<rparr>) = fresh_key i tr_sid ls v"
  "fresh_key i tr_sid ls (v\<lparr>pv_guardian := g\<rparr>) = fresh_key i tr_sid ls v"
  "fresh_key i tr_sid ls (v\<lparr>symbol_last_trade := m\<rparr>) = fresh_key i tr_sid ls v"
  "bumps_within i ls (v\<lparr>disable_until := d\<rparr>) = bumps_within i ls v"
  "bumps_within i ls (v\<lparr>pv_flags := f\<rparr>) = bumps_within i ls v"
  "bumps_within i ls (v\<lparr>rate_buckets := b\<rparr>) = bumps_within i ls v"
  "bumps_within i ls (v\<lparr>pv_guardian := g\<rparr>) = bumps_within i ls v"
  "bumps_within i ls (v\<lparr>symbol_last_trade := m\<rparr>) = bumps_within i ls v"
  "bumps_within i ls (v\<lparr>pv_dedup := q\<rparr>) = bumps_within i ls v"
  by (simp_all add: gate_conds fun_eq_iff split: option.split)

lemma halted_flags_if [simp]:
  "halted env (if b then snd (KillSwitch.is_halted env h) else h) = halted env h"
  by (simp add: halted_again)

lemma bump_pass:
  "passed (fst (run_gates [check_notional_with_bump] i sid tr_sid c r)) \<longleftrightarrow> bumps_within i (run_legs r) (vd r)"
  unfolding bump_gate by simp

lemma validate_passed_iff: "passed (fst (validate i sid tr_sid ls v)) \<longleftrightarrow> admissible i sid tr_sid ls v"
  unfolding validate_def all_gates_def
  by (simp add: pass_steps bump_pass admissible_def entry_unlocked_def not_halted_def Let_def
      del: run_gates.simps split del: if_split) blast

text \<open>An accepted request passes through every gate.\<close>

lemma accept_step:
  "g i sid tr_sid c r = (if P then (None, r1) else (Some v, r2)) \<Longrightarrow> P \<Longrightarrow>
   run_gates (g # gs) i sid tr_sid c r = run_gates gs i sid tr_sid c r1"
  by simp

lemmas accept_steps =
  accept_step [OF filter_gate] accept_step [OF cooldown_gate] accept_step [OF kill_gate] accept_step [OF breaker_gate]
  accept_step [OF rate_gate [unfolded Let_def]] accept_step [OF flash_gate] accept_step [OF loss_gate]
  accept_step [OF guardian_gate [unfolded Let_def]] accept_step [OF symbol_gate] accept_step [OF margin_gate]
  accept_step [OF dedup_gate]

lemma validate_result:
  assumes "admissible i sid tr_sid ls v"
  shows "run_legs (snd (validate i sid tr_sid ls v)) = map (bump_leg (adapters i)) ls"
    and "pv_dedup (vd (snd (validate i sid tr_sid ls v))) =
      (pv_dedup v)\<lparr>timestamps := (timestamps (pv_dedup v))(build_collision_key tr_sid ls \<mapsto> t_dedup i)\<rparr>"
proof -
  have c: "filter_allows sid (is_reduceonly_request ls) v" "cooldown_over i sid (is_reduceonly_request ls) v"
    "has_kill_switch v \<longrightarrow> \<not> halted (rust i) (pv_flags v)" "pv_guardian v \<noteq> None \<longrightarrow> \<not> halted (rust i) (pv_flags v)"
    "breaker_shut v" "tokens_left i ls v" "flash_check i \<noteq> Some (Returned True)" "session_loss i < max_session_loss_usd v"
    "guardian_allows ls v" "is_reduceonly_request ls \<or> (\<forall>k \<in> set (symbol_keys ls). \<not> cooling (t_symbol i) v k)"
    "is_reduceonly_request ls \<or> (\<forall>l \<in> set ls. \<not> margin_short v l)" "fresh_key i tr_sid ls v" "bumps_within i ls v"
    using assms by (auto simp: admissible_def not_halted_def entry_unlocked_def Let_def)
  show "run_legs (snd (validate i sid tr_sid ls v)) = map (bump_leg (adapters i)) ls"
    unfolding validate_def all_gates_def
    by (simp add: accept_steps bump_gate c del: run_gates.simps split del: if_split)
  show "pv_dedup (vd (snd (validate i sid tr_sid ls v))) =
      (pv_dedup v)\<lparr>timestamps := (timestamps (pv_dedup v))(build_collision_key tr_sid ls \<mapsto> t_dedup i)\<rparr>"
    unfolding validate_def all_gates_def
    by (simp add: accept_steps bump_gate c del: run_gates.simps split del: if_split)
qed

text \<open>The pipeline is a gate over the halt flag and over the global breaker, like the guardian's check.\<close>

interpretation pipeline_halt: admission "\<lambda>v. v\<lparr>pv_flags := halt_local env (pv_flags v)\<rparr>" "\<lambda>v. halted (rust i) (pv_flags v)"
  "\<lambda>v. has_kill_switch v \<and> passed (fst (validate i sid tr_sid ls v))"
  for env i sid tr_sid ls
  by unfold_locales (auto simp: validate_passed_iff admissible_def not_halted_def Let_def)

lemma blocked_is_open: "\<not> allows_trading cb \<longleftrightarrow> cb_is_open cb"
  by (cases "cb_state cb") (simp_all add: allows_trading_def cb_is_open_def)

interpretation pipeline_breaker: admission
  "\<lambda>v. v\<lparr>pv_breaker := map_option (trigger_manual t r) (pv_breaker v)\<rparr>"
  "\<lambda>v. pv_breaker v \<noteq> None \<longrightarrow> \<not> breaker_shut v"
  "\<lambda>v. pv_breaker v \<noteq> None \<and> passed (fst (validate i sid tr_sid ls v))"
  for t r i sid tr_sid ls
  using cb_trip.trip_blocks
  by unfold_locales (auto simp: validate_passed_iff admissible_def breaker_shut_def blocked_is_open Let_def)

subsection \<open>What a validation never undoes\<close>

definition keeps :: "inputs \<Rightarrow> run \<Rightarrow> run \<Rightarrow> bool" where
  "keeps i r r' \<longleftrightarrow> has_kill_switch (vd r') = has_kill_switch (vd r)
     \<and> window_s (pv_dedup (vd r')) = window_s (pv_dedup (vd r))
     \<and> (halt_flag (pv_flags (vd r)) \<longrightarrow> halt_flag (pv_flags (vd r')))
     \<and> (\<forall>k t. timestamps (pv_dedup (vd r)) k = Some t \<and> t_dedup i - t < window_s (pv_dedup (vd r))
          \<longrightarrow> timestamps (pv_dedup (vd r')) k = Some t)"

lemma keeps_refl [simp]: "keeps i r r"
  by (simp add: keeps_def)

lemma keeps_trans: "keeps i r r' \<Longrightarrow> keeps i r' r'' \<Longrightarrow> keeps i r r''"
  by (simp add: keeps_def)

lemma run_gates_keeps:
  "(\<And>g r. g \<in> set gs \<Longrightarrow> keeps i r (snd (g i sid tr_sid c r))) \<Longrightarrow> keeps i r (snd (run_gates gs i sid tr_sid c r))"
proof (induction gs arbitrary: r)
  case (Cons g gs)
  obtain a r' where g: "g i sid tr_sid c r = (a, r')" by (cases "g i sid tr_sid c r")
  have "keeps i r r'" using Cons.prems [of g r] g by simp
  moreover have "keeps i r' (snd (run_gates gs i sid tr_sid c r'))"
    using Cons.prems by (intro Cons.IH) simp
  ultimately show ?case by (cases a) (auto simp: g intro: keeps_trans)
qed simp

lemma gate_keeps:
  "keeps i r (snd (check_strategy_filter i sid tr_sid c r))"
  "keeps i r (snd (check_strategy_cooldown i sid tr_sid c r))"
  "keeps i r (snd (check_kill_switch i sid tr_sid c r))"
  "keeps i r (snd (check_circuit_breaker i sid tr_sid c r))"
  "keeps i r (snd (check_rate_limiter i sid tr_sid c r))"
  "keeps i r (snd (check_flash_guard i sid tr_sid c r))"
  "keeps i r (snd (check_session_loss i sid tr_sid c r))"
  "keeps i r (snd (check_risk_guardian i sid tr_sid c r))"
  "keeps i r (snd (check_symbol_cooldown i sid tr_sid c r))"
  "keeps i r (snd (check_margin_guard i sid tr_sid c r))"
  "keeps i r (snd (check_notional_with_bump i sid tr_sid c r))"
  by (simp_all add: filter_gate cooldown_gate kill_gate breaker_gate rate_gate flash_gate loss_gate guardian_gate
      symbol_gate margin_gate check_notional_with_bump_def Let_def)
    (simp_all add: keeps_def)

lemma dedup_keeps: "keeps i r (snd (check_dedup i sid tr_sid c r))"
  by (auto simp: dedup_gate fresh_key_def keeps_def)

lemma validate_keeps:
  "keeps i \<lparr>vd = v, run_legs = ls, risk_blocked = False, margin_blocked = False\<rparr> (snd (validate i sid tr_sid ls v))"
  unfolding validate_def by (rule run_gates_keeps) (auto simp: all_gates_def gate_keeps dedup_keeps)

subsection \<open>Sessions\<close>

record request =
  rq_inputs :: inputs
  rq_sid :: string
  rq_strategy :: string
  rq_legs :: "request_leg list"

definition key_of :: "request \<Rightarrow> string" where
  "key_of q = build_collision_key (rq_strategy q) (rq_legs q)"

definition validate_request :: "request \<Rightarrow> validator \<Rightarrow> verdict \<times> run" where
  "validate_request q v = validate (rq_inputs q) (rq_sid q) (rq_strategy q) (rq_legs q) v"

fun validate_all :: "request list \<Rightarrow> validator \<Rightarrow> verdict list \<times> validator" where
  "validate_all [] v = ([], v)"
| "validate_all (q # qs) v =
     (let (x, r) = validate_request q v; (xs, v') = validate_all qs (vd r) in (x # xs, v'))"

text \<open>An invariant that every validation keeps and under which no request of a kind passes.\<close>

lemma session_never_passes:
  assumes "\<And>q v. q \<in> set qs \<Longrightarrow> P v \<Longrightarrow> P (vd (snd (validate_request q v)))"
    and "\<And>q v. q \<in> set qs \<Longrightarrow> P v \<Longrightarrow> B q \<Longrightarrow> \<not> passed (fst (validate_request q v))"
    and "P v"
  shows "\<forall>(q, x) \<in> set (zip qs (fst (validate_all qs v))). B q \<longrightarrow> \<not> passed x"
  using assms
proof (induction qs arbitrary: v)
  case (Cons q qs)
  have "P (vd (snd (validate_request q v)))" using Cons.prems(1) [of q v] Cons.prems(3) by simp
  then have "\<forall>(q', x) \<in> set (zip qs (fst (validate_all qs (vd (snd (validate_request q v)))))). B q' \<longrightarrow> \<not> passed x"
    using Cons.prems(1,2) by (intro Cons.IH) simp_all
  with Cons.prems(2) [of q v] Cons.prems(3) show ?case
    by (auto simp: case_prod_beta)
qed simp

lemma halted_never_passes:
  "halt_flag (pv_flags v) \<Longrightarrow> has_kill_switch v \<Longrightarrow> \<not> passed (fst (validate_request q v))"
  by (simp add: validate_request_def validate_passed_iff admissible_def not_halted_def Let_def)

lemma request_keeps:
  "keeps (rq_inputs q) \<lparr>vd = v, run_legs = rq_legs q, risk_blocked = False, margin_blocked = False\<rparr> (snd (validate_request q v))"
  unfolding validate_request_def by (rule validate_keeps)

lemma halt_lasts:
  "halt_flag (pv_flags v) \<Longrightarrow> has_kill_switch v \<Longrightarrow>
   \<forall>(q, x) \<in> set (zip qs (fst (validate_all qs v))). True \<longrightarrow> \<not> passed x"
  using request_keeps halted_never_passes
  by (intro session_never_passes [where P = "\<lambda>v. halt_flag (pv_flags v) \<and> has_kill_switch v"]) (auto simp: keeps_def)

lemma registered_key_rejects:
  "timestamps (pv_dedup v) (key_of q) = Some t \<Longrightarrow> t_dedup (rq_inputs q) - t < window_s (pv_dedup v) \<Longrightarrow>
   \<not> passed (fst (validate_request q v))"
  by (simp add: validate_request_def validate_passed_iff admissible_def fresh_key_def key_of_def Let_def)

text \<open>The session-loss gate is the only one that raises the halt flag.\<close>

lemma gate_codes:
  "g \<in> set all_gates \<Longrightarrow> g i sid tr_sid c r = (Some x, r') \<Longrightarrow> code x = Some SESSION_LOSS_LIMIT \<Longrightarrow> halt_flag (pv_flags (vd r'))"
  by (auto simp: all_gates_def filter_gate cooldown_gate kill_gate breaker_gate rate_gate flash_gate loss_gate guardian_gate
      symbol_gate margin_gate dedup_gate check_notional_with_bump_def Let_def split: if_splits)

lemma run_gates_loss:
  "set gs \<subseteq> set all_gates \<Longrightarrow> code (fst (run_gates gs i sid tr_sid c r)) = Some SESSION_LOSS_LIMIT \<Longrightarrow>
   halt_flag (pv_flags (vd (snd (run_gates gs i sid tr_sid c r))))"
proof (induction gs arbitrary: r)
  case (Cons g gs)
  obtain a r' where g: "g i sid tr_sid c r = (a, r')" by (cases "g i sid tr_sid c r")
  with Cons gate_codes [of g i sid tr_sid c r] show ?case
    by (cases a) (auto split: if_splits)
qed simp

lemma reject_step:
  "g i sid tr_sid c r = (if P then (None, r1) else (Some v, r2)) \<Longrightarrow> \<not> P \<Longrightarrow> \<not> passed v \<Longrightarrow>
   run_gates (g # gs) i sid tr_sid c r = (v, r2)"
  by simp

lemma loss_rejects:
  assumes "filter_allows sid (is_reduceonly_request ls) v" and "cooldown_over i sid (is_reduceonly_request ls) v"
    and "\<not> halted (rust i) (pv_flags v)" and "breaker_shut v" and "tokens_left i ls v"
    and "flash_check i \<noteq> Some (Returned True)" and "\<not> session_loss i < max_session_loss_usd v"
  shows "code (fst (validate i sid tr_sid ls v)) = Some SESSION_LOSS_LIMIT"
  unfolding validate_def all_gates_def
  by (simp add: accept_steps reject_step [OF loss_gate] assms del: run_gates.simps split del: if_split)

text \<open>An entry that a later gate rejects has stamped its symbols already, so that for the whole cool-down
  no strategy can trade them although nothing was traded.\<close>

lemma fold_stamp: "fold (\<lambda>k m. m(k \<mapsto> t)) ks m k = (if k \<in> set ks then Some t else m k)"
  by (induction ks arbitrary: m) auto

lemma rejected_entry_stamps_symbols:
  assumes "filter_allows sid False v" and "cooldown_over i sid False v" and "\<not> halted (rust i) (pv_flags v)"
    and "breaker_shut v" and "tokens_left i ls v" and "flash_check i \<noteq> Some (Returned True)"
    and "session_loss i < max_session_loss_usd v" and "guardian_allows ls v" and "entry_unlocked i ls v"
    and "\<not> is_reduceonly_request ls" and "\<not> fresh_key i tr_sid ls v" and "k \<in> set (symbol_keys ls)"
  shows "code (fst (validate i sid tr_sid ls v)) = Some DEDUP_COLLISION"
    and "symbol_last_trade (vd (snd (validate i sid tr_sid ls v))) k = Some (t_symbol i)"
  using assms unfolding validate_def all_gates_def
  by (simp_all add: accept_steps reject_step [OF dedup_gate] entry_unlocked_def fold_stamp del: run_gates.simps split del: if_split)

subsection \<open>Rounding\<close>

lemma quantize8_near: "\<bar>quantize8 x - x\<bar> \<le> 1 / 200000000"
proof -
  have "quantize8 x - x = (of_int (round_half_even (x * 100000000)) - x * 100000000) / 100000000"
    by (simp add: quantize8_def field_simps)
  then have "\<bar>quantize8 x - x\<bar> = \<bar>of_int (round_half_even (x * 100000000)) - x * 100000000\<bar> / 100000000"
    by (simp only: abs_divide abs_numeral)
  also have "\<dots> \<le> 1 / 2 / 100000000"
    by (intro divide_right_mono round_half_even_near) simp
  finally show ?thesis by simp
qed

text \<open>The legs the minimum applies to.\<close>

definition usd_priced :: "request_leg \<Rightarrow> bool" where
  "usd_priced l \<longleftrightarrow> (\<exists>p. ol_price l = Some p \<and> 0 < p)
     \<and> CHR ''/'' \<in> set (ol_symbol l) \<and> upper (after_last (CHR ''/'') (ol_symbol l)) \<in> set usd_quotes"

lemma bump_size_iff:
  "bump_size ads l = Some s \<longleftrightarrow> usd_priced l \<and> leg_notional l < min_notional ads (ol_exchange l) (ol_symbol l)
     \<and> s = quantize8 (min_notional ads (ol_exchange l) (ol_symbol l) / the (ol_price l))"
  by (cases "ol_price l")
    (auto simp: bump_size_def usd_priced_def leg_notional_def Let_def usd_quotes_def)

lemma bumped_notional_bump_leg:
  "bump_size ads l = Some s \<Longrightarrow> bumped_notional ads l = Some (leg_notional (bump_leg ads l))"
  by (auto simp: bumped_notional_def bump_leg_def leg_notional_def bump_size_def split: option.splits)

lemma bump_reaches_minimum:
  assumes "usd_priced l"
  shows "min_notional ads (ol_exchange l) (ol_symbol l) \<le> leg_notional (bump_leg ads l) + the (ol_price l) / 200000000"
proof -
  obtain p where p: "ol_price l = Some p" "0 < p" using assms by (auto simp: usd_priced_def)
  let ?m = "min_notional ads (ol_exchange l) (ol_symbol l)"
  show ?thesis
  proof (cases "bump_size ads l")
    case None
    then have "bump_size ads l \<noteq> Some (quantize8 (?m / the (ol_price l)))" by simp
    then have "?m \<le> leg_notional l" using assms by (simp only: bump_size_iff not_less simp_thms)
    with None p show ?thesis by (simp add: bump_leg_def add_increasing2)
  next
    case (Some s)
    then have s: "s = quantize8 (?m / p)" using bump_size_iff [of ads l s] p by simp
    have "?m / p - s \<le> 1 / 200000000" using abs_le_D2 [OF quantize8_near [of "?m / p"]] by (simp only: s minus_diff_eq)
    then have "?m \<le> s * p + p / 200000000" using p(2) by (simp add: field_simps)
    with Some p show ?thesis by (simp add: bump_leg_def leg_notional_def)
  qed
qed

subsection \<open>Properties\<close>

text \<open>C3. The twelve gates are one condition on the state before the call: a request passes exactly when
  its strategy is allowed and not cooling down, nothing is halted, the breaker is not OPEN, every leg
  gets its token, the flash check does not block, the session loss is under the limit, the largest
  leg is within the guardian's share of the capital, no symbol cools down and no futures margin is
  short, its key was not registered within the window, and no bumped leg exceeds the risk cap; an
  exit does not need the strategy, cool-down, symbol and margin conditions.  A request that passes
  leaves with its small legs bumped and its key registered at the time of the check.\<close>

theorem validation_is_conjunction:
  "(passed (fst (validate i sid tr_sid ls v)) \<longleftrightarrow>
      (is_reduceonly_request ls \<or>
         (\<forall>allowed. strategy_filter v = Some allowed \<longrightarrow> sid \<in> set allowed)
         \<and> (\<forall>t. disable_until v sid = Some t \<longrightarrow> t \<le> t_cooldown i)
         \<and> (\<forall>k \<in> set (symbol_keys ls). symbol_cooldown_s v \<le> t_symbol i - (case symbol_last_trade v k of None \<Rightarrow> 0 | Some t \<Rightarrow> t))
         \<and> (\<forall>l \<in> set ls. \<not> margin_short v l))
      \<and> (has_kill_switch v \<or> pv_guardian v \<noteq> None \<longrightarrow> \<not> halted (rust i) (pv_flags v))
      \<and> (\<forall>cb. pv_breaker v = Some cb \<longrightarrow> cb_state cb \<noteq> OPEN)
      \<and> (\<forall>bs. rate_buckets v = Some bs \<longrightarrow> fst (take_tokens (t_bucket i) 0 ls bs))
      \<and> flash_check i \<noteq> Some (Returned True)
      \<and> session_loss i < max_session_loss_usd v
      \<and> (\<forall>g. pv_guardian v = Some g \<longrightarrow> total_capital_usd v \<le> 0
           \<or> (\<forall>l \<in> set ls. leg_notional l \<le> total_capital_usd v * max_single_trade_pct (limits g)))
      \<and> (\<forall>t. timestamps (pv_dedup v) (build_collision_key tr_sid ls) = Some t \<longrightarrow> window_s (pv_dedup v) \<le> t_dedup i - t)
      \<and> (\<forall>l \<in> set ls. \<forall>n. bumped_notional (adapters i) l = Some n \<longrightarrow> n \<le> risk_cap_usd i v))
   \<and> (passed (fst (validate i sid tr_sid ls v)) \<longrightarrow>
        run_legs (snd (validate i sid tr_sid ls v)) = map (bump_leg (adapters i)) ls
        \<and> timestamps (pv_dedup (vd (snd (validate i sid tr_sid ls v)))) (build_collision_key tr_sid ls) = Some (t_dedup i))"
proof -
  have "admissible i sid tr_sid ls v \<longleftrightarrow> (is_reduceonly_request ls \<or> filter_allows sid False v \<and> cooldown_over i sid False v
        \<and> entry_unlocked i ls v)
      \<and> not_halted i v \<and> breaker_shut v \<and> tokens_left i ls v \<and> flash_check i \<noteq> Some (Returned True)
      \<and> session_loss i < max_session_loss_usd v \<and> guardian_allows ls v \<and> fresh_key i tr_sid ls v \<and> bumps_within i ls v"
    by (auto simp: admissible_def filter_allows_def cooldown_over_def Let_def)
  moreover have "filter_allows sid False v \<longleftrightarrow> (\<forall>allowed. strategy_filter v = Some allowed \<longrightarrow> sid \<in> set allowed)"
    "cooldown_over i sid False v \<longleftrightarrow> (\<forall>t. disable_until v sid = Some t \<longrightarrow> t \<le> t_cooldown i)"
    "breaker_shut v \<longleftrightarrow> (\<forall>cb. pv_breaker v = Some cb \<longrightarrow> cb_state cb \<noteq> OPEN)"
    "tokens_left i ls v \<longleftrightarrow> (\<forall>bs. rate_buckets v = Some bs \<longrightarrow> fst (take_tokens (t_bucket i) 0 ls bs))"
    "guardian_allows ls v \<longleftrightarrow> (\<forall>g. pv_guardian v = Some g \<longrightarrow> total_capital_usd v \<le> 0
        \<or> (\<forall>l \<in> set ls. leg_notional l \<le> total_capital_usd v * max_single_trade_pct (limits g)))"
    "fresh_key i tr_sid ls v \<longleftrightarrow> (\<forall>t. timestamps (pv_dedup v) (build_collision_key tr_sid ls) = Some t
        \<longrightarrow> window_s (pv_dedup v) \<le> t_dedup i - t)"
    by (auto simp: gate_conds cb_is_open_def split: option.split)
  ultimately show ?thesis
    unfolding validate_passed_iff
    by (simp add: validate_result entry_unlocked_def not_halted_def bumps_within_def cooling_def not_less cong: conj_cong)
qed

text \<open>C4. No order goes out twice: after a request has passed at time \<open>t\<close>, whatever requests follow, with
  any inputs and verdicts, none with the same collision key (strategy, symbols, exchanges, entry or exit)
  passes while the deduplication clock has not moved on by the window.\<close>

theorem no_duplicate_within_window:
  assumes "passed (fst (validate_request q v))"
    and "\<forall>q' \<in> set qs. t_dedup (rq_inputs q') - t_dedup (rq_inputs q) < window_s (pv_dedup v)"
  shows "\<forall>(q', x) \<in> set (zip qs (fst (validate_all qs (vd (snd (validate_request q v)))))). key_of q' = key_of q \<longrightarrow> \<not> passed x"
proof -
  let ?P = "\<lambda>u. window_s (pv_dedup u) = window_s (pv_dedup v)
    \<and> timestamps (pv_dedup u) (key_of q) = Some (t_dedup (rq_inputs q))"
  have "pv_dedup (vd (snd (validate_request q v)))
      = (pv_dedup v)\<lparr>timestamps := (timestamps (pv_dedup v))(key_of q \<mapsto> t_dedup (rq_inputs q))\<rparr>"
    using assms(1) by (simp add: validate_request_def validate_passed_iff validate_result key_of_def)
  then have "?P (vd (snd (validate_request q v)))" by simp
  moreover have "?P (vd (snd (validate_request q' u)))" if "q' \<in> set qs" "?P u" for q' u
    using that assms(2) request_keeps [of q' u] by (auto simp: keeps_def)
  moreover have "\<not> passed (fst (validate_request q' u))" if "q' \<in> set qs" "?P u" "key_of q' = key_of q" for q' u
    using that assms(2) by (intro registered_key_rejects) auto
  ultimately show ?thesis by (intro session_never_passes [where P = ?P]) blast+
qed

text \<open>C5. Reaching the session-loss limit stops the engine: a request rejected with \<open>SESSION_LOSS_LIMIT\<close>
  leaves the process-wide halt flag set, and from then on, with a kill switch wired in, no request of
  any session, exits included, passes; and the limit rejects every request once the loss has reached it.\<close>

theorem session_loss_stops_trading:
  assumes "has_kill_switch v" and "code (fst (validate_request q v)) = Some SESSION_LOSS_LIMIT"
  shows "halt_flag (pv_flags (vd (snd (validate_request q v))))
    \<and> (\<forall>(q', x) \<in> set (zip qs (fst (validate_all qs (vd (snd (validate_request q v)))))). \<not> passed x)
    \<and> (max_session_loss_usd u \<le> session_loss i \<longrightarrow> \<not> passed (fst (validate i sid tr_sid ls u)))"
proof -
  have h: "halt_flag (pv_flags (vd (snd (validate_request q v))))"
    using assms(2) unfolding validate_request_def validate_def by (intro run_gates_loss) auto
  moreover have "has_kill_switch (vd (snd (validate_request q v)))"
    using request_keeps [of q v] assms(1) by (simp add: keeps_def)
  moreover have "max_session_loss_usd u \<le> session_loss i \<longrightarrow> \<not> passed (fst (validate i sid tr_sid ls u))"
    by (simp add: validate_passed_iff admissible_def Let_def not_less)
  ultimately show ?thesis using halt_lasts [of "vd (snd (validate_request q v))" qs] by simp
qed

text \<open>Bumping is bounded on both sides: in a request that passes, every leg priced in a dollar quote
  reaches the exchange's minimum notional up to the rounding of the size (half of the eighth decimal,
  times the price), a leg that was large enough is unchanged, and a changed leg is worth at most the
  risk cap and differs from the leg that came in only in its size.\<close>

lemma bump_is_bounded:
  assumes "passed (fst (validate i sid tr_sid ls v))" and "l \<in> set ls"
  shows "\<exists>l' \<in> set (run_legs (snd (validate i sid tr_sid ls v))).
      l' = l\<lparr>ol_size := ol_size l'\<rparr>
      \<and> (usd_priced l \<longrightarrow> min_notional (adapters i) (ol_exchange l) (ol_symbol l) \<le> leg_notional l' + the (ol_price l) / 200000000)
      \<and> (\<not> usd_priced l \<or> min_notional (adapters i) (ol_exchange l) (ol_symbol l) \<le> leg_notional l \<longrightarrow> l' = l)
      \<and> (l' \<noteq> l \<longrightarrow> leg_notional l' \<le> risk_cap_usd i v)"
proof (rule bexI [where x = "bump_leg (adapters i) l"])
  have adm: "admissible i sid tr_sid ls v" using assms(1) by (simp add: validate_passed_iff)
  then show "bump_leg (adapters i) l \<in> set (run_legs (snd (validate i sid tr_sid ls v)))"
    using assms(2) by (simp add: validate_result)
  have same: "bump_leg (adapters i) l = l" if "bump_size (adapters i) l = None"
    using that by (simp add: bump_leg_def)
  have none: "bump_size (adapters i) l = None"
    if "\<not> usd_priced l \<or> min_notional (adapters i) (ol_exchange l) (ol_symbol l) \<le> leg_notional l"
    using that bump_size_iff [of "adapters i" l "the (bump_size (adapters i) l)"] by (cases "bump_size (adapters i) l") auto
  have "bump_leg (adapters i) l = l\<lparr>ol_size := ol_size (bump_leg (adapters i) l)\<rparr>"
    by (simp add: bump_leg_def split: option.split)
  moreover have "leg_notional (bump_leg (adapters i) l) \<le> risk_cap_usd i v" if ne: "bump_leg (adapters i) l \<noteq> l"
  proof -
    obtain s where "bump_size (adapters i) l = Some s"
      using ne same by (cases "bump_size (adapters i) l") auto
    from bumped_notional_bump_leg [OF this] adm assms(2) show ?thesis
      by (auto simp: admissible_def bumps_within_def Let_def)
  qed
  ultimately show "bump_leg (adapters i) l = l\<lparr>ol_size := ol_size (bump_leg (adapters i) l)\<rparr>
      \<and> (usd_priced l \<longrightarrow> min_notional (adapters i) (ol_exchange l) (ol_symbol l)
            \<le> leg_notional (bump_leg (adapters i) l) + the (ol_price l) / 200000000)
      \<and> (\<not> usd_priced l \<or> min_notional (adapters i) (ol_exchange l) (ol_symbol l) \<le> leg_notional l \<longrightarrow> bump_leg (adapters i) l = l)
      \<and> (bump_leg (adapters i) l \<noteq> l \<longrightarrow> leg_notional (bump_leg (adapters i) l) \<le> risk_cap_usd i v)"
    using bump_reaches_minimum none same by blast
qed

subsection \<open>A request that is bumped, one that is a duplicate, one that loses too much\<close>

definition ex_validator :: validator where
  "ex_validator = \<lparr>strategy_filter = Some [''ff''], disable_until = Map.empty, has_kill_switch = True,
     pv_flags = initial_flags, pv_breaker = None, rate_buckets = Some Map.empty, pv_guardian = None,
     pv_dedup = dedup_new 10, symbol_last_trade = Map.empty, symbol_cooldown_s = 30,
     cached_margin = Map.empty, total_capital_usd = 120, max_session_loss_usd = 10, cleared_entries = []\<rparr>"

definition ex_inputs_pt :: "secs \<Rightarrow> pyfloat \<Rightarrow> inputs" where
  "ex_inputs_pt t loss = \<lparr>rust = ex_env, t_cooldown = t, t_bucket = (\<lambda>n. (t, t)), flash_check = None, session_loss = loss,
     t_symbol = t, t_dedup = t, adapters = Map.empty, max_position_pct_cfg = 6\<rparr>"

definition ex_request_leg :: request_leg where
  "ex_request_leg = \<lparr>ol_exchange = ''okx'', ol_symbol = ''BTC/USDT'', ol_side = ''buy'', ol_size = 1 / 2, ol_price = Some 8, reduce_only = False\<rparr>"

definition ex_request :: "secs \<Rightarrow> pyfloat \<Rightarrow> request" where
  "ex_request t loss = \<lparr>rq_inputs = ex_inputs_pt t loss, rq_sid = ''ff'', rq_strategy = ''ff'', rq_legs = [ex_request_leg]\<rparr>"

lemma ex_bump: "bump_size Map.empty ex_request_leg = Some (5 / 8)"
  by code_simp

lemma ex_passes: "passed (fst (validate_request (ex_request 100 0) ex_validator))"
proof -
  have "bumped_notional Map.empty ex_request_leg = Some 5"
    by (simp add: bumped_notional_def ex_bump) (simp add: ex_request_leg_def)
  moreover have "bumped_notional (\<lambda>x. None) ex_request_leg = Some 5" by (rule calculation)
  moreover have "\<not> halted ex_env initial_flags" by (simp add: flag_defs ex_env_def initial_flags_def)
  ultimately show ?thesis
    by (simp add: validate_request_def validate_passed_iff admissible_def Let_def ex_request_def ex_inputs_pt_def
        ex_validator_def filter_allows_def cooldown_over_def not_halted_def breaker_shut_def tokens_left_def
        guardian_allows_def entry_unlocked_def symbol_keys_def cooling_def margin_short_def fresh_key_def bumps_within_def
        risk_cap_usd_def dedup_new_def try_acquire_def refill_def bucket_new_def)
qed

theorem validation_is_conjunction_witness:
  "passed (fst (validate (ex_inputs_pt 100 0) ''ff'' ''ff'' [ex_request_leg] ex_validator))
   \<and> map ol_size (run_legs (snd (validate (ex_inputs_pt 100 0) ''ff'' ''ff'' [ex_request_leg] ex_validator))) = [5 / 8]"
proof -
  have "passed (fst (validate (ex_inputs_pt 100 0) ''ff'' ''ff'' [ex_request_leg] ex_validator))"
    using ex_passes by (simp add: validate_request_def ex_request_def)
  with validation_is_conjunction [of "ex_inputs_pt 100 0" "''ff''" "''ff''" "[ex_request_leg]" ex_validator] show ?thesis
    by (simp add: bump_leg_def ex_bump ex_inputs_pt_def)
qed

theorem no_duplicate_within_window_witness:
  "map passed (fst (validate_all [ex_request 109 0] (vd (snd (validate_request (ex_request 100 0) ex_validator))))) = [False]"
proof -
  have "\<forall>q' \<in> set [ex_request 109 0]. t_dedup (rq_inputs q') - t_dedup (rq_inputs (ex_request 100 0)) < window_s (pv_dedup ex_validator)"
    by (simp add: ex_request_def ex_inputs_pt_def ex_validator_def dedup_new_def)
  from no_duplicate_within_window [OF ex_passes this] show ?thesis
    by (simp add: case_prod_beta key_of_def ex_request_def)
qed

theorem session_loss_stops_trading_witness:
  "halt_flag (pv_flags (vd (snd (validate_request (ex_request 100 10) ex_validator))))"
proof -
  have "code (fst (validate_request (ex_request 100 10) ex_validator)) = Some SESSION_LOSS_LIMIT"
    unfolding validate_request_def
    by (rule loss_rejects) (simp_all add: ex_request_def ex_inputs_pt_def ex_validator_def filter_allows_def
        cooldown_over_def breaker_shut_def tokens_left_def try_acquire_def refill_def bucket_new_def
        flag_defs ex_env_def initial_flags_def)
  moreover have "has_kill_switch ex_validator" by (simp add: ex_validator_def)
  ultimately show ?thesis using session_loss_stops_trading [of ex_validator "ex_request 100 10" "[]"] by blast
qed

lemma bump_is_bounded_witness:
  "\<exists>l' \<in> set (run_legs (snd (validate (ex_inputs_pt 100 0) ''ff'' ''ff'' [ex_request_leg] ex_validator))).
     5 \<le> leg_notional l' + 8 / 200000000"
proof -
  have p: "passed (fst (validate (ex_inputs_pt 100 0) ''ff'' ''ff'' [ex_request_leg] ex_validator))"
    using ex_passes by (simp add: validate_request_def ex_request_def)
  have "usd_priced ex_request_leg"
    using bump_size_iff [of Map.empty ex_request_leg "5 / 8"] ex_bump by simp
  with bump_is_bounded [OF p, of ex_request_leg] show ?thesis
    by (auto simp: min_notional_def ex_inputs_pt_def ex_request_leg_def)
qed

end
