(* ===== verification/ExecutorCore.thy ===== *)
theory ExecutorCore
  imports KillSwitch OrderState Stranded MarginTracker Dedup
begin

text \<open>
  \<open>engine/src/execution/executor.py\<close>, the parts its three executions share: orders, trades, the split of
  a large order into chunks, the rollback of one order.  The executor is one state: its own dictionary of
  rollbacks and its locks with the deduplication gate, the margin tracker, the stranded tracker and the
  halt flag it shares.  What an adapter answers to the n-th call, and what really filled, is given by
  the world; every call, every registration of a stranded position, every halt and every transition asked
  of the state machine is recorded in a log.  A clock reading is indexed by the number of readings before
  it.  Payloads, latencies, logs and the numbers printed in error texts are left out.
\<close>

datatype order_side = BUY | SELL

fun side_text :: "order_side \<Rightarrow> string" where
  "side_text BUY = ''buy''"
| "side_text SELL = ''sell''"

fun opposite :: "order_side \<Rightarrow> order_side" where
  "opposite BUY = SELL"
| "opposite SELL = BUY"

record x_order =
  xo_id :: "string option"
  xo_exchange :: string
  xo_symbol :: string
  xo_side :: order_side
  xo_market :: bool
  xo_price :: "decimal option"
  xo_amount :: decimal
  xo_reduce_only :: bool

record x_trade =
  xt_id :: string
  xt_order_id :: "string option"
  xt_price :: decimal
  xt_amount :: decimal
  xt_fee :: decimal

record leg_result =
  lr_order :: x_order
  lr_trade :: "x_trade option"
  lr_error :: "string option"

definition filled_amount :: "leg_result \<Rightarrow> decimal" where
  "filled_amount l = (case lr_trade l of None \<Rightarrow> 0 | Some t \<Rightarrow> xt_amount t)"

definition fill_ratio :: "leg_result \<Rightarrow> decimal \<Rightarrow> decimal" where
  "fill_ratio l requested = (if requested \<le> 0 then 0 else filled_amount l / requested)"

definition has_fill :: "leg_result \<Rightarrow> bool" where
  "has_fill l \<longleftrightarrow> lr_trade l \<noteq> None \<and> filled_amount l > 0"

datatype x_status = ES_SUCCESS | ES_REJECTED | ES_ROLLED_BACK | ES_ROLLBACK_FAILED | ES_TIMEOUT

record x_result =
  xr_status :: x_status
  xr_legs :: "leg_result list"
  xr_error :: string
  xr_strategy :: string

record x_config =
  partial_fill_threshold :: decimal
  per_exchange_budget_usd :: decimal
  health_threshold :: pyfloat
  split_threshold_usd :: decimal
  split_max_chunks :: nat
  min_trade_notional_usd :: decimal

datatype x_event =
    Placed string x_order "x_trade outcome" decimal
  | CancelAsked string string "bool outcome"
  | Registered string string string pyfloat pyfloat string bool
  | HaltRaised
  | Marked string order_state order_state

record x_state =
  x_rollbacks :: "(string, string) dict"
  x_locks :: "string list"
  x_dedup :: dedup_gate
  x_margin :: margin_tracker
  x_stranded :: stranded_tracker
  x_flags :: halt_flags
  x_calls :: nat
  x_readings :: nat
  x_log :: "x_event list"

text \<open>The book of the edge re-check: absent, an exception, a book whose best prices are attributes, or one
  whose best prices are methods (\<open>core/order_book.py\<close>), whose comparison with 0 raises.\<close>

datatype recheck_book = NoBook | BookFails | PriceBook "decimal option" "decimal option" | MethodBook

record x_world =
  w_config :: x_config
  w_rust :: rust_env
  w_health :: "string \<Rightarrow> pyfloat option"
  w_machine :: bool
  w_clock :: "nat \<Rightarrow> secs"
  w_place :: "nat \<Rightarrow> x_trade outcome"
  w_real :: "nat \<Rightarrow> decimal"
  w_cancel :: "nat \<Rightarrow> bool outcome"
  w_step :: "nat \<Rightarrow> decimal outcome"
  w_halted_meanwhile :: bool
  w_ws_book :: recheck_book
  w_rest_book :: recheck_book

subsection \<open>The shared parts\<close>

definition record_event :: "x_event \<Rightarrow> x_state \<Rightarrow> x_state" where
  "record_event e s = s\<lparr>x_log := x_log s @ [e]\<rparr>"

definition maybe_transition :: "x_world \<Rightarrow> string option \<Rightarrow> order_state \<Rightarrow> order_state \<Rightarrow> x_state \<Rightarrow> x_state" where
  "maybe_transition w oid src dst s =
     (case oid of
        None \<Rightarrow> s
      | Some i \<Rightarrow> if \<not> w_machine w \<or> i = [] then s else record_event (Marked i src dst) s)"

definition check_halt :: "x_world \<Rightarrow> x_state \<Rightarrow> bool \<times> x_state" where
  "check_halt w s = (let (h, f) = KillSwitch.is_halted (w_rust w) (x_flags s) in (h, s\<lparr>x_flags := f\<rparr>))"

definition raise_halt :: "x_world \<Rightarrow> x_state \<Rightarrow> x_state" where
  "raise_halt w s = record_event HaltRaised (s\<lparr>x_flags := halt_local (w_rust w) (x_flags s)\<rparr>)"

definition check_health :: "x_world \<Rightarrow> string \<Rightarrow> bool" where
  "check_health w ex = (case w_health w ex of None \<Rightarrow> False | Some h \<Rightarrow> h \<ge> health_threshold (w_config w))"

definition tracker_register ::
    "x_world \<Rightarrow> string \<Rightarrow> string \<Rightarrow> string \<Rightarrow> pyfloat \<Rightarrow> pyfloat \<Rightarrow> string \<Rightarrow> x_state \<Rightarrow> bool \<times> x_state" where
  "tracker_register w ex symb side sz val reason s =
     (let n = x_readings s;
          (halt, fwd, T) = register (w_clock w n) (w_clock w (n + 1)) ex symb side sz val reason (x_stranded s)
      in (halt, record_event (Registered ex symb side sz val reason halt)
            (s\<lparr>x_stranded := T, x_readings := n + 2\<rparr>)))"

text \<open>Acquiring the locks ends when they are free; another task may have raised the halt flag meanwhile.\<close>

definition acquire_locks :: "x_world \<Rightarrow> string list \<Rightarrow> x_state \<Rightarrow> x_state" where
  "acquire_locks w exs s =
     s\<lparr>x_locks := x_locks s @ exs,
       x_flags := (if w_halted_meanwhile w then halt_local (w_rust w) (x_flags s) else x_flags s)\<rparr>"

definition release_lock :: "string \<Rightarrow> x_state \<Rightarrow> x_state" where
  "release_lock ex s = s\<lparr>x_locks := filter (\<lambda>e. e \<noteq> ex) (x_locks s)\<rparr>"

definition reserve_margin :: "x_world \<Rightarrow> string \<Rightarrow> decimal \<Rightarrow> x_state \<Rightarrow> bool \<times> x_state" where
  "reserve_margin w ex required s =
     (let n = x_readings s;
          (ok, M) = check_and_reserve (w_clock w n) (w_clock w (n + 1)) (w_clock w (n + 2)) ex required
                      (per_exchange_budget_usd (w_config w)) (x_margin s)
      in (ok, s\<lparr>x_margin := M, x_readings := n + 3\<rparr>))"

definition release_margin :: "x_world \<Rightarrow> bool \<Rightarrow> string \<Rightarrow> decimal \<Rightarrow> x_state \<Rightarrow> x_state" where
  "release_margin w reserved ex required s =
     (if reserved
      then s\<lparr>x_margin := margin_release (w_clock w (x_readings s)) ex required (x_margin s), x_readings := x_readings s + 1\<rparr>
      else s)"

definition ask_dedup :: "x_world \<Rightarrow> string \<Rightarrow> x_state \<Rightarrow> bool \<times> x_state" where
  "ask_dedup w key s =
     (let (ok, d) = check_and_register (w_clock w (x_readings s)) key (x_dedup s)
      in (ok, s\<lparr>x_dedup := d, x_readings := x_readings s + 1\<rparr>))"

definition ask_step :: "x_world \<Rightarrow> x_state \<Rightarrow> decimal outcome \<times> x_state" where
  "ask_step w s = (w_step w (x_calls s), s\<lparr>x_calls := x_calls s + 1\<rparr>)"

definition place_with_timeout :: "x_world \<Rightarrow> string \<Rightarrow> x_order \<Rightarrow> x_state \<Rightarrow> x_trade outcome \<times> x_state" where
  "place_with_timeout w ex od s =
     (let n = x_calls s
      in (w_place w n, record_event (Placed ex od (w_place w n) (w_real w n)) (s\<lparr>x_calls := n + 1\<rparr>)))"

definition cancel_order :: "x_world \<Rightarrow> string \<Rightarrow> string \<Rightarrow> x_state \<Rightarrow> bool outcome \<times> x_state" where
  "cancel_order w ex oid s =
     (let n = x_calls s
      in (w_cancel w n, record_event (CancelAsked ex oid (w_cancel w n)) (s\<lparr>x_calls := n + 1\<rparr>)))"

subsection \<open>Splitting\<close>

text \<open>\<open>(x // y) * y\<close> truncates towards zero.\<close>

definition floor_to :: "decimal \<Rightarrow> decimal \<Rightarrow> decimal" where
  "floor_to step x = (if x \<ge> 0 then of_int \<lfloor>x / step\<rfloor> else of_int \<lceil>x / step\<rceil>) * step"

record split_sum =
  sp_qty :: decimal
  sp_cost :: decimal
  sp_fee :: decimal
  sp_last :: "x_trade option"

definition chunk_order :: "x_order \<Rightarrow> decimal \<Rightarrow> nat \<Rightarrow> x_order" where
  "chunk_order od qty i =
     od\<lparr>xo_amount := qty,
       xo_id := Some ((case xo_id od of None \<Rightarrow> ''split'' | Some s \<Rightarrow> if s = [] then ''split'' else s) @ ''-'' @ nat_text i)\<rparr>"

text \<open>\<open>k\<close> chunks of \<open>n\<close> are left; \<open>Inl\<close> is the exception of a first chunk that failed.\<close>

fun split_loop ::
    "x_world \<Rightarrow> string \<Rightarrow> x_order \<Rightarrow> decimal \<Rightarrow> decimal \<Rightarrow> nat \<Rightarrow> nat \<Rightarrow> decimal \<Rightarrow> split_sum \<Rightarrow> x_state \<Rightarrow>
     (x_trade outcome + split_sum) \<times> x_state" where
  "split_loop w ex od step chunk n 0 remaining acc s = (Inr acc, s)"
| "split_loop w ex od step chunk n (Suc k) remaining acc s =
     (let qty0 = (if k = 0 then remaining else min chunk remaining);
          qty = (if step > 0 then floor_to step qty0 else qty0)
      in if qty \<le> 0 then (Inr acc, s)
         else let (r, s1) = place_with_timeout w ex (chunk_order od qty (n - Suc k)) s
              in case r of
                   Returned t \<Rightarrow>
                     split_loop w ex od step chunk n k (remaining - xt_amount t)
                       \<lparr>sp_qty = sp_qty acc + xt_amount t, sp_cost = sp_cost acc + xt_amount t * xt_price t,
                        sp_fee = sp_fee acc + xt_fee t, sp_last = Some t\<rparr> s1
                 | _ \<Rightarrow> if sp_last acc \<noteq> None then (Inr acc, s1) else (Inl r, s1))"

definition chunk_count :: "x_config \<Rightarrow> decimal \<Rightarrow> nat" where
  "chunk_count cfg notional = min (split_max_chunks cfg) (max 1 (nat \<lfloor>notional / split_threshold_usd cfg\<rfloor> + 1))"

definition place_maybe_split :: "x_world \<Rightarrow> string \<Rightarrow> x_order \<Rightarrow> x_state \<Rightarrow> x_trade outcome \<times> x_state" where
  "place_maybe_split w ex od s =
     (case xo_price od of
        None \<Rightarrow> place_with_timeout w ex od s
      | Some p \<Rightarrow>
          let notional = xo_amount od * p; n = chunk_count (w_config w) notional
          in if p \<le> 0 \<or> notional \<le> split_threshold_usd (w_config w) \<or> n \<le> 1 then place_with_timeout w ex od s
             else let (r, s1) = ask_step w s;
                      step = (case r of Returned x \<Rightarrow> x | _ \<Rightarrow> 0);
                      chunk0 = xo_amount od / of_nat n;
                      chunk = (if step > 0 then floor_to step chunk0 else chunk0)
                  in if chunk \<le> 0 then place_with_timeout w ex od s1
                     else case split_loop w ex od step chunk n n (xo_amount od) \<lparr>sp_qty = 0, sp_cost = 0, sp_fee = 0, sp_last = None\<rparr> s1 of
                            (Inl r, s2) \<Rightarrow> (r, s2)
                          | (Inr acc, s2) \<Rightarrow>
                              (case sp_last acc of
                                 None \<Rightarrow> place_with_timeout w ex od s2
                               | Some t \<Rightarrow>
                                   if sp_qty acc \<le> 0 then place_with_timeout w ex od s2
                                   else (Returned \<lparr>xt_id = ''split-'' @ xt_id t, xt_order_id = xo_id od,
                                           xt_price = sp_cost acc / sp_qty acc, xt_amount = sp_qty acc, xt_fee = sp_fee acc\<rparr>, s2)))"

subsection \<open>Rollback of one order\<close>

definition remember_rollback :: "string option \<Rightarrow> string \<Rightarrow> x_state \<Rightarrow> x_state" where
  "remember_rollback oid v s =
     (case oid of
        None \<Rightarrow> s
      | Some i \<Rightarrow>
          if i = [] then s
          else let d = (if length (x_rollbacks s) \<ge> 5000 then drop 1000 (x_rollbacks s) else x_rollbacks s)
               in s\<lparr>x_rollbacks := AList.update i v d\<rparr>)"

definition already_rolled_back :: "x_order \<Rightarrow> x_state \<Rightarrow> bool" where
  "already_rolled_back od s \<longleftrightarrow>
     (case xo_id od of None \<Rightarrow> False | Some i \<Rightarrow> i \<noteq> [] \<and> map_of (x_rollbacks s) i = Some ''success'')"

definition id_text :: "string option \<Rightarrow> string" where
  "id_text oid = (case oid of None \<Rightarrow> ''None'' | Some i \<Rightarrow> i)"

definition unwind_order :: "string \<Rightarrow> x_order \<Rightarrow> decimal \<Rightarrow> x_order" where
  "unwind_order ex od qty =
     \<lparr>xo_id = Some (''unwind-'' @ id_text (xo_id od)), xo_exchange = ex, xo_symbol = xo_symbol od,
      xo_side = opposite (xo_side od), xo_market = True, xo_price = None, xo_amount = qty, xo_reduce_only = True\<rparr>"

definition price_or_0 :: "x_order \<Rightarrow> decimal" where
  "price_or_0 od = (case xo_price od of None \<Rightarrow> 0 | Some p \<Rightarrow> p)"

text \<open>The order id a cancel uses: \<open>order_id or order.order_id\<close>.\<close>

definition effective_id :: "string option \<Rightarrow> x_order \<Rightarrow> string" where
  "effective_id oid od =
     (case oid of Some i \<Rightarrow> if i \<noteq> [] then i else (case xo_id od of None \<Rightarrow> [] | Some j \<Rightarrow> j)
      | None \<Rightarrow> (case xo_id od of None \<Rightarrow> [] | Some j \<Rightarrow> j))"

definition unwind_filled :: "x_world \<Rightarrow> string \<Rightarrow> x_order \<Rightarrow> decimal \<Rightarrow> x_state \<Rightarrow> (bool \<times> string) \<times> x_state" where
  "unwind_filled w ex od qty s =
     (let (r, s1) = place_with_timeout w ex (unwind_order ex od qty) s
      in case r of
           Returned t \<Rightarrow>
             if xt_amount t < qty * (95 / 100)
             then let residual = qty - xt_amount t;
                      (halt, s2) = tracker_register w ex (xo_symbol od) (side_text (opposite (xo_side od))) residual
                        (residual * price_or_0 od) ''rollback_partial_fill'' s1
                  in ((False, ''rollback_partial_fill''), s2)
             else ((True, []), remember_rollback (xo_id od) ''success'' s1)
         | TimedOut \<Rightarrow> ((False, []), remember_rollback (xo_id od) ''failed'' s1)
         | Raised e \<Rightarrow> ((False, e), remember_rollback (xo_id od) ''failed'' s1))"

definition cancel_unfilled :: "x_world \<Rightarrow> string \<Rightarrow> x_order \<Rightarrow> string option \<Rightarrow> x_state \<Rightarrow> (bool \<times> string) \<times> x_state" where
  "cancel_unfilled w ex od oid s =
     (let i = effective_id oid od
      in if i = [] then ((True, []), remember_rollback (xo_id od) ''success'' s)
         else let (r, s1) = cancel_order w ex i s
              in case r of
                   Returned True \<Rightarrow> ((True, []), remember_rollback (xo_id od) ''success'' s1)
                 | Returned False \<Rightarrow>
                     ((False, ''cancel_returned_false:'' @ i),
                      (case xo_id od of
                         None \<Rightarrow> s1
                       | Some j \<Rightarrow> if j = [] then s1 else s1\<lparr>x_rollbacks := AList.update j ''failed'' (x_rollbacks s1)\<rparr>))
                 | TimedOut \<Rightarrow> ((False, []), remember_rollback (xo_id od) ''failed'' s1)
                 | Raised e \<Rightarrow> ((False, e), remember_rollback (xo_id od) ''failed'' s1))"

definition rollback_order ::
    "x_world \<Rightarrow> string \<Rightarrow> x_order \<Rightarrow> string option \<Rightarrow> bool \<Rightarrow> decimal option \<Rightarrow> x_state \<Rightarrow> (bool \<times> string) \<times> x_state" where
  "rollback_order w ex od oid filled amt s =
     (if already_rolled_back od s then ((True, ''dedup_skipped''), s)
      else if w_health w ex = None then ((False, ''no adapter''), s)
      else if filled then unwind_filled w ex od (case amt of None \<Rightarrow> xo_amount od | Some q \<Rightarrow> q) s
      else cancel_unfilled w ex od oid s)"

text \<open>Registration of an order that could not be rolled back, with the halt the tracker asks for.\<close>

definition strand_order :: "x_world \<Rightarrow> string \<Rightarrow> x_order \<Rightarrow> string \<Rightarrow> x_state \<Rightarrow> bool \<times> x_state" where
  "strand_order w ex od reason s =
     tracker_register w ex (xo_symbol od) (side_text (xo_side od)) (xo_amount od) (xo_amount od * price_or_0 od) reason s"

definition strand_and_halt :: "x_world \<Rightarrow> string \<Rightarrow> x_order \<Rightarrow> string \<Rightarrow> x_state \<Rightarrow> x_state" where
  "strand_and_halt w ex od reason s =
     (let (halt, s1) = strand_order w ex od reason s in if halt then raise_halt w s1 else s1)"

definition rejected_result :: "string \<Rightarrow> string \<Rightarrow> x_result" where
  "rejected_result err sid = \<lparr>xr_status = ES_REJECTED, xr_legs = [], xr_error = err, xr_strategy = sid\<rparr>"

definition result :: "x_status \<Rightarrow> leg_result list \<Rightarrow> string \<Rightarrow> string \<Rightarrow> x_result" where
  "result st ls err sid = \<lparr>xr_status = st, xr_legs = ls, xr_error = err, xr_strategy = sid\<rparr>"

end
