(* ===== verification/Executor.thy ===== *)
theory Executor
  imports ExecutorCore
begin

text \<open>
  \<open>engine/src/execution/executor.py\<close>: the three executions of the live path, with the routing to them
  in \<open>modes/live.py\<close>.  Two legs on one exchange are submitted together; the two submissions share
  nothing but the log, so the model runs one after the other.  Several legs on one exchange run in
  sequence, two legs on two exchanges by the protocol of fourteen steps.  A cross-exchange execution
  whose two exchanges are the same one waits for its own lock and never returns: its result is
  \<open>None\<close>.  The reconciliation five seconds later is modelled by what it reports.
\<close>

definition both_close :: "x_order \<Rightarrow> x_order \<Rightarrow> bool" where
  "both_close o1 o2 \<longleftrightarrow> xo_reduce_only o1 \<and> xo_reduce_only o2"

definition dedup_key :: "string \<Rightarrow> x_order \<Rightarrow> x_order \<Rightarrow> string" where
  "dedup_key sid o1 o2 = sid @ '':'' @ xo_symbol o1 @ '':'' @ (if both_close o1 o2 then ''close'' else ''open'')"

definition notional_of :: "x_order \<Rightarrow> decimal" where
  "notional_of od = (case xo_price od of None \<Rightarrow> 0 | Some p \<Rightarrow> p * xo_amount od)"

definition leg_of :: "x_order \<Rightarrow> x_trade outcome \<Rightarrow> leg_result" where
  "leg_of od r =
     (case r of
        Returned t \<Rightarrow> \<lparr>lr_order = od, lr_trade = Some t, lr_error = None\<rparr>
      | TimedOut \<Rightarrow> \<lparr>lr_order = od, lr_trade = None, lr_error = Some []\<rparr>
      | Raised e \<Rightarrow> \<lparr>lr_order = od, lr_trade = None, lr_error = Some e\<rparr>)"

text \<open>An error that is not the empty text.\<close>

definition has_error :: "leg_result \<Rightarrow> bool" where
  "has_error l \<longleftrightarrow> (case lr_error l of None \<Rightarrow> False | Some e \<Rightarrow> e \<noteq> [])"

subsection \<open>Two legs on one exchange\<close>

definition mark_leg :: "x_world \<Rightarrow> x_order \<Rightarrow> x_trade outcome \<Rightarrow> x_state \<Rightarrow> x_state" where
  "mark_leg w od r s =
     (case r of
        Returned t \<Rightarrow> maybe_transition w (xo_id od) ACKED FILLED (maybe_transition w (xo_id od) SENT ACKED s)
      | _ \<Rightarrow> maybe_transition w (xo_id od) SENT REJECTED s)"

definition below_threshold :: "x_world \<Rightarrow> x_order \<Rightarrow> x_trade outcome \<Rightarrow> bool" where
  "below_threshold w od r \<longleftrightarrow>
     (case r of Returned t \<Rightarrow> fill_ratio (leg_of od r) (xo_amount od) < partial_fill_threshold (w_config w) | _ \<Rightarrow> False)"

text \<open>The registration of one leg whose rollback failed.\<close>

definition strand_failed :: "x_world \<Rightarrow> string \<Rightarrow> x_order \<Rightarrow> bool \<times> string \<Rightarrow> x_state \<Rightarrow> bool \<times> x_state" where
  "strand_failed w ex od rb s =
     (if fst rb then (False, s)
      else let (halt, s1) = strand_order w ex od (snd rb) s
           in (halt, maybe_transition w (xo_id od) ACKED STRANDED s1))"

definition rollback_same ::
    "x_world \<Rightarrow> string \<Rightarrow> x_order \<Rightarrow> x_order \<Rightarrow> leg_result \<Rightarrow> leg_result \<Rightarrow> string \<Rightarrow> x_state \<Rightarrow> x_result \<times> x_state" where
  "rollback_same w ex o1 o2 l1 l2 sid s =
     (let (rb1, s1) = rollback_order w ex o1 None (has_fill l1) (Some (filled_amount l1)) s;
          (rb2, s2) = rollback_order w ex o2 None (has_fill l2) (Some (filled_amount l2)) s1
      in if fst rb1 \<and> fst rb2
         then let s3 = (if has_fill l1 then maybe_transition w (xo_id o1) ACKED ROLLED_BACK s2 else s2);
                  s4 = (if has_fill l2 then maybe_transition w (xo_id o2) ACKED ROLLED_BACK s3 else s3)
              in (result ES_ROLLED_BACK [l1, l2] [] sid, s4)
         else let (h1, s3) = strand_failed w ex o1 rb1 s2; (h2, s4) = strand_failed w ex o2 rb2 s3;
                  s5 = (if h1 \<or> h2 then raise_halt w s4 else s4)
              in (result ES_ROLLBACK_FAILED [l1, l2]
                    (if h1 \<or> h2 then ''Rollback failed - engine halted'' else ''Rollback failed - stranded alert'') sid, s5))"

definition same_body :: "x_world \<Rightarrow> string \<Rightarrow> x_order \<Rightarrow> x_order \<Rightarrow> string \<Rightarrow> x_state \<Rightarrow> x_result \<times> x_state" where
  "same_body w ex o1 o2 sid s =
     (let (h, s0) = check_halt w s
      in if h then (rejected_result ''Engine halted (pre-leg1 TOCTOU check)'' sid, s0)
         else let s1 = maybe_transition w (xo_id o2) PENDING SENT (maybe_transition w (xo_id o1) PENDING SENT s0);
                  (r1, s2) = place_maybe_split w ex o1 s1; (r2, s3) = place_maybe_split w ex o2 s2;
                  s4 = mark_leg w o2 r2 (mark_leg w o1 r1 s3)
              in if \<not> succeeded r1 \<or> \<not> succeeded r2 \<or> below_threshold w o1 r1 \<or> below_threshold w o2 r2
                 then rollback_same w ex o1 o2 (leg_of o1 r1) (leg_of o2 r2) sid s4
                 else (result ES_SUCCESS [leg_of o1 r1, leg_of o2 r2] [] sid, s4))"

definition execute_same_exchange ::
    "x_world \<Rightarrow> string \<Rightarrow> x_order \<Rightarrow> x_order \<Rightarrow> string \<Rightarrow> x_state \<Rightarrow> x_result \<times> x_state" where
  "execute_same_exchange w ex o1 o2 sid s =
     (let (h, s1) = check_halt w s
      in if h then (rejected_result ''Engine halted'' sid, s1)
         else let (ok, s2) = ask_dedup w (dedup_key sid o1 o2) s1
         in if \<not> ok then (rejected_result ''dedup_gate_blocked'' sid, s2)
         else if \<not> check_health w ex then (rejected_result (''Exchange '' @ ex @ '' health below threshold'') sid, s2)
         else let required = notional_of o1 + notional_of o2; entry = (\<not> both_close o1 o2);
                  (ok_m, s3) = (if entry then reserve_margin w ex required s2 else (True, s2))
         in if \<not> ok_m then (rejected_result ''margin_tracker_blocked'' sid, s3)
         else let (res, s4) = same_body w ex o1 o2 sid (acquire_locks w [ex] s3)
              in (res, release_margin w entry ex required (release_lock ex s4)))"

subsection \<open>Several legs on one exchange\<close>

text \<open>The rollback of the completed legs, last first; the reason of the last failure is kept.\<close>

fun rollback_legs :: "x_world \<Rightarrow> string \<Rightarrow> leg_result list \<Rightarrow> bool \<times> string \<Rightarrow> x_state \<Rightarrow> (bool \<times> string) \<times> x_state" where
  "rollback_legs w ex [] acc s = (acc, s)"
| "rollback_legs w ex (l # ls) acc s =
     (let (rb, s1) = rollback_order w ex (lr_order l) None True (Some (filled_amount l)) s
      in rollback_legs w ex ls (if fst rb then acc else (False, snd rb)) s1)"

definition abort_multi :: "x_world \<Rightarrow> string \<Rightarrow> leg_result list \<Rightarrow> string \<Rightarrow> string \<Rightarrow> x_state \<Rightarrow> x_result \<times> x_state" where
  "abort_multi w ex completed why sid s =
     (let (rb, s1) = rollback_legs w ex (rev completed) (True, []) s
      in if fst rb then (result ES_ROLLED_BACK completed why sid, s1)
         else if completed = []
         then let (halt, s2) = tracker_register w ex ''unknown'' ''unknown'' 0 0 (snd rb) s1
              in (result ES_ROLLBACK_FAILED completed (''Rollback failed. '' @ why) sid, if halt then raise_halt w s2 else s2)
         else (result ES_ROLLBACK_FAILED completed (''Rollback failed. '' @ why) sid,
               strand_and_halt w ex (lr_order (last completed)) (snd rb) s1))"

fun run_legs_in_order :: "x_world \<Rightarrow> string \<Rightarrow> x_order list \<Rightarrow> leg_result list \<Rightarrow> string \<Rightarrow> x_state \<Rightarrow> x_result \<times> x_state" where
  "run_legs_in_order w ex [] completed sid s = (result ES_SUCCESS completed [] sid, s)"
| "run_legs_in_order w ex (od # ods) completed sid s =
     (let (r, s1) = place_maybe_split w ex od s
      in case r of
           TimedOut \<Rightarrow> abort_multi w ex completed ''timeout'' sid s1
         | Raised e \<Rightarrow> abort_multi w ex completed e sid s1
         | Returned t \<Rightarrow>
             let completed' = completed @ [leg_of od r]
             in if fill_ratio (leg_of od r) (xo_amount od) < partial_fill_threshold (w_config w)
                then abort_multi w ex completed' ''partial fill below threshold'' sid s1
                else run_legs_in_order w ex ods completed' sid s1)"

definition execute_multi_leg :: "x_world \<Rightarrow> string \<Rightarrow> x_order list \<Rightarrow> string \<Rightarrow> x_state \<Rightarrow> x_result \<times> x_state" where
  "execute_multi_leg w ex ods sid s =
     (let (h, s1) = check_halt w s
      in if h then (rejected_result ''Engine halted'' sid, s1)
         else if \<not> check_health w ex then (rejected_result (''Exchange '' @ ex @ '' health below threshold'') sid, s1)
         else let (res, s2) = run_legs_in_order w ex ods [] sid (acquire_locks w [ex] s1)
              in (res, release_lock ex s2))"

subsection \<open>Two legs on two exchanges\<close>

text \<open>The rollback of both legs (step 12).\<close>

definition rollback_leg2 :: "x_world \<Rightarrow> leg_result \<Rightarrow> x_state \<Rightarrow> bool \<times> x_state" where
  "rollback_leg2 w l2 s =
     (let o2 = lr_order l2; ex_b = xo_exchange o2
      in if has_fill l2
         then let (rb, s1) = rollback_order w ex_b o2 (case lr_trade l2 of None \<Rightarrow> None | Some t \<Rightarrow> xt_order_id t) True
                    (Some (filled_amount l2)) s
              in if fst rb then (False, s1)
                 else tracker_register w ex_b (xo_symbol o2) (side_text (xo_side o2)) (filled_amount l2)
                        (filled_amount l2 * price_or_0 o2) (''leg2_partial_fill_rollback_failed:'' @ snd rb) s1
         else if has_error l2
         then (False, snd (rollback_order w ex_b o2 None False None (maybe_transition w (xo_id o2) SENT REJECTED s)))
         else (False, s))"

definition rollback_leg1 ::
    "x_world \<Rightarrow> string \<Rightarrow> x_order \<Rightarrow> leg_result \<Rightarrow> leg_result \<Rightarrow> bool \<Rightarrow> string \<Rightarrow> string \<Rightarrow> x_state \<Rightarrow> x_result \<times> x_state" where
  "rollback_leg1 w ex_a o1 l1 l2 leg2_halt sid why s =
     (let (rb, s1) = rollback_order w ex_a o1 (case lr_trade l1 of None \<Rightarrow> None | Some t \<Rightarrow> xt_order_id t)
             (has_fill l1) (Some (filled_amount l1)) s
      in if \<not> fst rb
         then let s2 = strand_and_halt w ex_a o1 (snd rb) s1
              in (result ES_ROLLBACK_FAILED [l1, l2] (''Rollback failed on '' @ ex_a @ ''. Reason: '' @ why) sid,
                  maybe_transition w (xo_id o1) (if has_fill l1 then ACKED else SENT) STRANDED s2)
         else if leg2_halt
         then (result ES_ROLLBACK_FAILED [l1, l2] (''Leg2 rollback failed. Reason: '' @ why) sid, raise_halt w s1)
         else let s2 = (if has_fill l1 then maybe_transition w (xo_id o1) ACKED ROLLED_BACK s1 else s1);
                  s3 = (if has_fill l2 then maybe_transition w (xo_id (lr_order l2)) ACKED ROLLED_BACK s2 else s2)
              in (result ES_ROLLED_BACK [l1, l2] why sid, s3))"

definition do_rollback_cross ::
    "x_world \<Rightarrow> string \<Rightarrow> x_order \<Rightarrow> leg_result \<Rightarrow> leg_result \<Rightarrow> string \<Rightarrow> string \<Rightarrow> x_state \<Rightarrow> x_result \<times> x_state" where
  "do_rollback_cross w ex_a o1 l1 l2 sid why s =
     (let (leg2_halt, s1) = rollback_leg2 w l2 s
      in if xo_reduce_only o1 \<and> has_fill l1
         then let o2 = lr_order l2;
                  (halt, s2) = tracker_register w (xo_exchange o2) (xo_symbol o1) (side_text (xo_side o2)) (filled_amount l1)
                    (filled_amount l1 * price_or_0 o1) (''exit_leg1_filled_leg2_failed_short_stranded:'' @ why) s1
              in (result ES_ROLLBACK_FAILED [l1, l2] (''Exit leg1 filled, leg2 failed - unclosed short stranded on '' @ xo_exchange o2 @ '': '' @ why) sid,
                  if halt then raise_halt w s2 else s2)
         else rollback_leg1 w ex_a o1 l1 l2 leg2_halt sid why s1)"

text \<open>Leg 1 gave no answer: \<open>tag\<close> is \<open>timeout\<close> or \<open>exception\<close>, \<open>err\<close> the error of the leg and \<open>why\<close> that
  of the result.\<close>

definition leg1_unanswered ::
    "x_world \<Rightarrow> string \<Rightarrow> x_order \<Rightarrow> string \<Rightarrow> string \<Rightarrow> string \<Rightarrow> string \<Rightarrow> x_state \<Rightarrow> x_result \<times> x_state" where
  "leg1_unanswered w ex_a o1 tag err why sid s =
     (let rolled_back = result ES_ROLLED_BACK [\<lparr>lr_order = o1, lr_trade = None, lr_error = Some err\<rparr>] why sid;
          (rb, s1) = rollback_order w ex_a o1 None False None s
      in if fst rb \<or> xo_reduce_only o1 then (rolled_back, s1)
         else let (rb2, s2) = rollback_order w ex_a o1 None True None s1
              in if fst rb2 then (rolled_back, s2)
                 else (result ES_ROLLBACK_FAILED [\<lparr>lr_order = o1, lr_trade = None, lr_error = Some (tag @ ''+rollback_failed'')\<rparr>]
                         (''Leg 1 '' @ tag @ '' + rollback failed: '' @ snd rb2) sid,
                       strand_and_halt w ex_a o1 (''leg1_'' @ tag @ ''_rollback_failed:'' @ snd rb2) s2))"

text \<open>The rollback of a leg 1 that did fill, before leg 2 was sent: when it filled too little, and when
  the edge is gone.\<close>

definition undo_leg1 ::
    "x_world \<Rightarrow> string \<Rightarrow> x_order \<Rightarrow> leg_result \<Rightarrow> bool \<Rightarrow> string \<Rightarrow> string \<Rightarrow> string \<Rightarrow> x_state \<Rightarrow> x_result \<times> x_state" where
  "undo_leg1 w ex_a o1 l1 filled prefix why sid s =
     (let (rb, s1) = rollback_order w ex_a o1 None filled (Some (filled_amount l1)) s
      in if fst rb then (result ES_ROLLED_BACK [l1] why sid, s1)
         else (result ES_ROLLBACK_FAILED [l1] (why @ '' - rollback failed'') sid, strand_and_halt w ex_a o1 (prefix @ snd rb) s1))"

text \<open>Step 9b: whether the edge is known to be gone.  A book that cannot be read lets leg 2 proceed.\<close>

definition edge_gone :: "x_world \<Rightarrow> decimal \<Rightarrow> leg_result \<Rightarrow> order_side \<Rightarrow> bool" where
  "edge_gone w min_edge l1 side2 =
     (case lr_trade l1 of
        None \<Rightarrow> False
      | Some t \<Rightarrow>
          if min_edge > 0 \<and> xt_price t > 0
          then case (if w_ws_book w = NoBook \<or> w_ws_book w = BookFails then w_rest_book w else w_ws_book w) of
                 PriceBook bid ask \<Rightarrow>
                   (case (if side2 = SELL then bid else ask) of
                      None \<Rightarrow> False
                    | Some p \<Rightarrow> p > 0 \<and> (if side2 = SELL then (p - xt_price t) / xt_price t else (xt_price t - p) / p) < min_edge)
               | _ \<Rightarrow> False
          else False)"

text \<open>Steps 10 to 14, on the size leg 1 filled.\<close>

definition run_leg2 :: "x_world \<Rightarrow> string \<Rightarrow> string \<Rightarrow> x_order \<Rightarrow> x_order \<Rightarrow> leg_result \<Rightarrow> string \<Rightarrow> x_state \<Rightarrow> x_result \<times> x_state" where
  "run_leg2 w ex_a ex_b o1 o2 l1 sid s =
     (let (r, s1) = place_maybe_split w ex_b o2 (maybe_transition w (xo_id o2) PENDING SENT s)
      in case r of
           TimedOut \<Rightarrow> do_rollback_cross w ex_a o1 l1 \<lparr>lr_order = o2, lr_trade = None, lr_error = Some ''timeout''\<rparr> sid ''Leg 2 timeout'' s1
         | Raised e \<Rightarrow> do_rollback_cross w ex_a o1 l1 \<lparr>lr_order = o2, lr_trade = None, lr_error = Some e\<rparr> sid
                        (''Leg 2 failed: '' @ e) s1
         | Returned t \<Rightarrow>
             let l2 = leg_of o2 r; s2 = maybe_transition w (xo_id o2) SENT ACKED s1
             in if fill_ratio l2 (xo_amount o2) < partial_fill_threshold (w_config w)
                then do_rollback_cross w ex_a o1 l1 l2 sid ''Leg 2 partial fill below threshold'' s2
                else let s3 = maybe_transition w (xo_id o1) (if fill_ratio l1 (xo_amount o1) < 1 then PARTIAL else ACKED) FILLED s2
                     in (result ES_SUCCESS [l1, l2] [] sid, maybe_transition w (xo_id o2) ACKED FILLED s3))"

definition cross_body ::
    "x_world \<Rightarrow> string \<Rightarrow> string \<Rightarrow> x_order \<Rightarrow> x_order \<Rightarrow> decimal \<Rightarrow> string \<Rightarrow> x_state \<Rightarrow> x_result \<times> x_state" where
  "cross_body w ex_a ex_b o1 o2 min_edge sid s =
     (let (h, s0) = check_halt w s
      in if h then (rejected_result ''Engine halted (pre-leg1 TOCTOU check)'' sid, s0)
         else let (r, s1) = place_maybe_split w ex_a o1 (maybe_transition w (xo_id o1) PENDING SENT s0)
         in case r of
              TimedOut \<Rightarrow> leg1_unanswered w ex_a o1 ''timeout'' ''timeout'' ''Leg 1 timeout'' sid (maybe_transition w (xo_id o1) SENT REJECTED s1)
            | Raised e \<Rightarrow> leg1_unanswered w ex_a o1 ''exception'' e (''Leg 1 failed: '' @ e) sid s1
            | Returned t \<Rightarrow>
                let l1 = leg_of o1 r; ratio = fill_ratio l1 (xo_amount o1);
                    s2 = maybe_transition w (xo_id o1) SENT ACKED s1;
                    s3 = (if ratio < 1 \<and> xt_amount t > 0 then maybe_transition w (xo_id o1) ACKED PARTIAL s2 else s2)
                in if ratio < partial_fill_threshold (w_config w)
                   then undo_leg1 w ex_a o1 l1 (has_fill l1) [] ''Leg 1 partial fill below threshold'' sid s3
                   else let o2' = (if ratio < 1 then o2\<lparr>xo_amount := filled_amount l1\<rparr> else o2)
                        in if edge_gone w min_edge l1 (xo_side o2')
                           then undo_leg1 w ex_a o1 l1 True ''edge_evaporated_rollback_failed:'' ''Edge evaporated'' sid s3
                           else run_leg2 w ex_a ex_b o1 o2' l1 sid s3)"

text \<open>The sizes both legs are cut to, or the reason to reject.\<close>

definition sync_lots :: "x_world \<Rightarrow> x_order \<Rightarrow> x_order \<Rightarrow> x_state \<Rightarrow> (string + x_order \<times> x_order) \<times> x_state" where
  "sync_lots w o1 o2 s =
     (let (ra, s1) = ask_step w s; (rb, s2) = ask_step w s1
      in case (ra, rb) of
           (Returned a, Returned b) \<Rightarrow>
             let coarser = max a b
             in if coarser > 0
                then let synced = floor_to coarser (xo_amount o1); notional = synced * price_or_0 o1
                     in if synced \<le> 0 then (Inl ''lot_size_sync_zero'', s2)
                        else if 0 < notional \<and> notional < min_trade_notional_usd (w_config w) then (Inl ''lot_size_sync_sub_notional'', s2)
                        else if synced \<noteq> xo_amount o1
                        then (Inr (o1\<lparr>xo_amount := synced\<rparr>, o2\<lparr>xo_amount := synced\<rparr>), s2)
                        else (Inr (o1, o2), s2)
                else (Inr (o1, o2), s2)
         | _ \<Rightarrow> (Inl ''lot_size_sync_failed'', s2))"

text \<open>Both reservations, or none.\<close>

definition reserve_both :: "x_world \<Rightarrow> string \<Rightarrow> decimal \<Rightarrow> string \<Rightarrow> decimal \<Rightarrow> x_state \<Rightarrow> bool \<times> x_state" where
  "reserve_both w ex_a req_a ex_b req_b s =
     (let (ok_a, s1) = reserve_margin w ex_a req_a s
      in if \<not> ok_a then (False, s1)
         else let (ok_b, s2) = reserve_margin w ex_b req_b s1
              in if ok_b then (True, s2) else (False, release_margin w True ex_a req_a s2))"

definition release_both :: "x_world \<Rightarrow> bool \<Rightarrow> string \<Rightarrow> decimal \<Rightarrow> string \<Rightarrow> decimal \<Rightarrow> x_state \<Rightarrow> x_state" where
  "release_both w reserved ex_a req_a ex_b req_b s =
     release_margin w reserved ex_b req_b (release_margin w reserved ex_a req_a s)"

definition execute_cross_exchange ::
    "x_world \<Rightarrow> x_order \<Rightarrow> x_order \<Rightarrow> string \<Rightarrow> decimal \<Rightarrow> x_state \<Rightarrow> x_result option \<times> x_state" where
  "execute_cross_exchange w o1 o2 sid min_edge s =
     (let ex_a = xo_exchange o1; ex_b = xo_exchange o2; reject = (\<lambda>err. Some (rejected_result err sid))
      in if w_health w ex_a = None \<or> w_health w ex_b = None then (reject (''Unknown exchange(s): '' @ ex_a @ '', '' @ ex_b), s)
         else let (h, s1) = check_halt w s
         in if h then (reject ''Engine halted'', s1)
         else let (ok, s2) = ask_dedup w (dedup_key sid o1 o2) s1
         in if \<not> ok then (reject ''dedup_gate_blocked'', s2)
         else if \<not> check_health w ex_a then (reject (''Exchange '' @ ex_a @ '' health below threshold''), s2)
         else if \<not> check_health w ex_b then (reject (''Exchange '' @ ex_b @ '' health below threshold''), s2)
         else let entry = (\<not> both_close o1 o2); req_a = notional_of o1; req_b = notional_of o2;
                  (ok_m, s3) = (if entry then reserve_both w ex_a req_a ex_b req_b s2 else (True, s2))
         in if \<not> ok_m then (reject ''margin_tracker_blocked'', s3)
         else if ex_a = ex_b then (None, acquire_locks w [ex_a] s3)
         else let (lots, s5) = sync_lots w o1 o2 (acquire_locks w [ex_a, ex_b] s3)
         in case lots of
              Inl err \<Rightarrow> (reject err, release_lock ex_b (release_lock ex_a (release_both w entry ex_a req_a ex_b req_b s5)))
            | Inr (o1', o2') \<Rightarrow>
                let (res, s6) = cross_body w ex_a ex_b o1' o2' min_edge sid s5
                in (Some res, release_both w entry ex_a req_a ex_b req_b (release_lock ex_b (release_lock ex_a s6))))"

subsection \<open>The reconciliation afterwards\<close>

datatype fill_check = NoExpectation | FillMissing | Underfilled | Overfilled | FillConfirmed | CheckFailed

text \<open>What is reported for one exchange: the expected fill and symbol, and the positions (symbol, size).\<close>

definition post_reconcile :: "(decimal \<times> string) option \<Rightarrow> (string \<times> decimal) list outcome \<Rightarrow> fill_check" where
  "post_reconcile expected positions =
     (case positions of
        Returned ps \<Rightarrow>
          (case expected of
             None \<Rightarrow> NoExpectation
           | Some (q, symb) \<Rightarrow>
               if q > 0 \<and> symb \<noteq> []
               then let matching = filter (\<lambda>(s, sz). s = symb) ps; actual = (\<Sum>(s, sz)\<leftarrow>matching. \<bar>sz\<bar>)
                    in if matching = [] then FillMissing
                       else if actual > 0 \<and> actual < q * (95 / 100) then Underfilled
                       else if actual > q * (105 / 100) then Overfilled else FillConfirmed
               else NoExpectation)
      | _ \<Rightarrow> CheckFailed)"

subsection \<open>Routing\<close>

datatype route = RouteMulti string | RouteSame string | RouteCross | RouteSingles

definition exchanges_of :: "x_order list \<Rightarrow> string list" where
  "exchanges_of ods = remdups (map xo_exchange ods)"

definition route_orders :: "x_order list \<Rightarrow> route" where
  "route_orders ods =
     (if length ods \<ge> 3 \<and> length (exchanges_of ods) = 1 then RouteMulti (xo_exchange (hd ods))
      else if length ods = 2 \<and> length (exchanges_of ods) = 1 then RouteSame (xo_exchange (hd ods))
      else if length ods = 2 \<and> length (exchanges_of ods) = 2 then RouteCross
      else RouteSingles)"

fun run_singles :: "x_world \<Rightarrow> x_order list \<Rightarrow> string \<Rightarrow> x_state \<Rightarrow> x_result list \<times> x_state" where
  "run_singles w [] sid s = ([], s)"
| "run_singles w (od # ods) sid s =
     (let (r, s1) = execute_multi_leg w (xo_exchange od) [od] sid s; (rs, s2) = run_singles w ods sid s1 in (r # rs, s2))"

text \<open>\<open>futures_edge\<close> is the configured minimum edge, used for the spread strategies only.\<close>

definition route_to_executor :: "x_world \<Rightarrow> decimal \<Rightarrow> string \<Rightarrow> x_order list \<Rightarrow> x_state \<Rightarrow> x_result list option \<times> x_state" where
  "route_to_executor w futures_edge sid ods s =
     (case route_orders ods of
        RouteMulti ex \<Rightarrow> let (r, s') = execute_multi_leg w ex ods sid s in (Some [r], s')
      | RouteSame ex \<Rightarrow> let (r, s') = execute_same_exchange w ex (ods ! 0) (ods ! 1) sid s in (Some [r], s')
      | RouteCross \<Rightarrow>
          let (r, s') = execute_cross_exchange w (ods ! 0) (ods ! 1) sid (if occurs_in ''futures_futures'' sid then futures_edge else 0) s
          in (map_option (\<lambda>x. [x]) r, s')
      | RouteSingles \<Rightarrow> let (rs, s') = run_singles w ods sid s in (Some rs, s'))"

end
