(* ===== verification/ExecutorFrame.thy ===== *)
theory ExecutorFrame
  imports Executor
begin

text \<open>
  What an execution leaves alone.  A relation between the state before and after that every single call
  of the executor keeps (a call of an adapter, a registration, a halt, a transition asked) is kept by all that
  is built from calls: the chunks of an order, the registration of a failure.  When remembering a rollback
  keeps it too, so do the rollbacks and the bodies of the three executions.  The two locales state this once.
  Interpretations: the remembered rollbacks (calls only); locks, margin and duplicates untouched; the log and
  the counters only grow; a raised halt flag stays.
\<close>

named_theorems frame

locale call_frame =
  fixes R :: "x_world \<Rightarrow> x_state \<Rightarrow> x_state \<Rightarrow> bool"
  assumes keep_refl: "R w s s"
    and keep_trans: "R w s t \<Longrightarrow> R w t u \<Longrightarrow> R w s u"
    and keep_log: "R w s (record_event e s)"
    and keep_flags: "R w s (snd (check_halt w s))"
    and keep_raise: "R w s (raise_halt w s)"
    and keep_register: "R w s (snd (tracker_register w ex symb side sz val why s))"
    and keep_step: "R w s (snd (ask_step w s))"
    and keep_place: "R w s (snd (place_with_timeout w ex od s))"
    and keep_cancel: "R w s (snd (cancel_order w ex oid s))"
begin

lemma after [frame]:
  "R w a s \<Longrightarrow> R w a (record_event e s)"
  "R w a s \<Longrightarrow> R w a (snd (check_halt w s))"
  "R w a s \<Longrightarrow> R w a (raise_halt w s)"
  "R w a s \<Longrightarrow> R w a (snd (tracker_register w ex symb side sz val why s))"
  "R w a s \<Longrightarrow> R w a (snd (ask_step w s))"
  "R w a s \<Longrightarrow> R w a (snd (place_with_timeout w ex od s))"
  "R w a s \<Longrightarrow> R w a (snd (cancel_order w ex oid s))"
  by (blast intro: keep_trans keep_log keep_flags keep_raise keep_register keep_step keep_place keep_cancel)+

lemmas refl_frame [frame] = keep_refl

lemma keep_transition [frame]: "R w a s \<Longrightarrow> R w a (maybe_transition w oid src dst s)"
  by (auto simp: maybe_transition_def intro!: frame split: option.split)

lemma keep_split_loop [frame]: "R w a s \<Longrightarrow> R w a (snd (split_loop w ex od step chunk n k remaining acc s))"
proof (induction k arbitrary: remaining acc s)
  case (Suc k)
  then show ?case
    by (auto simp: Let_def case_prod_beta intro!: frame Suc.IH split: outcome.split)
qed (simp add: frame)

lemma keep_split [frame]: "R w a s \<Longrightarrow> R w a (snd (place_maybe_split w ex od s))"
  by (auto simp: place_maybe_split_def Let_def case_prod_beta intro!: frame
      split: option.split sum.split prod.split dest: arg_cong [where f = snd])

lemma keep_strand [frame]:
  "R w a s \<Longrightarrow> R w a (snd (strand_order w ex od why s))"
  "R w a s \<Longrightarrow> R w a (strand_and_halt w ex od why s)"
  by (auto simp: strand_order_def strand_and_halt_def Let_def case_prod_beta intro!: frame)

lemma keep_mark_leg [frame]: "R w a s \<Longrightarrow> R w a (mark_leg w od r s)"
  by (auto simp: mark_leg_def intro!: frame split: outcome.split)

lemma keep_strand_failed [frame]: "R w a s \<Longrightarrow> R w a (snd (strand_failed w ex od rb s))"
  by (auto simp: strand_failed_def Let_def case_prod_beta intro!: frame)

lemma keep_sync_lots [frame]: "R w a s \<Longrightarrow> R w a (snd (sync_lots w o1 o2 s))"
  by (auto simp: sync_lots_def Let_def case_prod_beta intro!: frame split: outcome.split)

end

locale execution_frame = call_frame R
  for R :: "x_world \<Rightarrow> x_state \<Rightarrow> x_state \<Rightarrow> bool" +
  assumes keep_memory: "R w s (s\<lparr>x_rollbacks := d\<rparr>)"
begin

lemma after_memory [frame]: "R w a s \<Longrightarrow> R w a (s\<lparr>x_rollbacks := d\<rparr>)"
  by (blast intro: keep_trans keep_memory)

lemma keep_remember [frame]: "R w a s \<Longrightarrow> R w a (remember_rollback oid v s)"
  by (auto simp: remember_rollback_def Let_def intro!: frame split: option.split)

lemma keep_unwind [frame]: "R w a s \<Longrightarrow> R w a (snd (unwind_filled w ex od qty s))"
  by (auto simp: unwind_filled_def Let_def case_prod_beta intro!: frame split: outcome.split)

lemma keep_cancel_unfilled [frame]: "R w a s \<Longrightarrow> R w a (snd (cancel_unfilled w ex od oid s))"
  by (auto simp: cancel_unfilled_def Let_def case_prod_beta intro!: frame
      split: outcome.split option.split bool.split)

lemma keep_rollback [frame]: "R w a s \<Longrightarrow> R w a (snd (rollback_order w ex od oid filled amt s))"
  by (auto simp: rollback_order_def intro!: frame)

lemma keep_rollback_same [frame]: "R w a s \<Longrightarrow> R w a (snd (rollback_same w ex o1 o2 l1 l2 sid s))"
  by (simp add: rollback_same_def Let_def case_prod_beta frame)

lemma keep_same_body [frame]: "R w a s \<Longrightarrow> R w a (snd (same_body w ex o1 o2 sid s))"
  by (simp add: same_body_def Let_def case_prod_beta frame)

lemma keep_rollback_legs [frame]: "R w a s \<Longrightarrow> R w a (snd (rollback_legs w ex ls acc s))"
  by (induction ls arbitrary: acc s) (simp_all add: Let_def case_prod_beta frame)

lemma keep_abort [frame]: "R w a s \<Longrightarrow> R w a (snd (abort_multi w ex completed why sid s))"
  by (simp add: abort_multi_def Let_def case_prod_beta frame)

lemma keep_run_legs [frame]: "R w a s \<Longrightarrow> R w a (snd (run_legs_in_order w ex ods completed sid s))"
proof (induction ods arbitrary: completed s)
  case (Cons od ods)
  then show ?case
    by (auto simp: Let_def case_prod_beta intro!: frame Cons.IH split: outcome.split)
qed (simp add: frame)

lemma keep_rollback_cross [frame]:
  "R w a s \<Longrightarrow> R w a (snd (rollback_leg2 w l2 s))"
  "R w a s \<Longrightarrow> R w a (snd (rollback_leg1 w ex_a o1 l1 l2 h sid why s))"
  "R w a s \<Longrightarrow> R w a (snd (do_rollback_cross w ex_a o1 l1 l2 sid why s))"
proof -
  show 1: "R w a (snd (rollback_leg2 w l2 s))" if "R w a s" for s
    using that by (simp add: rollback_leg2_def Let_def case_prod_beta frame)
  show 2: "R w a (snd (rollback_leg1 w ex_a o1 l1 l2 h sid why s))" if "R w a s" for h s
    using that by (simp add: rollback_leg1_def Let_def case_prod_beta frame)
  show "R w a (snd (do_rollback_cross w ex_a o1 l1 l2 sid why s))" if "R w a s"
    using that by (simp add: do_rollback_cross_def Let_def case_prod_beta frame 1 2)
qed

lemma keep_leg1 [frame]:
  "R w a s \<Longrightarrow> R w a (snd (leg1_unanswered w ex_a o1 tag err why sid s))"
  "R w a s \<Longrightarrow> R w a (snd (undo_leg1 w ex_a o1 l1 filled prefix why sid s))"
  by (simp_all add: leg1_unanswered_def undo_leg1_def Let_def case_prod_beta frame)

lemma keep_run_leg2 [frame]: "R w a s \<Longrightarrow> R w a (snd (run_leg2 w ex_a ex_b o1 o2 l1 sid s))"
  by (auto simp: run_leg2_def Let_def case_prod_beta intro!: frame split: outcome.split)

lemma keep_cross_body [frame]: "R w a s \<Longrightarrow> R w a (snd (cross_body w ex_a ex_b o1 o2 min_edge sid s))"
  by (auto simp: cross_body_def Let_def case_prod_beta intro!: frame split: outcome.split)

end

subsection \<open>Interpretations\<close>

definition same_memory :: "x_state \<Rightarrow> x_state \<Rightarrow> bool" where
  "same_memory s s' \<longleftrightarrow> x_rollbacks s' = x_rollbacks s"

definition same_resources :: "x_state \<Rightarrow> x_state \<Rightarrow> bool" where
  "same_resources s s' \<longleftrightarrow> x_locks s' = x_locks s \<and> x_margin s' = x_margin s \<and> x_dedup s' = x_dedup s"

definition grows :: "x_state \<Rightarrow> x_state \<Rightarrow> bool" where
  "grows s s' \<longleftrightarrow> (\<exists>new. x_log s' = x_log s @ new) \<and> x_calls s \<le> x_calls s' \<and> x_readings s \<le> x_readings s'"

definition halt_kept :: "x_state \<Rightarrow> x_state \<Rightarrow> bool" where
  "halt_kept s s' \<longleftrightarrow> (halt_flag (x_flags s) \<longrightarrow> halt_flag (x_flags s'))"

lemmas call_defs = record_event_def check_halt_def raise_halt_def tracker_register_def ask_step_def
  place_with_timeout_def cancel_order_def

interpretation memory: call_frame "\<lambda>w. same_memory"
  by unfold_locales (auto simp: same_memory_def call_defs Let_def case_prod_beta)

interpretation resources: execution_frame "\<lambda>w. same_resources"
  by unfold_locales (auto simp: same_resources_def call_defs Let_def case_prod_beta)

interpretation growth: execution_frame "\<lambda>w. grows"
  by unfold_locales (fastforce simp: grows_def call_defs Let_def case_prod_beta)+

interpretation halting: execution_frame "\<lambda>w. halt_kept"
  by unfold_locales (auto simp: halt_kept_def call_defs Let_def case_prod_beta)

end
