(* ===== verification/ExecutorSafety.thy ===== *)
theory ExecutorSafety
  imports ExecutorFrame
begin

text \<open>
  What the executions of \<open>engine/src/execution/executor.py\<close> guarantee: a halted engine sends nothing, a
  rejection leaves no trace, locks and margin come back, what each status means, and what becomes of a
  fill whose execution did not succeed; then what they do not guarantee, on concrete worlds.
\<close>

subsection \<open>A sample world\<close>

definition ex_config :: x_config where
  "ex_config = \<lparr>partial_fill_threshold = 95 / 100, per_exchange_budget_usd = 10000, health_threshold = 1 / 2,
     split_threshold_usd = 5000, split_max_chunks = 5, min_trade_notional_usd = 10\<rparr>"

definition ex_no_rust :: rust_env where
  "ex_no_rust = \<lparr>metrics_ok = True, rust_import_ok = False, rust_halt_ok = False, rust_check_ok = False, rust_clear_ok = False\<rparr>"

text \<open>The answers of the adapters by the number of the call, what really filled, and the answer to every cancel.
  The first two calls of an execution on two exchanges ask for lot sizes.\<close>

definition ex_world :: "x_trade outcome list \<Rightarrow> decimal list \<Rightarrow> bool outcome \<Rightarrow> x_world" where
  "ex_world answers fills cancels =
     \<lparr>w_config = ex_config, w_rust = ex_no_rust, w_health = (\<lambda>ex. Some 1), w_machine = True, w_clock = (\<lambda>n. 0),
      w_place = (\<lambda>n. if n < length answers then answers ! n else TimedOut),
      w_real = (\<lambda>n. if n < length fills then fills ! n else 0),
      w_cancel = (\<lambda>n. cancels), w_step = (\<lambda>n. Returned (1 / 10)), w_halted_meanwhile = False,
      w_ws_book = NoBook, w_rest_book = NoBook\<rparr>"

definition ex_start :: x_state where
  "ex_start = \<lparr>x_rollbacks = [], x_locks = [], x_dedup = dedup_new 5, x_margin = margin_new 600,
     x_stranded = tracker_new 300, x_flags = initial_flags, x_calls = 0, x_readings = 0, x_log = []\<rparr>"

definition ex_order :: "string \<Rightarrow> string \<Rightarrow> order_side \<Rightarrow> x_order" where
  "ex_order i ex side = \<lparr>xo_id = Some i, xo_exchange = ex, xo_symbol = ''BTC'', xo_side = side, xo_market = False,
     xo_price = Some 100, xo_amount = 2, xo_reduce_only = False\<rparr>"

definition ex_fill :: "decimal \<Rightarrow> x_trade outcome" where
  "ex_fill q = Returned \<lparr>xt_id = ''t'', xt_order_id = None, xt_price = 100, xt_amount = q, xt_fee = 0\<rparr>"

definition ex_pair :: "x_order list" where
  "ex_pair = [ex_order ''a'' ''okx'' BUY, ex_order ''b'' ''bybit'' SELL]"

subsection \<open>Events of an execution\<close>

definition since :: "x_state \<Rightarrow> x_state \<Rightarrow> x_event \<Rightarrow> bool" where
  "since s s' e \<longleftrightarrow> (\<exists>new. x_log s' = x_log s @ new \<and> e \<in> set new)"

lemma since_later: "since s t e \<Longrightarrow> grows t u \<Longrightarrow> since s u e"
  by (fastforce simp: since_def grows_def)

lemma since_earlier: "grows s t \<Longrightarrow> since t u e \<Longrightarrow> since s u e"
  by (fastforce simp: since_def grows_def)

lemma grows_refl [simp]: "grows s s"
  by (rule growth.keep_refl)

lemma grows_trans: "grows s t \<Longrightarrow> grows t u \<Longrightarrow> grows s u"
  by (rule growth.keep_trans)

lemma grows_same_log: "grows s t \<Longrightarrow> x_log t = x_log s \<Longrightarrow> grows t u \<Longrightarrow> x_log u = x_log s \<longleftrightarrow> x_log u = x_log t"
  by (auto simp: grows_def)

text \<open>Strict growth: something was logged.\<close>

definition logs_more :: "x_state \<Rightarrow> x_state \<Rightarrow> bool" where
  "logs_more s s' \<longleftrightarrow> grows s s' \<and> x_log s' \<noteq> x_log s"

lemma logs_more_later: "logs_more s t \<Longrightarrow> grows t u \<Longrightarrow> logs_more s u"
  by (auto simp: logs_more_def grows_def)

lemma logs_more_earlier: "grows s t \<Longrightarrow> logs_more t u \<Longrightarrow> logs_more s u"
  by (auto simp: logs_more_def grows_def)

lemma place_logs: "logs_more s (snd (place_with_timeout w ex od s))"
  by (auto simp: logs_more_def grows_def place_with_timeout_def record_event_def Let_def)

lemma split_loop_logs:
  "split_loop w ex od step chunk n k remaining acc s = (res, s') \<Longrightarrow>
   logs_more s s' \<or> s' = s \<and> res = Inr acc"
proof (cases k)
  case (Suc j)
  assume run: "split_loop w ex od step chunk n k remaining acc s = (res, s')"
  define od' where "od' = chunk_order od (let qty0 = (if j = 0 then remaining else min chunk remaining)
     in if step > 0 then floor_to step qty0 else qty0) (n - Suc j)"
  obtain r s1 where p: "place_with_timeout w ex od' s = (r, s1)" by fastforce
  have more: "logs_more s s1" using place_logs [of s w ex od'] p by simp
  have "logs_more s (snd (split_loop w ex od step chunk n j rem' acc' s1))" for rem' acc'
    by (rule logs_more_later [OF more growth.keep_split_loop [OF growth.keep_refl]])
  with run p more show ?thesis
    unfolding Suc split_loop.simps Let_def od'_def [unfolded Let_def, symmetric]
    by (cases r) (auto split: if_splits dest: arg_cong [where f = snd], (metis snd_conv)+)
qed simp

text \<open>The ways an order is placed: whole, in chunks, or whole after no chunk filled.\<close>

definition no_fill :: split_sum where
  "no_fill = \<lparr>sp_qty = 0, sp_cost = 0, sp_fee = 0, sp_last = None\<rparr>"

lemma place_maybe_split_cases:
  obtains (whole) s1 where "s1 = s \<or> s1 = snd (ask_step w s)"
      "place_maybe_split w ex od s = place_with_timeout w ex od s1"
  | (fails) step chunk n r s2 where
      "split_loop w ex od step chunk n n (xo_amount od) no_fill (snd (ask_step w s)) = (Inl r, s2)"
      "place_maybe_split w ex od s = (r, s2)"
  | (late) step chunk n acc s2 where
      "split_loop w ex od step chunk n n (xo_amount od) no_fill (snd (ask_step w s)) = (Inr acc, s2)"
      "sp_last acc = None \<or> sp_qty acc \<le> 0" "place_maybe_split w ex od s = place_with_timeout w ex od s2"
  | (chunks) step chunk n acc s2 t where
      "split_loop w ex od step chunk n n (xo_amount od) no_fill (snd (ask_step w s)) = (Inr acc, s2)"
      "sp_last acc = Some t" "0 < sp_qty acc"
      "place_maybe_split w ex od s = (Returned \<lparr>xt_id = ''split-'' @ xt_id t, xt_order_id = xo_id od,
         xt_price = sp_cost acc / sp_qty acc, xt_amount = sp_qty acc, xt_fee = sp_fee acc\<rparr>, s2)"
proof (cases "xo_price od")
  case None
  then show ?thesis by (intro whole [of s]) (simp_all add: place_maybe_split_def)
next
  case (Some p)
  define notional where "notional = xo_amount od * p"
  define n where "n = chunk_count (w_config w) notional"
  define step where "step = (case fst (ask_step w s) of Returned x \<Rightarrow> x | _ \<Rightarrow> 0)"
  define chunk0 where "chunk0 = xo_amount od / of_nat n"
  define chunk where "chunk = (if step > 0 then floor_to step chunk0 else chunk0)"
  have eq: "place_maybe_split w ex od s =
      (if p \<le> 0 \<or> notional \<le> split_threshold_usd (w_config w) \<or> n \<le> 1 then place_with_timeout w ex od s
       else if chunk \<le> 0 then place_with_timeout w ex od (snd (ask_step w s))
       else case split_loop w ex od step chunk n n (xo_amount od) no_fill (snd (ask_step w s)) of
          (Inl r, s2) \<Rightarrow> (r, s2)
        | (Inr acc, s2) \<Rightarrow> (case sp_last acc of
             None \<Rightarrow> place_with_timeout w ex od s2
           | Some t \<Rightarrow> if sp_qty acc \<le> 0 then place_with_timeout w ex od s2
                       else (Returned \<lparr>xt_id = ''split-'' @ xt_id t, xt_order_id = xo_id od,
                         xt_price = sp_cost acc / sp_qty acc, xt_amount = sp_qty acc, xt_fee = sp_fee acc\<rparr>, s2)))"
    unfolding place_maybe_split_def Some notional_def n_def step_def chunk0_def chunk_def no_fill_def
    by (simp add: Let_def case_prod_beta del: One_nat_def)
  consider (A) "p \<le> 0 \<or> notional \<le> split_threshold_usd (w_config w) \<or> n \<le> 1" | (B) "chunk \<le> 0"
    | (C) "\<not> (p \<le> 0 \<or> notional \<le> split_threshold_usd (w_config w) \<or> n \<le> 1)" "\<not> chunk \<le> 0"
    by blast
  then show ?thesis
  proof cases
    case A
    then show ?thesis by (intro whole [of s]) (simp_all add: eq)
  next
    case B
    then show ?thesis using eq whole [of s] whole [of "snd (ask_step w s)"] by metis
  next
    case C
    obtain res s2 where loop: "split_loop w ex od step chunk n n (xo_amount od) no_fill (snd (ask_step w s)) = (res, s2)"
      by fastforce
    note eq = eq [unfolded if_not_P [OF C(1)] if_not_P [OF C(2)] loop]
    show ?thesis
    proof (cases res)
      case (Inl r)
      then show ?thesis using fails [OF loop [unfolded Inl]] eq by simp
    next
      case (Inr acc)
      note loop' = loop [unfolded Inr]
      show ?thesis
        using late [OF loop'] chunks [OF loop'] eq
        by (cases "sp_last acc"; cases "sp_qty acc \<le> 0") (simp_all add: Inr)
    qed
  qed
qed

lemma split_logs: "logs_more s (snd (place_maybe_split w ex od s))"
proof -
  have g: "grows s (snd (ask_step w s))"
    by (rule growth.keep_step)
  show ?thesis
  proof (cases rule: place_maybe_split_cases [of s w ex od])
    case (whole s1)
    then show ?thesis using g place_logs logs_more_earlier by (metis grows_refl)
  next
    case (fails step chunk n r s2)
    then show ?thesis using split_loop_logs [OF fails(1)] g by (auto intro: logs_more_earlier)
  next
    case (late step chunk n acc s2)
    then show ?thesis
      using split_loop_logs [OF late(1)] g place_logs
      by (metis logs_more_def logs_more_earlier)
  next
    case (chunks step chunk n acc s2 t)
    then show ?thesis
      using split_loop_logs [OF chunks(1)] g by (auto simp: no_fill_def intro: logs_more_earlier)
  qed
qed

subsection \<open>Rejections and the halt flag\<close>

lemma quiet [simp]:
  "x_log (snd (check_halt w s)) = x_log s" "x_log (snd (ask_dedup w key s)) = x_log s"
  "x_log (snd (ask_step w s)) = x_log s" "x_log (acquire_locks w exs s) = x_log s"
  "x_log (release_lock ex s) = x_log s" "x_log (snd (reserve_margin w ex req s)) = x_log s"
  "x_log (release_margin w b ex req s) = x_log s"
  by (simp_all add: check_halt_def ask_dedup_def ask_step_def acquire_locks_def release_lock_def
      reserve_margin_def release_margin_def Let_def case_prod_beta)

lemma quiet_both [simp]:
  "x_log (snd (reserve_both w ex_a ra ex_b rb s)) = x_log s"
  "x_log (release_both w b ex_a ra ex_b rb s) = x_log s"
  by (simp_all add: reserve_both_def release_both_def Let_def case_prod_beta)

lemma quiet_sync [simp]: "x_log (snd (sync_lots w o1 o2 s)) = x_log s"
  by (auto simp: sync_lots_def Let_def case_prod_beta split: outcome.split)

lemma fst_check_halt: "fst (check_halt w s) = KillSwitch.halted (w_rust w) (x_flags s)"
  by (simp add: check_halt_def KillSwitch.halted_def Let_def case_prod_beta)

lemma halted_check_halt [simp]:
  "KillSwitch.halted (w_rust w) (x_flags (snd (check_halt w s))) = KillSwitch.halted (w_rust w) (x_flags s)"
  by (auto simp: check_halt_def flag_defs)

lemma halted_acquire: "w_halted_meanwhile w \<Longrightarrow> KillSwitch.halted (w_rust w) (x_flags (acquire_locks w exs s))"
  by (simp add: acquire_locks_def)

lemma not_rejected:
  "xr_status (fst (rollback_same w ex o1 o2 l1 l2 sid s)) \<in> {ES_ROLLED_BACK, ES_ROLLBACK_FAILED}"
  "xr_status (fst (abort_multi w ex completed why sid s)) \<in> {ES_ROLLED_BACK, ES_ROLLBACK_FAILED}"
  "xr_status (fst (rollback_leg1 w ex o1 l1 l2 h sid why s)) \<in> {ES_ROLLED_BACK, ES_ROLLBACK_FAILED}"
  "xr_status (fst (do_rollback_cross w ex o1 l1 l2 sid why s)) \<in> {ES_ROLLED_BACK, ES_ROLLBACK_FAILED}"
  "xr_status (fst (leg1_unanswered w ex o1 tag err why sid s)) \<in> {ES_ROLLED_BACK, ES_ROLLBACK_FAILED}"
  "xr_status (fst (undo_leg1 w ex o1 l1 filled pre why sid s)) \<in> {ES_ROLLED_BACK, ES_ROLLBACK_FAILED}"
  by (simp_all add: rollback_same_def abort_multi_def rollback_leg1_def do_rollback_cross_def leg1_unanswered_def
      undo_leg1_def result_def Let_def case_prod_beta)

lemma run_leg2_status:
  "xr_status (fst (run_leg2 w ex_a ex_b o1 o2 l1 sid s)) \<in> {ES_SUCCESS, ES_ROLLED_BACK, ES_ROLLBACK_FAILED}"
  using not_rejected(4) by (fastforce simp: run_leg2_def Let_def case_prod_beta result_def split: outcome.split)

lemma run_legs_status:
  "xr_status (fst (run_legs_in_order w ex ods completed sid s)) \<in> {ES_SUCCESS, ES_ROLLED_BACK, ES_ROLLBACK_FAILED}"
proof (induction ods arbitrary: completed s)
  case (Cons od ods)
  then show ?case
    using not_rejected(2) by (fastforce simp: Let_def case_prod_beta split: outcome.split)
qed (simp add: result_def)

text \<open>A body rejects exactly when it finds the engine halted, and otherwise logs.\<close>

lemma same_body_rejects:
  "KillSwitch.halted (w_rust w) (x_flags s) \<Longrightarrow>
     xr_status (fst (same_body w ex o1 o2 sid s)) = ES_REJECTED \<and> x_log (snd (same_body w ex o1 o2 sid s)) = x_log s"
  "\<not> KillSwitch.halted (w_rust w) (x_flags s) \<Longrightarrow>
     xr_status (fst (same_body w ex o1 o2 sid s)) \<in> {ES_SUCCESS, ES_ROLLED_BACK, ES_ROLLBACK_FAILED}
     \<and> logs_more s (snd (same_body w ex o1 o2 sid s))"
proof -
  show "xr_status (fst (same_body w ex o1 o2 sid s)) = ES_REJECTED \<and> x_log (snd (same_body w ex o1 o2 sid s)) = x_log s"
    if "KillSwitch.halted (w_rust w) (x_flags s)"
    using that by (simp add: same_body_def Let_def case_prod_beta fst_check_halt rejected_result_def)
  assume ok: "\<not> KillSwitch.halted (w_rust w) (x_flags s)"
  let ?s1 = "maybe_transition w (xo_id o2) PENDING SENT (maybe_transition w (xo_id o1) PENDING SENT (snd (check_halt w s)))"
  let ?s2 = "snd (place_maybe_split w ex o1 ?s1)"
  have "grows s ?s1" by (intro frame)
  then have "logs_more s ?s2" using split_logs logs_more_earlier by blast
  moreover have "grows ?s2 (snd (same_body w ex o1 o2 sid s))"
    using ok by (simp add: same_body_def Let_def case_prod_beta fst_check_halt frame)
  ultimately have "logs_more s (snd (same_body w ex o1 o2 sid s))" by (rule logs_more_later)
  then show "xr_status (fst (same_body w ex o1 o2 sid s)) \<in> {ES_SUCCESS, ES_ROLLED_BACK, ES_ROLLBACK_FAILED}
     \<and> logs_more s (snd (same_body w ex o1 o2 sid s))"
    using ok not_rejected(1) by (auto simp: same_body_def Let_def case_prod_beta fst_check_halt result_def)
qed

lemma run_legs_logs: "ods \<noteq> [] \<Longrightarrow> logs_more s (snd (run_legs_in_order w ex ods completed sid s))"
proof (cases ods)
  case (Cons od rest)
  have "grows (snd (place_maybe_split w ex od s)) (snd (run_legs_in_order w ex ods completed sid s))"
    by (auto simp: Cons Let_def case_prod_beta intro!: frame split: outcome.split)
  then show ?thesis by (rule logs_more_later [OF split_logs])
qed simp

lemma cross_body_rejects:
  "KillSwitch.halted (w_rust w) (x_flags s) \<Longrightarrow>
     xr_status (fst (cross_body w ex_a ex_b o1 o2 e sid s)) = ES_REJECTED \<and> x_log (snd (cross_body w ex_a ex_b o1 o2 e sid s)) = x_log s"
  "\<not> KillSwitch.halted (w_rust w) (x_flags s) \<Longrightarrow>
     xr_status (fst (cross_body w ex_a ex_b o1 o2 e sid s)) \<in> {ES_SUCCESS, ES_ROLLED_BACK, ES_ROLLBACK_FAILED}
     \<and> logs_more s (snd (cross_body w ex_a ex_b o1 o2 e sid s))"
proof -
  show "xr_status (fst (cross_body w ex_a ex_b o1 o2 e sid s)) = ES_REJECTED \<and> x_log (snd (cross_body w ex_a ex_b o1 o2 e sid s)) = x_log s"
    if "KillSwitch.halted (w_rust w) (x_flags s)"
    using that by (simp add: cross_body_def Let_def case_prod_beta fst_check_halt rejected_result_def)
  assume ok: "\<not> KillSwitch.halted (w_rust w) (x_flags s)"
  let ?s1 = "maybe_transition w (xo_id o1) PENDING SENT (snd (check_halt w s))"
  let ?s2 = "snd (place_maybe_split w ex_a o1 ?s1)"
  have "grows s ?s1" by (intro frame)
  then have "logs_more s ?s2" using split_logs logs_more_earlier by blast
  moreover have "grows ?s2 (snd (cross_body w ex_a ex_b o1 o2 e sid s))"
    using ok by (auto simp: cross_body_def Let_def case_prod_beta fst_check_halt intro!: frame split: outcome.split)
  ultimately have "logs_more s (snd (cross_body w ex_a ex_b o1 o2 e sid s))" by (rule logs_more_later)
  then show "xr_status (fst (cross_body w ex_a ex_b o1 o2 e sid s)) \<in> {ES_SUCCESS, ES_ROLLED_BACK, ES_ROLLBACK_FAILED}
     \<and> logs_more s (snd (cross_body w ex_a ex_b o1 o2 e sid s))"
    using ok not_rejected(5,6) run_leg2_status
    by (fastforce simp: cross_body_def Let_def case_prod_beta fst_check_halt result_def split: outcome.split)
qed

text \<open>The three executions, with their guards: rejected before anything is reserved, refused by the margin
  tracker, or run.\<close>

definition untouched :: "x_state \<Rightarrow> x_state \<Rightarrow> bool" where
  "untouched s s' \<longleftrightarrow> x_log s' = x_log s \<and> x_locks s' = x_locks s \<and> x_margin s' = x_margin s
     \<and> x_rollbacks s' = x_rollbacks s"

lemma untouched_guards [simp]:
  "untouched s s" "untouched s (snd (check_halt w s))" "untouched s (snd (ask_dedup w key (snd (check_halt w s))))"
  by (simp_all add: untouched_def check_halt_def ask_dedup_def Let_def case_prod_beta)

lemma execute_same_cases:
  obtains (early) err s1 where "execute_same_exchange w ex o1 o2 sid s = (rejected_result err sid, s1)" "untouched s s1"
  | (blocked) s2 where "execute_same_exchange w ex o1 o2 sid s
        = (rejected_result ''margin_tracker_blocked'' sid, snd (reserve_margin w ex (notional_of o1 + notional_of o2) s2))"
      "untouched s s2" "\<not> fst (reserve_margin w ex (notional_of o1 + notional_of o2) s2)"
  | (run) entry s2 s3 where "\<not> KillSwitch.halted (w_rust w) (x_flags s)" "untouched s s2"
      "(if entry then reserve_margin w ex (notional_of o1 + notional_of o2) s2 else (True, s2)) = (True, s3)"
      "execute_same_exchange w ex o1 o2 sid s = (fst (same_body w ex o1 o2 sid (acquire_locks w [ex] s3)),
         release_margin w entry ex (notional_of o1 + notional_of o2) (release_lock ex (snd (same_body w ex o1 o2 sid (acquire_locks w [ex] s3)))))"
proof -
  let ?s2 = "snd (ask_dedup w (dedup_key sid o1 o2) (snd (check_halt w s)))" and ?entry = "\<not> both_close o1 o2"
  let ?req = "notional_of o1 + notional_of o2"
  consider "fst (check_halt w s)"
    | "\<not> fst (check_halt w s)" "\<not> fst (ask_dedup w (dedup_key sid o1 o2) (snd (check_halt w s))) \<or> \<not> check_health w ex"
    | "\<not> fst (check_halt w s)" "fst (ask_dedup w (dedup_key sid o1 o2) (snd (check_halt w s)))" "check_health w ex"
    by blast
  then show ?thesis
  proof cases
    case 1
    then show ?thesis by (intro early) (auto simp: execute_same_exchange_def Let_def case_prod_beta)
  next
    case 2
    then show ?thesis
      by (intro early [of "if \<not> fst (ask_dedup w (dedup_key sid o1 o2) (snd (check_halt w s))) then ''dedup_gate_blocked''
          else ''Exchange '' @ ex @ '' health below threshold''" ?s2]) (auto simp: execute_same_exchange_def Let_def case_prod_beta)
  next
    case 3
    define m where "m = (if ?entry then reserve_margin w ex ?req ?s2 else (True, ?s2))"
    have eq: "execute_same_exchange w ex o1 o2 sid s = (if \<not> fst m then (rejected_result ''margin_tracker_blocked'' sid, snd m)
        else (fst (same_body w ex o1 o2 sid (acquire_locks w [ex] (snd m))),
          release_margin w ?entry ex ?req (release_lock ex (snd (same_body w ex o1 o2 sid (acquire_locks w [ex] (snd m)))))))"
      using 3 unfolding m_def execute_same_exchange_def Let_def case_prod_beta by simp
    show ?thesis
    proof (cases "fst m")
      case True
      then show ?thesis
        using eq 3 by (intro run [of ?s2 ?entry "snd m"]) (auto simp: fst_check_halt m_def prod_eq_iff)
    next
      case False
      then show ?thesis
        using eq by (intro blocked [of ?s2]) (auto simp: m_def split: if_splits)
    qed
  qed
qed

lemma execute_cross_cases:
  fixes w o1 o2 sid e s
  defines "ex_a \<equiv> xo_exchange o1" and "ex_b \<equiv> xo_exchange o2"
    and "ra \<equiv> notional_of o1" and "rb \<equiv> notional_of o2"
  obtains (early) err s1 where "execute_cross_exchange w o1 o2 sid e s = (Some (rejected_result err sid), s1)" "untouched s s1"
  | (blocked) s2 where "execute_cross_exchange w o1 o2 sid e s
        = (Some (rejected_result ''margin_tracker_blocked'' sid), snd (reserve_both w ex_a ra ex_b rb s2))"
      "untouched s s2" "\<not> fst (reserve_both w ex_a ra ex_b rb s2)"
  | (deadlock) s1 where "ex_a = ex_b" "execute_cross_exchange w o1 o2 sid e s = (None, s1)"
  | (unsynced) entry s2 s3 err where "ex_a \<noteq> ex_b" "untouched s s2"
      "(if entry then reserve_both w ex_a ra ex_b rb s2 else (True, s2)) = (True, s3)"
      "execute_cross_exchange w o1 o2 sid e s = (Some (rejected_result err sid),
         release_lock ex_b (release_lock ex_a (release_both w entry ex_a ra ex_b rb
           (snd (sync_lots w o1 o2 (acquire_locks w [ex_a, ex_b] s3))))))"
  | (run) entry s2 s3 o1' o2' s5 where "ex_a \<noteq> ex_b" "\<not> KillSwitch.halted (w_rust w) (x_flags s)" "untouched s s2"
      "(if entry then reserve_both w ex_a ra ex_b rb s2 else (True, s2)) = (True, s3)"
      "sync_lots w o1 o2 (acquire_locks w [ex_a, ex_b] s3) = (Inr (o1', o2'), s5)"
      "execute_cross_exchange w o1 o2 sid e s = (Some (fst (cross_body w ex_a ex_b o1' o2' e sid s5)),
         release_both w entry ex_a ra ex_b rb (release_lock ex_b (release_lock ex_a (snd (cross_body w ex_a ex_b o1' o2' e sid s5)))))"
proof -
  let ?s2 = "snd (ask_dedup w (dedup_key sid o1 o2) (snd (check_halt w s)))" and ?entry = "\<not> both_close o1 o2"
  consider "w_health w ex_a = None \<or> w_health w ex_b = None"
    | "\<not> (w_health w ex_a = None \<or> w_health w ex_b = None)" "fst (check_halt w s)"
    | "\<not> (w_health w ex_a = None \<or> w_health w ex_b = None)" "\<not> fst (check_halt w s)"
      "\<not> fst (ask_dedup w (dedup_key sid o1 o2) (snd (check_halt w s))) \<or> \<not> check_health w ex_a \<or> \<not> check_health w ex_b"
    | "\<not> (w_health w ex_a = None \<or> w_health w ex_b = None)" "\<not> fst (check_halt w s)"
      "fst (ask_dedup w (dedup_key sid o1 o2) (snd (check_halt w s)))" "check_health w ex_a" "check_health w ex_b"
    by metis
  then show ?thesis
  proof cases
    case 1
    then show ?thesis
      by (intro early) (auto simp: execute_cross_exchange_def Let_def ex_a_def ex_b_def)
  next
    case 2
    then show ?thesis
      by (intro early [of "''Engine halted''" "snd (check_halt w s)"])
        (auto simp: execute_cross_exchange_def Let_def case_prod_beta ex_a_def ex_b_def)
  next
    case 3
    then show ?thesis
      by (intro early [of "if \<not> fst (ask_dedup w (dedup_key sid o1 o2) (snd (check_halt w s))) then ''dedup_gate_blocked''
          else ''Exchange '' @ (if check_health w ex_a then ex_b else ex_a) @ '' health below threshold''" ?s2])
        (auto simp: execute_cross_exchange_def Let_def case_prod_beta ex_a_def ex_b_def)
  next
    case 4
    define m where "m = (if ?entry then reserve_both w ex_a ra ex_b rb ?s2 else (True, ?s2))"
    define l where "l = sync_lots w o1 o2 (acquire_locks w [ex_a, ex_b] (snd m))"
    have eq: "execute_cross_exchange w o1 o2 sid e s =
        (if \<not> fst m then (Some (rejected_result ''margin_tracker_blocked'' sid), snd m)
         else if ex_a = ex_b then (None, acquire_locks w [ex_a] (snd m))
         else case fst l of
           Inl err \<Rightarrow> (Some (rejected_result err sid), release_lock ex_b (release_lock ex_a (release_both w ?entry ex_a ra ex_b rb (snd l))))
         | Inr (o1', o2') \<Rightarrow> (Some (fst (cross_body w ex_a ex_b o1' o2' e sid (snd l))),
             release_both w ?entry ex_a ra ex_b rb (release_lock ex_b (release_lock ex_a (snd (cross_body w ex_a ex_b o1' o2' e sid (snd l)))))))"
      unfolding execute_cross_exchange_def Let_def case_prod_beta ex_a_def [symmetric] ex_b_def [symmetric]
        ra_def [symmetric] rb_def [symmetric] if_not_P [OF 4(1)] if_not_P [OF 4(2)] l_def m_def
      by (simp add: 4(3-5) cong: sum.case_cong)
    consider "\<not> fst m" | "fst m" "ex_a = ex_b" | err where "fst m" "ex_a \<noteq> ex_b" "fst l = Inl err"
      | o1' o2' where "fst m" "ex_a \<noteq> ex_b" "fst l = Inr (o1', o2')"
      by (cases "fst l") auto
    then show ?thesis
    proof cases
      case 1
      then show ?thesis using eq by (intro blocked [of ?s2]) (auto simp: m_def split: if_splits)
    next
      case 2
      then show ?thesis using eq by (intro deadlock) auto
    next
      case 3
      then show ?thesis
        using eq by (intro unsynced [of ?s2 ?entry "snd m"]) (auto simp: m_def l_def prod_eq_iff)
    next
      case (4 o1' o2')
      then show ?thesis
        using eq \<open>\<not> fst (check_halt w s)\<close>
        by (intro run [of ?s2 ?entry "snd m" o1' o2' "snd l"]) (auto simp: m_def l_def prod_eq_iff fst_check_halt)
    qed
  qed
qed

lemma status_rejected [simp]: "xr_status (rejected_result err sid) = ES_REJECTED"
  by (simp add: rejected_result_def)

lemma same_body_log: "xr_status (fst (same_body w ex o1 o2 sid t)) = ES_REJECTED \<longleftrightarrow> x_log (snd (same_body w ex o1 o2 sid t)) = x_log t"
  using same_body_rejects [of w t ex o1 o2 sid]
  by (cases "KillSwitch.halted (w_rust w) (x_flags t)") (auto simp: logs_more_def)

lemma cross_body_log:
  "xr_status (fst (cross_body w ex_a ex_b o1 o2 e sid t)) = ES_REJECTED \<longleftrightarrow> x_log (snd (cross_body w ex_a ex_b o1 o2 e sid t)) = x_log t"
  using cross_body_rejects [of w t ex_a ex_b o1 o2 e sid]
  by (cases "KillSwitch.halted (w_rust w) (x_flags t)") (auto simp: logs_more_def)

lemma quiet_choice:
  "untouched s s2 \<Longrightarrow> (if entry then reserve_margin w ex req s2 else (True, s2)) = (True, s3) \<Longrightarrow> x_log s3 = x_log s"
  "untouched s s2 \<Longrightarrow> (if entry then reserve_both w ex_a ra ex_b rb s2 else (True, s2)) = (True, s3) \<Longrightarrow> x_log s3 = x_log s"
  by (auto simp: untouched_def split: if_splits dest!: arg_cong [where f = "\<lambda>p. x_log (snd p)"])

lemma same_rejects:
  assumes "execute_same_exchange w ex o1 o2 sid s = (r, s')"
  shows "xr_status r = ES_REJECTED \<longleftrightarrow> x_log s' = x_log s"
    and "KillSwitch.halted (w_rust w) (x_flags s) \<or> w_halted_meanwhile w \<Longrightarrow> xr_status r = ES_REJECTED"
proof -
  show "xr_status r = ES_REJECTED \<longleftrightarrow> x_log s' = x_log s"
  proof (cases rule: execute_same_cases [of w ex o1 o2 sid s])
    case (run entry s2 s3)
    show ?thesis
      using assms run(4) quiet_choice(1) [OF run(2,3)] same_body_log [of w ex o1 o2 sid "acquire_locks w [ex] s3"] by auto
  qed (use assms in \<open>auto simp: untouched_def\<close>)
  assume h: "KillSwitch.halted (w_rust w) (x_flags s) \<or> w_halted_meanwhile w"
  show "xr_status r = ES_REJECTED"
    by (cases rule: execute_same_cases [of w ex o1 o2 sid s])
       (use assms h same_body_rejects(1) [OF halted_acquire] in auto)
qed

lemma multi_rejects:
  assumes "execute_multi_leg w ex ods sid s = (r, s')" and "ods \<noteq> []"
  shows "xr_status r = ES_REJECTED \<longleftrightarrow> x_log s' = x_log s"
    and "KillSwitch.halted (w_rust w) (x_flags s) \<Longrightarrow> xr_status r = ES_REJECTED"
    and "KillSwitch.halted (w_rust w) (x_flags s) \<Longrightarrow> KillSwitch.halted (w_rust w) (x_flags s')"
proof -
  have "xr_status (fst (run_legs_in_order w ex ods [] sid t)) \<noteq> ES_REJECTED" for t
    using run_legs_status [of w ex ods "[]" sid t] by auto
  moreover have "x_log (snd (run_legs_in_order w ex ods [] sid t)) \<noteq> x_log t" for t
    using run_legs_logs [OF assms(2)] by (simp add: logs_more_def)
  ultimately have "xr_status (fst (run_legs_in_order w ex ods [] sid t)) \<noteq> ES_REJECTED
      \<and> x_log (snd (run_legs_in_order w ex ods [] sid t)) \<noteq> x_log t" for t
    by blast
  from this [of "acquire_locks w [ex] (snd (check_halt w s))"] show "xr_status r = ES_REJECTED \<longleftrightarrow> x_log s' = x_log s"
    using assms by (auto simp: execute_multi_leg_def Let_def case_prod_beta split: if_splits)
qed (use assms in \<open>auto simp: execute_multi_leg_def Let_def case_prod_beta fst_check_halt split: if_splits\<close>)

lemma halted_sync:
  "KillSwitch.halted (w_rust w) (x_flags (snd (sync_lots w o1 o2 t))) = KillSwitch.halted (w_rust w) (x_flags t)"
  by (auto simp: sync_lots_def ask_step_def Let_def case_prod_beta split: outcome.split)

lemma cross_rejects:
  assumes "execute_cross_exchange w o1 o2 sid e s = (Some r, s')"
  shows "xr_status r = ES_REJECTED \<longleftrightarrow> x_log s' = x_log s"
    and "KillSwitch.halted (w_rust w) (x_flags s) \<or> w_halted_meanwhile w \<Longrightarrow> xr_status r = ES_REJECTED"
proof -
  have sync: "x_log s5 = x_log t" "KillSwitch.halted (w_rust w) (x_flags s5) = KillSwitch.halted (w_rust w) (x_flags t)"
    if "sync_lots w o1 o2 t = (l, s5)" for l t s5
    using that quiet_sync [of w o1 o2 t] halted_sync [of w o1 o2 t] by auto
  show "xr_status r = ES_REJECTED \<longleftrightarrow> x_log s' = x_log s"
  proof (cases rule: execute_cross_cases [of w o1 o2 sid e s])
    case (run entry s2 s3 o1' o2' s5)
    then have "x_log s5 = x_log s" using quiet_choice(2) [OF run(3,4)] sync(1) [OF run(5)] by simp
    then show ?thesis
      using assms run(6) cross_body_log [of w _ _ o1' o2' e sid s5] by auto
  next
    case (unsynced entry s2 s3 err)
    then show ?thesis using assms quiet_choice(2) [OF unsynced(2,3)] by auto
  qed (use assms in \<open>auto simp: untouched_def\<close>)
  assume h: "KillSwitch.halted (w_rust w) (x_flags s) \<or> w_halted_meanwhile w"
  show "xr_status r = ES_REJECTED"
  proof (cases rule: execute_cross_cases [of w o1 o2 sid e s])
    case (run entry s2 s3 o1' o2' s5)
    then have "KillSwitch.halted (w_rust w) (x_flags s5)"
      using h by (simp add: sync(2) [OF run(5)] halted_acquire)
    from cross_body_rejects(1) [OF this] show ?thesis using assms run(6) by auto
  qed (use assms in auto)
qed

subsection \<open>Routing\<close>

lemma route_cases:
  obtains (none) "ods = []" "route_orders ods = RouteSingles"
  | (multi) ex where "length ods \<ge> 3" "\<forall>od \<in> set ods. xo_exchange od = ex" "route_orders ods = RouteMulti ex"
  | (same) o1 o2 where "ods = [o1, o2]" "xo_exchange o2 = xo_exchange o1" "route_orders ods = RouteSame (xo_exchange o1)"
  | (cross) o1 o2 where "ods = [o1, o2]" "xo_exchange o1 \<noteq> xo_exchange o2" "route_orders ods = RouteCross"
  | (singles) "ods \<noteq> []" "length ods \<noteq> 2" "route_orders ods = RouteSingles"
proof -
  consider "ods = []" | o1 where "ods = [o1]" | o1 o2 where "ods = [o1, o2]" | "length ods \<ge> 3"
    by (cases ods rule: list.exhaust; cases "tl ods"; cases "tl (tl ods)") auto
  then show ?thesis
  proof cases
    case 1
    then show ?thesis by (intro none) (simp_all add: route_orders_def)
  next
    case 2
    then show ?thesis by (intro singles) (simp_all add: route_orders_def)
  next
    case (3 o1 o2)
    then show ?thesis
      by (cases "xo_exchange o1 = xo_exchange o2")
         (rule same [OF 3], auto simp: route_orders_def exchanges_of_def intro!: cross)
  next
    case 4
    show ?thesis
    proof (cases "length (exchanges_of ods) = 1")
      case True
      then obtain x where x: "exchanges_of ods = [x]" by (auto simp: length_Suc_conv)
      then have "set (map xo_exchange ods) = {x}" unfolding exchanges_of_def by (metis list.set(1,2) set_remdups)
      moreover from 4 have "ods \<noteq> []" by auto
      ultimately show ?thesis
        using 4 True by (intro multi [of x]) (auto simp: route_orders_def dest: list.set_sel(1))
    next
      case False
      with 4 show ?thesis by (intro singles) (auto simp: route_orders_def)
    qed
  qed
qed

lemma singles_reject:
  "run_singles w ods sid s = (rs, s') \<Longrightarrow>
     ((\<forall>r \<in> set rs. xr_status r = ES_REJECTED) \<longleftrightarrow> x_log s' = x_log s) \<and> grows s s'
     \<and> (KillSwitch.halted (w_rust w) (x_flags s) \<longrightarrow> (\<forall>r \<in> set rs. xr_status r = ES_REJECTED))"
proof (induction ods arbitrary: s rs)
  case (Cons od ods)
  obtain r s1 where one: "execute_multi_leg w (xo_exchange od) [od] sid s = (r, s1)" by fastforce
  obtain rs' s2 where rest: "run_singles w ods sid s1 = (rs', s2)" by fastforce
  from Cons.prems one rest have eq: "rs = r # rs'" "s' = s2" by auto
  let ?t = "acquire_locks w [xo_exchange od] (snd (check_halt w s))"
  have "grows ?t (snd (run_legs_in_order w (xo_exchange od) [od] [] sid ?t))"
    by (rule growth.keep_run_legs [OF growth.keep_refl])
  then have g1: "grows s s1"
    using one
    by (auto simp: execute_multi_leg_def Let_def case_prod_beta grows_def release_lock_def acquire_locks_def check_halt_def
        simp del: run_legs_in_order.simps split: if_splits)
  show ?case
    using multi_rejects [OF one] Cons.IH [OF rest [folded eq(2)]] g1 unfolding eq(1)
    by (auto simp: grows_def)
qed (auto)

text \<open>C7. A rejection leaves no trace and a halted engine only rejects: the results of a routed list of
  orders are all REJECTED exactly when nothing was sent to an adapter, registered, halted or asked of the state
  machine (for a list that is not empty); they are all REJECTED when the engine is halted at the start and,
  for two orders, also when it is halted only while the execution waits for its locks.\<close>

theorem halted_execution_sends_nothing:
  assumes "route_to_executor w edge sid ods s = (Some rs, s')"
  shows "(ods \<noteq> [] \<longrightarrow> ((\<forall>r \<in> set rs. xr_status r = ES_REJECTED) \<longleftrightarrow> x_log s' = x_log s))
    \<and> (KillSwitch.halted (w_rust w) (x_flags s) \<or> w_halted_meanwhile w \<and> length ods = 2 \<longrightarrow>
         (\<forall>r \<in> set rs. xr_status r = ES_REJECTED) \<and> x_log s' = x_log s)"
proof (cases rule: route_cases [of ods])
  case (multi ex)
  then obtain r where "rs = [r]" and run: "execute_multi_leg w ex ods sid s = (r, s')"
    using assms by (auto simp: route_to_executor_def split: prod.splits)
  moreover from multi(1) have "ods \<noteq> []" "length ods \<noteq> 2" by auto
  ultimately show ?thesis using multi_rejects [OF run] by auto
next
  case (same o1 o2)
  then obtain r where "rs = [r]" and run: "execute_same_exchange w (xo_exchange o1) o1 o2 sid s = (r, s')"
    using assms by (auto simp: route_to_executor_def split: prod.splits)
  then show ?thesis using same_rejects [OF run] by auto
next
  case (cross o1 o2)
  then obtain r e where "rs = [r]" and run: "execute_cross_exchange w o1 o2 sid e s = (Some r, s')"
    using assms by (auto simp: route_to_executor_def split: prod.splits)
  then show ?thesis using cross_rejects [OF run] by auto
qed (use assms singles_reject [of w ods sid s rs s'] in \<open>auto simp: route_to_executor_def split: prod.splits\<close>)

theorem halted_execution_sends_nothing_witness:
  "x_log (snd (route_to_executor (ex_world [] [] TimedOut) 0 ''arb'' ex_pair
      (ex_start\<lparr>x_flags := halt_local ex_no_rust initial_flags\<rparr>))) = []"
proof -
  let ?W = "ex_world [] [] TimedOut" and ?S = "ex_start\<lparr>x_flags := halt_local ex_no_rust initial_flags\<rparr>"
  have "fst (route_to_executor ?W 0 ''arb'' ex_pair ?S) = Some [rejected_result ''Engine halted'' ''arb'']"
    by code_simp
  then have run: "route_to_executor ?W 0 ''arb'' ex_pair ?S
      = (Some [rejected_result ''Engine halted'' ''arb''], snd (route_to_executor ?W 0 ''arb'' ex_pair ?S))"
    by (metis prod.collapse)
  have "KillSwitch.halted (w_rust ?W) (x_flags ?S)" by (simp add: halted_if_flag)
  then show ?thesis using halted_execution_sends_nothing [OF run] by (simp add: ex_start_def)
qed

subsection \<open>Locks and margin\<close>

text \<open>The number of reservations of an exchange.\<close>

definition reserved_count :: "string \<Rightarrow> margin_tracker \<Rightarrow> nat" where
  "reserved_count ex M = length (filter (\<lambda>r. fst r = ex) (reservations M))"

text \<open>During the execution no reservation expires, and none is small enough to match an empty request.\<close>

definition steady :: "x_world \<Rightarrow> margin_tracker \<Rightarrow> bool" where
  "steady w M \<longleftrightarrow> (\<forall>r \<in> set (reservations M). \<forall>n. reservation_live (w_clock w n) r)
     \<and> (\<forall>m n. w_clock w n < w_clock w m + ttl_s M)"

definition no_dust :: "string \<Rightarrow> margin_tracker \<Rightarrow> bool" where
  "no_dust ex M \<longleftrightarrow> (\<forall>r \<in> set (reservations M). fst r = ex \<longrightarrow> \<not> matches ex 0 r)"

lemma prune_steady: "steady w M \<Longrightarrow> prune_expired (w_clock w n) M = M"
  by (simp add: steady_def prune_expired_def)

lemma remove_first_split:
  "\<exists>r \<in> set xs. P r \<Longrightarrow> \<exists>ys y zs. xs = ys @ y # zs \<and> P y \<and> remove_first P xs = ys @ zs"
proof (induction xs)
  case (Cons x xs)
  show ?case
  proof (cases "P x")
    case True
    then show ?thesis by (intro exI [of _ "[]"]) simp
  next
    case False
    with Cons obtain ys y zs where "xs = ys @ y # zs" "P y" "remove_first P xs = ys @ zs" by auto
    then show ?thesis using False by (intro exI [of _ "x # ys"]) auto
  qed
qed simp

lemma count_remove_first:
  "\<exists>r \<in> set xs. P r \<Longrightarrow> (\<And>r. P r \<Longrightarrow> fst r = ex) \<Longrightarrow>
   length (filter (\<lambda>r. fst r = e) (remove_first P xs)) = length (filter (\<lambda>r. fst r = e) xs) - (if e = ex then 1 else 0)"
  using remove_first_split [of xs P] by fastforce

lemma remove_first_none: "\<forall>r \<in> set xs. \<not> P r \<Longrightarrow> remove_first P xs = xs"
  by (induction xs) auto

lemma reserve_effect:
  assumes "steady w (x_margin s)" and "reserve_margin w ex req s = (ok, s')"
  shows "x_locks s' = x_locks s" and "steady w (x_margin s')"
    and "reserved_count e (x_margin s') = reserved_count e (x_margin s) + (if ok \<and> req \<noteq> 0 \<and> e = ex then 1 else 0)"
    and "\<not> ok \<Longrightarrow> x_margin s' = x_margin s"
    and "ok \<Longrightarrow> req \<noteq> 0 \<Longrightarrow> \<exists>r \<in> set (reservations (x_margin s')). matches ex (effective req) r"
    and "r \<in> set (reservations (x_margin s)) \<Longrightarrow> r \<in> set (reservations (x_margin s'))"
    and "ex' \<noteq> ex \<or> req = 0 \<Longrightarrow> no_dust ex' (x_margin s) \<Longrightarrow> no_dust ex' (x_margin s')"
proof -
  have self: "matches ex (effective req) (ex, effective req, t)" for t
    by (simp add: matches_def)
  show "x_locks s' = x_locks s" "steady w (x_margin s')"
    "reserved_count e (x_margin s') = reserved_count e (x_margin s) + (if ok \<and> req \<noteq> 0 \<and> e = ex then 1 else 0)"
    "\<not> ok \<Longrightarrow> x_margin s' = x_margin s"
    "r \<in> set (reservations (x_margin s)) \<Longrightarrow> r \<in> set (reservations (x_margin s'))"
    "ex' \<noteq> ex \<or> req = 0 \<Longrightarrow> no_dust ex' (x_margin s) \<Longrightarrow> no_dust ex' (x_margin s')"
    using assms prune_steady [OF assms(1)]
    by (auto simp: reserve_margin_def check_and_reserve_def Let_def case_prod_beta steady_def reserved_count_def no_dust_def
        split: if_splits)
  show "ok \<Longrightarrow> req \<noteq> 0 \<Longrightarrow> \<exists>r \<in> set (reservations (x_margin s')). matches ex (effective req) r"
    using assms prune_steady [OF assms(1)] self
    by (auto simp: reserve_margin_def check_and_reserve_def Let_def case_prod_beta split: if_splits)
qed

lemma release_effect:
  assumes "steady w (x_margin s)"
  shows "x_locks (release_margin w b ex req s) = x_locks s" and "steady w (x_margin (release_margin w b ex req s))"
    and "\<exists>r \<in> set (reservations (x_margin s)). matches ex (effective req) r \<Longrightarrow>
      reserved_count e (x_margin (release_margin w True ex req s)) = reserved_count e (x_margin s) - (if e = ex then 1 else 0)"
    and "no_dust ex (x_margin s) \<Longrightarrow> x_margin (release_margin w True ex 0 s) = x_margin s"
    and "ex' \<noteq> ex \<Longrightarrow> r \<in> set (reservations (x_margin s)) \<Longrightarrow> fst r = ex' \<Longrightarrow>
      r \<in> set (reservations (x_margin (release_margin w b ex req s)))"
    and "no_dust ex' (x_margin s) \<Longrightarrow> no_dust ex' (x_margin (release_margin w b ex req s))"
proof -
  note [simp] = release_margin_def margin_release_def Let_def prune_steady [OF assms]
  note sub = set_remove_first [of "matches ex (effective req)" "reservations (x_margin s)"]
  show "x_locks (release_margin w b ex req s) = x_locks s" by simp
  show "steady w (x_margin (release_margin w b ex req s))" "no_dust ex' (x_margin s) \<Longrightarrow> no_dust ex' (x_margin (release_margin w b ex req s))"
    using assms sub by (auto simp: steady_def no_dust_def)
  show "\<exists>r \<in> set (reservations (x_margin s)). matches ex (effective req) r \<Longrightarrow>
      reserved_count e (x_margin (release_margin w True ex req s)) = reserved_count e (x_margin s) - (if e = ex then 1 else 0)"
    unfolding reserved_count_def using count_remove_first [of "reservations (x_margin s)" "matches ex (effective req)" ex e]
    by (simp add: matches_def)
  show "no_dust ex (x_margin s) \<Longrightarrow> x_margin (release_margin w True ex 0 s) = x_margin s"
    by (simp add: no_dust_def effective_def) (subst remove_first_none, auto simp: matches_def)
  have keep: "r \<in> set xs \<Longrightarrow> fst r \<noteq> ex \<Longrightarrow> r \<in> set (remove_first (matches ex q) xs)" for q xs
    by (induction xs) (auto simp: matches_def)
  show "ex' \<noteq> ex \<Longrightarrow> r \<in> set (reservations (x_margin s)) \<Longrightarrow> fst r = ex' \<Longrightarrow>
      r \<in> set (reservations (x_margin (release_margin w b ex req s)))"
    using keep by simp
qed

text \<open>A reservation of \<open>req\<close> that \<open>release_margin\<close> will find.\<close>

definition covered :: "string \<Rightarrow> decimal \<Rightarrow> margin_tracker \<Rightarrow> bool" where
  "covered ex req M \<longleftrightarrow> (if req = 0 then no_dust ex M else \<exists>r \<in> set (reservations M). matches ex (effective req) r)"

lemma reserve_covers:
  assumes "steady w (x_margin s)" and "no_dust ex (x_margin s)" and "reserve_margin w ex req s = (True, s')"
  shows "covered ex req (x_margin s')"
  using reserve_effect(5,7) [OF assms(1,3)] assms(2) by (simp add: covered_def)

lemma covered_reserve:
  assumes "steady w (x_margin s)" and "covered ex req (x_margin s)" and "ex \<noteq> ex'" and "reserve_margin w ex' req' s = (ok, s')"
  shows "covered ex req (x_margin s')"
  using reserve_effect(6) [OF assms(1,4)] reserve_effect(7) [OF assms(1,4), of ex] assms(2,3)
  unfolding covered_def by (metis (full_types))

lemma release_covered:
  assumes "steady w (x_margin s)" and "covered ex req (x_margin s)"
  shows "reserved_count e (x_margin (release_margin w True ex req s))
    = reserved_count e (x_margin s) - (if req \<noteq> 0 \<and> e = ex then 1 else 0)"
proof (cases "req = 0")
  case True
  then show ?thesis using release_effect(4) [OF assms(1), of ex] assms(2) by (simp add: covered_def)
next
  case False
  then show ?thesis using release_effect(3) [OF assms(1), of ex req e] assms(2) by (simp add: covered_def)
qed

lemma covered_release:
  assumes "steady w (x_margin s)" and "covered ex req (x_margin s)" and "ex \<noteq> ex'"
  shows "covered ex req (x_margin (release_margin w b ex' req' s))"
proof (cases "req = 0")
  case True
  then show ?thesis using release_effect(6) [OF assms(1)] assms(2) by (simp add: covered_def)
next
  case False
  then obtain r where r: "r \<in> set (reservations (x_margin s))" "matches ex (effective req) r"
    using assms(2) by (auto simp: covered_def)
  then have "fst r = ex" by (simp add: matches_def)
  from release_effect(5) [OF assms(1,3) r(1) this] r(2) False show ?thesis by (auto simp: covered_def)
qed

lemma same_execution_releases:
  assumes run: "execute_same_exchange w ex o1 o2 sid s = (r, s')"
    and st: "steady w (x_margin s)" and nd: "no_dust ex (x_margin s)" and free: "ex \<notin> set (x_locks s)"
  shows "x_locks s' = x_locks s \<and> reserved_count e (x_margin s') = reserved_count e (x_margin s)"
proof (cases rule: execute_same_cases [of w ex o1 o2 sid s])
  case (early err s1)
  then show ?thesis using run by (auto simp: untouched_def)
next
  case (blocked s2)
  then have eq: "x_margin s2 = x_margin s" "x_locks s2 = x_locks s" by (simp_all add: untouched_def)
  obtain ok s3 where res: "reserve_margin w ex (notional_of o1 + notional_of o2) s2 = (ok, s3)" by fastforce
  show ?thesis
    using blocked run res reserve_effect(1,4) [OF _ res] st eq by (auto simp: eq)
next
  case (run entry s2 s3)
  let ?req = "notional_of o1 + notional_of o2"
  define t where "t = snd (same_body w ex o1 o2 sid (acquire_locks w [ex] s3))"
  have eq: "x_margin s2 = x_margin s" "x_locks s2 = x_locks s" using run(2) by (simp_all add: untouched_def)
  have "same_resources (acquire_locks w [ex] s3) t"
    unfolding t_def by (rule resources.keep_same_body [OF resources.keep_refl])
  then have t: "x_locks t = x_locks s3 @ [ex]" "x_margin t = x_margin s3"
    by (simp_all add: same_resources_def acquire_locks_def)
  have s': "s' = release_margin w entry ex ?req (release_lock ex t)"
    using assms(1) run(4) by (simp add: t_def)
  have st2: "steady w (x_margin s2)" and nd2: "no_dust ex (x_margin s2)" using st nd eq by simp_all
  show ?thesis
  proof (cases entry)
    case True
    then have res: "reserve_margin w ex ?req s2 = (True, s3)" using run(3) by simp
    note eff = reserve_effect(1,2,3) [OF st2 res]
    let ?u = "release_lock ex t"
    have u: "x_margin ?u = x_margin s3" "x_locks ?u = x_locks s"
      using t eff(1) eq free by (auto simp: release_lock_def filter_id_conv)
    have "steady w (x_margin ?u)" "covered ex ?req (x_margin ?u)"
      using eff(2) reserve_covers [OF st2 nd2 res] u by simp_all
    from release_covered [OF this] release_effect(1) [OF this(1)] show ?thesis
      using True s' u eff(3) [of e] eq by auto
  next
    case False
    then show ?thesis
      using run(3) t eq free s' by (auto simp: release_margin_def release_lock_def filter_id_conv)
  qed
qed

lemma reserve_both_effect:
  assumes st: "steady w (x_margin s)" and nd: "no_dust ex_a (x_margin s)" "no_dust ex_b (x_margin s)" and ne: "ex_a \<noteq> ex_b"
    and res: "reserve_both w ex_a ra ex_b rb s = (ok, s')"
  shows "x_locks s' = x_locks s" and "steady w (x_margin s')"
    and "reserved_count e (x_margin s') = reserved_count e (x_margin s)
      + (if ok \<and> ra \<noteq> 0 \<and> e = ex_a then 1 else 0) + (if ok \<and> rb \<noteq> 0 \<and> e = ex_b then 1 else 0)"
    and "ok \<Longrightarrow> covered ex_a ra (x_margin s') \<and> covered ex_b rb (x_margin s')"
proof -
  obtain oka t1 where a: "reserve_margin w ex_a ra s = (oka, t1)" by fastforce
  obtain okb t2 where b: "reserve_margin w ex_b rb t1 = (okb, t2)" by fastforce
  note ea = reserve_effect(1,2) [OF st a] reserve_effect(3) [OF st a, of e]
  note eb = reserve_effect(1,2) [OF ea(2) b] reserve_effect(3) [OF ea(2) b, of e]
  consider "\<not> oka" | "oka" "\<not> okb" | "oka" "okb" by blast
  then have "x_locks s' = x_locks s \<and> steady w (x_margin s')
    \<and> reserved_count e (x_margin s') = reserved_count e (x_margin s)
      + (if ok \<and> ra \<noteq> 0 \<and> e = ex_a then 1 else 0) + (if ok \<and> rb \<noteq> 0 \<and> e = ex_b then 1 else 0)
    \<and> (ok \<longrightarrow> covered ex_a ra (x_margin s') \<and> covered ex_b rb (x_margin s'))"
  proof cases
    case 1
    then have "s' = t1" "\<not> ok" using res a by (simp_all add: reserve_both_def)
    then show ?thesis using ea 1 by simp
  next
    case 2
    then have eq: "s' = release_margin w True ex_a ra t2" "\<not> ok" using res a b by (simp_all add: reserve_both_def)
    have "covered ex_a ra (x_margin t2)"
      using covered_reserve [OF ea(2) reserve_covers [OF st nd(1)] ne b] a 2(1) by simp
    from release_covered [OF eb(2) this, of e] release_effect(1,2) [OF eb(2)] show ?thesis
      using eq ea eb 2 by auto
  next
    case 3
    then have eq: "s' = t2" "ok" using res a b by (simp_all add: reserve_both_def)
    have "covered ex_a ra (x_margin t2)"
      using covered_reserve [OF ea(2) reserve_covers [OF st nd(1)] ne b] a 3(1) by simp
    moreover have "no_dust ex_b (x_margin t1)"
      using reserve_effect(7) [OF st a, of ex_b] ne nd(2) by simp
    then have "covered ex_b rb (x_margin t2)"
      using reserve_covers [OF ea(2)] b 3(2) by simp
    ultimately show ?thesis using eq ea eb 3 by simp
  qed
  then show "x_locks s' = x_locks s" "steady w (x_margin s')"
    "reserved_count e (x_margin s') = reserved_count e (x_margin s)
      + (if ok \<and> ra \<noteq> 0 \<and> e = ex_a then 1 else 0) + (if ok \<and> rb \<noteq> 0 \<and> e = ex_b then 1 else 0)"
    "ok \<Longrightarrow> covered ex_a ra (x_margin s') \<and> covered ex_b rb (x_margin s')"
    by blast+
qed

lemma release_both_effect:
  assumes st: "steady w (x_margin t)" and cov: "covered ex_a ra (x_margin t)" "covered ex_b rb (x_margin t)" and ne: "ex_a \<noteq> ex_b"
  shows "reserved_count e (x_margin (release_both w True ex_a ra ex_b rb t)) = reserved_count e (x_margin t)
          - (if ra \<noteq> 0 \<and> e = ex_a then 1 else 0) - (if rb \<noteq> 0 \<and> e = ex_b then 1 else 0)"
proof -
  let ?t = "release_margin w True ex_a ra t"
  have "steady w (x_margin ?t)" by (rule release_effect(2) [OF st])
  moreover have "covered ex_b rb (x_margin ?t)" using covered_release [OF st cov(2)] ne by simp
  ultimately show ?thesis
    using release_covered [OF st cov(1), of e] by (simp add: release_both_def release_covered)
qed

lemma locks_release [simp]:
  "x_locks (release_both w b ex_a ra ex_b rb t) = x_locks t" "x_locks (release_margin w b ex ra t) = x_locks t"
  "x_margin (release_lock ex t) = x_margin t"
  by (simp_all add: release_both_def release_margin_def release_lock_def)

lemma not_entry [simp]: "release_both w False ex_a ra ex_b rb t = t"
  by (simp add: release_both_def release_margin_def)

lemma cross_execution_releases:
  assumes run: "execute_cross_exchange w o1 o2 sid edge s = (Some r, s')"
    and st: "steady w (x_margin s)" and nd: "no_dust (xo_exchange o1) (x_margin s)" "no_dust (xo_exchange o2) (x_margin s)"
    and free: "xo_exchange o1 \<notin> set (x_locks s)" "xo_exchange o2 \<notin> set (x_locks s)" and ne: "xo_exchange o1 \<noteq> xo_exchange o2"
  shows "x_locks s' = x_locks s \<and> reserved_count e (x_margin s') = reserved_count e (x_margin s)"
proof -
  let ?a = "xo_exchange o1" and ?b = "xo_exchange o2" and ?ra = "notional_of o1" and ?rb = "notional_of o2"
  have un: "steady w (x_margin t)" "no_dust ?a (x_margin t)" "no_dust ?b (x_margin t)" "x_locks t = x_locks s"
    "x_margin t = x_margin s" if "untouched s t" for t
    using that st nd by (simp_all add: untouched_def)
  have held: "x_locks (release_lock ?b (release_lock ?a t)) = x_locks s" if "x_locks t = x_locks s @ [?a, ?b]" for t
    using that free by (auto simp: release_lock_def filter_id_conv)
  have returned: "reserved_count e (x_margin (release_both w entry ?a ?ra ?b ?rb t)) = reserved_count e (x_margin s) \<and> x_locks s3 = x_locks s"
    if u: "untouched s s2" and res: "(if entry then reserve_both w ?a ?ra ?b ?rb s2 else (True, s2)) = (True, s3)"
      and m: "x_margin t = x_margin s3" for entry s2 s3 t
  proof (cases entry)
    case True
    then have res: "reserve_both w ?a ?ra ?b ?rb s2 = (True, s3)" using res by simp
    note eff = reserve_both_effect [OF un(1-3) [OF u] ne res]
    show ?thesis
      using release_both_effect [of w t ?a ?ra ?b ?rb e] eff(1,2,4) eff(3) [of e] ne True un(4,5) [OF u] by (simp add: m)
  next
    case False
    then show ?thesis using res un(4,5) [OF u] m by simp
  qed
  show ?thesis
  proof (cases rule: execute_cross_cases [of w o1 o2 sid edge s])
    case (blocked s2)
    obtain ok s3 where res: "reserve_both w ?a ?ra ?b ?rb s2 = (ok, s3)" by fastforce
    then show ?thesis
      using blocked run reserve_both_effect(1) [OF un(1-3) [OF blocked(2)] ne res]
        reserve_both_effect(3) [OF un(1-3) [OF blocked(2)] ne res, of e] un(4,5) [OF blocked(2)] by simp
  next
    case (unsynced entry s2 s3 err)
    let ?t = "snd (sync_lots w o1 o2 (acquire_locks w [?a, ?b] s3))"
    have "same_resources (acquire_locks w [?a, ?b] s3) ?t"
      by (rule resources.keep_sync_lots [OF resources.keep_refl])
    then have t: "x_margin ?t = x_margin s3" "x_locks ?t = x_locks s3 @ [?a, ?b]"
      by (simp_all add: same_resources_def acquire_locks_def)
    show ?thesis
      using run unsynced(4) returned [OF unsynced(2,3) t(1)] t(2) held [of "release_both w entry ?a ?ra ?b ?rb ?t"] by auto
  next
    case (run entry s2 s3 o1' o2' s5)
    let ?t = "snd (cross_body w ?a ?b o1' o2' edge sid s5)"
    have "same_resources (acquire_locks w [?a, ?b] s3) s5"
      using resources.keep_sync_lots [OF resources.keep_refl, of "acquire_locks w [?a, ?b] s3" w o1 o2] run(5) by simp
    moreover have "same_resources s5 ?t" by (rule resources.keep_cross_body [OF resources.keep_refl])
    ultimately have t: "x_margin ?t = x_margin s3" "x_locks ?t = x_locks s3 @ [?a, ?b]"
      by (simp_all add: same_resources_def acquire_locks_def)
    then show ?thesis
      using assms(1) run(6) returned [OF run(3,4), of "release_lock ?b (release_lock ?a ?t)"] held [of ?t] by auto
  qed (use run ne in \<open>auto simp: untouched_def\<close>)
qed

lemma multi_execution_releases:
  assumes "execute_multi_leg w ex ods sid s = (r, s')" and "ex \<notin> set (x_locks s)"
  shows "x_locks s' = x_locks s" and "x_margin s' = x_margin s"
proof -
  let ?t = "acquire_locks w [ex] (snd (check_halt w s))"
  have "same_resources ?t (snd (run_legs_in_order w ex ods [] sid ?t))"
    by (rule resources.keep_run_legs [OF resources.keep_refl])
  then show "x_locks s' = x_locks s" "x_margin s' = x_margin s"
    using assms
    by (auto simp: execute_multi_leg_def Let_def case_prod_beta same_resources_def acquire_locks_def check_halt_def
        release_lock_def filter_id_conv split: if_splits)
qed

lemma singles_release:
  "run_singles w ods sid s = (rs, s') \<Longrightarrow> \<forall>od \<in> set ods. xo_exchange od \<notin> set (x_locks s) \<Longrightarrow>
   x_locks s' = x_locks s \<and> x_margin s' = x_margin s"
proof (induction ods arbitrary: s rs)
  case (Cons od ods)
  obtain r s1 where one: "execute_multi_leg w (xo_exchange od) [od] sid s = (r, s1)" by fastforce
  obtain rs' s2 where rest: "run_singles w ods sid s1 = (rs', s2)" by fastforce
  have "s' = s2" using Cons.prems one rest by auto
  then show ?case
    using multi_execution_releases [OF one] Cons.IH [of s1 rs'] Cons.prems(2) rest by simp
qed simp

lemma cross_execution_returns:
  assumes "xo_exchange o1 \<noteq> xo_exchange o2"
  shows "\<exists>r s'. execute_cross_exchange w o1 o2 sid edge s = (Some r, s')"
  by (cases rule: execute_cross_cases [of w o1 o2 sid edge s]) (use assms in auto)

text \<open>C9. Every routed execution returns, whatever the adapters answer, and gives back what it took: the locks
  held afterwards are those held before, and each exchange has as many margin reservations as before, after every
  outcome, when no other task holds the locks of its exchanges, no reservation expires meanwhile and none of these
  exchanges has a reservation so small that it matches an empty request.\<close>

theorem routed_execution_returns_and_releases:
  assumes "\<forall>ex \<in> xo_exchange ` set ods. ex \<notin> set (x_locks s) \<and> no_dust ex (x_margin s)" and "steady w (x_margin s)"
  shows "\<exists>rs s'. route_to_executor w edge sid ods s = (Some rs, s') \<and> x_locks s' = x_locks s
    \<and> (\<forall>e. reserved_count e (x_margin s') = reserved_count e (x_margin s))"
proof -
  obtain rs s' where run: "run_singles w ods sid s = (rs, s')" by fastforce
  have "\<forall>od \<in> set ods. xo_exchange od \<notin> set (x_locks s)" using assms(1) by simp
  from singles_release [OF run this] have singles: ?thesis if "route_orders ods = RouteSingles"
    using that run by (simp add: route_to_executor_def)
  show ?thesis
  proof (cases rule: route_cases [of ods])
  case (multi ex)
  obtain r s' where run: "execute_multi_leg w ex ods sid s = (r, s')" by fastforce
  from multi(1) have "ods \<noteq> []" by auto
  with multi(2) assms(1) have "ex \<notin> set (x_locks s)" by (cases ods) auto
  from multi_execution_releases [OF run this] show ?thesis
    using multi(3) run by (simp add: route_to_executor_def)
next
  case (same o1 o2)
  obtain r s' where run: "execute_same_exchange w (xo_exchange o1) o1 o2 sid s = (r, s')" by fastforce
  from same_execution_releases [OF run assms(2)] show ?thesis
    using same assms(1) run by (simp add: route_to_executor_def)
next
  case (cross o1 o2)
  obtain r s' where run: "execute_cross_exchange w o1 o2 sid (if occurs_in ''futures_futures'' sid then edge else 0) s = (Some r, s')"
    using cross_execution_returns [OF cross(2)] by blast
  from cross_execution_releases [OF run assms(2)] show ?thesis
    using cross assms(1) run by (simp add: route_to_executor_def)
qed (rule singles, assumption)+
qed

theorem routed_execution_returns_and_releases_witness:
  "\<exists>rs s'. route_to_executor (ex_world [] [] TimedOut) 0 ''arb'' ex_pair ex_start = (Some rs, s') \<and> x_locks s' = []
     \<and> reserved_count ''okx'' (x_margin s') = 0"
proof -
  have "\<forall>ex \<in> xo_exchange ` set ex_pair. ex \<notin> set (x_locks ex_start) \<and> no_dust ex (x_margin ex_start)"
    "steady (ex_world [] [] TimedOut) (x_margin ex_start)"
    by (simp_all add: ex_start_def margin_new_def no_dust_def steady_def ex_world_def)
  from routed_execution_returns_and_releases [OF this, of 0 "''arb''"]
  obtain rs s' where "route_to_executor (ex_world [] [] TimedOut) 0 ''arb'' ex_pair ex_start = (Some rs, s')"
    "x_locks s' = x_locks ex_start" "reserved_count ''okx'' (x_margin s') = reserved_count ''okx'' (x_margin ex_start)"
    by blast
  moreover have "x_locks ex_start = []" "reserved_count ''okx'' (x_margin ex_start) = 0"
    by (simp_all add: ex_start_def margin_new_def reserved_count_def)
  ultimately show ?thesis by auto
qed

subsection \<open>What a status means\<close>

definition alarm :: "x_state \<Rightarrow> x_state \<Rightarrow> bool" where
  "alarm s s' \<longleftrightarrow> (\<exists>ex symb side sz val why h. since s s' (Registered ex symb side sz val why h))"

definition filled_enough :: "x_world \<Rightarrow> leg_result \<Rightarrow> bool" where
  "filled_enough w l \<longleftrightarrow> lr_trade l \<noteq> None \<and> partial_fill_threshold (w_config w) \<le> fill_ratio l (xo_amount (lr_order l))"

lemma alarm_later: "alarm s t \<Longrightarrow> grows t u \<Longrightarrow> alarm s u"
  unfolding alarm_def by (meson since_later)

lemma alarm_earlier: "grows s t \<Longrightarrow> alarm t u \<Longrightarrow> alarm s u"
  unfolding alarm_def by (meson since_earlier)

lemma register_since:
  "since s (snd (tracker_register w ex symb side sz val why s))
     (Registered ex symb side sz val why (fst (tracker_register w ex symb side sz val why s)))"
  by (simp add: since_def tracker_register_def record_event_def Let_def case_prod_beta)

lemma register_alarms: "alarm s (snd (tracker_register w ex symb side sz val why s))"
  unfolding alarm_def using register_since by blast

lemma strand_alarms:
  "alarm s (snd (strand_order w ex od why s))" "alarm s (strand_and_halt w ex od why s)"
  "\<not> fst rb \<Longrightarrow> alarm s (snd (strand_failed w ex od rb s))"
proof -
  show *: "alarm s (snd (strand_order w ex od why s))" for why by (simp add: strand_order_def register_alarms)
  show "alarm s (strand_and_halt w ex od why s)"
    using alarm_later [OF * [of why] growth.keep_raise] * by (simp add: strand_and_halt_def Let_def case_prod_beta)
  show "\<not> fst rb \<Longrightarrow> alarm s (snd (strand_failed w ex od rb s))"
    using alarm_later [OF * growth.keep_transition [OF growth.keep_refl]]
    by (simp add: strand_failed_def Let_def case_prod_beta)
qed

lemma abort_alarms:
  assumes "abort_multi w ex completed why sid s = (r, s')" and "xr_status r = ES_ROLLBACK_FAILED"
  shows "alarm s s'"
proof -
  let ?s1 = "snd (rollback_legs w ex (rev completed) (True, []) s)" and ?rb = "fst (rollback_legs w ex (rev completed) (True, []) s)"
  have g: "grows s ?s1" by (intro frame)
  have "\<not> fst ?rb" using assms by (auto simp: abort_multi_def Let_def case_prod_beta result_def split: if_splits)
  then have "alarm ?s1 s'"
    using assms strand_alarms(2) [of ?s1 w ex "lr_order (last completed)" "snd ?rb"]
      register_alarms alarm_later [OF register_alarms growth.keep_raise]
    by (auto simp: abort_multi_def Let_def case_prod_beta split: if_splits)
  then show ?thesis by (rule alarm_earlier [OF g])
qed

lemma rollback_same_alarms:
  assumes "rollback_same w ex o1 o2 l1 l2 sid s = (r, s')" and "xr_status r = ES_ROLLBACK_FAILED"
  shows "alarm s s'"
proof -
  obtain rb1 s1 where 1: "rollback_order w ex o1 None (has_fill l1) (Some (filled_amount l1)) s = (rb1, s1)" by fastforce
  obtain rb2 s2 where 2: "rollback_order w ex o2 None (has_fill l2) (Some (filled_amount l2)) s1 = (rb2, s2)" by fastforce
  obtain h1 s3 where 3: "strand_failed w ex o1 rb1 s2 = (h1, s3)" by fastforce
  obtain h2 s4 where 4: "strand_failed w ex o2 rb2 s3 = (h2, s4)" by fastforce
  have fail: "\<not> fst rb1 \<or> \<not> fst rb2" and s': "s' = (if h1 \<or> h2 then raise_halt w s4 else s4)"
    using assms by (auto simp: rollback_same_def Let_def 1 2 3 4 result_def split: if_splits)
  have g: "grows s s1" "grows s1 s2" "grows s2 s3" "grows s3 s4" "grows s4 s'"
    using growth.keep_rollback [OF growth.keep_refl, of s w ex o1 None "has_fill l1" "Some (filled_amount l1)"]
      growth.keep_rollback [OF growth.keep_refl, of s1 w ex o2 None "has_fill l2" "Some (filled_amount l2)"]
      growth.keep_strand_failed [OF growth.keep_refl, of s2 w ex o1 rb1]
      growth.keep_strand_failed [OF growth.keep_refl, of s3 w ex o2 rb2]
    by (simp_all add: 1 2 3 4 s' growth.keep_raise)
  have "alarm s2 s4"
    using fail strand_alarms(3) [of rb1 s2 w ex o1] strand_alarms(3) [of rb2 s3 w ex o2] g
    by (auto simp: 3 4 intro: alarm_later alarm_earlier)
  then show ?thesis using g by (meson alarm_earlier alarm_later grows_trans)
qed

lemma rollback_leg2_alarms: "fst (rollback_leg2 w l2 s) \<Longrightarrow> alarm s (snd (rollback_leg2 w l2 s))"
  by (auto simp: rollback_leg2_def Let_def case_prod_beta split: if_splits
      intro!: alarm_earlier [OF _ register_alarms] growth.keep_rollback growth.keep_refl)

lemma rollback_leg1_alarms:
  assumes "rollback_leg1 w ex o1 l1 l2 h sid why s = (r, s')" and "xr_status r = ES_ROLLBACK_FAILED" and "\<not> h"
  shows "alarm s s'"
proof -
  let ?oid = "case lr_trade l1 of None \<Rightarrow> None | Some t \<Rightarrow> xt_order_id t"
  let ?rb = "rollback_order w ex o1 ?oid (has_fill l1) (Some (filled_amount l1)) s"
  have "\<not> fst (fst ?rb)" and s': "s' = maybe_transition w (xo_id o1) (if has_fill l1 then ACKED else SENT) STRANDED
      (strand_and_halt w ex o1 (snd (fst ?rb)) (snd ?rb))"
    using assms by (auto simp: rollback_leg1_def Let_def case_prod_beta result_def split: if_splits)
  then show ?thesis
    by (auto intro!: alarm_later [OF _ growth.keep_transition [OF growth.keep_refl]] alarm_earlier [OF _ strand_alarms(2)] frame)
qed

lemma rollback_cross_alarms:
  assumes "do_rollback_cross w ex o1 l1 l2 sid why s = (r, s')" and "xr_status r = ES_ROLLBACK_FAILED"
  shows "alarm s s'"
proof -
  obtain h s1 where 2: "rollback_leg2 w l2 s = (h, s1)" by fastforce
  have g: "grows s s1" using growth.keep_rollback_cross(1) [OF growth.keep_refl, of s w l2] 2 by simp
  show ?thesis
  proof (cases "xo_reduce_only o1 \<and> has_fill l1")
    case True
    then show ?thesis
      using assms alarm_later [OF register_alarms growth.keep_raise] register_alarms alarm_earlier [OF g]
      by (auto simp: do_rollback_cross_def Let_def 2 case_prod_beta split: if_splits)
  next
    case False
    have run: "rollback_leg1 w ex o1 l1 l2 h sid why s1 = (r, s')"
      using assms(1) unfolding do_rollback_cross_def 2 Let_def prod.case if_not_P [OF False] .
    show ?thesis
    proof (cases h)
      case True
      then have "alarm s s1" using rollback_leg2_alarms [of w l2 s] 2 by simp
      moreover have "grows s1 s'"
        using growth.keep_rollback_cross(2) [OF growth.keep_refl, of s1 w ex o1 l1 l2 h sid why] run by simp
      ultimately show ?thesis by (rule alarm_later)
    next
      case False
      then show ?thesis using rollback_leg1_alarms [OF run assms(2)] g by (simp add: alarm_earlier)
    qed
  qed
qed

lemma leg1_alarms:
  assumes "xr_status (fst x) = ES_ROLLBACK_FAILED"
    and "x = leg1_unanswered w ex o1 tag err why sid s \<or> x = undo_leg1 w ex o1 l1 filled prefix why sid s"
  shows "alarm s (snd x)"
  using assms
  by (auto simp: leg1_unanswered_def undo_leg1_def Let_def case_prod_beta result_def split: if_splits
      intro!: alarm_earlier [OF _ strand_alarms(2)] frame)

subsection \<open>The bodies\<close>

text \<open>What a finished body says: SUCCESS means every leg filled enough, ROLLBACK\_FAILED that a position was
  handed to the stranded tracker.\<close>

definition truthful :: "x_world \<Rightarrow> x_result \<Rightarrow> x_state \<Rightarrow> x_state \<Rightarrow> bool" where
  "truthful w r s s' \<longleftrightarrow> xr_status r \<noteq> ES_TIMEOUT
     \<and> (xr_status r = ES_SUCCESS \<longrightarrow> (\<forall>l \<in> set (xr_legs r). filled_enough w l))
     \<and> (xr_status r = ES_ROLLBACK_FAILED \<longrightarrow> alarm s s')"

lemma truthful_earlier: "grows s t \<Longrightarrow> truthful w r t u \<Longrightarrow> truthful w r s u"
  by (auto simp: truthful_def alarm_earlier)

lemma truthful_parts:
  "truthful w (fst (rollback_same w ex o1 o2 l1 l2 sid s)) s (snd (rollback_same w ex o1 o2 l1 l2 sid s))"
  "truthful w (fst (abort_multi w ex completed why sid s)) s (snd (abort_multi w ex completed why sid s))"
  "truthful w (fst (do_rollback_cross w ex o1 l1 l2 sid why s)) s (snd (do_rollback_cross w ex o1 l1 l2 sid why s))"
  "truthful w (fst (leg1_unanswered w ex o1 tag err why sid s)) s (snd (leg1_unanswered w ex o1 tag err why sid s))"
  "truthful w (fst (undo_leg1 w ex o1 l1 filled pre why sid s)) s (snd (undo_leg1 w ex o1 l1 filled pre why sid s))"
  "truthful w (rejected_result err sid) s s"
proof -
  have intro: "truthful w (fst x) s (snd x)"
    if "xr_status (fst x) \<in> {ES_ROLLED_BACK, ES_ROLLBACK_FAILED}"
      and "xr_status (fst x) = ES_ROLLBACK_FAILED \<Longrightarrow> alarm s (snd x)" for x
    using that by (auto simp: truthful_def)
  show "truthful w (fst (rollback_same w ex o1 o2 l1 l2 sid s)) s (snd (rollback_same w ex o1 o2 l1 l2 sid s))"
    by (intro intro not_rejected(1) rollback_same_alarms [OF surjective_pairing])
  show "truthful w (fst (abort_multi w ex completed why sid s)) s (snd (abort_multi w ex completed why sid s))"
    by (intro intro not_rejected(2) abort_alarms [OF surjective_pairing])
  show "truthful w (fst (do_rollback_cross w ex o1 l1 l2 sid why s)) s (snd (do_rollback_cross w ex o1 l1 l2 sid why s))"
    by (intro intro not_rejected(4) rollback_cross_alarms [OF surjective_pairing])
  show "truthful w (fst (leg1_unanswered w ex o1 tag err why sid s)) s (snd (leg1_unanswered w ex o1 tag err why sid s))"
    by (intro intro not_rejected(5)) (blast intro: leg1_alarms)
  show "truthful w (fst (undo_leg1 w ex o1 l1 filled pre why sid s)) s (snd (undo_leg1 w ex o1 l1 filled pre why sid s))"
    by (intro intro not_rejected(6)) (blast intro: leg1_alarms)
  show "truthful w (rejected_result err sid) s s"
    by (simp add: truthful_def)
qed

lemma filled_enough_leg:
  "\<not> fill_ratio (leg_of od (Returned t)) (xo_amount od) < partial_fill_threshold (w_config w) \<Longrightarrow> filled_enough w (leg_of od (Returned t))"
  by (simp add: filled_enough_def leg_of_def)

lemma truthful_success: "\<forall>l \<in> set ls. filled_enough w l \<Longrightarrow> truthful w (result ES_SUCCESS ls err sid) s s'"
  by (simp add: truthful_def result_def)

lemma truthful_same: "truthful w (fst (same_body w ex o1 o2 sid s)) s (snd (same_body w ex o1 o2 sid s))"
proof -
  obtain r1 s1 where 1: "place_maybe_split w ex o1 (maybe_transition w (xo_id o2) PENDING SENT
      (maybe_transition w (xo_id o1) PENDING SENT (snd (check_halt w s)))) = (r1, s1)" by fastforce
  obtain r2 s2 where 2: "place_maybe_split w ex o2 s1 = (r2, s2)" by fastforce
  let ?s3 = "mark_leg w o2 r2 (mark_leg w o1 r1 s2)"
  have "grows s s1" using arg_cong [OF 1, of snd] by (auto intro!: frame)
  moreover have "grows s1 s2" using arg_cong [OF 2, of snd] by (auto intro!: frame)
  ultimately have g: "grows s ?s3" by (auto intro!: frame intro: grows_trans)
  show ?thesis
  proof (cases "\<not> succeeded r1 \<or> \<not> succeeded r2 \<or> below_threshold w o1 r1 \<or> below_threshold w o2 r2")
    case True
    then show ?thesis
      using truthful_earlier [OF g truthful_parts(1)] truthful_parts(6)
      by (auto simp: same_body_def Let_def case_prod_beta 1 2 truthful_def)
  next
    case False
    then have "\<forall>l \<in> {leg_of o1 r1, leg_of o2 r2}. filled_enough w l"
      by (cases r1; cases r2) (auto simp: below_threshold_def intro!: filled_enough_leg)
    then show ?thesis
      using False by (auto simp: same_body_def Let_def case_prod_beta 1 2 truthful_def result_def rejected_result_def)
  qed
qed

lemma truthful_legs:
  "\<forall>l \<in> set completed. filled_enough w l \<Longrightarrow>
   truthful w (fst (run_legs_in_order w ex ods completed sid s)) s (snd (run_legs_in_order w ex ods completed sid s))"
proof (induction ods arbitrary: completed s)
  case Nil
  then show ?case by (simp add: truthful_success)
next
  case (Cons od ods)
  obtain r s1 where 1: "place_maybe_split w ex od s = (r, s1)" by fastforce
  have g: "grows s s1" using growth.keep_split [OF growth.keep_refl, of s w ex od] 1 by simp
  show ?case
  proof (cases r)
    case (Returned t)
    show ?thesis
    proof (cases "fill_ratio (leg_of od r) (xo_amount od) < partial_fill_threshold (w_config w)")
      case True
      then show ?thesis
        using truthful_earlier [OF g truthful_parts(2)] by (simp add: Let_def 1 Returned)
    next
      case False
      then have "\<forall>l \<in> set (completed @ [leg_of od r]). filled_enough w l"
        using Cons.prems filled_enough_leg by (auto simp: Returned)
      from truthful_earlier [OF g Cons.IH [OF this]] False show ?thesis by (simp add: Let_def 1 Returned)
    qed
  qed (use truthful_earlier [OF g truthful_parts(2)] in \<open>simp_all add: Let_def 1\<close>)
qed

lemma truthful_leg2:
  assumes "filled_enough w l1" shows "truthful w (fst (run_leg2 w ex_a ex_b o1 o2 l1 sid s)) s (snd (run_leg2 w ex_a ex_b o1 o2 l1 sid s))"
proof -
  obtain r s1 where 1: "place_maybe_split w ex_b o2 (maybe_transition w (xo_id o2) PENDING SENT s) = (r, s1)" by fastforce
  have g: "grows s s1" using arg_cong [OF 1, of snd] by (auto intro!: frame)
  have g2: "grows s (maybe_transition w oid a b s1)" for oid a b
    by (rule growth.keep_transition [OF g])
  show ?thesis
  proof (cases r)
    case (Returned t)
    show ?thesis
    proof (cases "fill_ratio (leg_of o2 r) (xo_amount o2) < partial_fill_threshold (w_config w)")
      case True
      then show ?thesis
        using truthful_earlier [OF g2 truthful_parts(3)] by (simp add: run_leg2_def Let_def 1 Returned)
    next
      case False
      then show ?thesis
        using assms filled_enough_leg [of o2 t w] by (simp add: run_leg2_def Let_def 1 Returned truthful_success)
    qed
  qed (use truthful_earlier [OF g truthful_parts(3)] in \<open>simp_all add: run_leg2_def Let_def 1\<close>)
qed

lemma truthful_cross: "truthful w (fst (cross_body w ex_a ex_b o1 o2 e sid s)) s (snd (cross_body w ex_a ex_b o1 o2 e sid s))"
proof -
  obtain r s1 where 1: "place_maybe_split w ex_a o1 (maybe_transition w (xo_id o1) PENDING SENT (snd (check_halt w s))) = (r, s1)"
    by fastforce
  have g: "grows s s1" using arg_cong [OF 1, of snd] by (auto intro!: frame)
  note g2 = growth.keep_transition [OF g] and g3 = growth.keep_transition [OF growth.keep_transition [OF g]]
  have quietly: "truthful w (rejected_result err sid) s (snd (check_halt w s))" for err
    by (simp add: truthful_def)
  show ?thesis
  proof (cases "fst (check_halt w s)")
    case True
    then show ?thesis by (simp add: cross_body_def Let_def case_prod_beta quietly)
  next
    case False
    show ?thesis
    proof (cases r)
      case (Returned t)
      let ?l1 = "leg_of o1 r" and ?s2 = "maybe_transition w (xo_id o1) SENT ACKED s1"
      let ?ratio = "fill_ratio ?l1 (xo_amount o1)"
      let ?s3 = "if ?ratio < 1 \<and> xt_amount t > 0 then maybe_transition w (xo_id o1) ACKED PARTIAL ?s2 else ?s2"
      let ?o2 = "if ?ratio < 1 then o2\<lparr>xo_amount := filled_amount ?l1\<rparr> else o2"
      have g': "grows s ?s3" using g2 g3 by simp
      have eq: "cross_body w ex_a ex_b o1 o2 e sid s =
          (if ?ratio < partial_fill_threshold (w_config w)
           then undo_leg1 w ex_a o1 ?l1 (has_fill ?l1) [] ''Leg 1 partial fill below threshold'' sid ?s3
           else if edge_gone w e ?l1 (xo_side ?o2) then undo_leg1 w ex_a o1 ?l1 True ''edge_evaporated_rollback_failed:'' ''Edge evaporated'' sid ?s3
           else run_leg2 w ex_a ex_b o1 ?o2 ?l1 sid ?s3)"
        unfolding cross_body_def Let_def case_prod_beta if_not_P [OF False] 1 using Returned by simp
      have "filled_enough w ?l1" if "\<not> ?ratio < partial_fill_threshold (w_config w)"
        using that filled_enough_leg [of o1 t w] by (simp add: Returned)
      then show ?thesis
        unfolding eq
        using truthful_earlier [OF g' truthful_parts(5)] truthful_earlier [OF g' truthful_leg2 [of w ?l1]] by simp
    qed (use truthful_earlier [OF g truthful_parts(4)] truthful_earlier [OF g2 truthful_parts(4)] False in
        \<open>simp_all add: cross_body_def Let_def case_prod_beta 1\<close>)
  qed
qed

text \<open>The orders of the legs, by their ids.\<close>

definition leg_ids :: "leg_result list \<Rightarrow> string option list" where
  "leg_ids ls = map (\<lambda>l. xo_id (lr_order l)) ls"

lemma leg_order [simp]: "lr_order (leg_of od r) = od"
  by (cases r) (simp_all add: leg_of_def)

lemma not_success:
  "xr_status (fst (rollback_same w ex o1 o2 l1 l2 sid s)) \<noteq> ES_SUCCESS"
  "xr_status (fst (abort_multi w ex completed why sid s)) \<noteq> ES_SUCCESS"
  "xr_status (fst (do_rollback_cross w ex o1 l1 l2 sid why s)) \<noteq> ES_SUCCESS"
  "xr_status (fst (leg1_unanswered w ex o1 tag err why sid s)) \<noteq> ES_SUCCESS"
  "xr_status (fst (undo_leg1 w ex o1 l1 filled pre why sid s)) \<noteq> ES_SUCCESS"
  using not_rejected(1) [of w ex o1 o2 l1 l2 sid s] not_rejected(2) [of w ex completed why sid s]
    not_rejected(4) [of w ex o1 l1 l2 sid why s] not_rejected(5) [of w ex o1 tag err why sid s]
    not_rejected(6) [of w ex o1 l1 filled pre why sid s] by auto

lemma success_ids_same:
  "xr_status (fst (same_body w ex o1 o2 sid s)) = ES_SUCCESS \<Longrightarrow> leg_ids (xr_legs (fst (same_body w ex o1 o2 sid s))) = [xo_id o1, xo_id o2]"
  by (auto simp: same_body_def Let_def case_prod_beta not_success result_def leg_ids_def split: if_splits)

lemma success_ids_legs:
  "xr_status (fst (run_legs_in_order w ex ods completed sid s)) = ES_SUCCESS \<Longrightarrow>
   leg_ids (xr_legs (fst (run_legs_in_order w ex ods completed sid s))) = leg_ids completed @ map xo_id ods"
proof (induction ods arbitrary: completed s)
  case (Cons od ods)
  then show ?case
    by (cases "fst (place_maybe_split w ex od s)")
       (auto simp: Let_def case_prod_beta not_success leg_ids_def split: if_splits)
qed (simp add: result_def leg_ids_def)

lemma success_ids_cross:
  "xr_status (fst (cross_body w ex_a ex_b o1 o2 e sid s)) = ES_SUCCESS \<Longrightarrow>
   leg_ids (xr_legs (fst (cross_body w ex_a ex_b o1 o2 e sid s))) = [xo_id o1, xo_id o2]"
proof -
  have "xr_status (fst (run_leg2 w ex_a ex_b o1 o2 l1 sid s)) = ES_SUCCESS \<Longrightarrow>
      leg_ids (xr_legs (fst (run_leg2 w ex_a ex_b o1 o2 l1 sid s))) = [xo_id (lr_order l1), xo_id o2]" for o2 l1 s
    by (cases "fst (place_maybe_split w ex_b o2 (maybe_transition w (xo_id o2) PENDING SENT s))")
       (auto simp: run_leg2_def Let_def case_prod_beta not_success result_def leg_ids_def split: if_splits)
  then show "xr_status (fst (cross_body w ex_a ex_b o1 o2 e sid s)) = ES_SUCCESS \<Longrightarrow>
      leg_ids (xr_legs (fst (cross_body w ex_a ex_b o1 o2 e sid s))) = [xo_id o1, xo_id o2]"
    by (cases "fst (place_maybe_split w ex_a o1 (maybe_transition w (xo_id o1) PENDING SENT (snd (check_halt w s))))")
       (auto simp: cross_body_def Let_def case_prod_beta not_success rejected_result_def split: if_splits)
qed

lemma synced_ids: "sync_lots w o1 o2 s = (Inr (o1', o2'), s') \<Longrightarrow> xo_id o1' = xo_id o1 \<and> xo_id o2' = xo_id o2"
  by (auto simp: sync_lots_def Let_def case_prod_beta split: outcome.splits if_splits)

lemma truthful_log: "x_log s = x_log t \<Longrightarrow> x_log s' = x_log t' \<Longrightarrow> truthful w r s s' = truthful w r t t'"
  by (simp add: truthful_def alarm_def since_def)

lemma truthful_rejected: "truthful w (rejected_result err sid) s s'"
  by (simp add: truthful_def)

lemma truthful_execution:
  "execute_same_exchange w ex o1 o2 sid s = (r, s') \<Longrightarrow>
     truthful w r s s' \<and> (xr_status r = ES_SUCCESS \<longrightarrow> leg_ids (xr_legs r) = [xo_id o1, xo_id o2])"
  "execute_multi_leg w ex ods sid s = (r, s') \<Longrightarrow>
     truthful w r s s' \<and> (xr_status r = ES_SUCCESS \<longrightarrow> leg_ids (xr_legs r) = map xo_id ods)"
  "execute_cross_exchange w o1 o2 sid e s = (Some r, s') \<Longrightarrow>
     truthful w r s s' \<and> (xr_status r = ES_SUCCESS \<longrightarrow> leg_ids (xr_legs r) = [xo_id o1, xo_id o2])"
proof -
  show "truthful w r s s' \<and> (xr_status r = ES_SUCCESS \<longrightarrow> leg_ids (xr_legs r) = [xo_id o1, xo_id o2])"
    if run: "execute_same_exchange w ex o1 o2 sid s = (r, s')"
  proof (cases rule: execute_same_cases [of w ex o1 o2 sid s])
    case (run entry s2 s3)
    let ?t = "acquire_locks w [ex] s3"
    have "truthful w r s s' = truthful w (fst (same_body w ex o1 o2 sid ?t)) ?t (snd (same_body w ex o1 o2 sid ?t))"
      using that run(4) quiet_choice(1) [OF run(2,3)] by (auto intro!: truthful_log)
    then show ?thesis using that run(4) truthful_same success_ids_same by auto
  qed (use run truthful_rejected in auto)
  show "truthful w r s s' \<and> (xr_status r = ES_SUCCESS \<longrightarrow> leg_ids (xr_legs r) = map xo_id ods)"
    if run: "execute_multi_leg w ex ods sid s = (r, s')"
  proof (cases "fst (check_halt w s) \<or> \<not> check_health w ex")
    case True
    then show ?thesis using run truthful_rejected by (auto simp: execute_multi_leg_def Let_def case_prod_beta split: if_splits)
  next
    case False
    let ?t = "acquire_locks w [ex] (snd (check_halt w s))"
    have eq: "r = fst (run_legs_in_order w ex ods [] sid ?t)" "s' = release_lock ex (snd (run_legs_in_order w ex ods [] sid ?t))"
      using run False by (auto simp: execute_multi_leg_def Let_def case_prod_beta)
    have "truthful w r s s' = truthful w r ?t (snd (run_legs_in_order w ex ods [] sid ?t))"
      by (rule truthful_log) (simp_all add: eq)
    then show ?thesis using truthful_legs [of "[]" w ex ods sid ?t] success_ids_legs [of w ex ods "[]" sid ?t] eq(1)
      by (simp add: leg_ids_def)
  qed
  show "truthful w r s s' \<and> (xr_status r = ES_SUCCESS \<longrightarrow> leg_ids (xr_legs r) = [xo_id o1, xo_id o2])"
    if run: "execute_cross_exchange w o1 o2 sid e s = (Some r, s')"
  proof (cases rule: execute_cross_cases [of w o1 o2 sid e s])
    case (run entry s2 s3 o1' o2' s5)
    have "x_log s5 = x_log s"
      using quiet_sync [of w o1 o2 "acquire_locks w [xo_exchange o1, xo_exchange o2] s3"] run(5) quiet_choice(2) [OF run(3,4)] by simp
    then have "truthful w r s s' = truthful w (fst (cross_body w (xo_exchange o1) (xo_exchange o2) o1' o2' e sid s5)) s5
        (snd (cross_body w (xo_exchange o1) (xo_exchange o2) o1' o2' e sid s5))"
      using that run(6) by (auto intro!: truthful_log)
    then show ?thesis using that run(6) truthful_cross success_ids_cross synced_ids [OF run(5)] by auto
  qed (use run truthful_rejected in auto)
qed

lemma truthful_later: "truthful w r s t \<Longrightarrow> grows t u \<Longrightarrow> truthful w r s u"
  by (auto simp: truthful_def alarm_later)

lemma multi_grows: "execute_multi_leg w ex ods sid s = (r, s') \<Longrightarrow> grows s s'"
proof -
  let ?t = "acquire_locks w [ex] (snd (check_halt w s))"
  have "grows ?t (snd (run_legs_in_order w ex ods [] sid ?t))"
    by (rule growth.keep_run_legs [OF growth.keep_refl])
  then show "execute_multi_leg w ex ods sid s = (r, s') \<Longrightarrow> grows s s'"
    by (auto simp: execute_multi_leg_def Let_def case_prod_beta grows_def release_lock_def acquire_locks_def check_halt_def
        simp del: run_legs_in_order.simps split: if_splits)
qed

lemma singles_grow: "run_singles w ods sid s = (rs, s') \<Longrightarrow> grows s s'"
  using singles_reject by blast

lemma truthful_singles:
  "run_singles w ods sid s = (rs, s') \<Longrightarrow> (\<forall>r \<in> set rs. truthful w r s s')
     \<and> ((\<forall>r \<in> set rs. xr_status r = ES_SUCCESS) \<longrightarrow> leg_ids (concat (map xr_legs rs)) = map xo_id ods)"
proof (induction ods arbitrary: s rs)
  case (Cons od ods)
  obtain r s1 where one: "execute_multi_leg w (xo_exchange od) [od] sid s = (r, s1)" by fastforce
  obtain rs' s2 where rest: "run_singles w ods sid s1 = (rs', s2)" by fastforce
  have eq: "rs = r # rs'" "s' = s2" using Cons.prems one rest by auto
  show ?case
    using truthful_execution(2) [OF one] Cons.IH [of s1 rs'] rest truthful_later [OF _ singles_grow [OF rest], of w r s]
      truthful_earlier [OF multi_grows [OF one]] unfolding eq
    by (auto simp: leg_ids_def)
qed (simp add: leg_ids_def)


text \<open>Leg 1 fills, leg 2 and the unwind of leg 1 give no answer.\<close>

definition ex_failed :: "x_result list option \<times> x_state" where
  "ex_failed = route_to_executor (ex_world [TimedOut, TimedOut, ex_fill 2] [] (Returned True)) 0 ''arb'' ex_pair ex_start"


end
