(* ===== verification/ExecutorFills.thy ===== *)
theory ExecutorFills
  imports ExecutorSafety
begin

text \<open>
  What becomes of a fill whose execution did not succeed: it was unwound by a market order for the other
  side that filled at least 95 percent, or it was handed to the stranded tracker.  Then the two
  operations below it: a rollback that succeeded is not repeated, and an order placed in chunks neither
  loses a fill nor asks for more than its amount.
\<close>

subsection \<open>Rollbacks\<close>

definition unwound :: "x_state \<Rightarrow> x_state \<Rightarrow> x_order \<Rightarrow> decimal \<Rightarrow> bool" where
  "unwound s s' od qty \<longleftrightarrow> (\<exists>t actual. since s s' (Placed (xo_exchange od) (unwind_order (xo_exchange od) od qty) (Returned t) actual)
     \<and> qty * (95 / 100) \<le> xt_amount t)"

definition handed_over :: "x_state \<Rightarrow> x_state \<Rightarrow> string set \<Rightarrow> string \<Rightarrow> bool" where
  "handed_over s s' exs symb \<longleftrightarrow> (\<exists>ex side sz val why h. ex \<in> exs \<and> since s s' (Registered ex symb side sz val why h))"

lemma unwound_between: "grows a s \<Longrightarrow> unwound s s' od qty \<Longrightarrow> grows s' b \<Longrightarrow> unwound a b od qty"
  unfolding unwound_def by (meson since_earlier since_later)

lemma handed_over_between: "grows a s \<Longrightarrow> handed_over s s' exs symb \<Longrightarrow> grows s' b \<Longrightarrow> handed_over a b exs symb"
  unfolding handed_over_def by (meson since_earlier since_later)

lemma register_hands_over:
  "ex \<in> exs \<Longrightarrow> handed_over s (snd (tracker_register w ex symb side sz val why s)) exs symb"
  unfolding handed_over_def using register_since by blast

lemma strand_hands_over:
  "ex \<in> exs \<Longrightarrow> handed_over s (strand_and_halt w ex od why s) exs (xo_symbol od)"
  "ex \<in> exs \<Longrightarrow> \<not> fst rb \<Longrightarrow> handed_over s (snd (strand_failed w ex od rb s)) exs (xo_symbol od)"
proof -
  assume ex: "ex \<in> exs"
  have *: "handed_over s (snd (strand_order w ex od why s)) exs (xo_symbol od)" for why
    by (simp add: strand_order_def register_hands_over ex)
  show "handed_over s (strand_and_halt w ex od why s) exs (xo_symbol od)"
    using handed_over_between [OF growth.keep_refl * growth.keep_raise] *
    by (simp add: strand_and_halt_def Let_def case_prod_beta)
  show "\<not> fst rb \<Longrightarrow> handed_over s (snd (strand_failed w ex od rb s)) exs (xo_symbol od)"
    using handed_over_between [OF growth.keep_refl * growth.keep_transition [OF growth.keep_refl]]
    by (simp add: strand_failed_def Let_def case_prod_beta)
qed

lemma unwind_success:
  assumes "rollback_order w (xo_exchange od) od oid True (Some q) s = (rb, s')" and "fst rb" and "\<not> already_rolled_back od s"
  shows "unwound s s' od q"
proof -
  let ?ex = "xo_exchange od" and ?u = "unwind_order (xo_exchange od) od q"
  obtain r s1 where p: "place_with_timeout w ?ex ?u s = (r, s1)" by fastforce
  have eq: "unwind_filled w ?ex od q s = (rb, s')"
    using assms by (auto simp: rollback_order_def split: if_splits)
  obtain t where t: "r = Returned t" "q * (95 / 100) \<le> xt_amount t" "s' = remember_rollback (xo_id od) ''success'' s1"
    using eq assms(2) by (cases r) (auto simp: unwind_filled_def Let_def p case_prod_beta not_less split: if_splits)
  have "since s s1 (Placed ?ex ?u (Returned t) (w_real w (x_calls s)))"
    using t(1) p by (auto simp: since_def place_with_timeout_def record_event_def Let_def)
  then have "since s s' (Placed ?ex ?u (Returned t) (w_real w (x_calls s)))"
    unfolding t(3) by (rule since_later) (intro growth.keep_remember growth.keep_refl)
  with t(2) show ?thesis by (auto simp: unwound_def)
qed

subsection \<open>The memory of rollbacks\<close>

definition memory_ok :: "x_state \<Rightarrow> bool" where
  "memory_ok s \<longleftrightarrow> distinct (dict_keys (x_rollbacks s))"

lemma map_of_drop: "distinct (dict_keys d) \<Longrightarrow> map_of (drop n d) k = Some v \<Longrightarrow> map_of d k = Some v"
  by (metis distinct_drop drop_map in_set_dropD map_of_eq_Some_iff map_of_SomeD)

lemma remember_keeps_others:
  assumes "memory_ok s" and "map_of (x_rollbacks (remember_rollback oid v s)) i = Some ''success''" and "oid \<noteq> Some i"
  shows "map_of (x_rollbacks s) i = Some ''success''"
  using assms map_of_drop [of "x_rollbacks s" 1000 i]
  by (auto simp: remember_rollback_def memory_ok_def Let_def split: option.splits if_splits)

lemma remember_ok: "memory_ok s \<Longrightarrow> memory_ok (remember_rollback oid v s)"
  by (auto simp: remember_rollback_def memory_ok_def Let_def distinct_update distinct_drop simp flip: drop_map split: option.split
      intro!: distinct_update)

text \<open>Rolling one order back does not mark another.\<close>

definition id_apart :: "x_order \<Rightarrow> x_order \<Rightarrow> bool" where
  "id_apart o1 o2 \<longleftrightarrow> xo_id o1 \<noteq> xo_id o2 \<or> xo_id o2 = None \<or> xo_id o2 = Some []"

lemma already_memory: "same_memory s t \<Longrightarrow> already_rolled_back od t = already_rolled_back od s"
  by (simp add: already_rolled_back_def same_memory_def split: option.split)

lemma remembered_other:
  assumes "memory_ok s" and "id_apart o1 o2" and "\<not> already_rolled_back o2 s"
  shows "\<not> already_rolled_back o2 (remember_rollback (xo_id o1) v s)"
proof
  assume a: "already_rolled_back o2 (remember_rollback (xo_id o1) v s)"
  then obtain i where i: "xo_id o2 = Some i" "i \<noteq> []" "map_of (x_rollbacks (remember_rollback (xo_id o1) v s)) i = Some ''success''"
    by (auto simp: already_rolled_back_def split: option.splits)
  from remember_keeps_others [OF assms(1) i(3)] i assms(2,3) show False
    by (simp add: id_apart_def already_rolled_back_def)
qed

definition fresh :: "x_order \<Rightarrow> x_state \<Rightarrow> bool" where
  "fresh od s \<longleftrightarrow> memory_ok s \<and> \<not> already_rolled_back od s"

lemma fresh_memory: "same_memory s t \<Longrightarrow> fresh od t = fresh od s"
  using already_memory [of s t od] by (simp add: fresh_def memory_ok_def same_memory_def)

lemma fresh_remember: "id_apart o1 o2 \<Longrightarrow> fresh o2 s \<Longrightarrow> fresh o2 (remember_rollback (xo_id o1) v s)"
  by (simp add: fresh_def remembered_other remember_ok)

lemma fresh_failed:
  "fresh o2 s \<Longrightarrow> fresh o2 (s\<lparr>x_rollbacks := AList.update j ''failed'' (x_rollbacks s)\<rparr>)"
  by (auto simp: fresh_def memory_ok_def already_rolled_back_def distinct_update split: option.splits)

lemma fresh_rollback:
  assumes "id_apart o1 o2" and "fresh o2 s"
  shows "fresh o2 (snd (rollback_order w ex o1 oid filled amt s))"
proof -
  have call: "fresh o2 t" if "same_memory s t" for t using fresh_memory [OF that] assms(2) by simp
  note calls = call [OF memory.keep_place] call [OF memory.keep_cancel]
    call [OF memory.after(4) [OF memory.keep_place]]
  have "fresh o2 (snd (unwind_filled w ex o1 q s))" for q
    by (simp add: unwind_filled_def Let_def case_prod_beta calls fresh_remember [OF assms(1)] split: outcome.split)
  moreover have "fresh o2 (snd (cancel_unfilled w ex o1 oid s))"
    by (simp add: cancel_unfilled_def Let_def case_prod_beta calls fresh_remember [OF assms(1)] fresh_failed assms(2)
        split: outcome.split bool.split option.split)
  ultimately show ?thesis using assms(2) by (simp add: rollback_order_def)
qed

subsection \<open>Both legs\<close>

text \<open>A leg that filled is unwound or handed over.\<close>

definition settled :: "x_state \<Rightarrow> x_state \<Rightarrow> string set \<Rightarrow> leg_result \<Rightarrow> bool" where
  "settled s s' exs l \<longleftrightarrow> (has_fill l \<longrightarrow> unwound s s' (lr_order l) (filled_amount l) \<or> handed_over s s' exs (xo_symbol (lr_order l)))"

lemma settled_between: "grows a s \<Longrightarrow> settled s s' exs l \<Longrightarrow> grows s' b \<Longrightarrow> settled a b exs l"
  unfolding settled_def using unwound_between handed_over_between by blast

lemma rollback_grows: "rollback_order w ex od oid filled amt s = (rb, s') \<Longrightarrow> grows s s'"
  using growth.keep_rollback [OF growth.keep_refl, of s w ex od oid filled amt] by simp

lemma leg_settled:
  assumes "rollback_order w (xo_exchange (lr_order l)) (lr_order l) oid filled (Some (filled_amount l)) s = (rb, s')"
    and "has_fill l \<Longrightarrow> filled" and "fst rb" and "fresh (lr_order l) s"
  shows "settled s s' exs l"
  using assms unwind_success [of w "lr_order l" oid "filled_amount l" s rb s'] by (cases filled) (auto simp: settled_def fresh_def)

lemma rollback_same_settles:
  assumes run: "rollback_same w ex (lr_order l1) (lr_order l2) l1 l2 sid s = (r, s')"
    and ex: "xo_exchange (lr_order l1) = ex" "xo_exchange (lr_order l2) = ex"
    and fresh: "fresh (lr_order l1) s" "fresh (lr_order l2) s" and apart: "id_apart (lr_order l1) (lr_order l2)"
    and l: "l \<in> {l1, l2}" and exs: "ex \<in> exs"
  shows "settled s s' exs l"
proof -
  let ?o1 = "lr_order l1" and ?o2 = "lr_order l2"
  obtain rb1 s1 where 1: "rollback_order w ex ?o1 None (has_fill l1) (Some (filled_amount l1)) s = (rb1, s1)" by fastforce
  obtain rb2 s2 where 2: "rollback_order w ex ?o2 None (has_fill l2) (Some (filled_amount l2)) s1 = (rb2, s2)" by fastforce
  obtain h1 s3 where 3: "strand_failed w ex ?o1 rb1 s2 = (h1, s3)" by fastforce
  obtain h2 s4 where 4: "strand_failed w ex ?o2 rb2 s3 = (h2, s4)" by fastforce
  have g: "grows s s1" "grows s1 s2" "grows s2 s3" "grows s3 s4"
    using rollback_grows [OF 1] rollback_grows [OF 2] growth.keep_strand_failed [OF growth.keep_refl, of s2 w ex ?o1 rb1]
      growth.keep_strand_failed [OF growth.keep_refl, of s3 w ex ?o2 rb2] by (simp_all add: 3 4)
  have f2: "fresh ?o2 s1" using fresh_rollback [OF apart fresh(2), of w ex None "has_fill l1"] 1 by (metis snd_conv)
  have s1: "fst rb1 \<Longrightarrow> settled s s1 exs l1" "fst rb2 \<Longrightarrow> settled s1 s2 exs l2"
    using leg_settled [of w l1 None "has_fill l1" s rb1 s1] leg_settled [of w l2 None "has_fill l2" s1 rb2 s2] 1 2 ex fresh(1) f2
    by auto
  have s2: "\<not> fst rb1 \<Longrightarrow> settled s2 s3 exs l1" "\<not> fst rb2 \<Longrightarrow> settled s3 s4 exs l2"
    using strand_hands_over(2) [OF exs, of rb1 s2 w ?o1] strand_hands_over(2) [OF exs, of rb2 s3 w ?o2]
    by (simp_all add: settled_def 3 4)
  show ?thesis
  proof (cases "fst rb1 \<and> fst rb2")
    case True
    then have "grows s2 s'"
      using run by (auto simp: rollback_same_def Let_def 1 2 intro!: frame split: if_splits)
    then have "settled s s' exs l1" "settled s s' exs l2"
      using settled_between [OF growth.keep_refl s1(1)] settled_between [OF g(1) s1(2)] g(2) True grows_trans by blast+
    then show ?thesis using l by auto
  next
    case False
    then have g': "grows s4 s'"
      using run by (auto simp: rollback_same_def Let_def 1 2 3 4 growth.keep_raise split: if_splits)
    have "settled s s' exs l1"
      using settled_between [OF growth.keep_refl s1(1)] settled_between [OF _ s2(1)] g g' grows_trans by metis
    moreover have "settled s s' exs l2"
      using settled_between [OF g(1) s1(2)] settled_between [OF _ s2(2)] g g' grows_trans by metis
    ultimately show ?thesis using l by auto
  qed
qed

lemma rollback_leg2_settles:
  assumes run: "rollback_leg2 w l2 s = (h, s')" and fresh: "fresh (lr_order l2) s" and exs: "xo_exchange (lr_order l2) \<in> exs"
  shows "settled s s' exs l2"
proof (cases "has_fill l2")
  case True
  let ?o2 = "lr_order l2" and ?oid = "case lr_trade l2 of None \<Rightarrow> None | Some t \<Rightarrow> xt_order_id t"
  obtain rb s1 where 1: "rollback_order w (xo_exchange ?o2) ?o2 ?oid True (Some (filled_amount l2)) s = (rb, s1)" by fastforce
  show ?thesis
  proof (cases "fst rb")
    case ok: True
    then have "s' = s1" using run True by (auto simp: rollback_leg2_def Let_def 1)
    with leg_settled [OF 1 _ ok fresh] show ?thesis by simp
  next
    case False
    then have "handed_over s1 s' exs (xo_symbol ?o2)"
      using run True register_hands_over [OF exs] by (simp add: rollback_leg2_def Let_def 1) (metis snd_conv)
    then show ?thesis
      using handed_over_between [OF rollback_grows [OF 1] _ growth.keep_refl] by (simp add: settled_def)
  qed
qed (simp add: settled_def)

lemma fresh_rollback_leg2:
  assumes "id_apart (lr_order l2) od" and "fresh od s"
  shows "fresh od (snd (rollback_leg2 w l2 s))"
proof -
  have reg: "fresh od (snd (tracker_register w ex symb side sz val why t))" if "fresh od t" for ex symb side sz val why t
    using that fresh_memory [OF memory.keep_register] by simp
  have mark: "fresh od (maybe_transition w oid a b s)" for oid a b
    using fresh_memory [OF memory.keep_transition [OF memory.keep_refl]] assms(2) by simp
  show ?thesis
    by (simp add: rollback_leg2_def Let_def case_prod_beta reg mark fresh_rollback [OF assms(1)] assms(2))
qed

lemma rollback_leg1_settles:
  assumes run: "rollback_leg1 w (xo_exchange (lr_order l1)) (lr_order l1) l1 l2 h sid why s = (r, s')"
    and fresh: "fresh (lr_order l1) s" and exs: "xo_exchange (lr_order l1) \<in> exs"
  shows "settled s s' exs l1"
proof -
  let ?o1 = "lr_order l1" and ?oid = "case lr_trade l1 of None \<Rightarrow> None | Some t \<Rightarrow> xt_order_id t"
  obtain rb s1 where 1: "rollback_order w (xo_exchange ?o1) ?o1 ?oid (has_fill l1) (Some (filled_amount l1)) s = (rb, s1)" by fastforce
  show ?thesis
  proof (cases "fst rb")
    case True
    then have "grows s1 s'"
      using run by (auto simp: rollback_leg1_def Let_def 1 intro!: frame split: if_splits)
    then show ?thesis using settled_between [OF growth.keep_refl leg_settled [OF 1 _ True fresh]] by simp
  next
    case False
    then have s': "s' = maybe_transition w (xo_id ?o1) (if has_fill l1 then ACKED else SENT) STRANDED
        (strand_and_halt w (xo_exchange ?o1) ?o1 (snd rb) s1)"
      using run by (auto simp: rollback_leg1_def Let_def 1 split: if_splits)
    then show ?thesis
      using handed_over_between [OF rollback_grows [OF 1] strand_hands_over(1) [OF exs] growth.keep_transition [OF growth.keep_refl]]
      by (simp add: settled_def)
  qed
qed

lemma rollback_cross_settles:
  assumes run: "do_rollback_cross w (xo_exchange (lr_order l1)) (lr_order l1) l1 l2 sid why s = (r, s')"
    and fresh: "fresh (lr_order l1) s" "fresh (lr_order l2) s" and apart: "id_apart (lr_order l2) (lr_order l1)"
    and exs: "xo_exchange (lr_order l1) \<in> exs" "xo_exchange (lr_order l2) \<in> exs" and l: "l \<in> {l1, l2}"
  shows "settled s s' exs l"
proof -
  let ?o1 = "lr_order l1" and ?o2 = "lr_order l2"
  obtain h s1 where 2: "rollback_leg2 w l2 s = (h, s1)" by fastforce
  have g1: "grows s s1" using growth.keep_rollback_cross(1) [OF growth.keep_refl, of s w l2] 2 by simp
  have "grows s1 s'"
    using run growth.keep_rollback_cross(2) [OF growth.keep_refl, of s1 w "xo_exchange ?o1" ?o1 l1 l2 h sid why]
    by (auto simp: do_rollback_cross_def Let_def 2 case_prod_beta intro!: frame split: if_splits)
  then have leg2: "settled s s' exs l2"
    using settled_between [OF growth.keep_refl rollback_leg2_settles [OF 2 fresh(2) exs(2)]] by blast
  have leg1: "settled s1 s' exs l1"
  proof (cases "xo_reduce_only ?o1 \<and> has_fill l1")
    case True
    have *: "handed_over s1 (snd (tracker_register w (xo_exchange ?o2) (xo_symbol ?o1) side sz val rsn s1)) exs (xo_symbol ?o1)" for side sz val rsn
      by (rule register_hands_over [OF exs(2)])
    show ?thesis
      using run True * handed_over_between [OF growth.keep_refl * growth.keep_raise]
      by (auto simp: do_rollback_cross_def Let_def 2 case_prod_beta settled_def)
  next
    case False
    have "rollback_leg1 w (xo_exchange ?o1) ?o1 l1 l2 h sid why s1 = (r, s')"
      using run unfolding do_rollback_cross_def 2 Let_def prod.case if_not_P [OF False] .
    moreover have "fresh ?o1 s1" using fresh_rollback_leg2 [OF apart fresh(1), of w] 2 by (metis snd_conv)
    ultimately show ?thesis using rollback_leg1_settles exs(1) by blast
  qed
  show ?thesis
    using leg2 settled_between [OF g1 leg1 growth.keep_refl] l by auto
qed

lemma undo_leg1_settles:
  assumes run: "undo_leg1 w (xo_exchange (lr_order l1)) (lr_order l1) l1 filled prefix why sid s = (r, s')"
    and "has_fill l1 \<Longrightarrow> filled" and "fresh (lr_order l1) s" and exs: "xo_exchange (lr_order l1) \<in> exs"
  shows "settled s s' exs l1"
proof -
  let ?o1 = "lr_order l1"
  obtain rb s1 where 1: "rollback_order w (xo_exchange ?o1) ?o1 None filled (Some (filled_amount l1)) s = (rb, s1)" by fastforce
  show ?thesis
  proof (cases "fst rb")
    case True
    then show ?thesis using run leg_settled [OF 1 assms(2) True assms(3)] by (simp add: undo_leg1_def Let_def 1)
  next
    case False
    then have "s' = strand_and_halt w (xo_exchange ?o1) ?o1 (prefix @ snd rb) s1"
      using run by (simp add: undo_leg1_def Let_def 1)
    then show ?thesis
      using handed_over_between [OF rollback_grows [OF 1] strand_hands_over(1) [OF exs] growth.keep_refl]
      by (simp add: settled_def)
  qed
qed

lemma fresh_calls:
  "fresh od s \<Longrightarrow> fresh od (snd (check_halt w s))"
  "fresh od s \<Longrightarrow> fresh od (maybe_transition w oid a b s)"
  "fresh od s \<Longrightarrow> fresh od (snd (place_maybe_split w ex od' s))"
  "fresh od s \<Longrightarrow> fresh od (mark_leg w od' r s)"
  by (simp_all add: fresh_memory [OF memory.keep_flags] fresh_memory [OF memory.keep_transition [OF memory.keep_refl]]
      fresh_memory [OF memory.keep_split [OF memory.keep_refl]] fresh_memory [OF memory.keep_mark_leg [OF memory.keep_refl]])

lemma fresh_amount [simp]: "fresh (od\<lparr>xo_amount := q\<rparr>) s = fresh od s"
  by (simp add: fresh_def already_rolled_back_def)

lemma same_body_settles:
  assumes run: "same_body w ex o1 o2 sid s = (r, s')" and st: "xr_status r \<noteq> ES_SUCCESS"
    and ex: "xo_exchange o1 = ex" "xo_exchange o2 = ex" and fresh: "fresh o1 s" "fresh o2 s" and apart: "id_apart o1 o2"
    and l: "l \<in> set (xr_legs r)" and exs: "ex \<in> exs"
  shows "settled s s' exs l"
proof -
  obtain r1 s1 where 1: "place_maybe_split w ex o1 (maybe_transition w (xo_id o2) PENDING SENT
      (maybe_transition w (xo_id o1) PENDING SENT (snd (check_halt w s)))) = (r1, s1)" by fastforce
  obtain r2 s2 where 2: "place_maybe_split w ex o2 s1 = (r2, s2)" by fastforce
  let ?s3 = "mark_leg w o2 r2 (mark_leg w o1 r1 s2)"
  have "grows s s1" "fresh o1 s1" "fresh o2 s1" using arg_cong [OF 1, of snd] fresh fresh_calls by (auto intro!: frame)
  moreover have "grows s1 s2" using arg_cong [OF 2, of snd] by (auto intro!: frame)
  moreover have "fresh o1 s2" "fresh o2 s2" using arg_cong [OF 2, of snd] calculation(2,3) fresh_calls(3) by auto
  ultimately have g: "grows s ?s3" "fresh o1 ?s3" "fresh o2 ?s3"
    by (auto intro!: frame fresh_calls(4) intro: grows_trans)
  have no_halt: "\<not> fst (check_halt w s)"
    using run l by (auto simp: same_body_def Let_def case_prod_beta rejected_result_def split: if_splits)
  then have r: "rollback_same w ex o1 o2 (leg_of o1 r1) (leg_of o2 r2) sid ?s3 = (r, s')"
    using run st by (auto simp: same_body_def Let_def case_prod_beta 1 2 result_def split: if_splits)
  then have "l \<in> {leg_of o1 r1, leg_of o2 r2}"
    using l by (auto simp: rollback_same_def Let_def case_prod_beta result_def split: if_splits)
  with r have "settled ?s3 s' exs l"
    using rollback_same_settles [of w ex "leg_of o1 r1" "leg_of o2 r2" sid ?s3 r s' l exs] ex g apart exs by simp
  then show ?thesis by (rule settled_between [OF g(1) _ growth.keep_refl])
qed

lemma legs_of_parts:
  "set (xr_legs (fst (do_rollback_cross w ex o1 l1 l2 sid why s))) = {l1, l2}"
  "set (xr_legs (fst (undo_leg1 w ex o1 l1 filled pre why sid s))) = {l1}"
  "l \<in> set (xr_legs (fst (leg1_unanswered w ex o1 tag err why sid s))) \<Longrightarrow> \<not> has_fill l"
  by (auto simp: do_rollback_cross_def rollback_leg1_def undo_leg1_def leg1_unanswered_def result_def Let_def case_prod_beta
      has_fill_def split: if_splits)

lemma run_leg2_settles:
  assumes run: "run_leg2 w (xo_exchange (lr_order l1)) (xo_exchange o2) (lr_order l1) o2 l1 sid s = (r, s')" and st: "xr_status r \<noteq> ES_SUCCESS"
    and fresh: "fresh (lr_order l1) s" "fresh o2 s" and apart: "id_apart o2 (lr_order l1)"
    and l: "l \<in> set (xr_legs r)" and exs: "xo_exchange (lr_order l1) \<in> exs" "xo_exchange o2 \<in> exs"
  shows "settled s s' exs l"
proof -
  obtain a s1 where 1: "place_maybe_split w (xo_exchange o2) o2 (maybe_transition w (xo_id o2) PENDING SENT s) = (a, s1)" by fastforce
  have g: "grows s s1" "fresh (lr_order l1) s1" "fresh o2 s1" using arg_cong [OF 1, of snd] fresh fresh_calls by (auto intro!: frame)
  have g': "grows s (maybe_transition w oid x y s1)" "fresh (lr_order l1) (maybe_transition w oid x y s1)"
    "fresh o2 (maybe_transition w oid x y s1)" for oid x y
    using growth.keep_transition [OF g(1)] fresh_calls(2) g(2,3) by auto
  have main: "settled s s' exs l"
    if "do_rollback_cross w (xo_exchange (lr_order l1)) (lr_order l1) l1 l2 sid why t = (r, s')" "grows s t"
      "fresh (lr_order l1) t" "fresh o2 t" "lr_order l2 = o2" for l2 why t
  proof -
    have "l \<in> {l1, l2}" using l legs_of_parts(1) that(1) by (metis fst_conv)
    with rollback_cross_settles [OF that(1)] that apart exs have "settled t s' exs l" by simp
    then show ?thesis by (rule settled_between [OF that(2) _ growth.keep_refl])
  qed
  show ?thesis
  proof (cases a)
    case (Returned t)
    then show ?thesis
      using run st g' by (auto simp: run_leg2_def Let_def 1 result_def split: if_splits intro!: main)
  qed (use run g in \<open>auto simp: run_leg2_def Let_def 1 intro!: main\<close>)
qed

lemma cross_body_settles:
  assumes run: "cross_body w (xo_exchange o1) (xo_exchange o2) o1 o2 e sid s = (r, s')" and st: "xr_status r \<noteq> ES_SUCCESS"
    and fresh: "fresh o1 s" "fresh o2 s" and apart: "id_apart o2 o1"
    and l: "l \<in> set (xr_legs r)" and exs: "xo_exchange o1 \<in> exs" "xo_exchange o2 \<in> exs"
  shows "settled s s' exs l"
proof -
  let ?a = "xo_exchange o1" and ?b = "xo_exchange o2"
  obtain a s1 where 1: "place_maybe_split w ?a o1 (maybe_transition w (xo_id o1) PENDING SENT (snd (check_halt w s))) = (a, s1)"
    by fastforce
  have g: "grows s s1" "fresh o1 s1" "fresh o2 s1" using arg_cong [OF 1, of snd] fresh fresh_calls by (auto intro!: frame)
  have no_halt: "\<not> fst (check_halt w s)"
    using run l by (auto simp: cross_body_def Let_def case_prod_beta rejected_result_def split: if_splits)
  show ?thesis
  proof (cases a)
    case (Returned t)
    let ?l1 = "leg_of o1 a" and ?s2 = "maybe_transition w (xo_id o1) SENT ACKED s1"
    let ?ratio = "fill_ratio ?l1 (xo_amount o1)"
    let ?s3 = "if ?ratio < 1 \<and> xt_amount t > 0 then maybe_transition w (xo_id o1) ACKED PARTIAL ?s2 else ?s2"
    let ?o2 = "if ?ratio < 1 then o2\<lparr>xo_amount := filled_amount ?l1\<rparr> else o2"
    have eq: "cross_body w ?a ?b o1 o2 e sid s =
        (if ?ratio < partial_fill_threshold (w_config w)
         then undo_leg1 w ?a o1 ?l1 (has_fill ?l1) [] ''Leg 1 partial fill below threshold'' sid ?s3
         else if edge_gone w e ?l1 (xo_side ?o2) then undo_leg1 w ?a o1 ?l1 True ''edge_evaporated_rollback_failed:'' ''Edge evaporated'' sid ?s3
         else run_leg2 w ?a ?b o1 ?o2 ?l1 sid ?s3)"
      unfolding cross_body_def Let_def case_prod_beta if_not_P [OF no_halt] 1 using Returned by simp
    have g3: "grows s ?s3" "fresh o1 ?s3" "fresh ?o2 ?s3"
      using g fresh_calls(2) growth.keep_transition by auto
    have undo: "settled s s' exs l" if "undo_leg1 w ?a o1 ?l1 filled pre why sid ?s3 = (r, s')" "has_fill ?l1 \<Longrightarrow> filled" for filled pre why
    proof -
      have "l = ?l1" using l legs_of_parts(2) that(1) by (metis fst_conv singletonD)
      with undo_leg1_settles [of w ?l1 filled pre why sid ?s3 r s' exs] that g3(2) exs(1)
      have "settled ?s3 s' exs l" by simp
      then show ?thesis by (rule settled_between [OF g3(1) _ growth.keep_refl])
    qed
    consider "undo_leg1 w ?a o1 ?l1 (has_fill ?l1) [] ''Leg 1 partial fill below threshold'' sid ?s3 = (r, s')"
      | "undo_leg1 w ?a o1 ?l1 True ''edge_evaporated_rollback_failed:'' ''Edge evaporated'' sid ?s3 = (r, s')"
      | "run_leg2 w ?a ?b o1 ?o2 ?l1 sid ?s3 = (r, s')"
      using run unfolding eq by (simp split: if_splits)
    then show ?thesis
    proof cases
      case 3
      have o2: "xo_exchange ?o2 = ?b" "id_apart ?o2 o1" using apart by (simp_all add: id_apart_def)
      have "settled ?s3 s' exs l"
        using run_leg2_settles [of w ?l1 ?o2 sid ?s3 r s' l exs] 3 st l g3(2,3) exs o2 by simp
      then show ?thesis by (rule settled_between [OF g3(1) _ growth.keep_refl])
    qed (use undo in blast)+
  qed (use run l no_halt legs_of_parts(3) in \<open>auto simp: cross_body_def Let_def case_prod_beta 1 settled_def prod_eq_iff\<close>)
qed

lemma fresh_log: "x_rollbacks s = x_rollbacks t \<Longrightarrow> fresh od s = fresh od t"
  using fresh_memory [of t s od] by (simp add: same_memory_def)

lemma settled_log: "x_log s = x_log t \<Longrightarrow> x_log s' = x_log t' \<Longrightarrow> settled s s' exs l = settled t t' exs l"
  by (simp add: settled_def unwound_def handed_over_def since_def)

lemma memory_guards:
  "x_rollbacks (snd (reserve_margin w ex req s)) = x_rollbacks s" "x_rollbacks (release_margin w b ex req s) = x_rollbacks s"
  "x_rollbacks (acquire_locks w exs s) = x_rollbacks s" "x_rollbacks (snd (sync_lots w o1 o2 s)) = x_rollbacks s"
  "x_rollbacks (snd (reserve_both w ex_a ra ex_b rb s)) = x_rollbacks s"
  using memory.keep_sync_lots [OF memory.keep_refl, of s w o1 o2]
  by (simp_all add: reserve_margin_def release_margin_def acquire_locks_def same_memory_def reserve_both_def Let_def case_prod_beta)

lemma memory_choice:
  "untouched s s2 \<Longrightarrow> (if entry then reserve_margin w ex req s2 else (True, s2)) = (True, s3) \<Longrightarrow> x_rollbacks s3 = x_rollbacks s"
  "untouched s s2 \<Longrightarrow> (if entry then reserve_both w ex_a ra ex_b rb s2 else (True, s2)) = (True, s3) \<Longrightarrow> x_rollbacks s3 = x_rollbacks s"
  using memory_guards(1) [of w ex req s2] memory_guards(5) [of w ex_a ra ex_b rb s2]
  by (auto simp: untouched_def split: if_splits)

lemma same_execution_settles:
  assumes run: "execute_same_exchange w ex o1 o2 sid s = (r, s')" and st: "xr_status r \<noteq> ES_SUCCESS"
    and ex: "xo_exchange o1 = ex" "xo_exchange o2 = ex" and fresh: "fresh o1 s" "fresh o2 s" and apart: "id_apart o1 o2"
    and l: "l \<in> set (xr_legs r)"
  shows "settled s s' {ex} l"
proof (cases rule: execute_same_cases [of w ex o1 o2 sid s])
  case (run entry s2 s3)
  let ?t = "acquire_locks w [ex] s3"
  obtain t' where body: "same_body w ex o1 o2 sid ?t = (r, t')" and s': "x_log s' = x_log t'"
    using assms(1) run(4) by (metis fst_conv prod.collapse quiet(5,7) snd_conv)
  have "fresh o1 ?t" "fresh o2 ?t"
    using fresh memory_choice(1) [OF run(2,3)] memory_guards(3) fresh_log by metis+
  from same_body_settles [OF body st ex this apart l] have "settled ?t t' {ex} l" by simp
  then show ?thesis using settled_log [of ?t s t' s'] quiet_choice(1) [OF run(2,3)] s' by simp
qed (use run l in \<open>auto simp: rejected_result_def\<close>)

lemma cross_execution_settles:
  assumes run: "execute_cross_exchange w o1 o2 sid e s = (Some r, s')" and st: "xr_status r \<noteq> ES_SUCCESS"
    and fresh: "fresh o1 s" "fresh o2 s" and apart: "id_apart o2 o1" and l: "l \<in> set (xr_legs r)"
  shows "settled s s' {xo_exchange o1, xo_exchange o2} l"
proof (cases rule: execute_cross_cases [of w o1 o2 sid e s])
  case (run entry s2 s3 o1' o2' s5)
  let ?a = "xo_exchange o1" and ?b = "xo_exchange o2" and ?t = "acquire_locks w [xo_exchange o1, xo_exchange o2] s3"
  have cut: "xo_exchange o1' = ?a" "xo_exchange o2' = ?b" "xo_id o1' = xo_id o1" "xo_id o2' = xo_id o2"
    using run(5) by (auto simp: sync_lots_def Let_def case_prod_beta split: outcome.splits if_splits)
  obtain t' where body: "cross_body w ?a ?b o1' o2' e sid s5 = (r, t')" and s': "x_log s' = x_log t'"
    using assms(1) run(6) by (auto simp: prod_eq_iff)
  have s5: "x_log s5 = x_log s" "x_rollbacks s5 = x_rollbacks s"
    using run(5) quiet_sync [of w o1 o2 ?t] memory_guards(4) [of w o1 o2 ?t] quiet_choice(2) [OF run(3,4)]
      memory_choice(2) [OF run(3,4)] memory_guards(3) [of w "[?a, ?b]" s3] by simp_all
  have "fresh o1' s5" "fresh o2' s5"
    using fresh s5(2) cut(3,4) by (simp_all add: fresh_def memory_ok_def already_rolled_back_def split: option.splits)
  moreover have "id_apart o2' o1'" using apart cut by (simp add: id_apart_def)
  ultimately have "settled s5 t' {?a, ?b} l"
    using cross_body_settles [of w o1' o2' e sid s5 r t' l "{?a, ?b}"] body st l cut by simp
  then show ?thesis using settled_log [of s5 s t' s'] s5(1) s' by simp
qed (use run l in \<open>auto simp: rejected_result_def\<close>)


text \<open>Leg 1 fills, leg 2 gives no answer, leg 1 is unwound.\<close>

definition ex_unwound :: "x_result list option \<times> x_state" where
  "ex_unwound = route_to_executor (ex_world [TimedOut, TimedOut, ex_fill 2, TimedOut, TimedOut, ex_fill 2] [] (Returned True))
     0 ''arb'' [ex_order ''a'' ''okx'' BUY, ex_order ''b'' ''bybit'' SELL] ex_start"

definition ex_leg1 :: leg_result where
  "ex_leg1 = leg_of (ex_order ''a'' ''okx'' BUY) (ex_fill 2)"


subsection \<open>A rollback is not repeated\<close>

text \<open>Once an order with an id was rolled back, it is never unwound or cancelled a second time while it
  is remembered: the next rollback of it succeeds at once, whatever it is asked to do, and touches nothing.\<close>

lemma rollback_not_repeated:
  assumes "rollback_order w ex od oid filled amt s = ((True, why), s')" and "xo_id od = Some i" and "i \<noteq> []"
  shows "rollback_order w' ex' od oid' filled' amt' s' = ((True, ''dedup_skipped''), s')"
proof -
  have "already_rolled_back od s'"
    using assms
    by (auto simp: rollback_order_def unwind_filled_def cancel_unfilled_def already_rolled_back_def remember_rollback_def Let_def
        case_prod_beta split: if_splits outcome.splits bool.splits)
  then show ?thesis by (simp add: rollback_order_def)
qed

lemma rollback_not_repeated_witness:
  "fst (rollback_order (ex_world [] [] TimedOut) ''okx'' (ex_order ''a'' ''okx'' BUY) None True (Some 2)
     (snd (rollback_order (ex_world [ex_fill 2] [] TimedOut) ''okx'' (ex_order ''a'' ''okx'' BUY) None True (Some 2) ex_start)))
   = (True, ''dedup_skipped'')"
proof -
  let ?o = "ex_order ''a'' ''okx'' BUY" and ?x = "rollback_order (ex_world [ex_fill 2] [] TimedOut) ''okx'' (ex_order ''a'' ''okx'' BUY) None True (Some 2) ex_start"
  have "fst ?x = (True, [])" by code_simp
  then have "?x = ((True, []), snd ?x)" by (metis prod.collapse)
  from rollback_not_repeated [OF this, of "''a''" "ex_world [] [] TimedOut" "''okx''" None True "Some 2"] show ?thesis
    by (simp add: ex_order_def)
qed

subsection \<open>Orders in chunks\<close>

fun event_fill :: "x_event \<Rightarrow> decimal" where
  "event_fill (Placed ex od (Returned t) actual) = xt_amount t"
| "event_fill _ = 0"

fun event_cost :: "x_event \<Rightarrow> decimal" where
  "event_cost (Placed ex od (Returned t) actual) = xt_amount t * xt_price t"
| "event_cost _ = 0"

text \<open>An adapter that fills no more than it was asked for.\<close>

fun within_request :: "x_event \<Rightarrow> bool" where
  "within_request (Placed ex od (Returned t) actual) \<longleftrightarrow> 0 \<le> xt_amount t \<and> xt_amount t \<le> xo_amount od"
| "within_request _ \<longleftrightarrow> True"

lemma floor_to_le: "0 < step \<Longrightarrow> 0 \<le> q \<Longrightarrow> floor_to step q \<le> q"
  by (simp add: floor_to_def) (metis floor_correct pos_le_divide_eq)

lemma floor_to_neg: "0 < step \<Longrightarrow> q < 0 \<Longrightarrow> floor_to step q \<le> 0"
  by (simp add: floor_to_def mult_le_0_iff ceiling_le_zero divide_le_0_iff)

lemma chunk_amount [simp]: "xo_amount (chunk_order od q i) = q"
  by (simp add: chunk_order_def)

lemma place_event:
  "place_with_timeout w ex od s = (r, s') \<Longrightarrow> \<exists>actual. x_log s' = x_log s @ [Placed ex od r actual]"
  by (auto simp: place_with_timeout_def record_event_def Let_def)

lemma split_loop_accounts:
  assumes "split_loop w ex od step chunk n k remaining acc s = (Inr acc', s')" and "\<forall>n t. w_place w n = Returned t \<longrightarrow> 0 \<le> xt_amount t"
  shows "\<exists>new. x_log s' = x_log s @ new \<and> sp_qty acc' = sp_qty acc + (\<Sum>e\<leftarrow>new. event_fill e)
    \<and> sp_cost acc' = sp_cost acc + (\<Sum>e\<leftarrow>new. event_cost e) \<and> (\<forall>e \<in> set new. 0 \<le> event_fill e)
    \<and> (sp_last acc' = None \<longrightarrow> sp_last acc = None \<and> sp_qty acc' = sp_qty acc)
    \<and> ((\<forall>e \<in> set new. within_request e) \<longrightarrow> 0 \<le> remaining \<longrightarrow> (\<Sum>e\<leftarrow>new. event_fill e) \<le> remaining)"
  using assms(1)
proof (induction k arbitrary: remaining acc s)
  case (Suc k)
  define q0 where "q0 = (if k = 0 then remaining else min chunk remaining)"
  define q where "q = (if step > 0 then floor_to step q0 else q0)"
  let ?od = "chunk_order od q (n - Suc k)"
  obtain r s1 where p: "place_with_timeout w ex ?od s = (r, s1)" by fastforce
  obtain actual where log: "x_log s1 = x_log s @ [Placed ex ?od r actual]" using place_event [OF p] by blast
  have run: "(if q \<le> 0 then (Inr acc, s)
      else case r of
             Returned t \<Rightarrow> split_loop w ex od step chunk n k (remaining - xt_amount t)
               \<lparr>sp_qty = sp_qty acc + xt_amount t, sp_cost = sp_cost acc + xt_amount t * xt_price t,
                sp_fee = sp_fee acc + xt_fee t, sp_last = Some t\<rparr> s1
           | _ \<Rightarrow> if sp_last acc \<noteq> None then (Inr acc, s1) else (Inl r, s1)) = (Inr acc', s')"
    using Suc.prems unfolding split_loop.simps Let_def q0_def [symmetric] q_def [symmetric] p prod.case .
  have q_le: "q \<le> remaining" if "0 < q" "0 \<le> remaining"
  proof (cases "0 \<le> q0")
    case True
    then have "q \<le> q0" using floor_to_le by (simp add: q_def)
    also have "q0 \<le> remaining" by (simp add: q0_def)
    finally show ?thesis .
  next
    case False
    then show ?thesis using that(1) floor_to_neg [of step q0] by (simp add: q_def split: if_splits)
  qed
  show ?case
  proof (cases "q \<le> 0")
    case True
    then show ?thesis using run by (intro exI [of _ "[]"]) auto
  next
    case False
    show ?thesis
    proof (cases r)
      case (Returned t)
      with run False obtain new where new: "x_log s' = x_log s1 @ new"
        "sp_qty acc' = sp_qty acc + xt_amount t + (\<Sum>e\<leftarrow>new. event_fill e)"
        "sp_cost acc' = sp_cost acc + xt_amount t * xt_price t + (\<Sum>e\<leftarrow>new. event_cost e)" "\<forall>e \<in> set new. 0 \<le> event_fill e"
        "sp_last acc' \<noteq> None"
        "(\<forall>e \<in> set new. within_request e) \<longrightarrow> 0 \<le> remaining - xt_amount t \<longrightarrow> (\<Sum>e\<leftarrow>new. event_fill e) \<le> remaining - xt_amount t"
        using Suc.IH [of "remaining - xt_amount t" "\<lparr>sp_qty = sp_qty acc + xt_amount t, sp_cost = sp_cost acc + xt_amount t * xt_price t,
                sp_fee = sp_fee acc + xt_fee t, sp_last = Some t\<rparr>" s1] by auto
      have "0 \<le> xt_amount t"
        using p assms(2) Returned by (auto simp: place_with_timeout_def Let_def)
      then show ?thesis
        using new log q_le False Returned by (intro exI [of _ "Placed ex ?od r actual # new"]) auto
    qed (use run False log in \<open>auto split: if_splits intro!: exI [of _ "[Placed ex ?od r actual]"]\<close>)
  qed
qed (auto intro: exI [of _ "[]"])

lemma no_fill_no_cost:
  "\<forall>e \<in> set es. 0 \<le> event_fill e \<Longrightarrow> (\<Sum>e\<leftarrow>es. event_fill e) \<le> 0 \<Longrightarrow>
   (\<Sum>e\<leftarrow>es. event_fill e) = 0 \<and> (\<Sum>e\<leftarrow>es. event_cost e) = 0"
proof (induction es)
  case (Cons e es)
  have "0 \<le> (\<Sum>e\<leftarrow>es. event_fill e)" using Cons.prems(1) by (intro sum_list_nonneg_rat) simp
  with Cons have *: "event_fill e = 0" "(\<Sum>e\<leftarrow>es. event_fill e) = 0" "(\<Sum>e\<leftarrow>es. event_cost e) = 0" by auto
  have "event_cost e = 0" using *(1) by (cases e rule: event_cost.cases) auto
  with * show ?case by simp
qed simp

lemma split_loop_error: "split_loop w ex od step chunk n k remaining acc s = (Inl r, s') \<Longrightarrow> \<not> succeeded r"
proof (induction k arbitrary: remaining acc s)
  case (Suc k)
  then show ?case by (auto simp: Let_def split: if_splits prod.splits outcome.splits)
qed simp

text \<open>C10. An order placed in chunks neither loses a fill nor asks for too much: the trade that is reported
  has the sum of the fills of all chunks sent and their average price, and when the adapter fills no chunk beyond
  its size, the reported fill is at most the amount of the order; the same holds for an order placed whole, and for
  one placed whole after its chunks filled nothing.\<close>

theorem chunks_add_up:
  assumes "place_maybe_split w ex od s = (Returned t, s')" and "\<forall>n t. w_place w n = Returned t \<longrightarrow> 0 \<le> xt_amount t"
  shows "\<exists>new. x_log s' = x_log s @ new \<and> xt_amount t = (\<Sum>e\<leftarrow>new. event_fill e)
    \<and> xt_amount t * xt_price t = (\<Sum>e\<leftarrow>new. event_cost e)
    \<and> (0 \<le> xo_amount od \<longrightarrow> (\<forall>e \<in> set new. within_request e) \<longrightarrow> xt_amount t \<le> xo_amount od)"
proof -
  have direct: "\<exists>new. x_log s' = x_log s1 @ new \<and> xt_amount t = (\<Sum>e\<leftarrow>new. event_fill e)
      \<and> xt_amount t * xt_price t = (\<Sum>e\<leftarrow>new. event_cost e) \<and> ((\<forall>e \<in> set new. within_request e) \<longrightarrow> xt_amount t \<le> xo_amount od)"
    if p: "place_with_timeout w ex od s1 = (Returned t, s')" for s1
  proof -
    obtain actual where "x_log s' = x_log s1 @ [Placed ex od (Returned t) actual]" using place_event [OF p] by blast
    then show ?thesis by (intro exI [of _ "[Placed ex od (Returned t) actual]"]) simp
  qed
  show ?thesis
  proof (cases rule: place_maybe_split_cases [of s w ex od])
    case (whole s1)
    then have "x_log s1 = x_log s" by auto
    with direct [of s1] assms(1) whole(2) show ?thesis by auto
  next
    case (fails step chunk n r s2)
    then show ?thesis using split_loop_error [OF fails(1)] assms(1) by auto
  next
    case (late step chunk n acc s2)
    obtain new where new: "x_log s2 = x_log s @ new" "sp_qty acc = (\<Sum>e\<leftarrow>new. event_fill e)" "\<forall>e \<in> set new. 0 \<le> event_fill e"
        "sp_last acc = None \<longrightarrow> sp_qty acc = 0"
      using split_loop_accounts [OF late(1) assms(2)] by (auto simp: no_fill_def)
    then have none: "(\<Sum>e\<leftarrow>new. event_fill e) = 0" "(\<Sum>e\<leftarrow>new. event_cost e) = 0"
      using late(2) no_fill_no_cost [of new] by auto
    obtain new' where new': "x_log s' = x_log s2 @ new'" "xt_amount t = (\<Sum>e\<leftarrow>new'. event_fill e)"
        "xt_amount t * xt_price t = (\<Sum>e\<leftarrow>new'. event_cost e)" "(\<forall>e \<in> set new'. within_request e) \<longrightarrow> xt_amount t \<le> xo_amount od"
      using direct [of s2] assms(1) late(3) by metis
    then show ?thesis using new(1) none by (intro exI [of _ "new @ new'"]) auto
  next
    case (chunks step chunk n acc s2 u)
    then have t: "xt_amount t = sp_qty acc" "xt_price t = sp_cost acc / sp_qty acc" "s' = s2" using assms(1) by auto
    obtain new where new: "x_log s2 = x_log s @ new" "sp_qty acc = (\<Sum>e\<leftarrow>new. event_fill e)" "sp_cost acc = (\<Sum>e\<leftarrow>new. event_cost e)"
        "(\<forall>e \<in> set new. within_request e) \<longrightarrow> 0 \<le> xo_amount od \<longrightarrow> (\<Sum>e\<leftarrow>new. event_fill e) \<le> xo_amount od"
      using split_loop_accounts [OF chunks(1) assms(2)] by (auto simp: no_fill_def)
    then show ?thesis using chunks(3) t by (intro exI [of _ new]) auto
  qed
qed

theorem chunks_add_up_witness:
  "\<exists>new. x_log (snd (place_maybe_split (ex_world [TimedOut, ex_fill 30, ex_fill 30, ex_fill 20] [] TimedOut) ''okx''
      ((ex_order ''a'' ''okx'' BUY)\<lparr>xo_amount := 100\<rparr>) ex_start)) = new \<and> (\<Sum>e\<leftarrow>new. event_fill e) = 80"
proof -
  let ?W = "ex_world [TimedOut, ex_fill 30, ex_fill 30, ex_fill 20] [] TimedOut" and ?o = "(ex_order ''a'' ''okx'' BUY)\<lparr>xo_amount := 100\<rparr>"
  let ?x = "place_maybe_split ?W ''okx'' ?o ex_start"
  let ?t = "\<lparr>xt_id = ''split-t'', xt_order_id = Some ''a'', xt_price = 100, xt_amount = 80, xt_fee = 0\<rparr>"
  have "fst ?x = Returned ?t" by code_simp
  then have run: "?x = (Returned ?t, snd ?x)" by (metis prod.collapse)
  have "\<forall>n t. w_place ?W n = Returned t \<longrightarrow> 0 \<le> xt_amount t"
    by (auto simp: ex_world_def ex_fill_def nth_Cons' split: if_splits)
  from chunks_add_up [OF run this] show ?thesis by (auto simp: ex_start_def)
qed

end
