(* ===== verification/ExecutorGaps.thy ===== *)
theory ExecutorGaps
  imports ExecutorFills
begin

text \<open>
  What the executions of \<open>engine/src/execution/executor.py\<close> do not guarantee, each on a concrete world
  evaluated by the kernel: exposure that really exists although the result says it was rolled back,
  transitions after a final state, positions registered twice or not at all, a halt that is lost.
\<close>

fun marks_of :: "string \<Rightarrow> x_event list \<Rightarrow> order_state list" where
  "marks_of i [] = []"
| "marks_of i (Marked j a b # es) = (if i = j then b # marks_of i es else marks_of i es)"
| "marks_of i (e # es) = marks_of i es"

fun registered_sizes :: "x_event list \<Rightarrow> (string \<times> pyfloat) list" where
  "registered_sizes [] = []"
| "registered_sizes (Registered ex symb side sz val why h # es) = (side, sz) # registered_sizes es"
| "registered_sizes (e # es) = registered_sizes es"

fun halts :: "x_event list \<Rightarrow> nat" where
  "halts [] = 0"
| "halts (HaltRaised # es) = Suc (halts es)"
| "halts (e # es) = halts es"

fun asked_to_halt :: "x_event list \<Rightarrow> nat" where
  "asked_to_halt [] = 0"
| "asked_to_halt (Registered ex symb side sz val why True # es) = Suc (asked_to_halt es)"
| "asked_to_halt (e # es) = asked_to_halt es"

fun cancels :: "x_event list \<Rightarrow> string list" where
  "cancels [] = []"
| "cancels (CancelAsked ex oid r # es) = oid # cancels es"
| "cancels (e # es) = cancels es"

text \<open>What an exchange really holds after the calls: bought minus sold.\<close>

fun really_held :: "string \<Rightarrow> x_event list \<Rightarrow> decimal" where
  "really_held ex [] = 0"
| "really_held ex (Placed ex' od r actual # es) =
     (if ex' = ex then (if xo_side od = BUY then actual else - actual) else 0) + really_held ex es"
| "really_held ex (e # es) = really_held ex es"

definition statuses :: "x_result list option \<times> x_state \<Rightarrow> x_status list" where
  "statuses p = (case fst p of None \<Rightarrow> [] | Some rs \<Rightarrow> map xr_status rs)"

definition log_of :: "x_result list option \<times> x_state \<Rightarrow> x_event list" where
  "log_of p = x_log (snd p)"

definition run_pair :: "x_trade outcome list \<Rightarrow> decimal list \<Rightarrow> bool outcome \<Rightarrow> x_order list \<Rightarrow> x_result list option \<times> x_state" where
  "run_pair answers fills answer ods = route_to_executor (ex_world answers fills answer) 0 ''arb'' ods ex_start"

text \<open>Leg 2 filled but its answer was lost; the exchange refuses the cancel; leg 1 is unwound.  The
  execution reports ROLLED\_BACK, nothing is registered and the engine runs on, short on one exchange.\<close>

lemma leg2_timeout_leaves_exposure:
  "let p = run_pair [TimedOut, TimedOut, ex_fill 2, TimedOut, TimedOut, ex_fill 2] [0, 0, 2, 2, 0, 2] (Returned False) ex_pair
   in statuses p = [ES_ROLLED_BACK] \<and> really_held ''bybit'' (log_of p) = - 2 \<and> really_held ''okx'' (log_of p) = 0
      \<and> registered_sizes (log_of p) = [] \<and> halts (log_of p) = 0"
  by code_simp

text \<open>An exception without a text is no error to the rollback: leg 2 is not even cancelled.\<close>

lemma silent_leg2_is_not_cancelled:
  "let p = run_pair [TimedOut, TimedOut, ex_fill 2, Raised [], ex_fill 2] [0, 0, 2, 2, 2] (Returned True) ex_pair
   in statuses p = [ES_ROLLED_BACK] \<and> cancels (log_of p) = [] \<and> really_held ''bybit'' (log_of p) = - 2
      \<and> registered_sizes (log_of p) = []"
  by code_simp

text \<open>On one exchange a leg that filled is marked FILLED, which is final, and then ROLLED\_BACK.\<close>

lemma rolled_back_after_filled:
  "let p = run_pair [ex_fill 2, Raised ''no'', ex_fill 2] [] (Returned True) [ex_order ''a'' ''okx'' BUY, ex_order ''b'' ''okx'' SELL]
   in statuses p = [ES_ROLLED_BACK] \<and> marks_of ''a'' (log_of p) = [SENT, ACKED, FILLED, ROLLED_BACK]
      \<and> ROLLED_BACK \<notin> set (legal_transitions FILLED)"
  by code_simp

text \<open>A first leg that filled in part is marked PARTIAL and then ROLLED\_BACK, which is not legal from there.\<close>

lemma rolled_back_after_partial:
  "let p = run_pair [TimedOut, TimedOut, ex_fill (39 / 20), Raised ''no'', Raised ''gone'', ex_fill (39 / 20)] [] (Returned True) ex_pair
   in statuses p = [ES_ROLLED_BACK] \<and> marks_of ''a'' (log_of p) = [SENT, ACKED, PARTIAL, ROLLED_BACK]
      \<and> ROLLED_BACK \<notin> set (legal_transitions PARTIAL)"
  by code_simp

text \<open>An unwind that filled in part registers what is left, under the side of the unwind; its caller then
  registers the whole order, under the side of the order: 3 units for the 1 that is open.\<close>

lemma partial_unwind_registered_twice:
  "let p = run_pair [TimedOut, TimedOut, ex_fill 2, Raised ''no'', TimedOut, ex_fill 1] [0, 0, 2, 0, 0, 1] (Returned True) ex_pair
   in statuses p = [ES_ROLLBACK_FAILED] \<and> registered_sizes (log_of p) = [(''sell'', 1), (''buy'', 2)]
      \<and> really_held ''okx'' (log_of p) = 1"
  by code_simp

text \<open>A leg of several that gave no answer is neither cancelled nor registered, whatever it filled.\<close>

lemma unanswered_leg_is_forgotten:
  "let p = run_pair [ex_fill 2, ex_fill 2, TimedOut, ex_fill 2, ex_fill 2] [2, 2, 2, 2, 2] (Returned True)
        [ex_order ''a'' ''okx'' BUY, ex_order ''b'' ''okx'' SELL, ex_order ''c'' ''okx'' BUY]
   in statuses p = [ES_ROLLED_BACK] \<and> cancels (log_of p) = [] \<and> registered_sizes (log_of p) = []
      \<and> really_held ''okx'' (log_of p) = 2"
  by code_simp

text \<open>When several unwinds fail only the last completed leg is registered.\<close>

lemma only_last_leg_registered:
  "let p = run_pair [ex_fill 2, ex_fill 2, Raised ''no'', TimedOut, TimedOut] [2, 2, 0, 0, 0] (Returned True)
        [ex_order ''a'' ''okx'' BUY, ex_order ''b'' ''okx'' BUY, ex_order ''c'' ''okx'' BUY]
   in statuses p = [ES_ROLLBACK_FAILED] \<and> registered_sizes (log_of p) = [(''buy'', 2)]
      \<and> really_held ''okx'' (log_of p) = 4"
  by code_simp

text \<open>The halt that a stranded leg 2 asks for is lost when the rollback of leg 1 fails too, for a reason the tracker
  counts as benign.\<close>

lemma deferred_halt_is_lost:
  "let s = ex_start\<lparr>x_stranded := tracker_new 50\<rparr>;
       p = route_to_executor (ex_world [TimedOut, TimedOut, ex_fill 2, ex_fill 1, Raised ''no'', Raised (hd benign_codes)] [] (Returned True))
             0 ''arb'' ex_pair s
   in statuses p = [ES_ROLLBACK_FAILED] \<and> asked_to_halt (log_of p) = 1 \<and> halts (log_of p) = 0"
  by code_simp

text \<open>Two legs on one exchange handed to the execution for two never finish (routing never does that).\<close>

lemma cross_on_one_exchange_hangs:
  "fst (execute_cross_exchange (ex_world [] [] TimedOut) (ex_order ''a'' ''okx'' BUY) (ex_order ''b'' ''okx'' SELL) ''arb'' 0 ex_start) = None"
  by code_simp

text \<open>Orders of a multi-leg list are still sent when the halt flag was raised while the lock was awaited.\<close>

lemma multi_leg_ignores_late_halt:
  "let w = (ex_world [ex_fill 2, ex_fill 2, ex_fill 2] [] TimedOut)\<lparr>w_halted_meanwhile := True\<rparr>;
       p = route_to_executor w 0 ''arb'' [ex_order ''a'' ''okx'' BUY, ex_order ''b'' ''okx'' BUY, ex_order ''c'' ''okx'' BUY] ex_start
   in statuses p = [ES_SUCCESS] \<and> halt_flag (x_flags (snd p))"
  by code_simp

text \<open>Orders without a price are registered with the value 0, so they never reach the threshold of the tracker.\<close>

lemma market_order_stranded_for_nothing:
  "snd (strand_order w ex (od\<lparr>xo_price := None\<rparr>) why s) = snd (tracker_register w ex (xo_symbol od) (side_text (xo_side od)) (xo_amount od) 0 why s)"
  by (simp add: strand_order_def price_or_0_def)

end
