(* ===== verification/Universe.thy ===== *)
theory Universe
  imports Prelude "HOL-Library.List_Lexorder" "HOL-Library.Char_ord"
begin

text \<open>
  \<open>engine/src/core/universe_matrix.py\<close>: the table of the (strategy, symbol, leg, leg) tuples that can be
  traded, built once at boot from what the adapters list.  What an adapter answers is given per symbol; a
  missing method is \<open>None\<close>.  A set of symbols is a list, the order in which it is walked is that of its
  sorted symbols, as in the code.  Left out: the time of validation and the text of the report.
\<close>

record universe_adapter =
  ua_market :: string
  ua_symbols :: "string list"
  ua_supports :: "(string \<Rightarrow> bool outcome) option"
  ua_min_notional :: "string \<Rightarrow> decimal outcome"
  ua_tick :: "(string \<Rightarrow> decimal outcome) option"

type_synonym exchange_map = "(string, universe_adapter) dict"

record universe_entry =
  ue_notional_a :: decimal
  ue_notional_b :: "decimal option"
  ue_tick :: decimal
  ue_market_a :: string
  ue_market_b :: "string option"

type_synonym entry_key = "string \<times> string \<times> string \<times> string option"

record universe_matrix =
  um_entries :: "(entry_key, universe_entry) dict"
  um_rejections :: "(string, (string, nat) dict) dict"
  um_built :: bool

definition universe_new :: universe_matrix where
  "universe_new = \<lparr>um_entries = [], um_rejections = [], um_built = False\<rparr>"

definition leg_shapes :: "(string \<times> string) list" where
  "leg_shapes =
     [(''cross_exchange_spot'', ''spot_spot''), (''futures_futures'', ''futures_futures''), (''funding_rate_arb'', ''futures_futures''),
      (''spot_futures_basis'', ''spot_futures''), (''triangular'', ''triangular'')]"

definition supports :: "universe_adapter \<Rightarrow> string \<Rightarrow> bool" where
  "supports ad symb = (case ua_supports ad of None \<Rightarrow> True | Some f \<Rightarrow> f symb = Returned True)"

definition tick_size :: "universe_adapter \<Rightarrow> string \<Rightarrow> decimal" where
  "tick_size ad symb =
     (case ua_tick ad of None \<Rightarrow> 0 | Some f \<Rightarrow> (case f symb of Returned x \<Rightarrow> x | _ \<Rightarrow> 0))"

definition add_rejection :: "string \<Rightarrow> string \<Rightarrow> universe_matrix \<Rightarrow> universe_matrix" where
  "add_rejection sid reason m =
     (let st = dict_get (um_rejections m) sid []
      in m\<lparr>um_rejections := AList.update sid (AList.update reason (dict_get st reason 0 + 1) st) (um_rejections m)\<rparr>)"

definition put_entry :: "entry_key \<Rightarrow> universe_entry \<Rightarrow> universe_matrix \<Rightarrow> universe_matrix" where
  "put_entry k e m = m\<lparr>um_entries := AList.update k e (um_entries m)\<rparr>"

definition gather_candidate_symbols :: "exchange_map \<Rightarrow> string list" where
  "gather_candidate_symbols reg =
     (let xs = concat (map (ua_symbols \<circ> snd) reg) in sort (remdups (if xs \<noteq> [] then xs else [''BTC/USDT'', ''ETH/USDT''])))"

definition partition_by_market_type :: "exchange_map \<Rightarrow> string list \<times> string list" where
  "partition_by_market_type reg =
     (map fst (filter (\<lambda>(e, ad). ua_market ad \<noteq> ''futures'') reg), map fst (filter (\<lambda>(e, ad). ua_market ad = ''futures'') reg))"

definition listing_miss :: "string \<Rightarrow> string \<Rightarrow> string" where
  "listing_miss leg market = leg @ ''_'' @ market @ ''_listing_miss''"

text \<open>One candidate for the second leg.\<close>

definition try_leg_b ::
    "exchange_map \<Rightarrow> string \<Rightarrow> bool \<Rightarrow> string \<Rightarrow> string \<Rightarrow> string \<Rightarrow> string \<Rightarrow> universe_adapter \<Rightarrow> string \<Rightarrow> universe_matrix \<Rightarrow> universe_matrix" where
  "try_leg_b reg sid same_pool market_a market_b symb leg_a ad_a leg_b m =
     (if (if same_pool then leg_b \<le> leg_a else leg_b = leg_a) then m
      else case map_of reg leg_b of
             None \<Rightarrow> add_rejection sid (listing_miss leg_b market_b) m
           | Some ad_b \<Rightarrow>
               if \<not> supports ad_b symb then add_rejection sid (listing_miss leg_b market_b) m
               else case (ua_min_notional ad_a symb, ua_min_notional ad_b symb) of
                      (Returned na, Returned nb) \<Rightarrow>
                        put_entry (sid, symb, leg_a, Some leg_b)
                          \<lparr>ue_notional_a = na, ue_notional_b = Some nb, ue_tick = tick_size ad_a symb,
                           ue_market_a = market_a, ue_market_b = Some market_b\<rparr> m
                    | _ \<Rightarrow> add_rejection sid ''min_notional_fetch_failed'' m)"

definition try_leg_a ::
    "exchange_map \<Rightarrow> string \<Rightarrow> bool \<Rightarrow> string \<Rightarrow> string \<Rightarrow> string list \<Rightarrow> string \<Rightarrow> string \<Rightarrow> universe_matrix \<Rightarrow> universe_matrix" where
  "try_leg_a reg sid same_pool market_a market_b right symb leg_a m =
     (case map_of reg leg_a of
        None \<Rightarrow> add_rejection sid (listing_miss leg_a market_a) m
      | Some ad_a \<Rightarrow>
          if \<not> supports ad_a symb then add_rejection sid (listing_miss leg_a market_a) m
          else fold (try_leg_b reg sid same_pool market_a market_b symb leg_a ad_a) right m)"

definition build_pair_shape ::
    "exchange_map \<Rightarrow> string list \<Rightarrow> string \<Rightarrow> bool \<Rightarrow> string \<Rightarrow> string \<Rightarrow> string list \<Rightarrow> string list \<Rightarrow> universe_matrix \<Rightarrow> universe_matrix" where
  "build_pair_shape reg symbs sid same_pool market_a market_b left right m =
     fold (\<lambda>symb. fold (try_leg_a reg sid same_pool market_a market_b right symb) left) symbs m"

definition try_triangular :: "exchange_map \<Rightarrow> string \<Rightarrow> string \<Rightarrow> string \<Rightarrow> universe_matrix \<Rightarrow> universe_matrix" where
  "try_triangular reg sid eid symb m =
     (case map_of reg eid of
        None \<Rightarrow> m
      | Some ad \<Rightarrow>
          if \<not> supports ad symb then add_rejection sid (listing_miss eid ''spot'') m
          else case ua_min_notional ad symb of
                 Returned n \<Rightarrow>
                   put_entry (sid, symb, eid, None)
                     \<lparr>ue_notional_a = n, ue_notional_b = None, ue_tick = tick_size ad symb, ue_market_a = ''spot'', ue_market_b = None\<rparr> m
               | _ \<Rightarrow> add_rejection sid ''min_notional_fetch_failed'' m)"

definition build_triangular :: "exchange_map \<Rightarrow> string list \<Rightarrow> string \<Rightarrow> string list \<Rightarrow> universe_matrix \<Rightarrow> universe_matrix" where
  "build_triangular reg symbs sid spot m = fold (\<lambda>eid. fold (try_triangular reg sid eid) symbs) spot m"

definition build_for_strategy :: "exchange_map \<Rightarrow> string \<times> string \<Rightarrow> universe_matrix \<Rightarrow> universe_matrix" where
  "build_for_strategy reg = (\<lambda>(shape, sid) m0.
     let m = (if dict_has (um_rejections m0) sid then m0 else m0\<lparr>um_rejections := AList.update sid [] (um_rejections m0)\<rparr>);
         symbs = gather_candidate_symbols reg; (spot, futures) = partition_by_market_type reg
     in if shape = ''spot_spot'' then build_pair_shape reg symbs sid True ''spot'' ''spot'' spot spot m
        else if shape = ''futures_futures'' then build_pair_shape reg symbs sid True ''futures'' ''futures'' futures futures m
        else if shape = ''spot_futures'' then build_pair_shape reg symbs sid False ''spot'' ''futures'' spot futures m
        else if shape = ''triangular'' then build_triangular reg symbs sid spot m
        else m)"

text \<open>The strategies, grouped by type in the order the types first occur; a strategy is its type and its id.\<close>

definition group_by_type :: "(string option \<times> string) list \<Rightarrow> (string, string list) dict" where
  "group_by_type strategies =
     fold (\<lambda>(ty, sid) d. case ty of None \<Rightarrow> d | Some t \<Rightarrow> if t = [] then d else AList.update t (dict_get d t [] @ [sid]) d) strategies []"

definition universe_build :: "exchange_map \<Rightarrow> (string option \<times> string) list \<Rightarrow> universe_matrix \<Rightarrow> universe_matrix" where
  "universe_build reg strategies m =
     (if um_built m then m
      else (fold (\<lambda>(ty, sids) m. case map_of leg_shapes ty of
                      None \<Rightarrow> m
                    | Some shape \<Rightarrow> fold (\<lambda>sid. build_for_strategy reg (shape, sid)) sids m) (group_by_type strategies) m)\<lparr>um_built := True\<rparr>)"

definition has_entry :: "universe_matrix \<Rightarrow> string \<Rightarrow> string \<Rightarrow> string \<Rightarrow> string option \<Rightarrow> bool" where
  "has_entry m sid symb leg_a leg_b = dict_has (um_entries m) (sid, symb, leg_a, leg_b)"

definition get_entry :: "universe_matrix \<Rightarrow> string \<Rightarrow> string \<Rightarrow> string \<Rightarrow> string option \<Rightarrow> universe_entry option" where
  "get_entry m sid symb leg_a leg_b = map_of (um_entries m) (sid, symb, leg_a, leg_b)"

definition universe_size :: "universe_matrix \<Rightarrow> nat" where
  "universe_size m = length (um_entries m)"

subsection \<open>What is in the table\<close>

definition keys_of :: "universe_matrix \<Rightarrow> entry_key set" where
  "keys_of m = fst ` set (um_entries m)"

lemma keys_simps [simp]:
  "keys_of (add_rejection sid reason m) = keys_of m"
  "keys_of (put_entry k e m) = insert k (keys_of m)"
  "keys_of (m\<lparr>um_rejections := d\<rparr>) = keys_of m" "keys_of (m\<lparr>um_built := b\<rparr>) = keys_of m"
  by (auto simp: keys_of_def add_rejection_def put_entry_def Let_def dom_update dom_map_of_conv_image_fst [symmetric])

lemma has_entry_keys: "has_entry m sid symb a b \<longleftrightarrow> (sid, symb, a, b) \<in> keys_of m"
  by (simp add: has_entry_def keys_of_def dict_has_def)

text \<open>A loop whose steps each add a set of keys adds their union.\<close>

lemma keys_fold:
  "(\<And>x m. x \<in> set xs \<Longrightarrow> keys_of (f x m) = keys_of m \<union> K x) \<Longrightarrow> keys_of (fold f xs m) = keys_of m \<union> (\<Union>x \<in> set xs. K x)"
  by (induction xs arbitrary: m) auto

definition fetchable :: "universe_adapter \<Rightarrow> string \<Rightarrow> bool" where
  "fetchable ad symb \<longleftrightarrow> succeeded (ua_min_notional ad symb)"

definition tradable :: "exchange_map \<Rightarrow> string \<Rightarrow> string \<Rightarrow> bool" where
  "tradable reg symb ex \<longleftrightarrow> (\<exists>ad. map_of reg ex = Some ad \<and> supports ad symb \<and> fetchable ad symb)"

definition pair_ok :: "bool \<Rightarrow> string \<Rightarrow> string \<Rightarrow> bool" where
  "pair_ok same_pool a b \<longleftrightarrow> (if same_pool then a < b else a \<noteq> b)"

lemma keys_try_leg_b:
  "map_of reg a = Some ad \<Longrightarrow> supports ad symb \<Longrightarrow>
   keys_of (try_leg_b reg sid same ma mb symb a ad b m)
     = keys_of m \<union> (if pair_ok same a b \<and> tradable reg symb a \<and> tradable reg symb b then {(sid, symb, a, Some b)} else {})"
  by (auto simp: try_leg_b_def pair_ok_def tradable_def fetchable_def split: option.split outcome.split)

lemma keys_try_leg_a:
  "keys_of (try_leg_a reg sid same ma mb right symb a m)
     = keys_of m \<union> {(sid, symb, a, Some b) |b. b \<in> set right \<and> pair_ok same a b \<and> tradable reg symb a \<and> tradable reg symb b}"
proof (cases "\<exists>ad. map_of reg a = Some ad \<and> supports ad symb")
  case True
  then obtain ad where ad: "map_of reg a = Some ad" "supports ad symb" by blast
  show ?thesis
    using keys_fold [of right "try_leg_b reg sid same ma mb symb a ad", OF keys_try_leg_b [OF ad]] ad
    by (auto simp: try_leg_a_def)
qed (auto simp: try_leg_a_def tradable_def split: option.split)

lemma keys_pair_shape:
  "keys_of (build_pair_shape reg symbs sid same ma mb left right m)
     = keys_of m \<union> {(sid, symb, a, Some b) |symb a b. symb \<in> set symbs \<and> a \<in> set left \<and> b \<in> set right
         \<and> pair_ok same a b \<and> tradable reg symb a \<and> tradable reg symb b}"
  unfolding build_pair_shape_def
  by (subst keys_fold, rule keys_fold, rule keys_try_leg_a) auto

lemma keys_triangular:
  "keys_of (build_triangular reg symbs sid spot m)
     = keys_of m \<union> {(sid, symb, a, None) |symb a. symb \<in> set symbs \<and> a \<in> set spot \<and> tradable reg symb a}"
proof -
  have one: "keys_of (try_triangular reg sid eid symb m) = keys_of m \<union> (if tradable reg symb eid then {(sid, symb, eid, None)} else {})"
    for eid symb m
    by (auto simp: try_triangular_def tradable_def fetchable_def split: option.split outcome.split)
  show ?thesis
    unfolding build_triangular_def by (subst keys_fold, rule keys_fold, rule one) auto
qed

text \<open>What a strategy of a shape may trade.\<close>

definition in_market :: "exchange_map \<Rightarrow> bool \<Rightarrow> string \<Rightarrow> bool" where
  "in_market reg futures ex \<longleftrightarrow> (\<exists>ad. (ex, ad) \<in> set reg \<and> (ua_market ad = ''futures'') = futures)"

fun shape_allows :: "exchange_map \<Rightarrow> string \<Rightarrow> string \<Rightarrow> string option \<Rightarrow> bool" where
  "shape_allows reg shape a None \<longleftrightarrow> shape = ''triangular'' \<and> in_market reg False a"
| "shape_allows reg shape a (Some b) \<longleftrightarrow>
     shape = ''spot_spot'' \<and> a < b \<and> in_market reg False a \<and> in_market reg False b
     \<or> shape = ''futures_futures'' \<and> a < b \<and> in_market reg True a \<and> in_market reg True b
     \<or> shape = ''spot_futures'' \<and> a \<noteq> b \<and> in_market reg False a \<and> in_market reg True b"

definition valid_legs :: "exchange_map \<Rightarrow> string \<Rightarrow> string \<Rightarrow> string \<Rightarrow> string option \<Rightarrow> bool" where
  "valid_legs reg shape symb a b \<longleftrightarrow> symb \<in> set (gather_candidate_symbols reg) \<and> shape_allows reg shape a b
     \<and> tradable reg symb a \<and> (case b of None \<Rightarrow> True | Some b' \<Rightarrow> tradable reg symb b')"

lemma in_partition:
  "ex \<in> set (fst (partition_by_market_type reg)) \<longleftrightarrow> in_market reg False ex"
  "ex \<in> set (snd (partition_by_market_type reg)) \<longleftrightarrow> in_market reg True ex"
  by (force simp: partition_by_market_type_def in_market_def)+

lemma keys_for_strategy:
  "keys_of (build_for_strategy reg (shape, sid) m) = keys_of m \<union> {(sid, symb, a, b) |symb a b. valid_legs reg shape symb a b}"
proof -
  have [simp]: "keys_of (if dict_has (um_rejections m) sid then m else m\<lparr>um_rejections := d\<rparr>) = keys_of m" for d
    by simp
  have none: "{(sid, symb, a, b) |symb a b. valid_legs reg shape symb a b} = {}"
    if "shape \<notin> {''spot_spot'', ''futures_futures'', ''spot_futures'', ''triangular''}"
  proof -
    have "\<not> shape_allows reg shape a b" for a b using that by (cases b) auto
    then show ?thesis by (simp add: valid_legs_def)
  qed
  obtain spot futures where p: "partition_by_market_type reg = (spot, futures)" by fastforce
  with in_partition [of _ reg] have pools: "\<And>ex. ex \<in> set spot \<longleftrightarrow> in_market reg False ex" "\<And>ex. ex \<in> set futures \<longleftrightarrow> in_market reg True ex"
    by simp_all
  consider "shape = ''spot_spot''" | "shape = ''futures_futures''" | "shape = ''spot_futures''" | "shape = ''triangular''"
    | "shape \<notin> {''spot_spot'', ''futures_futures'', ''spot_futures'', ''triangular''}" by blast
  then show ?thesis
  proof cases
    case 4
    have "valid_legs reg shape symb a b \<longleftrightarrow> b = None \<and> symb \<in> set (gather_candidate_symbols reg) \<and> a \<in> set spot \<and> tradable reg symb a"
      for symb a b using 4 pools by (cases b) (auto simp: valid_legs_def)
    then show ?thesis using 4 by (auto simp: build_for_strategy_def p Let_def keys_triangular)
  next
    case 5
    then show ?thesis using none by (simp add: build_for_strategy_def p Let_def)
  next
    case 1
    have "valid_legs reg shape symb a b \<longleftrightarrow> (\<exists>b'. b = Some b' \<and> symb \<in> set (gather_candidate_symbols reg) \<and> a \<in> set spot \<and> b' \<in> set spot
        \<and> pair_ok True a b' \<and> tradable reg symb a \<and> tradable reg symb b')" for symb a b
      using 1 pools by (cases b) (auto simp: valid_legs_def pair_ok_def)
    then show ?thesis using 1 by (auto simp: build_for_strategy_def p Let_def keys_pair_shape)
  next
    case 2
    have "valid_legs reg shape symb a b \<longleftrightarrow> (\<exists>b'. b = Some b' \<and> symb \<in> set (gather_candidate_symbols reg) \<and> a \<in> set futures \<and> b' \<in> set futures
        \<and> pair_ok True a b' \<and> tradable reg symb a \<and> tradable reg symb b')" for symb a b
      using 2 pools by (cases b) (auto simp: valid_legs_def pair_ok_def)
    then show ?thesis using 2 by (auto simp: build_for_strategy_def p Let_def keys_pair_shape)
  next
    case 3
    have "valid_legs reg shape symb a b \<longleftrightarrow> (\<exists>b'. b = Some b' \<and> symb \<in> set (gather_candidate_symbols reg) \<and> a \<in> set spot \<and> b' \<in> set futures
        \<and> pair_ok False a b' \<and> tradable reg symb a \<and> tradable reg symb b')" for symb a b
      using 3 pools by (cases b) (auto simp: valid_legs_def pair_ok_def)
    then show ?thesis using 3 by (auto simp: build_for_strategy_def p Let_def keys_pair_shape)
  qed
qed

definition group_one :: "string option \<times> string \<Rightarrow> (string, string list) dict \<Rightarrow> (string, string list) dict" where
  "group_one = (\<lambda>(ty, sid) d. case ty of None \<Rightarrow> d | Some t \<Rightarrow> if t = [] then d else AList.update t (dict_get d t [] @ [sid]) d)"

lemma grouped:
  "distinct (dict_keys d) \<Longrightarrow> distinct (dict_keys (fold group_one strategies d))
     \<and> set (dict_get (fold group_one strategies d) t []) = set (dict_get d t []) \<union> {sid. t \<noteq> [] \<and> (Some t, sid) \<in> set strategies}"
proof (induction strategies arbitrary: d)
  case (Cons st strategies)
  have "distinct (dict_keys (group_one st d))"
    using Cons.prems by (auto simp: group_one_def distinct_update split: prod.split option.split)
  from Cons.IH [OF this] show ?case
    by (auto simp: group_one_def split: prod.splits option.splits if_splits)
qed simp

lemma grouped_members:
  "(\<exists>sids. (t, sids) \<in> set (group_by_type strategies) \<and> sid \<in> set sids) \<longleftrightarrow> t \<noteq> [] \<and> (Some t, sid) \<in> set strategies"
proof -
  let ?g = "group_by_type strategies"
  have g: "?g = fold group_one strategies []"
    by (simp add: group_by_type_def group_one_def)
  have d: "distinct (dict_keys ?g)" and m: "set (dict_get ?g t []) = {sid. t \<noteq> [] \<and> (Some t, sid) \<in> set strategies}"
    using grouped [of "[]" strategies t] unfolding g by (simp_all add: dict_get_def [of "[]"])
  have "(\<exists>sids. (t, sids) \<in> set ?g \<and> sid \<in> set sids) \<longleftrightarrow> sid \<in> set (dict_get ?g t [])"
    using d by (auto simp: dict_get_def split: option.splits dest: map_of_SomeD)
  then show ?thesis unfolding m by simp
qed

text \<open>The universe matrix holds exactly the tradable tuples: after a build for a set of strategies, a tuple of a
  strategy, a symbol and one or two exchanges is in the table if and only if the strategy is of a type with a known
  shape, the shape allows the exchanges by their markets (two different ones, in alphabetical order when both legs come
  from one market, a single one for triangular strategies), the symbol is a candidate, and every exchange lists it
  and answers its minimum notional.  A second build changes nothing.\<close>

lemma universe_is_exactly_tradable:
  "(has_entry (universe_build reg strategies universe_new) sid symb a b \<longleftrightarrow>
      (\<exists>ty shape. (Some ty, sid) \<in> set strategies \<and> map_of leg_shapes ty = Some shape \<and> valid_legs reg shape symb a b))
   \<and> universe_build reg' strategies' (universe_build reg strategies m) = universe_build reg strategies m"
proof
  let ?K = "\<lambda>shape sid. {(sid, symb, a, b) |symb a b. valid_legs reg shape symb a b}"
  let ?f = "\<lambda>(ty, sids) m. case map_of leg_shapes ty of
      None \<Rightarrow> m | Some shape \<Rightarrow> fold (\<lambda>sid. build_for_strategy reg (shape, sid)) sids m"
  have one: "keys_of (?f x m) = keys_of m \<union> {k. \<exists>shape sid. map_of leg_shapes (fst x) = Some shape \<and> sid \<in> set (snd x) \<and> k \<in> ?K shape sid}" for x m
  proof (cases x)
    case (Pair ty sids)
    show ?thesis
    proof (cases "map_of leg_shapes ty")
      case (Some shape)
      have "keys_of (fold (\<lambda>sid. build_for_strategy reg (shape, sid)) sids m) = keys_of m \<union> (\<Union>sid \<in> set sids. ?K shape sid)"
        by (rule keys_fold) (rule keys_for_strategy)
      then show ?thesis using Pair Some by auto
    qed (simp add: Pair)
  qed
  have "keys_of (universe_build reg strategies universe_new) = (\<Union>x \<in> set (group_by_type strategies). {k. \<exists>shape sid. map_of leg_shapes (fst x) = Some shape \<and> sid \<in> set (snd x) \<and> k \<in> ?K shape sid})"
    using keys_fold [of "group_by_type strategies" ?f, OF one] by (simp add: universe_build_def universe_new_def keys_of_def)
  then have "has_entry (universe_build reg strategies universe_new) sid symb a b \<longleftrightarrow>
      (\<exists>x \<in> set (group_by_type strategies). \<exists>shape. map_of leg_shapes (fst x) = Some shape \<and> sid \<in> set (snd x) \<and> valid_legs reg shape symb a b)"
    unfolding has_entry_keys by (simp only: UN_iff mem_Collect_eq prod.inject) blast
  also have "\<dots> \<longleftrightarrow> (\<exists>ty shape. (\<exists>sids. (ty, sids) \<in> set (group_by_type strategies) \<and> sid \<in> set sids)
         \<and> map_of leg_shapes ty = Some shape \<and> valid_legs reg shape symb a b)"
    unfolding Bex_def split_paired_Ex fst_conv snd_conv by blast
  finally have "has_entry (universe_build reg strategies universe_new) sid symb a b \<longleftrightarrow>
      (\<exists>ty shape. (\<exists>sids. (ty, sids) \<in> set (group_by_type strategies) \<and> sid \<in> set sids)
         \<and> map_of leg_shapes ty = Some shape \<and> valid_legs reg shape symb a b)" .
  then show "has_entry (universe_build reg strategies universe_new) sid symb a b \<longleftrightarrow>
      (\<exists>ty shape. (Some ty, sid) \<in> set strategies \<and> map_of leg_shapes ty = Some shape \<and> valid_legs reg shape symb a b)"
    unfolding grouped_members by (auto simp: leg_shapes_def)
  show "universe_build reg' strategies' (universe_build reg strategies m) = universe_build reg strategies m"
    by (simp add: universe_build_def)
qed

end
