(* ===== verification/Registry.thy ===== *)
theory Registry
  imports Universe BudgetLedger PerStrategyCB
begin

text \<open>
  \<open>engine/src/core/strategy_registry.py\<close>: which strategies exist and which are active.  The registry is
  loaded from the activation file, switched by an operator, and swept by three watchers: the universe
  matrix, the budget ledger and the circuit breaker per strategy.  Parameters: the lists of the activation
  file (all empty when it is missing or cannot be parsed), the allocations of the configuration, and for
  which ids the factory builds a strategy.  The instances, metrics and logs are left out.
\<close>

record registry_entry =
  re_active :: bool
  re_allocation :: decimal
  re_budget :: decimal
  re_health :: "secs option"
  re_errors :: nat
  re_reason :: "string option"
  re_universe :: nat

record registry =
  rg_entries :: "(string, registry_entry) dict"
  rg_allocations :: "string \<Rightarrow> decimal option"
  rg_universe :: "universe_matrix option"
  rg_ledger :: "ledger option"
  rg_budget_watched :: bool
  rg_cb_watched :: bool

definition registry_new :: "(string \<Rightarrow> decimal option) \<Rightarrow> universe_matrix option \<Rightarrow> ledger option \<Rightarrow> registry" where
  "registry_new alloc um L =
     \<lparr>rg_entries = [], rg_allocations = alloc, rg_universe = um, rg_ledger = L, rg_budget_watched = False, rg_cb_watched = False\<rparr>"

definition reg_register :: "string \<Rightarrow> registry_entry \<Rightarrow> registry \<Rightarrow> registry" where
  "reg_register sid e rg = rg\<lparr>rg_entries := AList.update sid e (rg_entries rg)\<rparr>"

definition reg_unregister :: "string \<Rightarrow> registry \<Rightarrow> registry_entry option \<times> registry" where
  "reg_unregister sid rg = (map_of (rg_entries rg) sid, rg\<lparr>rg_entries := AList.delete sid (rg_entries rg)\<rparr>)"

text \<open>\<open>cross_exchange_v1\<close> to \<open>cross_exchange\<close>: the text before the last \<open>_v\<close> when only digits follow it.\<close>

definition digit :: "char \<Rightarrow> bool" where
  "digit c \<longleftrightarrow> (let n = of_char c :: nat in 48 \<le> n \<and> n \<le> 57)"

definition strip_version_suffix :: "string \<Rightarrow> string" where
  "strip_version_suffix sid =
     (if occurs_in ''_v'' sid
      then let suffix = rev (before ''v_'' (rev sid))
           in if suffix \<noteq> [] \<and> list_all digit suffix then take (length sid - length suffix - 2) sid else sid
      else sid)"

definition lookup_allocation_pct :: "registry \<Rightarrow> string \<Rightarrow> decimal" where
  "lookup_allocation_pct rg sid = (case rg_allocations rg (strip_version_suffix sid) of None \<Rightarrow> 0 | Some p \<Rightarrow> p)"

definition lookup_budget_usd :: "registry \<Rightarrow> string \<Rightarrow> decimal" where
  "lookup_budget_usd rg sid =
     (case rg_ledger rg of
        None \<Rightarrow> 0
      | Some L \<Rightarrow> (case map_of (budgets L) sid of None \<Rightarrow> 0 | Some b \<Rightarrow> loss_budget b))"

definition fresh_entry :: "registry \<Rightarrow> string \<Rightarrow> bool \<Rightarrow> secs option \<Rightarrow> string option \<Rightarrow> registry_entry" where
  "fresh_entry rg sid act health why =
     \<lparr>re_active = act, re_allocation = lookup_allocation_pct rg sid, re_budget = lookup_budget_usd rg sid, re_health = health,
      re_errors = 0, re_reason = why, re_universe = 0\<rparr>"

definition load_one_active :: "secs \<Rightarrow> (string \<Rightarrow> bool) \<Rightarrow> string \<Rightarrow> registry \<Rightarrow> registry" where
  "load_one_active now builds sid rg = (if builds sid then reg_register sid (fresh_entry rg sid True (Some now) None) rg else rg)"

definition load_one_unverified :: "string list \<Rightarrow> (string \<Rightarrow> bool) \<Rightarrow> string \<Rightarrow> registry \<Rightarrow> registry" where
  "load_one_unverified disabled builds sid rg =
     (if sid \<in> set disabled \<or> dict_has (rg_entries rg) sid \<or> \<not> builds sid then rg
      else reg_register sid (fresh_entry rg sid False None (Some ''UNVERIFIED'')) rg)"

definition load_active_from_config ::
    "secs \<Rightarrow> string list \<Rightarrow> string list \<Rightarrow> string list \<Rightarrow> (string \<Rightarrow> bool) option \<Rightarrow> registry \<Rightarrow> string list \<times> registry" where
  "load_active_from_config now active disabled unverified fac rg =
     (let effective = filter (\<lambda>sid. sid \<notin> set disabled) active
      in case fac of
           None \<Rightarrow> (effective, rg)
         | Some builds \<Rightarrow>
             (effective, fold (load_one_unverified disabled builds) (sort (remdups unverified))
                           (fold (load_one_active now builds) effective rg)))"

definition reg_deactivate :: "secs \<Rightarrow> string \<Rightarrow> string \<Rightarrow> registry \<Rightarrow> registry" where
  "reg_deactivate now sid reason rg =
     (case map_of (rg_entries rg) sid of
        None \<Rightarrow> rg
      | Some e \<Rightarrow>
          if \<not> re_active e \<and> re_reason e = Some reason then rg
          else reg_register sid (e\<lparr>re_active := False, re_reason := Some reason, re_health := Some now\<rparr>) rg)"

definition reg_activate :: "secs \<Rightarrow> string \<Rightarrow> registry \<Rightarrow> bool \<times> registry" where
  "reg_activate now sid rg =
     (case map_of (rg_entries rg) sid of
        None \<Rightarrow> (False, rg)
      | Some e \<Rightarrow>
          if re_active e then (False, rg)
          else (True, reg_register sid (e\<lparr>re_active := True, re_reason := None, re_health := Some now\<rparr>) rg))"

definition reg_record_error :: "secs \<Rightarrow> string \<Rightarrow> registry \<Rightarrow> registry" where
  "reg_record_error now sid rg =
     (case map_of (rg_entries rg) sid of
        None \<Rightarrow> rg
      | Some e \<Rightarrow> reg_register sid (e\<lparr>re_errors := re_errors e + 1, re_health := Some now\<rparr>) rg)"

definition reg_get_active :: "registry \<Rightarrow> (string \<times> registry_entry) list" where
  "reg_get_active rg = filter (re_active \<circ> snd) (rg_entries rg)"

definition count_universe_entries :: "registry \<Rightarrow> string \<Rightarrow> nat" where
  "count_universe_entries rg sid =
     (case rg_universe rg of None \<Rightarrow> 0 | Some um \<Rightarrow> length (filter (\<lambda>k. fst k = sid) (dict_keys (um_entries um))))"

definition filter_one :: "secs \<Rightarrow> string \<Rightarrow> string list \<times> registry \<Rightarrow> string list \<times> registry" where
  "filter_one now sid = (\<lambda>(out, rg).
     case map_of (rg_entries rg) sid of
       None \<Rightarrow> (out, rg)
     | Some e \<Rightarrow>
         let n = count_universe_entries rg sid; rg1 = reg_register sid (e\<lparr>re_universe := n\<rparr>) rg
         in if n = 0 \<and> re_active e then (out @ [sid], reg_deactivate now sid ''NO_VALID_UNIVERSE'' rg1) else (out, rg1))"

definition apply_universe_filter :: "secs \<Rightarrow> registry \<Rightarrow> string list \<times> registry" where
  "apply_universe_filter now rg =
     (if rg_universe rg = None then ([], rg) else fold (filter_one now) (dict_keys (rg_entries rg)) ([], rg))"

definition subscribe_budget_ledger :: "ledger option \<Rightarrow> registry \<Rightarrow> registry" where
  "subscribe_budget_ledger L rg =
     (let target = (case L of None \<Rightarrow> rg_ledger rg | Some l \<Rightarrow> Some l)
      in case target of None \<Rightarrow> rg | Some _ \<Rightarrow> rg\<lparr>rg_budget_watched := True\<rparr>)"

definition subscribe_circuit_breaker :: "bool \<Rightarrow> registry \<Rightarrow> registry" where
  "subscribe_circuit_breaker has_cb rg = (if has_cb then rg\<lparr>rg_cb_watched := True\<rparr> else rg)"

definition unsubscribe_budget_ledger :: "registry \<Rightarrow> registry" where
  "unsubscribe_budget_ledger rg = rg\<lparr>rg_budget_watched := False\<rparr>"

definition unsubscribe_circuit_breaker :: "registry \<Rightarrow> registry" where
  "unsubscribe_circuit_breaker rg = rg\<lparr>rg_cb_watched := False\<rparr>"

text \<open>One step of a sweep: the watcher is asked for an active strategy only and may change its own state.\<close>

definition sweep_one ::
    "(string \<Rightarrow> 'w \<Rightarrow> bool \<times> 'w) \<Rightarrow> string \<Rightarrow> secs \<Rightarrow> string \<Rightarrow> string list \<times> 'w \<times> registry \<Rightarrow> string list \<times> 'w \<times> registry" where
  "sweep_one trips reason now sid = (\<lambda>(out, w, rg).
     case map_of (rg_entries rg) sid of
       None \<Rightarrow> (out, w, rg)
     | Some e \<Rightarrow>
         if \<not> re_active e then (out, w, rg)
         else let (b, w') = trips sid w
              in if b then (out @ [sid], w', reg_deactivate now sid reason rg) else (out, w', rg))"

definition sweep ::
    "(string \<Rightarrow> 'w \<Rightarrow> bool \<times> 'w) \<Rightarrow> string \<Rightarrow> secs \<Rightarrow> 'w \<Rightarrow> registry \<Rightarrow> string list \<times> 'w \<times> registry" where
  "sweep trips reason now w rg = fold (sweep_one trips reason now) (dict_keys (rg_entries rg)) ([], w, rg)"

definition poll_budget_halts :: "secs \<Rightarrow> ledger \<Rightarrow> registry \<Rightarrow> string list \<times> ledger \<times> registry" where
  "poll_budget_halts now L rg =
     (if rg_budget_watched rg then sweep (\<lambda>sid L. (is_strategy_halted sid L, L)) ''BUDGET_EXHAUSTED'' now L rg else ([], L, rg))"

definition poll_cb_halts :: "secs \<Rightarrow> per_strategy_cb \<Rightarrow> registry \<Rightarrow> string list \<times> per_strategy_cb \<times> registry" where
  "poll_cb_halts now cb rg =
     (if rg_cb_watched rg then sweep (\<lambda>sid cb. let (ok, cb') = PerStrategyCB.is_allowed now sid cb in (\<not> ok, cb')) ''CB_TRIP'' now cb rg
      else ([], cb, rg))"

subsection \<open>Entries\<close>

definition active_in :: "registry \<Rightarrow> string \<Rightarrow> bool" where
  "active_in rg sid \<longleftrightarrow> (\<exists>e. map_of (rg_entries rg) sid = Some e \<and> re_active e)"

lemma entries_register [simp]: "map_of (rg_entries (reg_register sid e rg)) = (map_of (rg_entries rg))(sid \<mapsto> e)"
  by (simp add: reg_register_def)

lemma keys_register [simp]:
  "sid \<in> set (dict_keys (rg_entries rg)) \<Longrightarrow> dict_keys (rg_entries (reg_register sid e rg)) = dict_keys (rg_entries rg)"
  by (simp add: reg_register_def keys_update_present)

lemma present: "map_of d k = Some v \<Longrightarrow> k \<in> set (dict_keys d)"
  by (force dest: map_of_SomeD)

lemma keys_present [simp]:
  "map_of (rg_entries rg) sid = Some e' \<Longrightarrow> dict_keys (rg_entries (reg_register sid e rg)) = dict_keys (rg_entries rg)"
  by (rule keys_register) (rule present)

lemma rest_register [simp]:
  "rg_universe (reg_register sid e rg) = rg_universe rg" "rg_ledger (reg_register sid e rg) = rg_ledger rg"
  "rg_budget_watched (reg_register sid e rg) = rg_budget_watched rg" "rg_cb_watched (reg_register sid e rg) = rg_cb_watched rg"
  "rg_allocations (reg_register sid e rg) = rg_allocations rg"
  by (simp_all add: reg_register_def)

lemma rest_deactivate [simp]:
  "rg_universe (reg_deactivate now sid why rg) = rg_universe rg" "rg_ledger (reg_deactivate now sid why rg) = rg_ledger rg"
  "rg_budget_watched (reg_deactivate now sid why rg) = rg_budget_watched rg" "rg_cb_watched (reg_deactivate now sid why rg) = rg_cb_watched rg"
  "dict_keys (rg_entries (reg_deactivate now sid why rg)) = dict_keys (rg_entries rg)"
  by (auto simp: reg_deactivate_def split: option.split)

lemma active_deactivate [simp]: "active_in (reg_deactivate now sid why rg) s \<longleftrightarrow> s \<noteq> sid \<and> active_in rg s"
  by (auto simp: active_in_def reg_deactivate_def split: option.split if_splits)

lemma count_register [simp]: "count_universe_entries (reg_register sid e rg) = count_universe_entries rg"
  by (simp add: count_universe_entries_def fun_eq_iff)

subsection \<open>Sweeps\<close>

context watcher
begin

lemma sweep_fold:
  assumes "distinct sids"
  shows "let (out', w', rg') = fold (sweep_one trips reason now) sids (out, w, rg)
    in (\<forall>s. active_in rg' s \<longleftrightarrow> active_in rg s \<and> (s \<in> set sids \<longrightarrow> \<not> verdict w s))
       \<and> set out' = set out \<union> {s \<in> set sids. active_in rg s \<and> verdict w s}
       \<and> dict_keys (rg_entries rg') = dict_keys (rg_entries rg) \<and> rg_universe rg' = rg_universe rg
       \<and> rg_budget_watched rg' = rg_budget_watched rg \<and> rg_cb_watched rg' = rg_cb_watched rg"
  using assms
proof (induction sids arbitrary: out w rg)
  case (Cons sid sids)
  have step: "sweep_one trips reason now sid (out, w, rg) =
      (if active_in rg sid
       then if verdict w sid then (out @ [sid], snd (trips sid w), reg_deactivate now sid reason rg) else (out, snd (trips sid w), rg)
       else (out, w, rg))"
    by (auto simp: sweep_one_def active_in_def case_prod_beta verdict_answer Let_def split: option.split)
  have other: "verdict (snd (trips sid w)) s = verdict w s" if "s \<in> set sids" for s
    using that Cons.prems verdict_other [of s sid w] by (cases "s = sid") auto
  consider "\<not> active_in rg sid" | "active_in rg sid" "\<not> verdict w sid" | "active_in rg sid" "verdict w sid" by blast
  then show ?case
  proof cases
    case 1
    then show ?thesis using Cons.IH [of out w rg] Cons.prems step by (auto simp: case_prod_beta Let_def)
  next
    case 2
    then show ?thesis using Cons.IH [of out "snd (trips sid w)" rg] Cons.prems step other by (auto simp: case_prod_beta Let_def)
  next
    case 3
    then show ?thesis
      using Cons.IH [of "out @ [sid]" "snd (trips sid w)" "reg_deactivate now sid reason rg"] Cons.prems step other
      by (auto simp: case_prod_beta Let_def)
  qed
qed simp

lemma sweep_active:
  assumes "distinct (dict_keys (rg_entries rg))" and "sweep trips reason now w rg = (out, w', rg')"
  shows "active_in rg' s \<longleftrightarrow> active_in rg s \<and> \<not> verdict w s" and "set out = {s. active_in rg s \<and> verdict w s}"
    and "dict_keys (rg_entries rg') = dict_keys (rg_entries rg)" and "rg_universe rg' = rg_universe rg"
    and "rg_budget_watched rg' = rg_budget_watched rg" and "rg_cb_watched rg' = rg_cb_watched rg"
proof -
  have k: "active_in rg s \<Longrightarrow> s \<in> set (dict_keys (rg_entries rg))" for s
    by (auto simp: active_in_def dest: present)
  show "active_in rg' s \<longleftrightarrow> active_in rg s \<and> \<not> verdict w s" "set out = {s. active_in rg s \<and> verdict w s}"
    "dict_keys (rg_entries rg') = dict_keys (rg_entries rg)" "rg_universe rg' = rg_universe rg"
    "rg_budget_watched rg' = rg_budget_watched rg" "rg_cb_watched rg' = rg_cb_watched rg"
    using sweep_fold [OF assms(1), of reason now "[]" w rg] assms(2) k
    by (auto simp: sweep_def)
qed

end

interpretation budget_watch: watcher "\<lambda>sid L. (is_strategy_halted sid L, L)" "\<lambda>L sid. is_strategy_halted sid L"
  by unfold_locales auto

interpretation cb_watch: watcher "\<lambda>sid cb. let (ok, cb') = PerStrategyCB.is_allowed now sid cb in (\<not> ok, cb')"
    "\<lambda>cb sid. \<not> fst (PerStrategyCB.is_allowed now sid cb)" for now
  by unfold_locales (auto simp: PerStrategyCB.is_allowed_def Let_def)

text \<open>The filter by the universe, as a sweep whose watcher is the table.\<close>

lemma filter_active:
  assumes "distinct (dict_keys (rg_entries rg))" and "rg_universe rg = Some um" and "apply_universe_filter now rg = (out, rg')"
  shows "active_in rg' s \<longleftrightarrow> active_in rg s \<and> (\<exists>symb a b. has_entry um s symb a b)"
    and "dict_keys (rg_entries rg') = dict_keys (rg_entries rg)"
    and "rg_budget_watched rg' = rg_budget_watched rg" and "rg_cb_watched rg' = rg_cb_watched rg"
proof -
  have count: "count_universe_entries rg2 s = 0 \<longleftrightarrow> \<not> (\<exists>symb a b. has_entry um s symb a b)" if "rg_universe rg2 = Some um" for s rg2
    using that by (force simp: count_universe_entries_def has_entry_def dict_has_def filter_empty_conv)
  have "let (out', rg') = fold (filter_one now) sids (out, rg)
      in (\<forall>s. active_in rg' s \<longleftrightarrow> active_in rg s \<and> (s \<in> set sids \<longrightarrow> (\<exists>symb a b. has_entry um s symb a b)))
       \<and> dict_keys (rg_entries rg') = dict_keys (rg_entries rg)
       \<and> rg_budget_watched rg' = rg_budget_watched rg \<and> rg_cb_watched rg' = rg_cb_watched rg"
    if "rg_universe rg = Some um" for sids out rg
    using that
  proof (induction sids arbitrary: out rg)
    case (Cons sid sids)
    obtain out1 rg1 where one: "filter_one now sid (out, rg) = (out1, rg1)" by fastforce
    have "rg_universe rg1 = Some um \<and> dict_keys (rg_entries rg1) = dict_keys (rg_entries rg)
        \<and> rg_budget_watched rg1 = rg_budget_watched rg \<and> rg_cb_watched rg1 = rg_cb_watched rg
        \<and> (\<forall>s. active_in rg1 s \<longleftrightarrow> active_in rg s \<and> (s = sid \<longrightarrow> (\<exists>symb a b. has_entry um s symb a b)))"
    proof (cases "map_of (rg_entries rg) sid")
      case (Some e)
      have reg: "active_in (reg_register sid (e\<lparr>re_universe := n\<rparr>) rg) s = active_in rg s" for n s
        using Some by (auto simp: active_in_def)
      have act: "active_in rg sid = re_active e"
        using Some by (simp add: active_in_def)
      show ?thesis
        using one Some Cons.prems count [OF Cons.prems, of sid] reg act
        by (auto simp: filter_one_def Let_def split: if_splits)
    qed (use one Cons.prems in \<open>auto simp: filter_one_def active_in_def\<close>)
    then show ?case using Cons.IH [of rg1 out1] one by (auto simp: case_prod_beta Let_def)
  qed auto
  note loop = this [OF assms(2), of "dict_keys (rg_entries rg)" "[]"]
  have k: "active_in rg s \<Longrightarrow> s \<in> set (dict_keys (rg_entries rg))" for s
    by (auto simp: active_in_def dest: present)
  from loop k assms(2,3)
  show "active_in rg' s \<longleftrightarrow> active_in rg s \<and> (\<exists>symb a b. has_entry um s symb a b)"
    "dict_keys (rg_entries rg') = dict_keys (rg_entries rg)"
    "rg_budget_watched rg' = rg_budget_watched rg" "rg_cb_watched rg' = rg_cb_watched rg"
    by (auto simp: apply_universe_filter_def)
qed

subsection \<open>Properties\<close>

text \<open>After a filter by the universe and the two polls a strategy is active exactly when it was active before, the
  universe matrix has an entry for it, its budget is not halted and its circuit breaker allows it; whatever the
  operator switched on in between is switched off again when one of the three says so.\<close>

lemma sweeps_leave_the_allowed:
  assumes "distinct (dict_keys (rg_entries rg))" and "rg_universe rg = Some um" and "rg_budget_watched rg" and "rg_cb_watched rg"
    and "apply_universe_filter now rg = (out1, rg1)" and "poll_budget_halts now L rg1 = (out2, L', rg2)"
    and "poll_cb_halts now cb rg2 = (out3, cb', rg3)"
  shows "(active_in rg3 s \<longleftrightarrow> active_in rg s \<and> (\<exists>symb a b. has_entry um s symb a b) \<and> \<not> is_strategy_halted s L
      \<and> fst (PerStrategyCB.is_allowed now s cb))
    \<and> (s \<in> set out2 \<longrightarrow> is_strategy_halted s L) \<and> (s \<in> set out3 \<longrightarrow> \<not> fst (PerStrategyCB.is_allowed now s cb))"
proof -
  note f = filter_active [OF assms(1,2,5)]
  have d1: "distinct (dict_keys (rg_entries rg1))" using f(2) assms(1) by simp
  have s2: "sweep (\<lambda>sid L. (is_strategy_halted sid L, L)) ''BUDGET_EXHAUSTED'' now L rg1 = (out2, L', rg2)"
    using assms(6) f(3) assms(3) by (simp add: poll_budget_halts_def)
  note b = budget_watch.sweep_active [OF d1 s2]
  have d2: "distinct (dict_keys (rg_entries rg2))" using b(3) d1 by simp
  have s3: "sweep (\<lambda>sid cb. let (ok, cb') = PerStrategyCB.is_allowed now sid cb in (\<not> ok, cb')) ''CB_TRIP'' now cb rg2 = (out3, cb', rg3)"
    using assms(7) b(6) f(4) assms(4) by (simp add: poll_cb_halts_def)
  note c = cb_watch.sweep_active [OF d2 s3]
  show ?thesis using f(1) b(1,2) c(1,2) by auto
qed

text \<open>A registry of two strategies, one without an entry in the matrix.\<close>

definition ex_universe :: universe_matrix where
  "ex_universe = put_entry (''fr'', ''BTC/USDT'', ''gate'', Some ''okx'')
     \<lparr>ue_notional_a = 5, ue_notional_b = Some 5, ue_tick = 1, ue_market_a = ''futures'', ue_market_b = Some ''futures''\<rparr> universe_new"

definition ex_registry :: registry where
  "ex_registry = subscribe_circuit_breaker True (subscribe_budget_ledger None (snd (load_active_from_config 0
     [''fr'', ''tri''] [] [] (Some (\<lambda>_. True)) (registry_new Map.empty (Some ex_universe) (Some ex_ledger)))))"

lemma ex_registry_facts:
  "dict_keys (rg_entries ex_registry) = [''fr'', ''tri'']" "rg_universe ex_registry = Some ex_universe"
  "rg_budget_watched ex_registry" "rg_cb_watched ex_registry" "active_in ex_registry ''fr''"
  "has_entry ex_universe ''fr'' ''BTC/USDT'' ''gate'' (Some ''okx'')" "\<not> has_entry ex_universe ''tri'' symb a b"
  "\<not> is_strategy_halted ''fr'' ex_ledger" "fst (PerStrategyCB.is_allowed 1 ''fr'' [])"
  by (simp_all add: ex_registry_def ex_universe_def put_entry_def universe_new_def load_active_from_config_def
      load_one_active_def reg_register_def fresh_entry_def registry_new_def subscribe_budget_ledger_def
      subscribe_circuit_breaker_def active_in_def has_entry_def dict_has_def ex_ledger_def start_def ledger_new_def
      is_strategy_halted_def ex_store_def uncategorized_def load_from_db_def load_from_json_def fresh_budget_def dict_get_def
      PerStrategyCB.is_allowed_def entry_def new_entry_def maybe_auto_recover_def Let_def)

lemma sweeps_leave_the_allowed_witness:
  "\<exists>out1 rg1 out2 L rg2 out3 cb rg3. apply_universe_filter 1 ex_registry = (out1, rg1)
     \<and> poll_budget_halts 1 ex_ledger rg1 = (out2, L, rg2) \<and> poll_cb_halts 1 [] rg2 = (out3, cb, rg3)
     \<and> active_in rg3 ''fr'' \<and> \<not> active_in rg3 ''tri''"
proof -
  obtain out1 rg1 where 1: "apply_universe_filter 1 ex_registry = (out1, rg1)" by fastforce
  obtain out2 L rg2 where 2: "poll_budget_halts 1 ex_ledger rg1 = (out2, L, rg2)" by (cases "poll_budget_halts 1 ex_ledger rg1") auto
  obtain out3 cb rg3 where 3: "poll_cb_halts 1 [] rg2 = (out3, cb, rg3)" by (cases "poll_cb_halts 1 [] rg2") auto
  have d: "distinct (dict_keys (rg_entries ex_registry))" by (simp add: ex_registry_facts)
  note p = sweeps_leave_the_allowed [OF d ex_registry_facts(2-4) 1 2 3]
  show ?thesis using 1 2 3 p [of "''fr''"] p [of "''tri''"] ex_registry_facts(5-9) by blast
qed

text \<open>The three lists of the activation file decide what a fresh registry holds.\<close>

lemma load_active_fold:
  "active_in (fold (load_one_active now builds) sids rg) s \<longleftrightarrow> active_in rg s \<or> s \<in> set sids \<and> builds s"
  "dict_has (rg_entries (fold (load_one_active now builds) sids rg)) s \<longleftrightarrow> dict_has (rg_entries rg) s \<or> s \<in> set sids \<and> builds s"
proof (induction sids arbitrary: rg)
  case (Cons sid sids)
  case 1
  show ?case
    using Cons.IH(1) [of "load_one_active now builds sid rg"] by (auto simp: load_one_active_def active_in_def fresh_entry_def)
  case 2
  show ?case
    using Cons.IH(2) [of "load_one_active now builds sid rg"] by (auto simp: load_one_active_def dict_has_iff)
qed auto

lemma load_unverified_fold:
  "active_in (fold (load_one_unverified disabled builds) sids rg) s \<longleftrightarrow> active_in rg s"
  "dict_has (rg_entries (fold (load_one_unverified disabled builds) sids rg)) s
     \<longleftrightarrow> dict_has (rg_entries rg) s \<or> s \<in> set sids \<and> s \<notin> set disabled \<and> builds s"
proof (induction sids arbitrary: rg)
  case (Cons sid sids)
  case 1
  show ?case
    using Cons.IH(1) [of "load_one_unverified disabled builds sid rg"]
    by (auto simp: load_one_unverified_def active_in_def fresh_entry_def dict_has_iff split: if_splits)
  case 2
  show ?case
    using Cons.IH(2) [of "load_one_unverified disabled builds sid rg"] by (auto simp: load_one_unverified_def dict_has_iff)
qed auto

text \<open>Loading the activation file into a fresh registry activates exactly the listed strategies that are not disabled
  and can be built, and registers exactly these and the unverified ones that are not disabled and can be built; a
  dry run registers nothing.\<close>

lemma load_follows_activation_file:
  "(let (out, rg) = load_active_from_config now active disabled unverified (Some builds) (registry_new alloc um L)
    in (active_in rg s \<longleftrightarrow> s \<in> set active \<and> s \<notin> set disabled \<and> builds s)
       \<and> (dict_has (rg_entries rg) s \<longleftrightarrow> (s \<in> set active \<or> s \<in> set unverified) \<and> s \<notin> set disabled \<and> builds s))
   \<and> snd (load_active_from_config now active disabled unverified None rg') = rg'"
proof -
  have "\<not> active_in (registry_new alloc um L) s" "\<not> dict_has (rg_entries (registry_new alloc um L)) s"
    by (simp_all add: active_in_def registry_new_def dict_has_def)
  then show ?thesis
    by (auto simp: load_active_from_config_def Let_def load_active_fold load_unverified_fold)
qed

end
