(* ===== verification/Supervisor.thy ===== *)
theory Supervisor
  imports Universe Stranded "HOL-Library.Sublist"
begin

text \<open>
  \<open>engine/src/core/supervisor.py\<close>: the owner of the process life cycle.  \<open>start\<close> is cut at its boot steps,
  because a signal or a halt request may arrive at any of its awaits; \<open>stop\<close> runs in one piece.  What
  the configuration, the database, Redis, the exchange factory and the event loop answer is
  \<open>boot_env\<close>; a connection that was opened is a flag that is lowered when it is closed.  Left out: the
  clock readings, the logs, the timeout of the cancelled tasks (they are dropped from the list either way).
\<close>

record boot_env =
  be_database_url :: "string option"
  be_direct_url :: "string option"
  be_settings_db_url :: "string option"
  be_redis_url :: "string option"
  be_settings_redis_url :: "string option"
  be_active :: "string list option"
  be_file_active :: "string list"
  be_credentials :: "(string \<Rightarrow> string \<times> string \<times> string) option"
  be_db_init :: "unit outcome"
  be_redis_connect :: "unit outcome"
  be_factory :: "string \<Rightarrow> string \<times> string \<times> string \<Rightarrow> universe_adapter outcome"
  be_connect :: "string \<Rightarrow> unit outcome"
  be_tasks :: "string list"
  be_signal_ok :: "string \<Rightarrow> bool"
  be_loop :: bool

datatype boot_step = InitDb | InitRedis | RegisterExchanges | InitStrategies | BuildUniverse | StartTasks | InstallSignals | RegisterForwarder

definition boot_sequence :: "boot_step list" where
  "boot_sequence = [InitDb, InitRedis, RegisterExchanges, InitStrategies, BuildUniverse, StartTasks, InstallSignals, RegisterForwarder]"

text \<open>A connection attribute is \<open>None\<close> until its object exists, then tells whether it is open.\<close>

record supervisor =
  sv_db :: "bool option"
  sv_redis :: "bool option"
  sv_exchanges :: exchange_map
  sv_universe :: "universe_matrix option"
  sv_tasks :: "(string \<times> bool) list"
  sv_shutdown :: bool
  sv_ready :: bool
  sv_errors :: "(string \<times> string) list"
  sv_stopped :: bool
  sv_signals :: "string list"
  sv_forwarder :: bool
  sv_todo :: "boot_step list"
  sv_scheduled_stops :: nat

definition supervisor_new :: supervisor where
  "supervisor_new =
     \<lparr>sv_db = None, sv_redis = None, sv_exchanges = [], sv_universe = None, sv_tasks = [], sv_shutdown = False, sv_ready = False,
      sv_errors = [], sv_stopped = False, sv_signals = [], sv_forwarder = False, sv_todo = [], sv_scheduled_stops = 0\<rparr>"

subsection \<open>Configuration\<close>

fun non_empty :: "string option \<Rightarrow> string option" where
  "non_empty (Some u) = (if u = [] then None else Some u)"
| "non_empty None = None"

fun or_else :: "string option \<Rightarrow> string option \<Rightarrow> string option" where
  "or_else (Some u) v = Some u"
| "or_else None v = v"

definition resolve_database_url :: "boot_env \<Rightarrow> string option" where
  "resolve_database_url env =
     or_else (non_empty (be_database_url env)) (or_else (non_empty (be_direct_url env)) (be_settings_db_url env))"

definition resolve_redis_url :: "boot_env \<Rightarrow> string option" where
  "resolve_redis_url env = or_else (non_empty (be_redis_url env)) (be_settings_redis_url env)"

definition resolve_active_exchanges :: "boot_env \<Rightarrow> string list" where
  "resolve_active_exchanges env = (case be_active env of Some xs \<Rightarrow> xs | None \<Rightarrow> be_file_active env)"

definition base_exchange :: "string \<Rightarrow> string" where
  "base_exchange eid = (if suffix ''_futures'' eid then take (length eid - 8) eid else eid)"

definition resolve_exchange_credentials :: "boot_env \<Rightarrow> (string, string \<times> string \<times> string) dict" where
  "resolve_exchange_credentials env =
     (case be_credentials env of
        None \<Rightarrow> []
      | Some creds \<Rightarrow> fold (\<lambda>eid. AList.update (base_exchange eid) (creds (base_exchange eid))) (resolve_active_exchanges env) [])"

subsection \<open>Boot steps\<close>

type_synonym boot_result = "(string + unit) \<times> supervisor"

fun outcome_error :: "'a outcome \<Rightarrow> string + 'a" where
  "outcome_error (Returned x) = Inr x"
| "outcome_error TimedOut = Inl ''TimeoutError''"
| "outcome_error (Raised e) = Inl e"

definition init_db_pool :: "boot_env \<Rightarrow> supervisor \<Rightarrow> boot_result" where
  "init_db_pool env s =
     (case non_empty (resolve_database_url env) of
        None \<Rightarrow> (Inl ''supervisor.db_init_failed reason=no_dsn'', s)
      | Some _ \<Rightarrow>
          (case outcome_error (be_db_init env) of
             Inl e \<Rightarrow> (Inl e, s\<lparr>sv_db := Some False\<rparr>)
           | Inr _ \<Rightarrow> (Inr (), s\<lparr>sv_db := Some True\<rparr>)))"

definition init_redis :: "boot_env \<Rightarrow> supervisor \<Rightarrow> boot_result" where
  "init_redis env s =
     (case non_empty (resolve_redis_url env) of
        None \<Rightarrow> (Inl ''supervisor.redis_init_failed reason=no_url'', s)
      | Some _ \<Rightarrow>
          (case outcome_error (be_redis_connect env) of
             Inl e \<Rightarrow> (Inl e, s\<lparr>sv_redis := Some False\<rparr>)
           | Inr _ \<Rightarrow> (Inr (), s\<lparr>sv_redis := Some True\<rparr>)))"

fun register_each :: "boot_env \<Rightarrow> (string, string \<times> string \<times> string) dict \<Rightarrow> string list \<Rightarrow> supervisor \<Rightarrow> boot_result" where
  "register_each env creds [] s = (Inr (), s)"
| "register_each env creds (eid # eids) s =
     (case outcome_error (be_factory env eid (dict_get creds (base_exchange eid) ([], [], []))) of
        Inl e \<Rightarrow> (Inl e, s)
      | Inr adapter \<Rightarrow>
          (case outcome_error (be_connect env eid) of
             Inl e \<Rightarrow> (Inl e, s)
           | Inr _ \<Rightarrow> register_each env creds eids (s\<lparr>sv_exchanges := AList.update eid adapter (sv_exchanges s)\<rparr>)))"

definition register_exchanges :: "boot_env \<Rightarrow> supervisor \<Rightarrow> boot_result" where
  "register_exchanges env s =
     (let active = resolve_active_exchanges env
      in if active = [] then (Inl ''supervisor.exchanges_empty reason=no_active_exchanges'', s)
         else register_each env (resolve_exchange_credentials env) active s)"

definition build_universe_matrix :: "supervisor \<Rightarrow> supervisor" where
  "build_universe_matrix s = s\<lparr>sv_universe := Some (universe_build (sv_exchanges s) [] universe_new)\<rparr>"

definition register_background_task :: "string \<Rightarrow> supervisor \<Rightarrow> supervisor" where
  "register_background_task name s = s\<lparr>sv_tasks := sv_tasks s @ [(''leviathan_'' @ name, False)]\<rparr>"

definition start_background_tasks :: "boot_env \<Rightarrow> supervisor \<Rightarrow> supervisor" where
  "start_background_tasks env s = fold register_background_task (be_tasks env) s"

definition install_signal_handlers :: "boot_env \<Rightarrow> supervisor \<Rightarrow> supervisor" where
  "install_signal_handlers env s =
     (if be_loop env then s\<lparr>sv_signals := sv_signals s @ filter (be_signal_ok env) [''SIGTERM'', ''SIGINT'']\<rparr> else s)"

fun boot_one :: "boot_env \<Rightarrow> boot_step \<Rightarrow> supervisor \<Rightarrow> boot_result" where
  "boot_one env InitDb s = init_db_pool env s"
| "boot_one env InitRedis s = init_redis env s"
| "boot_one env RegisterExchanges s = register_exchanges env s"
| "boot_one env InitStrategies s = (Inr (), s)"
| "boot_one env BuildUniverse s = (Inr (), build_universe_matrix s)"
| "boot_one env StartTasks s = (Inr (), start_background_tasks env s)"
| "boot_one env InstallSignals s = (Inr (), install_signal_handlers env s)"
| "boot_one env RegisterForwarder s = (Inr (), s\<lparr>sv_forwarder := True\<rparr>)"

definition current_boot_step :: "supervisor \<Rightarrow> string" where
  "current_boot_step s =
     (if sv_db s = None then ''db_pool''
      else if sv_redis s = None then ''redis''
      else if sv_exchanges s = [] then ''exchanges''
      else if sv_universe s = None then ''universe_matrix''
      else if sv_tasks s = [] then ''background_tasks''
      else ''signal_handlers'')"

text \<open>\<open>start\<close> one step at a time: after the last step the supervisor is ready, a failed step ends the boot.\<close>

definition begin_start :: "supervisor \<Rightarrow> supervisor" where
  "begin_start s = s\<lparr>sv_todo := boot_sequence\<rparr>"

definition advance :: "boot_env \<Rightarrow> supervisor \<Rightarrow> boot_result" where
  "advance env s =
     (case sv_todo s of
        [] \<Rightarrow> (Inr (), s)
      | st # todo \<Rightarrow>
          (case boot_one env st s of
             (Inl e, s') \<Rightarrow> (Inl e, s'\<lparr>sv_errors := sv_errors s' @ [(current_boot_step s', e)], sv_todo := []\<rparr>)
           | (Inr _, s') \<Rightarrow> (Inr (), if todo = [] then s'\<lparr>sv_todo := [], sv_ready := True\<rparr> else s'\<lparr>sv_todo := todo\<rparr>)))"

fun boot_from :: "boot_env \<Rightarrow> nat \<Rightarrow> supervisor \<Rightarrow> boot_result" where
  "boot_from env 0 s = (Inr (), s)"
| "boot_from env (Suc n) s = (case advance env s of (Inl e, s') \<Rightarrow> (Inl e, s') | (Inr _, s') \<Rightarrow> boot_from env n s')"

definition sup_start :: "boot_env \<Rightarrow> supervisor \<Rightarrow> boot_result" where
  "sup_start env s = boot_from env (length boot_sequence) (begin_start s)"

subsection \<open>Stopping\<close>

definition remove_signal_handlers :: "supervisor \<Rightarrow> supervisor" where
  "remove_signal_handlers s = s\<lparr>sv_signals := []\<rparr>"

fun close_conn :: "bool option \<Rightarrow> unit outcome \<Rightarrow> bool option" where
  "close_conn None r = None"
| "close_conn (Some b) r = Some (b \<and> \<not> succeeded r)"

definition sup_stop :: "unit outcome \<Rightarrow> unit outcome \<Rightarrow> supervisor \<Rightarrow> supervisor" where
  "sup_stop rr rd s =
     (if sv_stopped s then s
      else remove_signal_handlers
        (s\<lparr>sv_stopped := True, sv_ready := False, sv_shutdown := True, sv_tasks := [],
           sv_redis := close_conn (sv_redis s) rr, sv_db := close_conn (sv_db s) rd, sv_exchanges := []\<rparr>)\<lparr>sv_forwarder := False\<rparr>)"

definition shutdown_request :: "unit outcome \<Rightarrow> unit outcome \<Rightarrow> supervisor \<Rightarrow> supervisor" where
  "shutdown_request rr rd s = sup_stop rr rd (s\<lparr>sv_shutdown := True\<rparr>)"

definition halt_request :: "bool \<Rightarrow> supervisor \<Rightarrow> supervisor" where
  "halt_request loop s =
     (let s1 = s\<lparr>sv_shutdown := True\<rparr>
      in if loop then s1\<lparr>sv_scheduled_stops := sv_scheduled_stops s1 + 1\<rparr> else s1)"

definition on_signal :: "bool \<Rightarrow> supervisor \<Rightarrow> supervisor" where
  "on_signal loop s =
     (let s1 = s\<lparr>sv_shutdown := True\<rparr>
      in if loop then s1\<lparr>sv_scheduled_stops := sv_scheduled_stops s1 + 1\<rparr> else s1)"

record supervisor_health =
  sh_ready :: bool
  sh_tasks :: nat
  sh_errors :: "(string \<times> string) list"

definition get_health :: "supervisor \<Rightarrow> supervisor_health" where
  "get_health s = \<lparr>sh_ready = sv_ready s, sh_tasks = length (filter (\<lambda>(_, done). \<not> done) (sv_tasks s)), sh_errors = sv_errors s\<rparr>"

subsection \<open>A breach of the stranded threshold\<close>

text \<open>The global of \<open>stranded.py\<close> that holds the forwarder is \<open>sv_forwarder\<close> of the supervisor it points to.\<close>

definition register_stranded ::
    "bool \<Rightarrow> secs \<Rightarrow> secs \<Rightarrow> string \<Rightarrow> string \<Rightarrow> string \<Rightarrow> pyfloat \<Rightarrow> pyfloat \<Rightarrow> string \<Rightarrow> stranded_tracker \<Rightarrow> supervisor \<Rightarrow>
     bool \<times> stranded_tracker \<times> supervisor" where
  "register_stranded loop now made ex symb side sz val reason T s =
     (case register now made ex symb side sz val reason T of
        (b, None, T') \<Rightarrow> (b, T', s)
      | (b, Some _, T') \<Rightarrow> (b, T', if sv_forwarder s then halt_request loop s else s))"

subsection \<open>The life of a supervisor\<close>

text \<open>
  What can happen, in any order: a boot step, a stop, a halt or a signal that schedules one, a scheduled stop,
  the end of a task.  In an orderly life \<open>start\<close> is called once, no boot step runs after a stop, and the
  connections close without an error.
\<close>

definition done_stop :: "supervisor \<Rightarrow> supervisor" where
  "done_stop = sup_stop (Returned ()) (Returned ())"

inductive orderly :: "boot_env \<Rightarrow> supervisor \<Rightarrow> bool" for env where
  fresh: "orderly env (begin_start supervisor_new)"
| step: "orderly env s \<Longrightarrow> \<not> sv_stopped s \<Longrightarrow> orderly env (snd (advance env s))"
| stop: "orderly env s \<Longrightarrow> orderly env (done_stop s)"
| shutdown: "orderly env s \<Longrightarrow> orderly env (shutdown_request (Returned ()) (Returned ()) s)"
| halt: "orderly env s \<Longrightarrow> orderly env (halt_request loop s)"
| sig: "orderly env s \<Longrightarrow> sv_signals s \<noteq> [] \<Longrightarrow> orderly env (on_signal loop s)"
| scheduled: "orderly env s \<Longrightarrow> sv_scheduled_stops s = Suc n \<Longrightarrow> orderly env ((done_stop s)\<lparr>sv_scheduled_stops := n\<rparr>)"
| task: "orderly env s \<Longrightarrow> orderly env (s\<lparr>sv_tasks := (sv_tasks s)[i := (fst (sv_tasks s ! i), True)]\<rparr>)"

definition released :: "supervisor \<Rightarrow> bool" where
  "released s \<longleftrightarrow> sv_db s \<noteq> Some True \<and> sv_redis s \<noteq> Some True \<and> sv_exchanges s = [] \<and> sv_tasks s = [] \<and> sv_signals s = []
     \<and> \<not> sv_forwarder s \<and> \<not> sv_ready s"

definition serving :: "supervisor \<Rightarrow> bool" where
  "serving s \<longleftrightarrow> sv_db s = Some True \<and> sv_redis s = Some True \<and> sv_exchanges s \<noteq> []
     \<and> sv_universe s = Some (universe_build (sv_exchanges s) [] universe_new) \<and> sv_forwarder s \<and> sv_errors s = []"

text \<open>What the steps already run have left, by the steps that are still to do.\<close>

definition booted_so_far :: "boot_step list \<Rightarrow> supervisor \<Rightarrow> bool" where
  "booted_so_far todo s \<longleftrightarrow>
     todo \<in> set (map (\<lambda>k. drop k boot_sequence) [0..<8]) \<and> sv_errors s = [] \<and> \<not> sv_ready s
     \<and> (InitDb \<notin> set todo \<longrightarrow> sv_db s = Some True) \<and> (InitRedis \<notin> set todo \<longrightarrow> sv_redis s = Some True)
     \<and> (RegisterExchanges \<notin> set todo \<longrightarrow> sv_exchanges s \<noteq> [])
     \<and> (BuildUniverse \<notin> set todo \<longrightarrow> sv_universe s = Some (universe_build (sv_exchanges s) [] universe_new))"

definition life_ok :: "supervisor \<Rightarrow> bool" where
  "life_ok s \<longleftrightarrow>
     (if sv_stopped s then released s \<and> sv_shutdown s
      else (sv_ready s \<longrightarrow> serving s) \<and> (sv_todo s \<noteq> [] \<longrightarrow> booted_so_far (sv_todo s) s))"

lemma close_done [simp]: "close_conn b (Returned ()) \<noteq> Some True"
  by (cases b) auto

lemma stop_stopped [simp]: "sv_stopped (sup_stop rr rd s)"
  by (simp add: sup_stop_def remove_signal_handlers_def)

lemma stop_idempotent [simp]: "sup_stop rr' rd' (sup_stop rr rd s) = sup_stop rr rd s"
  by (simp add: sup_stop_def [of rr' rd'])

lemma stop_releases: "\<not> sv_stopped s \<Longrightarrow> released (done_stop s) \<and> sv_shutdown (done_stop s)"
  by (simp add: done_stop_def sup_stop_def remove_signal_handlers_def released_def)

lemma update_nonempty [simp]: "AList.update k v d \<noteq> []"
  by (cases d) auto

lemma register_each_keeps:
  assumes "register_each env creds eids s = (r, s')"
  shows "sv_db s' = sv_db s" "sv_redis s' = sv_redis s" "sv_universe s' = sv_universe s" "sv_tasks s' = sv_tasks s"
    "sv_shutdown s' = sv_shutdown s" "sv_ready s' = sv_ready s" "sv_errors s' = sv_errors s" "sv_stopped s' = sv_stopped s"
    "sv_signals s' = sv_signals s" "sv_forwarder s' = sv_forwarder s" "sv_todo s' = sv_todo s"
    "sv_scheduled_stops s' = sv_scheduled_stops s"
  using assms
  by (induction eids arbitrary: s) (auto split: sum.splits)

lemma register_each_nonempty:
  "register_each env creds eids s = (r, s') \<Longrightarrow> sv_exchanges s \<noteq> [] \<Longrightarrow> sv_exchanges s' \<noteq> []"
  by (induction eids arbitrary: s) (force split: sum.splits)+

lemma register_each_some:
  "register_each env creds eids s = (Inr u, s') \<Longrightarrow> eids \<noteq> [] \<Longrightarrow> sv_exchanges s' \<noteq> []"
  by (cases eids) (auto split: sum.splits dest: register_each_nonempty)

lemma start_tasks_keeps: "fold register_background_task names s = s\<lparr>sv_tasks := sv_tasks s @ map (\<lambda>n. (''leviathan_'' @ n, False)) names\<rparr>"
  by (induction names arbitrary: s) (simp_all add: register_background_task_def)

lemma booted_so_far_todo [simp]: "booted_so_far todo (s\<lparr>sv_todo := todo'\<rparr>) \<longleftrightarrow> booted_so_far todo s"
  by (simp add: booted_so_far_def)

lemma booted_not_ready [dest, simp]: "booted_so_far todo s \<Longrightarrow> \<not> sv_ready s"
  by (simp add: booted_so_far_def)

lemma boot_steps_left:
  "set (map (\<lambda>k. drop k boot_sequence) [0..<8]) =
    {boot_sequence, [InitRedis, RegisterExchanges, InitStrategies, BuildUniverse, StartTasks, InstallSignals, RegisterForwarder],
     [RegisterExchanges, InitStrategies, BuildUniverse, StartTasks, InstallSignals, RegisterForwarder],
     [InitStrategies, BuildUniverse, StartTasks, InstallSignals, RegisterForwarder],
     [BuildUniverse, StartTasks, InstallSignals, RegisterForwarder], [StartTasks, InstallSignals, RegisterForwarder],
     [InstallSignals, RegisterForwarder], [RegisterForwarder]}"
  by (simp add: boot_sequence_def upt_rec)

lemma boot_one_frame:
  assumes "boot_one env st s = (r, s')"
  shows "sv_ready s' = sv_ready s" "sv_errors s' = sv_errors s" "sv_stopped s' = sv_stopped s" "sv_todo s' = sv_todo s"
    "sv_shutdown s' = sv_shutdown s" "sv_scheduled_stops s' = sv_scheduled_stops s"
    "st \<noteq> InitDb \<Longrightarrow> sv_db s' = sv_db s" "st \<noteq> InitRedis \<Longrightarrow> sv_redis s' = sv_redis s"
    "st \<noteq> RegisterExchanges \<Longrightarrow> sv_exchanges s' = sv_exchanges s" "st \<noteq> BuildUniverse \<Longrightarrow> sv_universe s' = sv_universe s"
    "st \<noteq> StartTasks \<Longrightarrow> sv_tasks s' = sv_tasks s" "st \<noteq> RegisterForwarder \<Longrightarrow> sv_forwarder s' = sv_forwarder s"
  using assms
  by (cases st; auto simp: init_db_pool_def init_redis_def register_exchanges_def build_universe_matrix_def
      start_background_tasks_def start_tasks_keeps install_signal_handlers_def Let_def register_each_keeps
      split: option.splits sum.splits if_splits)+

lemma boot_one_done:
  assumes "boot_one env st s = (Inr u, s')"
  shows "st = InitDb \<Longrightarrow> sv_db s' = Some True" "st = InitRedis \<Longrightarrow> sv_redis s' = Some True"
    "st = RegisterExchanges \<Longrightarrow> sv_exchanges s' \<noteq> []"
    "st = BuildUniverse \<Longrightarrow> sv_universe s' = Some (universe_build (sv_exchanges s') [] universe_new)"
    "st = RegisterForwarder \<Longrightarrow> sv_forwarder s'"
  using assms
  by (auto simp: init_db_pool_def init_redis_def register_exchanges_def build_universe_matrix_def Let_def
      dest: register_each_some split: option.splits sum.splits if_splits)

lemma advance_life:
  assumes "life_ok s" and "\<not> sv_stopped s"
  shows "life_ok (snd (advance env s))"
proof (cases "sv_todo s")
  case Nil
  with assms show ?thesis by (simp add: advance_def)
next
  case (Cons st todo)
  with assms have b: "booted_so_far (st # todo) s" by (simp add: life_ok_def)
  obtain r s' where one: "boot_one env st s = (r, s')" by fastforce
  note fr = boot_one_frame [OF one]
  show ?thesis
  proof (cases r)
    case (Inl e)
    then show ?thesis using one Cons b fr(1,3) assms(2) by (simp add: advance_def life_ok_def booted_so_far_def)
  next
    case (Inr u)
    note dn = boot_one_done [OF one [unfolded Inr]]
    have left: "st # todo \<in> set (map (\<lambda>k. drop k boot_sequence) [0..<8])" using b by (simp add: booted_so_far_def)
    show ?thesis
    proof (cases "todo = []")
      case True
      have st: "st = RegisterForwarder"
        using left True unfolding boot_steps_left by (auto simp: boot_sequence_def)
      have "serving s'"
        using b fr dn unfolding serving_def booted_so_far_def True st by simp
      then show ?thesis using one Cons fr Inr True assms(2)
        by (simp add: advance_def life_ok_def serving_def)
    next
      case False
      have "booted_so_far todo s'"
      proof -
        have u: "sv_universe s' = (if st = BuildUniverse then Some (universe_build (sv_exchanges s') [] universe_new) else sv_universe s)"
          using fr(10) dn(4) by simp
        have e: "st = RegisterExchanges \<and> sv_exchanges s' \<noteq> [] \<or> st \<noteq> RegisterExchanges \<and> sv_exchanges s' = sv_exchanges s"
          using fr(9) dn(3) by blast
        have d: "sv_db s' = (if st = InitDb then Some True else sv_db s)" "sv_redis s' = (if st = InitRedis then Some True else sv_redis s)"
          using fr(7,8) dn(1,2) by simp_all
        show ?thesis
          using left b False fr(1,2) u e d unfolding booted_so_far_def boot_steps_left unfolding boot_sequence_def
          by (elim insertE emptyE) (simp_all only: list.inject, simp_all)
      qed
      then show ?thesis using one Cons fr(3) Inr False assms(2) by (simp add: advance_def life_ok_def)
    qed
  qed
qed

lemma booted_fresh: "booted_so_far boot_sequence (begin_start supervisor_new)"
  unfolding booted_so_far_def boot_steps_left by (simp add: begin_start_def supervisor_new_def) (simp add: boot_sequence_def)

lemma life_ok_stop: "life_ok s \<Longrightarrow> life_ok (sup_stop (Returned ()) (Returned ()) s)"
  using stop_releases [of s] by (cases "sv_stopped s") (simp_all add: life_ok_def done_stop_def, simp add: sup_stop_def)

lemma life_ok_scheduled [simp]:
  "life_ok (s\<lparr>sv_scheduled_stops := n\<rparr>) \<longleftrightarrow> life_ok s" "life_ok s \<Longrightarrow> life_ok (s\<lparr>sv_shutdown := True\<rparr>)"
  by (auto simp: life_ok_def released_def serving_def booted_so_far_def)

lemma orderly_life: "orderly env s \<Longrightarrow> life_ok s"
proof (induction rule: orderly.induct)
  case fresh
  show ?case using booted_fresh by (simp add: life_ok_def begin_start_def supervisor_new_def)
next
  case (task s i)
  then show ?case by (auto simp: life_ok_def released_def serving_def booted_so_far_def)
qed (simp_all add: advance_life done_stop_def life_ok_stop shutdown_request_def halt_request_def on_signal_def Let_def)

subsection \<open>Properties\<close>

definition boots :: "boot_env \<Rightarrow> bool" where
  "boots env \<longleftrightarrow>
     non_empty (resolve_database_url env) \<noteq> None \<and> succeeded (be_db_init env)
     \<and> non_empty (resolve_redis_url env) \<noteq> None \<and> succeeded (be_redis_connect env)
     \<and> resolve_active_exchanges env \<noteq> []
     \<and> list_all (\<lambda>eid. succeeded (be_factory env eid (dict_get (resolve_exchange_credentials env) (base_exchange eid) ([], [], [])))
           \<and> succeeded (be_connect env eid)) (resolve_active_exchanges env)"

lemma outcome_error_Inr: "outcome_error r = Inr x \<Longrightarrow> succeeded r" and outcome_error_Inl: "outcome_error r = Inl e \<Longrightarrow> \<not> succeeded r"
  by (cases r; simp)+

lemma register_each_ok:
  "fst (register_each env creds eids s) = Inr () \<longleftrightarrow>
     list_all (\<lambda>eid. succeeded (be_factory env eid (dict_get creds (base_exchange eid) ([], [], []))) \<and> succeeded (be_connect env eid)) eids"
  by (induction eids arbitrary: s) (auto split: sum.splits dest: outcome_error_Inr outcome_error_Inl)

text \<open>The boot, run without interruption: it succeeds when every step can, whatever state it starts from.\<close>

fun step_ok :: "boot_env \<Rightarrow> boot_step \<Rightarrow> bool" where
  "step_ok env InitDb \<longleftrightarrow> non_empty (resolve_database_url env) \<noteq> None \<and> succeeded (be_db_init env)"
| "step_ok env InitRedis \<longleftrightarrow> non_empty (resolve_redis_url env) \<noteq> None \<and> succeeded (be_redis_connect env)"
| "step_ok env RegisterExchanges \<longleftrightarrow> resolve_active_exchanges env \<noteq> []
     \<and> list_all (\<lambda>eid. succeeded (be_factory env eid (dict_get (resolve_exchange_credentials env) (base_exchange eid) ([], [], [])))
           \<and> succeeded (be_connect env eid)) (resolve_active_exchanges env)"
| "step_ok env _ \<longleftrightarrow> True"

lemma boot_one_ok: "fst (boot_one env st s) = Inr () \<longleftrightarrow> step_ok env st"
  by (cases st) (auto simp: init_db_pool_def init_redis_def register_exchanges_def Let_def register_each_ok
      split: option.splits sum.splits dest: outcome_error_Inr outcome_error_Inl)

lemma boots_steps: "boots env \<longleftrightarrow> list_all (step_ok env) boot_sequence"
  by (auto simp: boots_def boot_sequence_def)

lemma boot_from_todo:
  assumes "sv_todo s = todo" and "boot_from env (length todo) s = (r, s')"
  shows "(r = Inr () \<longleftrightarrow> list_all (step_ok env) todo) \<and> sv_stopped s' = sv_stopped s
    \<and> (if list_all (step_ok env) todo then sv_errors s' = sv_errors s \<and> (sv_ready s' \<longleftrightarrow> todo \<noteq> [] \<or> sv_ready s)
       else length (sv_errors s') = length (sv_errors s) + 1 \<and> (sv_ready s' \<longleftrightarrow> sv_ready s))"
  using assms
proof (induction todo arbitrary: s)
  case (Cons st todo)
  obtain r1 s1 where one: "boot_one env st s = (r1, s1)" by fastforce
  note fr = boot_one_frame(1-3) [OF one]
  show ?case
  proof (cases "step_ok env st")
    case True
    then have r1: "r1 = Inr ()" using boot_one_ok [of env st s] one by simp
    show ?thesis
      using Cons.IH [of "if todo = [] then s1\<lparr>sv_todo := [], sv_ready := True\<rparr> else s1\<lparr>sv_todo := todo\<rparr>"] Cons.prems one r1 fr True
      by (cases "todo = []") (auto simp: advance_def)
  next
    case False
    then obtain e where "r1 = Inl e" using boot_one_ok [of env st s] one by (cases r1) auto
    then show ?thesis using Cons.prems one fr False by (auto simp: advance_def)
  qed
qed simp

lemma boot_from_orderly: "orderly env s \<Longrightarrow> \<not> sv_stopped s \<Longrightarrow> orderly env (snd (boot_from env n s)) \<and> \<not> sv_stopped (snd (boot_from env n s))"
proof (induction n arbitrary: s)
  case (Suc n)
  have st: "\<not> sv_stopped (snd (advance env s))"
    using Suc.prems(2) by (auto simp: advance_def boot_one_frame(3) split: list.split prod.split sum.split)
  show ?case
    using Suc.IH [OF orderly.step [OF Suc.prems] st] orderly.step [OF Suc.prems] st by (auto split: prod.split sum.split)
qed simp

text \<open>The boot of a fresh supervisor is all or nothing: it succeeds exactly when both URLs can be found, both
  connections open and the configured exchanges, at least one, are all created and connected; then the supervisor
  is ready and serving, otherwise it is not ready, one error is recorded and the error is passed on.  A stop after
  either releases everything, a second stop changes nothing, and a connection that fails to close does not keep
  the rest open.\<close>

lemma boot_is_all_or_nothing:
  "(let (r, s) = sup_start env supervisor_new
    in (r = Inr () \<longleftrightarrow> boots env) \<and> (sv_ready s \<longleftrightarrow> boots env) \<and> (if boots env then serving s else length (sv_errors s) = 1)
     \<and> released (done_stop s) \<and> sup_stop rr rd (done_stop s) = done_stop s
     \<and> sv_db (sup_stop rr (Returned ()) s) \<noteq> Some True \<and> sv_redis (sup_stop (Returned ()) rd s) \<noteq> Some True
     \<and> sv_exchanges (sup_stop rr rd s) = [] \<and> \<not> sv_forwarder (sup_stop rr rd s))"
proof -
  obtain r s where st: "sup_start env supervisor_new = (r, s)" by fastforce
  then have f: "boot_from env (length boot_sequence) (begin_start supervisor_new) = (r, s)" by (simp add: sup_start_def)
  have t: "sv_todo (begin_start supervisor_new) = boot_sequence" by (simp add: begin_start_def)
  have new: "sv_errors (begin_start supervisor_new) = []" "\<not> sv_ready (begin_start supervisor_new)" "\<not> sv_stopped (begin_start supervisor_new)"
    by (simp_all add: begin_start_def supervisor_new_def)
  note b = boot_from_todo [OF t f, folded boots_steps]
  have "boot_sequence \<noteq> []" by (simp add: boot_sequence_def)
  moreover have "life_ok s"
    using boot_from_orderly [OF orderly.fresh new(3), of env "length boot_sequence"] f orderly_life by force
  ultimately have c: "(r = Inr () \<longleftrightarrow> boots env) \<and> (sv_ready s \<longleftrightarrow> boots env) \<and> (if boots env then serving s else length (sv_errors s) = 1) \<and> \<not> sv_stopped s"
    using b new by (auto simp: life_ok_def split: if_splits)
  then show ?thesis
    using stop_releases [of s] by (simp add: st done_stop_def) (simp add: sup_stop_def remove_signal_handlers_def)
qed

text \<open>In an orderly life a supervisor that says it is ready serves: both connections are open, an exchange is
  registered, its table is the one of its exchanges and no error is recorded.  Once it has stopped, everything is
  released and stays so.  When the stranded value goes over its threshold while it is ready, one stop is scheduled,
  which releases everything.\<close>

lemma breach_stops_a_ready_supervisor:
  assumes "orderly env s" and "sv_ready s" and "register_stranded True now made ex symb side sz val reason T s = (True, T', s')"
  shows "serving s \<and> \<not> sv_stopped s \<and> sv_shutdown s' \<and> sv_scheduled_stops s' = sv_scheduled_stops s + 1 \<and> serving s'
    \<and> released (done_stop s') \<and> orderly env ((done_stop s')\<lparr>sv_scheduled_stops := sv_scheduled_stops s\<rparr>)"
proof -
  have l: "\<not> sv_stopped s" "serving s"
    using orderly_life [OF assms(1)] assms(2) by (auto simp: life_ok_def released_def split: if_splits)
  have reg: "register now made ex symb side sz val reason T = (True, None, T2) \<Longrightarrow> False" for T2
    by (auto simp: register_def Let_def split: if_splits)
  have s': "s' = halt_request True s"
    using assms(3) l(2) reg by (auto simp: register_stranded_def serving_def split: prod.splits option.splits)
  have ord: "orderly env s'" using orderly.halt [OF assms(1)] s' by simp
  have sc: "sv_scheduled_stops s' = Suc (sv_scheduled_stops s)" by (simp add: s' halt_request_def Let_def)
  show ?thesis
    using l sc orderly.scheduled [OF ord sc] stop_releases [of s'] by (auto simp: s' halt_request_def Let_def serving_def)
qed

text \<open>A boot with one exchange, for concrete runs.\<close>

definition ex_boot :: boot_env where
  "ex_boot = \<lparr>be_database_url = Some ''postgresql://db'', be_direct_url = None, be_settings_db_url = None, be_redis_url = None,
     be_settings_redis_url = Some ''redis://r'', be_active = Some [''okx_futures''], be_file_active = [], be_credentials = None,
     be_db_init = Returned (), be_redis_connect = Returned (),
     be_factory = (\<lambda>_ _. Returned \<lparr>ua_market = ''futures'', ua_symbols = [], ua_supports = None,
       ua_min_notional = (\<lambda>_. Returned 5), ua_tick = None\<rparr>),
     be_connect = (\<lambda>_. Returned ()), be_tasks = [''reconcile''], be_signal_ok = (\<lambda>_. True), be_loop = True\<rparr>"

lemma ex_boot_ok: "boots ex_boot"
  by (simp add: boots_def ex_boot_def resolve_database_url_def resolve_redis_url_def resolve_active_exchanges_def)

definition ex_serving :: supervisor where
  "ex_serving = snd (sup_start ex_boot supervisor_new)"

lemma ex_serving_orderly: "orderly ex_boot ex_serving" "sv_ready ex_serving"
proof -
  have "\<not> sv_stopped (begin_start supervisor_new)" by (simp add: begin_start_def supervisor_new_def)
  then show "orderly ex_boot ex_serving"
    using boot_from_orderly [OF orderly.fresh] by (simp add: ex_serving_def sup_start_def)
  show "sv_ready ex_serving"
    using boot_from_todo [OF _ prod.collapse [symmetric], of "begin_start supervisor_new" boot_sequence ex_boot] ex_boot_ok
    by (simp add: ex_serving_def sup_start_def boots_steps begin_start_def) (simp add: boot_sequence_def)
qed

lemma breach_stops_a_ready_supervisor_witness:
  "serving ex_serving \<and> (let s' = snd (snd (register_stranded True 0 0 ''okx'' ''BTC/USDT'' ''buy'' 1 40 ''timeout'' (tracker_new 30) ex_serving))
     in sv_scheduled_stops s' = sv_scheduled_stops ex_serving + 1 \<and> released (done_stop s'))"
proof -
  obtain b T' s' where r: "register_stranded True 0 0 ''okx'' ''BTC/USDT'' ''buy'' 1 40 ''timeout'' (tracker_new 30) ex_serving = (b, T', s')"
    by (metis prod.exhaust)
  have "fst (register 0 0 ''okx'' ''BTC/USDT'' ''buy'' 1 40 ''timeout'' (tracker_new 30))"
    by (simp add: register_exact is_benign_def benign_codes_def tracker_new_def total_stranded_usd_def total_of_def)
      (code_simp)
  then have b using r by (auto simp: register_stranded_def split: prod.splits option.splits)
  with breach_stops_a_ready_supervisor [OF ex_serving_orderly, of 0 0 "''okx''" "''BTC/USDT''" "''buy''" 1 40 "''timeout''" "tracker_new 30" T' s'] r
  show ?thesis by simp
qed

subsection \<open>Deviations\<close>

text \<open>The attribute is assigned before the connection opens, so a database that does not answer is reported as the
  next step.\<close>

lemma failed_database_is_reported_as_redis:
  assumes "non_empty (resolve_database_url env) \<noteq> None" and "be_db_init env = Raised e"
  shows "sv_errors (snd (sup_start env supervisor_new)) = [(''redis'', e)]"
  using assms
  by (auto simp: sup_start_def boot_sequence_def begin_start_def advance_def init_db_pool_def supervisor_new_def current_boot_step_def)

text \<open>A stop that arrives during the boot does not end it: the remaining steps run, the supervisor is ready after it has
  stopped, and no later stop closes what they opened.\<close>

lemma stop_during_boot_is_lost:
  "(let s = snd (boot_from ex_boot 7 (done_stop (snd (advance ex_boot (begin_start supervisor_new)))))
    in sv_ready s \<and> sv_stopped s \<and> sv_redis s = Some True \<and> sv_exchanges s \<noteq> [] \<and> sv_forwarder s \<and> sup_stop rr rd s = s)"
  by (simp add: Let_def boot_sequence_def begin_start_def advance_def init_db_pool_def supervisor_new_def ex_boot_def
      resolve_database_url_def resolve_redis_url_def done_stop_def sup_stop_def remove_signal_handlers_def init_redis_def
      register_exchanges_def resolve_active_exchanges_def start_background_tasks_def start_tasks_keeps
      install_signal_handlers_def build_universe_matrix_def register_background_task_def eval_nat_numeral)

end
