(* ===== verification/LiveGate.thy ===== *)
theory LiveGate
  imports Guardian
begin

text \<open>
  \<open>engine/src/modes/live_gate.py\<close> and \<open>engine/src/core/live_gate_continuous.py\<close>: the checks before the engine may
  trade with money, the monitor that repeats them while it runs, and the monitor that falls back to the
  shadow mode.  The halt flags are those of the kill switch, which the gate reads and, in its preflight,
  sets and clears.  Parameters: the walk-forward analysis, the answers of the injected functions, of the
  database and of the paper-hours file.  Left out: the texts, the durations, Telegram, the preflight file.
\<close>

record walk_forward =
  wf_sharpe :: pyfloat
  wf_mdd :: pyfloat
  wf_signals :: pyfloat

record gate_check =
  gc_name :: string
  gc_passed :: bool

record gate_result =
  gr_eligible :: bool
  gr_checks :: "gate_check list"
  gr_walk_forward :: "walk_forward option"
  gr_block_reasons :: "string list"

definition result_passed :: "gate_result \<Rightarrow> bool" where
  "result_passed r = gr_eligible r"

record live_gate =
  sharpe_threshold :: pyfloat
  mdd_limit :: pyfloat
  min_signals_per_day :: pyfloat
  min_exchange_health :: pyfloat
  lg_breaker :: "circuit_breaker option"
  latest_result :: "gate_result option"
  pass_row :: "string option"
  auto_running :: bool

text \<open>What the collaborators answer; \<open>None\<close> for one that was not injected.\<close>

record gate_env =
  ge_rust :: rust_env
  ge_analysis :: "walk_forward outcome"
  ge_gauge :: "pyfloat outcome"
  ge_health :: "(string, pyfloat) dict outcome option"
  ge_latency :: "(string, pyfloat) dict outcome option"
  ge_balances :: "(string, (string, pyfloat) dict) dict outcome option"
  ge_guardian :: "bool outcome option option"
  ge_paper :: "bool option outcome"
  ge_db_reads :: bool
  ge_db_writes :: bool

definition gate_new :: "circuit_breaker option \<Rightarrow> live_gate" where
  "gate_new cb =
     \<lparr>sharpe_threshold = 5 / 2, mdd_limit = 5 / 100, min_signals_per_day = 100, min_exchange_health = 95 / 100,
      lg_breaker = cb, latest_result = None, pass_row = None, auto_running = False\<rparr>"

subsection \<open>The checks\<close>

definition check_kill_switch :: "gate_env \<Rightarrow> halt_flags \<Rightarrow> bool \<times> halt_flags" where
  "check_kill_switch env h = KillSwitch.is_halted (ge_rust env) h"

definition circuit_breaker_state :: "gate_env \<Rightarrow> live_gate \<Rightarrow> pyfloat" where
  "circuit_breaker_state env lg =
     (case lg_breaker lg of
        Some cb \<Rightarrow> (case cb_state cb of CLOSED \<Rightarrow> 0 | OPEN \<Rightarrow> 1 | HALF_OPEN \<Rightarrow> 2)
      | None \<Rightarrow> (case ge_gauge env of Returned x \<Rightarrow> x | _ \<Rightarrow> 0))"

definition check_exchange_health :: "gate_env \<Rightarrow> live_gate \<Rightarrow> bool" where
  "check_exchange_health env lg =
     (case ge_health env of
        None \<Rightarrow> True
      | Some (Returned scores) \<Rightarrow> filter (\<lambda>(ex, score). score < min_exchange_health lg) scores = []
      | Some _ \<Rightarrow> False)"

definition evaluate :: "gate_env \<Rightarrow> live_gate \<Rightarrow> halt_flags \<Rightarrow> (string + gate_result) \<times> live_gate \<times> halt_flags" where
  "evaluate env lg h =
     (case ge_analysis env of
        Returned ana \<Rightarrow>
          let (halt, h') = check_kill_switch env h;
              checks = [\<lparr>gc_name = ''Sharpe Ratio'', gc_passed = sharpe_threshold lg \<le> wf_sharpe ana\<rparr>,
                        \<lparr>gc_name = ''Max Drawdown'', gc_passed = wf_mdd ana < mdd_limit lg\<rparr>,
                        \<lparr>gc_name = ''Signals/Day'', gc_passed = min_signals_per_day lg \<le> wf_signals ana\<rparr>,
                        \<lparr>gc_name = ''Kill Switch'', gc_passed = \<not> halt\<rparr>,
                        \<lparr>gc_name = ''Circuit Breaker'', gc_passed = circuit_breaker_state env lg = 0\<rparr>,
                        \<lparr>gc_name = ''Exchange Health'', gc_passed = check_exchange_health env lg\<rparr>];
              reasons = map gc_name (filter (\<lambda>c. \<not> gc_passed c) checks);
              r = \<lparr>gr_eligible = (reasons = []), gr_checks = checks, gr_walk_forward = Some ana, gr_block_reasons = reasons\<rparr>
          in (Inr r, lg\<lparr>latest_result := Some r\<rparr>, h')
      | TimedOut \<Rightarrow> (Inl ''TimeoutError'', lg, h)
      | Raised e \<Rightarrow> (Inl e, lg, h))"

definition is_live_eligible :: "live_gate \<Rightarrow> bool" where
  "is_live_eligible lg = (case latest_result lg of None \<Rightarrow> False | Some r \<Rightarrow> gr_eligible r)"

definition start_auto_evaluation :: "live_gate \<Rightarrow> live_gate" where
  "start_auto_evaluation lg = (if auto_running lg then lg else lg\<lparr>auto_running := True\<rparr>)"

definition stop_auto_evaluation :: "live_gate \<Rightarrow> live_gate" where
  "stop_auto_evaluation lg = (if \<not> auto_running lg then lg else lg\<lparr>auto_running := False\<rparr>)"

subsection \<open>The preflight\<close>

definition verify_kill_switch_blocks_orders :: "gate_env \<Rightarrow> halt_flags \<Rightarrow> bool \<times> halt_flags" where
  "verify_kill_switch_blocks_orders env h =
     (let (blocked, h2) = KillSwitch.is_halted (ge_rust env) (halt_local (ge_rust env) h)
      in (blocked, clear_halt (ge_rust env) h2))"

definition check_api_connectivity :: "gate_env \<Rightarrow> bool" where
  "check_api_connectivity env =
     (case ge_latency env of
        None \<Rightarrow> True
      | Some (Returned latencies) \<Rightarrow> filter (\<lambda>(ex, ms). 500 \<le> ms) latencies = []
      | Some _ \<Rightarrow> False)"

definition usd_balance :: "(string, pyfloat) dict \<Rightarrow> pyfloat" where
  "usd_balance info = dict_get info ''usdt'' (dict_get info ''usd'' (dict_get info ''USDT'' 0))"

definition min_balance :: "string \<Rightarrow> pyfloat" where
  "min_balance ex = (if occurs_in ''futures'' ex then 15 else 10)"

fun balances_enough :: "(string, (string, pyfloat) dict) dict \<Rightarrow> bool" where
  "balances_enough [] = True"
| "balances_enough ((ex, info) # rest) = (if usd_balance info < min_balance ex then False else balances_enough rest)"

definition check_balance_sufficient :: "gate_env \<Rightarrow> bool" where
  "check_balance_sufficient env =
     (case ge_balances env of None \<Rightarrow> True | Some (Returned balances) \<Rightarrow> balances_enough balances | Some _ \<Rightarrow> False)"

text \<open>\<open>Some None\<close> is a guardian without the method \<open>is_healthy\<close>.\<close>

definition check_risk_guardian_healthy :: "gate_env \<Rightarrow> bool" where
  "check_risk_guardian_healthy env =
     (case ge_guardian env of
        None \<Rightarrow> True
      | Some None \<Rightarrow> True
      | Some (Some (Returned b)) \<Rightarrow> b
      | Some (Some _) \<Rightarrow> False)"

definition check_paper_hours_gate :: "gate_env \<Rightarrow> bool" where
  "check_paper_hours_gate env = (case ge_paper env of Returned (Some b) \<Rightarrow> b | _ \<Rightarrow> False)"

definition eval_keys :: "(string \<times> string) list" where
  "eval_keys = [(''kill_switch_clear'', ''Kill Switch''), (''circuit_breaker_closed'', ''Circuit Breaker''),
     (''sharpe_gate'', ''Sharpe Ratio''), (''mdd_gate'', ''Max Drawdown''), (''signals_gate'', ''Signals/Day'')]"

definition run_preflight ::
    "gate_env \<Rightarrow> live_gate \<Rightarrow> halt_flags \<Rightarrow> (bool \<times> string list \<times> (string, bool) dict) \<times> live_gate \<times> halt_flags" where
  "run_preflight env lg h =
     (let (verified, h1) = verify_kill_switch_blocks_orders env h;
          (r, lg', h2) = evaluate env lg h1;
          evals = (case r of
              Inr res \<Rightarrow> let names = map (\<lambda>c. (gc_name c, gc_passed c)) (gr_checks res)
                         in map (\<lambda>(k, n). (k, dict_get names n (gr_eligible res))) eval_keys
            | Inl _ \<Rightarrow> map (\<lambda>(k, n). (k, False)) eval_keys);
          checks = [(''kill_switch_verify'', verified), (''api_connectivity'', check_api_connectivity env),
                    (''balance_sufficient'', check_balance_sufficient env), (''risk_guardian_healthy'', check_risk_guardian_healthy env),
                    (''paper_hours_gate'', check_paper_hours_gate env)] @ evals;
          failed = map fst (filter (\<lambda>(k, b). \<not> b) checks)
      in ((failed = [], failed, checks), lg', h2))"

definition db_load_pass_state :: "gate_env \<Rightarrow> live_gate \<Rightarrow> bool" where
  "db_load_pass_state env lg \<longleftrightarrow> ge_db_reads env \<and> pass_row lg = Some ''true''"

definition db_save_pass_state :: "gate_env \<Rightarrow> live_gate \<Rightarrow> live_gate" where
  "db_save_pass_state env lg = (if ge_db_writes env then lg\<lparr>pass_row := Some ''true''\<rparr> else lg)"

definition enforce_or_fallback :: "bool \<Rightarrow> gate_env \<Rightarrow> live_gate \<Rightarrow> halt_flags \<Rightarrow> bool \<times> live_gate \<times> halt_flags" where
  "enforce_or_fallback bypass env lg h =
     (if bypass then (True, lg, h)
      else if db_load_pass_state env lg then (True, lg, h)
      else let ((ok, failed, checks), lg', h') = run_preflight env lg h
           in if \<not> ok then (False, lg', h') else (True, db_save_pass_state env lg', h'))"

subsection \<open>The continuous monitor\<close>

definition pause_threshold :: "int \<Rightarrow> int" where
  "pause_threshold configured = max 1 (min configured 10)"

definition backoff :: "int \<Rightarrow> int \<Rightarrow> int" where
  "backoff interval fails = min 300 (interval * 2 ^ nat (min fails 3))"

record monitor =
  mo_fails :: int
  mo_gate :: live_gate
  mo_guardian :: risk_guardian

text \<open>One turn of the loop: what the evaluation returned, how long to sleep, the new state.\<close>

definition monitor_turn :: "int \<Rightarrow> bool \<Rightarrow> int \<Rightarrow> gate_env \<Rightarrow> monitor \<Rightarrow> (string + gate_result) \<times> int \<times> monitor" where
  "monitor_turn configured guarded interval env m =
     (let (r, lg, h) = evaluate env (mo_gate m) (rg_flags (mo_guardian m));
          m1 = m\<lparr>mo_gate := lg, mo_guardian := (mo_guardian m)\<lparr>rg_flags := h\<rparr>\<rparr>;
          m2 = (case r of
              Inl _ \<Rightarrow> m1
            | Inr res \<Rightarrow>
                if \<not> result_passed res
                then let n = mo_fails m1 + 1; m' = m1\<lparr>mo_fails := n\<rparr>
                     in if pause_threshold configured \<le> n \<and> guarded
                        then m'\<lparr>mo_guardian := emergency_pause (ge_rust env) (mo_guardian m')\<rparr> else m'
                else m1\<lparr>mo_fails := 0\<rparr>)
      in (r, backoff interval (mo_fails m2), m2))"

fun monitor_run :: "int \<Rightarrow> bool \<Rightarrow> int \<Rightarrow> gate_env list \<Rightarrow> monitor \<Rightarrow> gate_result list \<times> int list \<times> monitor" where
  "monitor_run configured guarded interval [] m = ([], [], m)"
| "monitor_run configured guarded interval (env # envs) m =
     (let (r, pause, m1) = monitor_turn configured guarded interval env m;
          (rs, pauses, m2) = monitor_run configured guarded interval envs m1
      in ((case r of Inl _ \<Rightarrow> rs | Inr res \<Rightarrow> res # rs), pause # pauses, m2))"

subsection \<open>The fallback monitor\<close>

datatype monitor_action = FallbackAlert | SwitchMode | TriggerHalt | Failed

record fallback_monitor =
  fm_guardian :: bool
  fm_switch :: bool
  fm_max_mdd :: pyfloat
  fm_max_daily_loss :: pyfloat
  fm_results :: "gate_result list"

definition white :: "char \<Rightarrow> bool" where
  "white c \<longleftrightarrow> c \<in> set [CHR '' '', CHR 0x09, CHR 0x0A, CHR 0x0B, CHR 0x0C, CHR 0x0D]"

definition py_strip :: "string \<Rightarrow> string" where
  "py_strip xs = rev (dropWhile white (rev (dropWhile white xs)))"

definition continuous_enabled :: "string \<Rightarrow> bool" where
  "continuous_enabled raw \<longleftrightarrow> lower (py_strip raw) \<notin> set [''0'', ''false'', ''no'']"

text \<open>\<open>has_method\<close>: the guardian has the method \<open>trigger_halt\<close>; calling a missing one is caught at the end.\<close>

definition fallback_evaluate ::
    "bool \<Rightarrow> string + gate_result \<Rightarrow> pyfloat outcome option \<Rightarrow> fallback_monitor \<Rightarrow> monitor_action list \<times> fallback_monitor" where
  "fallback_evaluate has_method r daily fm =
     (case r of
        Inl _ \<Rightarrow> ([Failed], fm)
      | Inr res \<Rightarrow>
          let fm' = fm\<lparr>fm_results := deque_append 500 (fm_results fm) res\<rparr>;
              mdd_breach = (case gr_walk_forward res of None \<Rightarrow> False | Some ana \<Rightarrow> fm_max_mdd fm < wf_mdd ana);
              loss_breach = (case daily of Some (Returned x) \<Rightarrow> fm_max_daily_loss fm < \<bar>x\<bar> | _ \<Rightarrow> False)
          in if mdd_breach \<or> loss_breach then (FallbackAlert # (if fm_switch fm then [SwitchMode] else []), fm')
             else if \<not> gr_eligible res \<and> fm_guardian fm then ([if has_method then TriggerHalt else Failed], fm')
             else ([], fm'))"

subsection \<open>Lemmas\<close>

lemma evaluate_result:
  "evaluate env lg h = (Inr res, lg', h') \<Longrightarrow>
   gr_eligible res \<longleftrightarrow> (\<exists>ana. ge_analysis env = Returned ana \<and> sharpe_threshold lg \<le> wf_sharpe ana \<and> wf_mdd ana < mdd_limit lg
       \<and> min_signals_per_day lg \<le> wf_signals ana) \<and> \<not> halted (ge_rust env) h \<and> circuit_breaker_state env lg = 0 \<and> check_exchange_health env lg"
  by (auto simp: evaluate_def check_kill_switch_def halted_def Let_def filter_empty_conv simp del: filter.simps
      split: outcome.splits prod.splits)

lemma evaluate_flags: "evaluate env lg h = (r, lg', h') \<Longrightarrow> halt_flag h' = halt_flag h"
  by (auto simp: evaluate_def check_kill_switch_def Let_def split: outcome.splits prod.splits)
    (metis is_halted_keeps(1) snd_conv)+

lemma evaluate_row: "evaluate env lg h = (r, lg', h') \<Longrightarrow> pass_row lg' = pass_row lg"
  by (auto simp: evaluate_def Let_def split: outcome.splits prod.splits)

text \<open>The flags the gate checks in its preflight: those the probe of the kill switch leaves.\<close>

definition probed :: "gate_env \<Rightarrow> halt_flags \<Rightarrow> halt_flags" where
  "probed env h = clear_halt (ge_rust env) (halt_local (ge_rust env) h)"

lemma verify_blocks [simp]: "verify_kill_switch_blocks_orders env h = (True, probed env h)"
  by (simp add: verify_kill_switch_blocks_orders_def probed_def KillSwitch.is_halted_def)

lemma probed_clear: "rust_clear_ok (ge_rust env) \<Longrightarrow> \<not> halted env' (probed env h)"
  by (simp add: probed_def halted_clear_halt)

text \<open>What the preflight asks for, beside the kill switch: fast exchanges, funded accounts, a healthy guardian (each when
  it can be asked), the paper hours, a closed circuit breaker and the walk-forward figures.\<close>

fun answered :: "('a \<Rightarrow> bool) \<Rightarrow> 'a outcome option \<Rightarrow> bool" where
  "answered P None = True"
| "answered P (Some (Returned x)) = P x"
| "answered P (Some _) = False"

definition ready_for_live :: "gate_env \<Rightarrow> live_gate \<Rightarrow> bool" where
  "ready_for_live env lg \<longleftrightarrow>
     answered (list_all (\<lambda>(ex, ms). ms < 500)) (ge_latency env)
     \<and> answered (list_all (\<lambda>(ex, info). min_balance ex \<le> usd_balance info)) (ge_balances env)
     \<and> (case ge_guardian env of None \<Rightarrow> True | Some m \<Rightarrow> answered id m)
     \<and> ge_paper env = Returned (Some True)
     \<and> (case lg_breaker lg of Some cb \<Rightarrow> cb_state cb = CLOSED | None \<Rightarrow> ge_gauge env \<in> {Returned 0, TimedOut} \<or> (\<exists>e. ge_gauge env = Raised e))
     \<and> (\<exists>ana. ge_analysis env = Returned ana \<and> sharpe_threshold lg \<le> wf_sharpe ana \<and> wf_mdd ana < mdd_limit lg
         \<and> min_signals_per_day lg \<le> wf_signals ana)"

lemma balances_enough_iff: "balances_enough bs \<longleftrightarrow> list_all (\<lambda>(ex, info). min_balance ex \<le> usd_balance info) bs"
  by (induction bs rule: balances_enough.induct) auto

lemma checks_iff:
  "check_api_connectivity env \<longleftrightarrow> answered (list_all (\<lambda>(ex, ms). ms < 500)) (ge_latency env)"
  "check_balance_sufficient env \<longleftrightarrow> answered (list_all (\<lambda>(ex, info). min_balance ex \<le> usd_balance info)) (ge_balances env)"
  "check_risk_guardian_healthy env \<longleftrightarrow> (case ge_guardian env of None \<Rightarrow> True | Some m \<Rightarrow> answered id m)"
  "check_paper_hours_gate env \<longleftrightarrow> ge_paper env = Returned (Some True)"
  "circuit_breaker_state env lg = 0 \<longleftrightarrow>
     (case lg_breaker lg of Some cb \<Rightarrow> cb_state cb = CLOSED | None \<Rightarrow> ge_gauge env \<in> {Returned 0, TimedOut} \<or> (\<exists>e. ge_gauge env = Raised e))"
  by (auto simp: check_api_connectivity_def filter_empty_conv list_all_iff not_le check_balance_sufficient_def balances_enough_iff
      check_risk_guardian_healthy_def check_paper_hours_gate_def circuit_breaker_state_def
      split: option.splits outcome.splits cb_mode.splits)

text \<open>The five entries of the preflight that come from the evaluation.\<close>

lemma evaluate_entries:
  assumes "evaluate env lg h = (Inr res, lg', h')" and "ge_analysis env = Returned ana"
  shows "map (\<lambda>(k, n). (k, dict_get (map (\<lambda>c. (gc_name c, gc_passed c)) (gr_checks res)) n (gr_eligible res))) eval_keys
    = [(''kill_switch_clear'', \<not> halted (ge_rust env) h), (''circuit_breaker_closed'', circuit_breaker_state env lg = 0),
       (''sharpe_gate'', sharpe_threshold lg \<le> wf_sharpe ana), (''mdd_gate'', wf_mdd ana < mdd_limit lg),
       (''signals_gate'', min_signals_per_day lg \<le> wf_signals ana)]"
proof -
  have "map (\<lambda>c. (gc_name c, gc_passed c)) (gr_checks res) =
      [(''Sharpe Ratio'', sharpe_threshold lg \<le> wf_sharpe ana), (''Max Drawdown'', wf_mdd ana < mdd_limit lg),
       (''Signals/Day'', min_signals_per_day lg \<le> wf_signals ana), (''Kill Switch'', \<not> halted (ge_rust env) h),
       (''Circuit Breaker'', circuit_breaker_state env lg = 0), (''Exchange Health'', check_exchange_health env lg)]"
    using assms by (auto simp: evaluate_def check_kill_switch_def halted_def Let_def simp del: filter.simps split: prod.splits)
  then show ?thesis by (simp add: eval_keys_def dict_get_def)
qed

lemma preflight_result:
  "fst (fst (run_preflight env lg h)) \<longleftrightarrow> ready_for_live env lg \<and> \<not> halted (ge_rust env) (probed env h)"
proof -
  obtain r lg' h' where e: "evaluate env lg (probed env h) = (r, lg', h')" by (metis prod.exhaust)
  show ?thesis
  proof (cases "ge_analysis env")
    case (Returned ana)
    then obtain res where r: "r = Inr res"
      using e by (auto simp: evaluate_def Let_def simp del: filter.simps split: prod.splits)
    show ?thesis
      using Returned
      by (simp add: run_preflight_def e r Let_def evaluate_entries [OF e [unfolded r] Returned] ready_for_live_def checks_iff
          filter_empty_conv del: filter.simps) blast
  qed (use e in \<open>auto simp: run_preflight_def evaluate_def ready_for_live_def eval_keys_def Let_def filter_empty_conv simp del: filter.simps\<close>)
qed

lemma preflight_row: "pass_row (fst (snd (run_preflight env lg h))) = pass_row lg"
  by (auto simp: run_preflight_def Let_def dest: evaluate_row split: prod.split)

subsection \<open>Properties\<close>


definition streak :: "gate_result list \<Rightarrow> int" where
  "streak rs = int (length (takeWhile (\<lambda>r. \<not> gr_eligible r) (rev rs)))"

lemma streak_all: "list_all (\<lambda>r. \<not> gr_eligible r) rs \<Longrightarrow> streak rs = int (length rs)"
  by (simp add: streak_def list_all_iff takeWhile_eq_all_conv [THEN iffD2])

lemma streak_append: "streak (r # rs) = (if list_all (\<lambda>r. \<not> gr_eligible r) (r # rs) then streak rs + 1 else streak rs)"
proof (cases "list_all (\<lambda>r. \<not> gr_eligible r) rs")
  case True
  then show ?thesis
  proof -
    have e: "takeWhile (\<lambda>r. \<not> gr_eligible r) (rev rs) = rev rs"
      using True by (simp add: takeWhile_eq_all_conv list_all_iff)
    show ?thesis
      using True by (simp add: streak_def list_all_iff e takeWhile_append)
  qed
next
  case False
  then obtain x where "x \<in> set (rev rs)" "gr_eligible x" by (auto simp: list_all_iff)
  then show ?thesis using False by (auto simp: streak_def takeWhile_append1)
qed

text \<open>The counter of the monitor and the halt it causes.\<close>

definition pause_ok :: "int \<Rightarrow> bool \<Rightarrow> monitor \<Rightarrow> bool" where
  "pause_ok configured guarded m \<longleftrightarrow>
     (guarded \<and> pause_threshold configured \<le> mo_fails m \<longrightarrow> halt_flag (rg_flags (mo_guardian m)))"

lemma turn_ok:
  assumes "monitor_turn configured guarded interval env m = (r, pause, m')"
  shows "pause_ok configured guarded m \<Longrightarrow> pause_ok configured guarded m'"
    and "mo_fails m' = (case r of Inl _ \<Rightarrow> mo_fails m | Inr res \<Rightarrow> if gr_eligible res then 0 else mo_fails m + 1)"
    and "halt_flag (rg_flags (mo_guardian m)) \<Longrightarrow> halt_flag (rg_flags (mo_guardian m'))"
    and "halt_flag (rg_flags (mo_guardian m)) \<Longrightarrow> r = Inr res \<Longrightarrow> \<not> gr_eligible res"
    and "pause \<le> 300"
proof -
  obtain r1 lg h where e: "evaluate env (mo_gate m) (rg_flags (mo_guardian m)) = (r1, lg, h)" by (metis prod.exhaust)
  note fl = evaluate_flags [OF e]
  show "mo_fails m' = (case r of Inl _ \<Rightarrow> mo_fails m | Inr res \<Rightarrow> if gr_eligible res then 0 else mo_fails m + 1)"
    using assms e by (auto simp: monitor_turn_def Let_def result_passed_def split: sum.splits)
  show "halt_flag (rg_flags (mo_guardian m)) \<Longrightarrow> halt_flag (rg_flags (mo_guardian m'))"
    using assms e fl by (auto simp: monitor_turn_def Let_def emergency_pause_def split: sum.splits if_splits)
  show "halt_flag (rg_flags (mo_guardian m)) \<Longrightarrow> r = Inr res \<Longrightarrow> \<not> gr_eligible res"
    using assms e evaluate_result [of env "mo_gate m" "rg_flags (mo_guardian m)" res lg h]
    by (auto simp: monitor_turn_def Let_def)
  show "pause_ok configured guarded m \<Longrightarrow> pause_ok configured guarded m'"
    using assms e fl by (auto simp: monitor_turn_def Let_def pause_ok_def pause_threshold_def emergency_pause_def result_passed_def split: sum.splits if_splits)
  show "pause \<le> 300"
    using assms e by (auto simp: monitor_turn_def Let_def backoff_def)
qed

lemma run_ok:
  "monitor_run configured guarded interval es m = (rs, pauses, m') \<Longrightarrow>
   (pause_ok configured guarded m \<longrightarrow> pause_ok configured guarded m')
   \<and> mo_fails m' = (if list_all (\<lambda>r. \<not> gr_eligible r) rs then mo_fails m + streak rs else streak rs)
   \<and> (halt_flag (rg_flags (mo_guardian m)) \<longrightarrow> halt_flag (rg_flags (mo_guardian m')) \<and> list_all (\<lambda>r. \<not> gr_eligible r) rs)
   \<and> list_all (\<lambda>p. p \<le> 300) pauses"
proof (induction es arbitrary: m rs pauses)
  case Nil
  then show ?case by (simp add: streak_def)
next
  case (Cons env es)
  obtain r pause m1 where t: "monitor_turn configured guarded interval env m = (r, pause, m1)" by (metis prod.exhaust)
  obtain rs1 pauses1 where run: "monitor_run configured guarded interval es m1 = (rs1, pauses1, m')"
      and rs: "rs = (case r of Inl _ \<Rightarrow> rs1 | Inr res \<Rightarrow> res # rs1)" "pauses = pause # pauses1"
    using Cons.prems t by (auto split: prod.splits)
  note tk = turn_ok [OF t]
  show ?case
    using Cons.IH [OF run] tk(1-3,5) tk(4) rs by (cases r) (auto simp: streak_append)
qed

text \<open>C25. The counter of the monitor is the number of evaluations that failed since the last one that passed (one that
  raised counts neither way) and it sleeps at most five minutes.  Once the counter has reached the threshold every
  trade is rejected as halted, and neither the monitor nor its evaluations lift the halt, whatever happens later: every
  later evaluation fails as well.\<close>

theorem gate_failures_stop_trading:
  assumes "mo_fails m = 0" and "monitor_run configured True interval es m = (rs, pauses, m1)"
    and "pause_threshold configured \<le> streak rs"
    and "monitor_run configured' guarded interval' es' m1 = (rs', pauses', m2)"
  shows "mo_fails m1 = streak rs \<and> (\<forall>p \<in> set pauses. p \<le> 300)
    \<and> fst (check env now inp p pf (mo_guardian m1)) = reject 0 EngineHalted
    \<and> fst (check env now inp p pf (mo_guardian m2)) = reject 0 EngineHalted \<and> filter gr_eligible rs' = []"
proof -
  note r1 = run_ok [OF assms(2)]
  have n: "mo_fails m1 = streak rs" using r1 assms(1) by auto
  have "pause_ok configured True m" using assms(1) by (simp add: pause_ok_def pause_threshold_def)
  then have h: "halt_flag (rg_flags (mo_guardian m1))" using r1 n assms(3) by (simp add: pause_ok_def)
  moreover have "halt_flag (rg_flags (mo_guardian m2)) \<and> filter gr_eligible rs' = []"
    using run_ok [OF assms(4)] h by (simp add: list_all_iff filter_empty_conv)
  moreover have "fst (check env now inp p pf g) = reject 0 EngineHalted" if "halt_flag (rg_flags g)" for g
    using that by (simp add: check_def KillSwitch.is_halted_def Let_def)
  ultimately show ?thesis using n r1 by (simp add: list_all_iff)
qed

definition ex_gate_env :: gate_env where
  "ex_gate_env = \<lparr>ge_rust = \<lparr>metrics_ok = True, rust_import_ok = True, rust_halt_ok = True, rust_check_ok = True, rust_clear_ok = True\<rparr>,
     ge_analysis = Returned \<lparr>wf_sharpe = 1, wf_mdd = 1 / 100, wf_signals = 200\<rparr>, ge_gauge = Returned 0, ge_health = None,
     ge_latency = None, ge_balances = None, ge_guardian = None, ge_paper = Returned (Some True), ge_db_reads = True, ge_db_writes = True\<rparr>"

definition ex_monitor :: monitor where
  "ex_monitor = \<lparr>mo_fails = 0, mo_gate = gate_new None, mo_guardian = (ex_guardian [])\<lparr>rg_flags := initial_flags\<rparr>\<rparr>"

lemma ex_gate_fails:
  assumes "sharpe_threshold lg = 5 / 2"
  shows "\<exists>res lg' h'. evaluate ex_gate_env lg h = (Inr res, lg', h') \<and> \<not> gr_eligible res \<and> sharpe_threshold lg' = 5 / 2"
  using assms by (simp add: evaluate_def ex_gate_env_def Let_def split: prod.split)

lemma ex_monitor_streak:
  assumes "sharpe_threshold (mo_gate m) = 5 / 2" and "monitor_run c b i (replicate n ex_gate_env) m = (rs, ps, m')"
  shows "streak rs = int n \<and> list_all (\<lambda>r. \<not> gr_eligible r) rs"
  using assms
proof (induction n arbitrary: m rs ps)
  case (Suc n)
  obtain r pause m1 where t: "monitor_turn c b i ex_gate_env m = (r, pause, m1)" by (metis prod.exhaust)
  obtain rs1 ps1 m2 where run: "monitor_run c b i (replicate n ex_gate_env) m1 = (rs1, ps1, m2)" by (metis prod.exhaust)
  obtain res where r: "r = Inr res" "\<not> gr_eligible res" "sharpe_threshold (mo_gate m1) = 5 / 2"
    using ex_gate_fails [OF Suc.prems(1), of "rg_flags (mo_guardian m)"] t by (auto simp: monitor_turn_def Let_def split: if_splits)
  have "streak rs1 = int n" "list_all (\<lambda>r. \<not> gr_eligible r) rs1" using Suc.IH [OF r(3)] run Suc.prems(2) t by auto
  moreover have "rs = res # rs1" using Suc.prems(2) t run r(1) by simp
  ultimately show ?case using r(2) by (simp add: streak_append)
qed (simp add: streak_def)

theorem gate_failures_stop_trading_witness:
  "(let (rs, pauses, m1) = monitor_run 3 True 60 (replicate 3 ex_gate_env) ex_monitor;
        (rs', pauses', m2) = monitor_run 3 True 60 [ex_gate_env\<lparr>ge_analysis := Returned \<lparr>wf_sharpe = 9, wf_mdd = 0, wf_signals = 200\<rparr>\<rparr>] m1
    in fst (check ex_env 1000 ex_inputs ex_proposal ex_portfolio (mo_guardian m2)) = reject 0 EngineHalted \<and> filter gr_eligible rs' = [])"
proof -
  let ?good = "[ex_gate_env\<lparr>ge_analysis := Returned \<lparr>wf_sharpe = 9, wf_mdd = 0, wf_signals = 200\<rparr>\<rparr>]"
  obtain rs ps m1 where 1: "monitor_run 3 True 60 (replicate 3 ex_gate_env) ex_monitor = (rs, ps, m1)" by (metis prod.exhaust)
  obtain rs' ps' m2 where 2: "monitor_run 3 True 60 ?good m1 = (rs', ps', m2)" by (metis prod.exhaust)
  have "sharpe_threshold (mo_gate ex_monitor) = 5 / 2" "mo_fails ex_monitor = 0" by (simp_all add: ex_monitor_def gate_new_def)
  with ex_monitor_streak [OF _ 1] have "pause_threshold 3 \<le> streak rs" "mo_fails ex_monitor = 0" by (simp_all add: pause_threshold_def)
  from gate_failures_stop_trading [OF this(2) 1 this(1) 2]
  show ?thesis unfolding 1 Let_def prod.case 2 by blast
qed

subsection \<open>Deviations\<close>

text \<open>The probe of the kill switch ends with \<open>clear_halt\<close>: asking whether the engine may go live lifts a halt of the
  guardian, and the answer does not depend on the halt.\<close>

lemma preflight_lifts_a_halt:
  assumes "rust_clear_ok (ge_rust env)" and "\<not> db_load_pass_state env lg"
  shows "(let (ok, lg', h') = enforce_or_fallback False env lg (rg_flags (emergency_pause env2 g))
    in (ok \<longleftrightarrow> ready_for_live env lg) \<and> \<not> halt_flag h')"
proof -
  have "\<not> halt_flag (snd (snd (run_preflight env lg h)))" for h
    using evaluate_flags [of env lg "probed env h"] by (auto simp: run_preflight_def Let_def probed_def split: prod.split)
  then show ?thesis
    using preflight_result [of env lg] probed_clear [OF assms(1)] assms(2)
    by (simp add: enforce_or_fallback_def case_prod_beta Let_def)
qed

text \<open>A stored pass is read back for ever: the gate says yes whatever the figures of the day are.\<close>

lemma stored_pass_is_never_checked_again:
  assumes "ge_db_reads env" and "ge_db_writes env0" and "\<not> db_load_pass_state env0 lg"
    and "enforce_or_fallback False env0 lg h = (True, lg', h')"
  shows "enforce_or_fallback False env lg' h2 = (True, lg', h2)"
  using assms preflight_row [of env0 lg h]
  by (auto simp: enforce_or_fallback_def db_load_pass_state_def db_save_pass_state_def Let_def split: prod.splits if_splits)

text \<open>The guardian has no method \<open>trigger_halt\<close>, so an ineligible gate never halts; and the daily figure is taken by
  its absolute value, so a large profit switches the mode.\<close>

lemma ineligible_gate_never_halts:
  "TriggerHalt \<notin> set (fst (fallback_evaluate False r daily fm))"
  by (auto simp: fallback_evaluate_def Let_def split: sum.split)

lemma large_profit_falls_back:
  assumes "fm_max_daily_loss fm < profit" and "0 < profit"
  shows "fst (fallback_evaluate has_method (Inr res) (Some (Returned profit)) fm)
    = FallbackAlert # (if fm_switch fm then [SwitchMode] else [])"
  using assms by (simp add: fallback_evaluate_def Let_def)

end
