(* ===== verification/DataQuality.thy ===== *)
theory DataQuality
  imports BudgetLedger
begin

text \<open>
  \<open>engine/src/core/data_quality_manager.py\<close> and \<open>engine/src/infra/exchange/health_checker.py\<close>: the gate every
  order book update passes.  A call reads the clock once.  The z-score is compared squared, so no root
  is taken; the reasons are tags.  Left out: logs and the statistics call.
\<close>

type_synonym pair = "string \<times> string"

record dq_settings =
  freshness_futures :: secs
  freshness_default :: secs
  freshness_korean :: secs
  freshness_bithumb :: secs
  bithumb_deviation :: pyfloat
  bithumb_large :: pyfloat
  bithumb_ttl :: secs
  anomaly_window :: nat
  anomaly_z :: pyfloat
  anomaly_isolation :: secs
  anomaly_warmup :: nat

definition dq_defaults :: dq_settings where
  "dq_defaults = \<lparr>freshness_futures = 1 / 2, freshness_default = 1, freshness_korean = 2, freshness_bithumb = 1,
     bithumb_deviation = 5 / 100, bithumb_large = 1, bithumb_ttl = 600, anomaly_window = 100, anomaly_z = 4,
     anomaly_isolation = 3, anomaly_warmup = 10\<rparr>"

definition futures_exchanges :: "string list" where
  "futures_exchanges = [''binance_futures'', ''bybit_futures'', ''okx_futures'', ''bitget_futures'']"

definition krw_exchanges :: "string list" where
  "krw_exchanges = [''upbit'', ''bithumb'', ''coinone'']"

subsection \<open>Statistics\<close>

definition mean_of :: "pyfloat list \<Rightarrow> pyfloat" where
  "mean_of xs = sum_list xs / of_nat (length xs)"

definition variance_of :: "pyfloat list \<Rightarrow> pyfloat" where
  "variance_of xs = (if 2 \<le> length xs then (\<Sum>x\<leftarrow>xs. (x - mean_of xs)\<^sup>2) / of_nat (length xs - 1) else 0)"

definition median_of :: "pyfloat list \<Rightarrow> pyfloat" where
  "median_of xs =
     (let ys = sort xs; n = length ys
      in if n mod 2 = 1 then ys ! (n div 2) else (ys ! (n div 2 - 1) + ys ! (n div 2)) / 2)"

subsection \<open>Health of an exchange\<close>

record health_checker =
  stale_threshold :: secs
  max_latency_ms :: pyfloat
  api_latencies :: "pyfloat list"
  ws_disconnect_times :: "secs list"
  order_fill_rates :: "pyfloat list"
  error_count :: nat
  last_heartbeat :: secs
  is_connected :: bool

definition health_new :: "secs \<Rightarrow> secs \<Rightarrow> health_checker" where
  "health_new thr now =
     \<lparr>stale_threshold = thr, max_latency_ms = 2000, api_latencies = [], ws_disconnect_times = [], order_fill_rates = [],
      error_count = 0, last_heartbeat = now, is_connected = True\<rparr>"

definition hc_record_api_latency :: "secs \<Rightarrow> pyfloat \<Rightarrow> health_checker \<Rightarrow> health_checker" where
  "hc_record_api_latency now ms h = h\<lparr>api_latencies := deque_append 100 (api_latencies h) ms, last_heartbeat := now\<rparr>"

definition hc_record_ws_disconnect :: "secs \<Rightarrow> health_checker \<Rightarrow> health_checker" where
  "hc_record_ws_disconnect now h = h\<lparr>ws_disconnect_times := deque_append 100 (ws_disconnect_times h) now, is_connected := False\<rparr>"

definition hc_record_ws_connect :: "secs \<Rightarrow> health_checker \<Rightarrow> health_checker" where
  "hc_record_ws_connect now h = h\<lparr>is_connected := True, last_heartbeat := now\<rparr>"

definition hc_record_heartbeat :: "secs \<Rightarrow> health_checker \<Rightarrow> health_checker" where
  "hc_record_heartbeat now h = h\<lparr>last_heartbeat := now\<rparr>"

definition hc_record_order_fill :: "bool \<Rightarrow> health_checker \<Rightarrow> health_checker" where
  "hc_record_order_fill filled h = h\<lparr>order_fill_rates := deque_append 50 (order_fill_rates h) (if filled then 1 else 0)\<rparr>"

definition hc_record_error :: "health_checker \<Rightarrow> health_checker" where
  "hc_record_error h = h\<lparr>error_count := error_count h + 1\<rparr>"

definition hc_reset :: "secs \<Rightarrow> health_checker \<Rightarrow> health_checker" where
  "hc_reset now h = h\<lparr>api_latencies := [], ws_disconnect_times := [], order_fill_rates := [], error_count := 0,
     last_heartbeat := now, is_connected := True\<rparr>"

definition connection_score :: "secs \<Rightarrow> health_checker \<Rightarrow> pyfloat" where
  "connection_score now h =
     (let staleness = now - last_heartbeat h
      in if staleness \<le> stale_threshold h then 1 else max 0 (1 - (staleness - stale_threshold h) / 30))"

definition latency_score :: "health_checker \<Rightarrow> pyfloat" where
  "latency_score h = (if api_latencies h \<noteq> [] then max 0 (1 - mean_of (api_latencies h) / max_latency_ms h) else 1)"

definition ws_score :: "secs \<Rightarrow> health_checker \<Rightarrow> pyfloat" where
  "ws_score now h = max 0 (1 - of_nat (length (filter (\<lambda>t. now - t < 300) (ws_disconnect_times h))) * (1 / 5))"

definition fill_score :: "health_checker \<Rightarrow> pyfloat" where
  "fill_score h = (if order_fill_rates h \<noteq> [] then mean_of (order_fill_rates h) else 1)"

definition health_score :: "secs \<Rightarrow> health_checker \<Rightarrow> pyfloat" where
  "health_score now h =
     min 1 (max 0 (connection_score now h * (4 / 10) + latency_score h * (3 / 10) + ws_score now h * (2 / 10) + fill_score h * (1 / 10)))"

subsection \<open>Price anomalies\<close>

record anomaly_detector =
  an_prices :: "(pair, pyfloat list) dict"
  an_isolated :: "(pair, secs) dict"

definition anomaly_new :: anomaly_detector where
  "anomaly_new = \<lparr>an_prices = [], an_isolated = []\<rparr>"

definition z_above :: "pyfloat \<Rightarrow> pyfloat \<Rightarrow> pyfloat list \<Rightarrow> bool" where
  "z_above thr price buf \<longleftrightarrow> thr < 0 \<or> thr\<^sup>2 * variance_of buf < (price - mean_of buf)\<^sup>2"

definition an_append :: "dq_settings \<Rightarrow> pair \<Rightarrow> pyfloat \<Rightarrow> anomaly_detector \<Rightarrow> anomaly_detector" where
  "an_append st key price a =
     a\<lparr>an_prices := AList.update key (deque_append (anomaly_window st) (dict_get (an_prices a) key []) price) (an_prices a)\<rparr>"

definition update_and_check :: "dq_settings \<Rightarrow> secs \<Rightarrow> pair \<Rightarrow> pyfloat \<Rightarrow> anomaly_detector \<Rightarrow> (bool \<times> string) \<times> anomaly_detector" where
  "update_and_check st now key price a =
     (if (case map_of (an_isolated a) key of None \<Rightarrow> False | Some t \<Rightarrow> now < t) then ((False, ''isolated''), a)
      else let a1 = a\<lparr>an_isolated := AList.delete key (an_isolated a)\<rparr>;
               a2 = (if dict_has (an_prices a1) key then a1 else a1\<lparr>an_prices := AList.update key [] (an_prices a1)\<rparr>);
               buf = dict_get (an_prices a2) key []
           in if length buf < anomaly_warmup st then ((True, ''warmup''), an_append st key price a2)
              else if \<not> 0 < variance_of buf then ((True, ''no_variance''), an_append st key price a2)
              else if z_above (anomaly_z st) price buf
              then ((False, ''z-score''), a2\<lparr>an_isolated := AList.update key (now + anomaly_isolation st) (an_isolated a2)\<rparr>)
              else ((True, []), an_append st key price a2))"

definition an_cleanup :: "secs \<Rightarrow> anomaly_detector \<Rightarrow> anomaly_detector" where
  "an_cleanup now a = a\<lparr>an_isolated := filter (\<lambda>(k, t). now < t) (an_isolated a)\<rparr>"

subsection \<open>The manager\<close>

record dq_manager =
  dq_checkers :: "(string, health_checker) dict"
  dq_always :: "string set"
  dq_anomaly :: anomaly_detector
  dq_blacklist :: "(pair, secs) dict"
  dq_last_update :: "(pair, secs) dict"
  dq_checks :: nat
  dq_rejects :: nat
  dq_blacklisted :: nat
  dq_medians :: "(string, pyfloat list) dict"

definition dq_new :: dq_manager where
  "dq_new = \<lparr>dq_checkers = [], dq_always = {}, dq_anomaly = anomaly_new, dq_blacklist = [], dq_last_update = [],
     dq_checks = 0, dq_rejects = 0, dq_blacklisted = 0, dq_medians = []\<rparr>"

definition freshness_threshold :: "dq_settings \<Rightarrow> string \<Rightarrow> secs" where
  "freshness_threshold st eid =
     (let e = lower eid
      in if e \<in> set futures_exchanges then freshness_futures st
         else if e = ''bithumb'' then freshness_bithumb st
         else if e \<in> set krw_exchanges then freshness_korean st
         else freshness_default st)"

definition get_or_create :: "dq_settings \<Rightarrow> secs \<Rightarrow> string \<Rightarrow> dq_manager \<Rightarrow> dq_manager" where
  "get_or_create st now eid q =
     (if dict_has (dq_checkers q) eid then q
      else q\<lparr>dq_checkers := AList.update eid (health_new (freshness_threshold st eid) now) (dq_checkers q)\<rparr>)"

definition register_exchange :: "dq_settings \<Rightarrow> secs \<Rightarrow> string \<Rightarrow> bool \<Rightarrow> dq_manager \<Rightarrow> dq_manager" where
  "register_exchange st now eid always q = (if always then q\<lparr>dq_always := insert eid (dq_always q)\<rparr> else get_or_create st now eid q)"

definition get_health_score :: "secs \<Rightarrow> string \<Rightarrow> dq_manager \<Rightarrow> pyfloat" where
  "get_health_score now eid q =
     (if eid \<in> dq_always q then 1
      else case map_of (dq_checkers q) eid of None \<Rightarrow> 1 | Some h \<Rightarrow> health_score now h)"

definition get_all_health_scores :: "secs \<Rightarrow> dq_manager \<Rightarrow> (string, pyfloat) dict" where
  "get_all_health_scores now q = map (\<lambda>(eid, h). (eid, health_score now h)) (dq_checkers q)"

definition aggregate_health_score :: "secs \<Rightarrow> string list \<Rightarrow> dq_manager \<Rightarrow> pyfloat" where
  "aggregate_health_score now es q =
     (let targets = (if es \<noteq> [] then es else dict_keys (dq_checkers q))
      in if targets = [] then 1 else Min (set (map (\<lambda>e. get_health_score now e q) targets)))"

definition delegate :: "dq_settings \<Rightarrow> secs \<Rightarrow> string \<Rightarrow> (health_checker \<Rightarrow> health_checker) \<Rightarrow> dq_manager \<Rightarrow> dq_manager" where
  "delegate st now eid f q =
     (let q1 = get_or_create st now eid q
      in case map_of (dq_checkers q1) eid of
           None \<Rightarrow> q1
         | Some h \<Rightarrow> q1\<lparr>dq_checkers := AList.update eid (f h) (dq_checkers q1)\<rparr>)"

definition dq_record_heartbeat :: "dq_settings \<Rightarrow> secs \<Rightarrow> string \<Rightarrow> dq_manager \<Rightarrow> dq_manager" where
  "dq_record_heartbeat st now eid = delegate st now eid (hc_record_heartbeat now)"

definition dq_record_api_latency :: "dq_settings \<Rightarrow> secs \<Rightarrow> string \<Rightarrow> pyfloat \<Rightarrow> dq_manager \<Rightarrow> dq_manager" where
  "dq_record_api_latency st now eid ms = delegate st now eid (hc_record_api_latency now ms)"

definition dq_record_ws_disconnect :: "dq_settings \<Rightarrow> secs \<Rightarrow> string \<Rightarrow> dq_manager \<Rightarrow> dq_manager" where
  "dq_record_ws_disconnect st now eid = delegate st now eid (hc_record_ws_disconnect now)"

definition dq_record_ws_connect :: "dq_settings \<Rightarrow> secs \<Rightarrow> string \<Rightarrow> dq_manager \<Rightarrow> dq_manager" where
  "dq_record_ws_connect st now eid = delegate st now eid (hc_record_ws_connect now)"

definition check_freshness :: "dq_settings \<Rightarrow> secs \<Rightarrow> string \<Rightarrow> string \<Rightarrow> secs option \<Rightarrow> dq_manager \<Rightarrow> bool" where
  "check_freshness st now ex symb upd q =
     (let ts = (case upd of Some t \<Rightarrow> if t \<noteq> 0 then Some t else map_of (dq_last_update q) (ex, symb)
                          | None \<Rightarrow> map_of (dq_last_update q) (ex, symb))
      in case ts of None \<Rightarrow> True | Some t \<Rightarrow> now - t \<le> freshness_threshold st ex)"

definition record_update :: "secs \<Rightarrow> string \<Rightarrow> string \<Rightarrow> dq_manager \<Rightarrow> dq_manager" where
  "record_update now ex symb q = q\<lparr>dq_last_update := AList.update (ex, symb) now (dq_last_update q)\<rparr>"

definition dq_is_blacklisted :: "secs \<Rightarrow> string \<Rightarrow> string \<Rightarrow> dq_manager \<Rightarrow> bool \<times> dq_manager" where
  "dq_is_blacklisted now ex symb q =
     (case map_of (dq_blacklist q) (ex, symb) of
        None \<Rightarrow> (False, q)
      | Some t \<Rightarrow> if t \<le> now then (False, q\<lparr>dq_blacklist := AList.delete (ex, symb) (dq_blacklist q)\<rparr>) else (True, q))"

definition dq_add_blacklist :: "dq_settings \<Rightarrow> secs \<Rightarrow> string \<Rightarrow> string \<Rightarrow> secs option \<Rightarrow> dq_manager \<Rightarrow> dq_manager" where
  "dq_add_blacklist st now ex symb ttl q =
     (let d = (if lower ex = ''bithumb'' then bithumb_ttl st else 300);
          t = (case ttl of Some x \<Rightarrow> x | None \<Rightarrow> d)
      in q\<lparr>dq_blacklist := AList.update (ex, symb) (now + t) (dq_blacklist q), dq_blacklisted := dq_blacklisted q + 1\<rparr>)"

definition median_append :: "string \<Rightarrow> pyfloat \<Rightarrow> dq_manager \<Rightarrow> dq_manager" where
  "median_append symb price q =
     q\<lparr>dq_medians := AList.update symb (deque_append 50 (dict_get (dq_medians q) symb []) price) (dq_medians q)\<rparr>"

definition check_bithumb_deviation :: "dq_settings \<Rightarrow> secs \<Rightarrow> string \<Rightarrow> pyfloat \<Rightarrow> dq_manager \<Rightarrow> (bool \<times> string) \<times> dq_manager" where
  "check_bithumb_deviation st now symb price q =
     (let q1 = (if dict_has (dq_medians q) symb then q else q\<lparr>dq_medians := AList.update symb [] (dq_medians q)\<rparr>);
          buf = dict_get (dq_medians q1) symb []
      in if length buf < 5 then ((True, []), median_append symb price q1)
         else let med = median_of buf
              in if med \<le> 0 then ((True, []), median_append symb price q1)
                 else let deviation = \<bar>price - med\<bar> / med
                      in if bithumb_large st < deviation
                         then ((False, ''blacklisted''), dq_add_blacklist st now ''bithumb'' symb (Some (bithumb_ttl st)) q1)
                         else if bithumb_deviation st < deviation then ((False, ''deviation''), q1)
                         else ((True, []), median_append symb price q1))"

record dq_result =
  dq_ok :: bool
  dq_score :: pyfloat
  dq_reasons :: "string list"

definition dq_reject :: "string \<Rightarrow> dq_manager \<Rightarrow> dq_result \<times> dq_manager" where
  "dq_reject why q = (\<lparr>dq_ok = False, dq_score = 0, dq_reasons = [why]\<rparr>, q\<lparr>dq_rejects := dq_rejects q + 1\<rparr>)"

definition dq_check ::
    "dq_settings \<Rightarrow> secs \<Rightarrow> string \<Rightarrow> string \<Rightarrow> pyfloat \<Rightarrow> secs option \<Rightarrow> dq_manager \<Rightarrow> dq_result \<times> dq_manager" where
  "dq_check st now ex symb mid upd q =
     (let (listed, q1) = dq_is_blacklisted now ex symb (q\<lparr>dq_checks := dq_checks q + 1\<rparr>)
      in if listed then dq_reject ''blacklisted'' q1
         else let prev = map_of (dq_last_update q1) (ex, symb);
                  q2 = record_update now ex symb q1;
                  effective = (case upd of Some t \<Rightarrow> Some t | None \<Rightarrow> prev);
                  stale = effective \<noteq> None \<and> \<not> check_freshness st now ex symb effective q2;
                  reasons = (if stale then [''stale_data''] else []);
                  score = (if stale then 3 / 10 else 1);
                  ((b_ok, b_why), q3) = (if lower ex = ''bithumb'' \<and> 0 < mid then check_bithumb_deviation st now symb mid q2 else ((True, []), q2))
              in if \<not> b_ok then dq_reject b_why q3
                 else let ((a_ok, a_why), an) = (if 0 < mid then update_and_check st now (ex, symb) mid (dq_anomaly q3) else ((True, []), dq_anomaly q3));
                          q4 = q3\<lparr>dq_anomaly := an\<rparr>
                      in if \<not> a_ok then dq_reject a_why q4
                         else let s = score * get_health_score now ex q4; ok = (3 / 10 < s \<and> reasons = [])
                              in (\<lparr>dq_ok = ok, dq_score = quantize4 s, dq_reasons = reasons\<rparr>,
                                  if ok then q4 else q4\<lparr>dq_rejects := dq_rejects q4 + 1\<rparr>))"

definition cleanup_expired :: "secs \<Rightarrow> dq_manager \<Rightarrow> nat \<times> dq_manager" where
  "cleanup_expired now q =
     (length (filter (\<lambda>(k, t). t \<le> now) (dq_blacklist q)),
      q\<lparr>dq_blacklist := filter (\<lambda>(k, t). now < t) (dq_blacklist q), dq_anomaly := an_cleanup now (dq_anomaly q)\<rparr>)"

subsection \<open>Health\<close>

definition health_wf :: "health_checker \<Rightarrow> bool" where
  "health_wf h \<longleftrightarrow> list_all (\<lambda>x. 0 \<le> x \<and> x \<le> 1) (order_fill_rates h) \<and> 0 < max_latency_ms h \<and> list_all (\<lambda>x. 0 \<le> x) (api_latencies h)"

lemma mean_bounds: "xs \<noteq> [] \<Longrightarrow> list_all (\<lambda>x. 0 \<le> x \<and> x \<le> 1) xs \<Longrightarrow> 0 \<le> mean_of xs \<and> mean_of xs \<le> 1"
proof -
  assume ne: "xs \<noteq> []" and b: "list_all (\<lambda>x. 0 \<le> x \<and> x \<le> 1) xs"
  have "0 \<le> sum_list xs \<and> sum_list xs \<le> of_nat (length xs)"
    using b by (induction xs) auto
  then show ?thesis using ne by (simp add: mean_of_def divide_le_eq)
qed

lemma mean_nonneg: "list_all (\<lambda>x. 0 \<le> x) xs \<Longrightarrow> 0 \<le> mean_of xs"
  by (simp add: mean_of_def list_all_iff sum_list_nonneg)

lemma score_parts:
  assumes "health_wf h"
  shows "0 \<le> connection_score now h \<and> (last_heartbeat h \<le> now \<longrightarrow> connection_score now h \<le> 1)"
    and "0 \<le> latency_score h \<and> latency_score h \<le> 1" and "0 \<le> ws_score now h \<and> ws_score now h \<le> 1"
    and "0 \<le> fill_score h \<and> fill_score h \<le> 1"
  using assms mean_bounds [of "order_fill_rates h"] mean_nonneg [of "api_latencies h"]
  by (auto simp: connection_score_def latency_score_def ws_score_def fill_score_def health_wf_def Let_def)

datatype health_op = OpLatency pyfloat | OpDisconnect | OpConnect | OpHeartbeat | OpFill bool | OpError | OpReset

fun health_step :: "secs \<times> health_op \<Rightarrow> health_checker \<Rightarrow> health_checker" where
  "health_step (now, OpLatency ms) h = hc_record_api_latency now ms h"
| "health_step (now, OpDisconnect) h = hc_record_ws_disconnect now h"
| "health_step (now, OpConnect) h = hc_record_ws_connect now h"
| "health_step (now, OpHeartbeat) h = hc_record_heartbeat now h"
| "health_step (now, OpFill b) h = hc_record_order_fill b h"
| "health_step (now, OpError) h = hc_record_error h"
| "health_step (now, OpReset) h = hc_reset now h"

definition latencies_ok :: "(secs \<times> health_op) list \<Rightarrow> bool" where
  "latencies_ok ops \<longleftrightarrow> list_all (\<lambda>(t, op). case op of OpLatency ms \<Rightarrow> 0 \<le> ms | _ \<Rightarrow> True) ops"

lemma list_all_deque: "list_all P xs \<Longrightarrow> P x \<Longrightarrow> list_all P (deque_append n xs x)"
  using set_deque_append [of n xs x] by (auto simp: list_all_iff)

lemma health_run:
  "latencies_ok ops \<Longrightarrow> health_wf h \<Longrightarrow> health_wf (fold health_step ops h) \<and> stale_threshold (fold health_step ops h) = stale_threshold h"
proof (induction ops arbitrary: h)
  case (Cons o1 ops)
  obtain now op where o: "o1 = (now, op)" by force
  have "health_wf (health_step (now, op) h) \<and> stale_threshold (health_step (now, op) h) = stale_threshold h"
    using Cons.prems
    by (cases op) (auto simp: o latencies_ok_def health_wf_def hc_record_api_latency_def hc_record_ws_disconnect_def
        hc_record_ws_connect_def hc_record_heartbeat_def hc_record_order_fill_def hc_record_error_def hc_reset_def intro!: list_all_deque)
  then show ?case using Cons.IH [of "health_step (now, op) h"] Cons.prems(1) by (simp add: o latencies_ok_def)
qed simp

subsection \<open>The central check\<close>

definition listed :: "secs \<Rightarrow> pair \<Rightarrow> dq_manager \<Rightarrow> bool" where
  "listed now key q \<longleftrightarrow> (\<exists>t. map_of (dq_blacklist q) key = Some t \<and> now < t)"

text \<open>The price is near the median of the accepted prices of the coin, once there are five of them.\<close>

definition near_median :: "dq_settings \<Rightarrow> pyfloat \<Rightarrow> pyfloat list \<Rightarrow> bool" where
  "near_median st price buf \<longleftrightarrow>
     length buf < 5 \<or> median_of buf \<le> 0 \<or> \<bar>price - median_of buf\<bar> / median_of buf \<le> min (bithumb_deviation st) (bithumb_large st)"

text \<open>The pair is not isolated and the price is not far from the mean of the accepted prices, measured by their spread.\<close>

definition price_normal :: "dq_settings \<Rightarrow> secs \<Rightarrow> pair \<Rightarrow> pyfloat \<Rightarrow> anomaly_detector \<Rightarrow> bool" where
  "price_normal st now key price a \<longleftrightarrow>
     \<not> (\<exists>t. map_of (an_isolated a) key = Some t \<and> now < t)
     \<and> (let buf = dict_get (an_prices a) key []
        in length buf < anomaly_warmup st \<or> variance_of buf \<le> 0
           \<or> 0 \<le> anomaly_z st \<and> (price - mean_of buf)\<^sup>2 \<le> (anomaly_z st)\<^sup>2 * variance_of buf)"

text \<open>The update before this one, or the time the caller gives, is not too old.\<close>

definition fresh_enough :: "dq_settings \<Rightarrow> secs \<Rightarrow> string \<Rightarrow> string \<Rightarrow> secs option \<Rightarrow> dq_manager \<Rightarrow> bool" where
  "fresh_enough st now ex symb upd q \<longleftrightarrow>
     (case (case upd of Some t \<Rightarrow> Some t | None \<Rightarrow> map_of (dq_last_update q) (ex, symb)) of
        None \<Rightarrow> True
      | Some t \<Rightarrow> (if t = 0 then 0 else now - t) \<le> freshness_threshold st ex)"

text \<open>Both price rules apply to positive prices only, the first to one exchange.\<close>

definition extra_rule :: "dq_settings \<Rightarrow> string \<Rightarrow> string \<Rightarrow> pyfloat \<Rightarrow> dq_manager \<Rightarrow> bool" where
  "extra_rule st ex symb mid q \<longleftrightarrow> (lower ex = ''bithumb'' \<and> 0 < mid \<longrightarrow> near_median st mid (dict_get (dq_medians q) symb []))"

definition no_outlier :: "dq_settings \<Rightarrow> secs \<Rightarrow> string \<Rightarrow> string \<Rightarrow> pyfloat \<Rightarrow> dq_manager \<Rightarrow> bool" where
  "no_outlier st now ex symb mid q \<longleftrightarrow> (0 < mid \<longrightarrow> price_normal st now (ex, symb) mid (dq_anomaly q))"

lemma blacklisted_iff: "fst (dq_is_blacklisted now ex symb q) \<longleftrightarrow> listed now (ex, symb) q"
  by (auto simp: dq_is_blacklisted_def listed_def split: option.split)

lemma blacklisted_keeps:
  "dq_is_blacklisted now ex symb q = (b, q') \<Longrightarrow> q' = q\<lparr>dq_blacklist := dq_blacklist q'\<rparr>"
  by (auto simp: dq_is_blacklisted_def split: option.splits if_splits)

lemma update_and_check_iff: "fst (fst (update_and_check st now key price a)) \<longleftrightarrow> price_normal st now key price a"
  by (auto simp: update_and_check_def price_normal_def z_above_def Let_def dict_get_def dict_has_iff not_less split: option.splits)

lemma check_bithumb_iff:
  "fst (fst (check_bithumb_deviation st now symb price q)) \<longleftrightarrow> near_median st price (dict_get (dq_medians q) symb [])"
  by (auto simp: check_bithumb_deviation_def near_median_def Let_def dict_get_def dict_has_iff not_less split: option.splits)

lemma check_bithumb_keeps:
  assumes "check_bithumb_deviation st now symb price q = (r, q')"
  shows "dq_checkers q' = dq_checkers q" "dq_always q' = dq_always q" "dq_anomaly q' = dq_anomaly q" "dq_last_update q' = dq_last_update q"
  using assms
  by (auto simp: check_bithumb_deviation_def median_append_def dq_add_blacklist_def Let_def split: if_splits)

lemma check_ok_iff:
  "dq_ok (fst (dq_check st now ex symb mid upd q)) \<longleftrightarrow>
     \<not> listed now (ex, symb) q \<and> fresh_enough st now ex symb upd q
     \<and> extra_rule st ex symb mid q \<and> no_outlier st now ex symb mid q
     \<and> 3 / 10 < get_health_score now ex q"
proof -
  let ?q = "q\<lparr>dq_checks := dq_checks q + 1\<rparr>"
  obtain b q1 where b: "dq_is_blacklisted now ex symb ?q = (b, q1)" by fastforce
  have bl: "b = listed now (ex, symb) q" using blacklisted_iff [of now ex symb ?q] b by (simp add: listed_def)
  have q1: "dq_checkers q1 = dq_checkers q" "dq_always q1 = dq_always q" "dq_anomaly q1 = dq_anomaly q"
      "dq_last_update q1 = dq_last_update q" "dq_medians q1 = dq_medians q"
    using arg_cong [OF blacklisted_keeps [OF b], of dq_checkers] arg_cong [OF blacklisted_keeps [OF b], of dq_always]
      arg_cong [OF blacklisted_keeps [OF b], of dq_anomaly] arg_cong [OF blacklisted_keeps [OF b], of dq_last_update]
      arg_cong [OF blacklisted_keeps [OF b], of dq_medians] by simp_all
  let ?q2 = "record_update now ex symb q1"
  obtain b_ok b_why q3 where c: "(if lower ex = ''bithumb'' \<and> 0 < mid then check_bithumb_deviation st now symb mid ?q2 else ((True, []), ?q2)) = ((b_ok, b_why), q3)"
    by (metis prod.exhaust)
  have m2: "dq_medians ?q2 = dq_medians q" by (simp add: record_update_def q1)
  have c_ok: "b_ok \<longleftrightarrow> \<not> (lower ex = ''bithumb'' \<and> 0 < mid) \<or> near_median st mid (dict_get (dq_medians q) symb [])"
    using check_bithumb_iff [of st now symb mid ?q2, unfolded m2] c by (cases "lower ex = ''bithumb'' \<and> 0 < mid") simp_all
  have "dq_checkers q3 = dq_checkers ?q2 \<and> dq_always q3 = dq_always ?q2 \<and> dq_anomaly q3 = dq_anomaly ?q2"
    using c check_bithumb_keeps(1-3) [of st now symb mid ?q2 "(b_ok, b_why)" q3] by (cases "lower ex = ''bithumb'' \<and> 0 < mid") simp_all
  then have q3: "dq_checkers q3 = dq_checkers q" "dq_always q3 = dq_always q" "dq_anomaly q3 = dq_anomaly q"
    by (simp_all add: record_update_def q1)
  obtain a_ok a_why an where a: "(if 0 < mid then update_and_check st now (ex, symb) mid (dq_anomaly q3) else ((True, []), dq_anomaly q3)) = ((a_ok, a_why), an)"
    by (metis prod.exhaust)
  have a_iff: "a_ok \<longleftrightarrow> \<not> 0 < mid \<or> price_normal st now (ex, symb) mid (dq_anomaly q)"
    using update_and_check_iff [of st now "(ex, symb)" mid "dq_anomaly q"] a unfolding q3 by (cases "0 < mid") simp_all
  have h: "get_health_score now ex (q3\<lparr>dq_anomaly := an\<rparr>) = get_health_score now ex q"
    by (simp add: get_health_score_def q3)
  have f: "(case upd of Some t \<Rightarrow> Some t | None \<Rightarrow> map_of (dq_last_update q1) (ex, symb)) \<noteq> None
      \<and> \<not> check_freshness st now ex symb (case upd of Some t \<Rightarrow> Some t | None \<Rightarrow> map_of (dq_last_update q1) (ex, symb)) ?q2
      \<longleftrightarrow> \<not> fresh_enough st now ex symb upd q"
    by (auto simp: check_freshness_def fresh_enough_def q1 record_update_def Let_def split: option.splits)
  show ?thesis
    unfolding dq_check_def b prod.case Let_def c a f using bl c_ok a_iff
    by (auto simp: dq_reject_def h extra_rule_def no_outlier_def)
qed

subsection \<open>Properties\<close>

text \<open>C26. The central check accepts an update exactly when the pair is not on the blacklist, the data is fresh, the price on
  the one exchange with the extra rule is near the median of its accepted prices, the pair is not isolated and the price
  no outlier, and the health of the exchange is above 0.3.\<close>

theorem accepted_data_is_clean:
  "dq_ok (fst (dq_check st now ex symb mid upd q)) \<longleftrightarrow>
     \<not> listed now (ex, symb) q \<and> fresh_enough st now ex symb upd q
     \<and> extra_rule st ex symb mid q \<and> no_outlier st now ex symb mid q
     \<and> 3 / 10 < get_health_score now ex q"
  by (rule check_ok_iff)

text \<open>Whatever a checker has recorded, its score lies between 0 and 1 and is the weighted sum of its four parts: the
  clamp never acts.  An exchange that has been silent for half a minute beyond its threshold keeps at most 0.6.\<close>

lemma health_score_is_weighted_sum:
  assumes "latencies_ok ops" and "h = fold health_step ops (health_new thr t0)"
  shows "0 \<le> health_score now h \<and> health_score now h \<le> 1
    \<and> health_score now h = connection_score now h * (4 / 10) + latency_score h * (3 / 10) + ws_score now h * (2 / 10) + fill_score h * (1 / 10)
    \<and> (last_heartbeat h + thr + 30 \<le> now \<longrightarrow> health_score now h \<le> 6 / 10)"
proof -
  have "health_wf (health_new thr t0)" by (simp add: health_wf_def health_new_def)
  with health_run [OF assms(1)] assms(2) have wf: "health_wf h" "stale_threshold h = thr"
    by (auto simp: health_new_def)
  note p = score_parts(1) [OF wf(1), of now] score_parts(2) [OF wf(1)] score_parts(3) [OF wf(1), of now] score_parts(4) [OF wf(1)]
  have c: "connection_score now h \<le> 1" by (auto simp: connection_score_def Let_def)
  have "connection_score now h = 0" if "last_heartbeat h + thr + 30 \<le> now"
    using that wf(2) by (auto simp: connection_score_def Let_def max_def)
  then show ?thesis using p c by (auto simp: health_score_def)
qed

lemma health_score_is_weighted_sum_witness:
  "health_score 200 (fold health_step [(1, OpDisconnect), (2, OpFill False), (3, OpLatency 500)] (health_new 1 0)) \<le> 6 / 10"
  using health_score_is_weighted_sum [of "[(1, OpDisconnect), (2, OpFill False), (3, OpLatency 500)]" _ 1 0 200]
  by (simp add: latencies_ok_def hc_record_api_latency_def hc_record_ws_disconnect_def hc_record_order_fill_def health_new_def)

text \<open>The checks a session makes: clock, exchange, symbol, price, time of the update.\<close>

type_synonym dq_call = "secs \<times> string \<times> string \<times> pyfloat \<times> secs option"

definition call_check :: "dq_settings \<Rightarrow> dq_call \<Rightarrow> dq_manager \<Rightarrow> dq_result \<times> dq_manager" where
  "call_check st c q = (case c of (now, ex, symb, mid, upd) \<Rightarrow> dq_check st now ex symb mid upd q)"

definition after_calls :: "dq_settings \<Rightarrow> dq_call list \<Rightarrow> dq_manager \<Rightarrow> dq_manager" where
  "after_calls st cs q = fold (\<lambda>c q. snd (call_check st c q)) cs q"

definition listed_until :: "secs \<Rightarrow> pair \<Rightarrow> dq_manager \<Rightarrow> bool" where
  "listed_until t key q \<longleftrightarrow> (\<exists>t'. map_of (dq_blacklist q) key = Some t' \<and> t \<le> t')"

lemma bithumb_blacklist:
  assumes "check_bithumb_deviation st now symb price q = (r, q')"
  shows "dq_blacklist q' = dq_blacklist q \<or> dq_blacklist q' = AList.update (''bithumb'', symb) (now + bithumb_ttl st) (dq_blacklist q)"
  using assms by (auto simp: check_bithumb_deviation_def median_append_def dq_add_blacklist_def Let_def split: if_splits)

lemma check_blacklist:
  assumes "dq_check st now ex symb mid upd q = (r, q')"
  shows "map_of (dq_blacklist q') key = map_of (dq_blacklist q) key
    \<or> fst key = ''bithumb'' \<and> map_of (dq_blacklist q') key = Some (now + bithumb_ttl st)
    \<or> map_of (dq_blacklist q') key = None \<and> (\<exists>t. map_of (dq_blacklist q) key = Some t \<and> t \<le> now)"
proof -
  let ?q = "q\<lparr>dq_checks := dq_checks q + 1\<rparr>"
  obtain b q1 where b: "dq_is_blacklisted now ex symb ?q = (b, q1)" by fastforce
  have q1: "map_of (dq_blacklist q1) key = map_of (dq_blacklist q) key
      \<or> key = (ex, symb) \<and> map_of (dq_blacklist q1) key = None \<and> (\<exists>t. map_of (dq_blacklist q) key = Some t \<and> t \<le> now)"
    using b by (auto simp: dq_is_blacklisted_def split: option.splits if_splits)
  let ?q2 = "record_update now ex symb q1"
  obtain b_ok b_why q3 where c: "(if lower ex = ''bithumb'' \<and> 0 < mid then check_bithumb_deviation st now symb mid ?q2 else ((True, []), ?q2)) = ((b_ok, b_why), q3)"
    by (metis prod.exhaust)
  have "dq_blacklist q3 = dq_blacklist ?q2 \<or> dq_blacklist q3 = AList.update (''bithumb'', symb) (now + bithumb_ttl st) (dq_blacklist ?q2)"
    using c bithumb_blacklist [of st now symb mid ?q2 "(b_ok, b_why)" q3] by (cases "lower ex = ''bithumb'' \<and> 0 < mid") simp_all
  then have q3: "dq_blacklist q3 = dq_blacklist q1 \<or> dq_blacklist q3 = AList.update (''bithumb'', symb) (now + bithumb_ttl st) (dq_blacklist q1)"
    by (simp add: record_update_def)
  have "dq_blacklist q' = (if b then dq_blacklist q1 else dq_blacklist q3)"
    using assms unfolding dq_check_def b prod.case Let_def c
    by (auto simp: dq_reject_def case_prod_beta split: if_splits)
  then show ?thesis using q1 q3 by (auto split: if_splits)
qed

lemma listed_step:
  assumes "listed_until t key q" and "fst c < t" and "fst key = ''bithumb'' \<Longrightarrow> t \<le> fst c + bithumb_ttl st"
  shows "listed_until t key (snd (call_check st c q))"
proof -
  obtain n e s m u where c: "c = (n, e, s, m, u)" by (metis prod.exhaust)
  obtain r' q' where d: "dq_check st n e s m u q = (r', q')" by fastforce
  show ?thesis
    using check_blacklist [OF d, of key] assms by (auto simp: call_check_def c d listed_until_def)
qed

lemma listed_calls:
  assumes "listed_until t key q" and "\<forall>c \<in> set cs. fst c < t \<and> (fst key = ''bithumb'' \<longrightarrow> t \<le> fst c + bithumb_ttl st)"
  shows "listed_until t key (after_calls st cs q)"
  using assms by (induction cs arbitrary: q) (auto simp: after_calls_def intro: listed_step)

definition default_ttl :: "dq_settings \<Rightarrow> string \<Rightarrow> secs" where
  "default_ttl st ex = (if lower ex = ''bithumb'' then bithumb_ttl st else 300)"

text \<open>A pair that is put on the blacklist is rejected by every check until its time is over, whatever the checks of
  other pairs do in between, and such a check does not count as an update of the pair.\<close>

lemma blacklisted_until_expiry:
  assumes "\<forall>c \<in> set cs. t0 \<le> fst c \<and> fst c < t0 + default_ttl st ex" and "now < t0 + default_ttl st ex"
    and "q1 = after_calls st cs (dq_add_blacklist st t0 ex symb None q)" and "dq_check st now ex symb mid upd q1 = (r, q2)"
  shows "\<not> dq_ok r \<and> dq_reasons r = [''blacklisted''] \<and> map_of (dq_last_update q2) (ex, symb) = map_of (dq_last_update q1) (ex, symb)"
proof -
  have "lower ''bithumb'' = ''bithumb''" by (simp add: lower_def lower_char_def)
  then have "fst (ex, symb) = ''bithumb'' \<Longrightarrow> default_ttl st ex = bithumb_ttl st" by (simp add: default_ttl_def)
  moreover have "listed_until (t0 + default_ttl st ex) (ex, symb) (dq_add_blacklist st t0 ex symb None q)"
    by (simp add: dq_add_blacklist_def listed_until_def Let_def default_ttl_def)
  ultimately have "listed_until (t0 + default_ttl st ex) (ex, symb) q1"
    using assms(1,3) listed_calls [of "t0 + default_ttl st ex" "(ex, symb)" "dq_add_blacklist st t0 ex symb None q" cs st] by auto
  then obtain t where t: "map_of (dq_blacklist q1) (ex, symb) = Some t" "now < t"
    using assms(2) by (auto simp: listed_until_def)
  then show ?thesis
    using assms(4) by (auto simp: dq_check_def dq_is_blacklisted_def dq_reject_def)
qed

lemma blacklisted_until_expiry_witness:
  "\<not> dq_ok (fst (dq_check dq_defaults 599 ''bithumb'' ''X'' 1 None
     (after_calls dq_defaults [(10, ''okx'', ''X'', 1, None), (300, ''bithumb'', ''X'', 1, None)] (dq_add_blacklist dq_defaults 0 ''bithumb'' ''X'' None dq_new))))"
proof -
  obtain r q2 where d: "dq_check dq_defaults 599 ''bithumb'' ''X'' 1 None
     (after_calls dq_defaults [(10, ''okx'', ''X'', 1, None), (300, ''bithumb'', ''X'', 1, None)] (dq_add_blacklist dq_defaults 0 ''bithumb'' ''X'' None dq_new)) = (r, q2)"
    by fastforce
  have "default_ttl dq_defaults ''bithumb'' = 600" by (simp add: default_ttl_def dq_defaults_def lower_def lower_char_def)
  with blacklisted_until_expiry [OF _ _ refl d] d show ?thesis by simp
qed

subsection \<open>Deviations\<close>

text \<open>A rejected price is not added to the accepted ones, so their median never follows the market: after a move of more than
  the limit, but less than a doubling, every later price near the new level is rejected, for ever, and the manager does
  not change.\<close>

lemma moved_price_is_rejected_for_ever:
  assumes "dict_get (dq_medians q) symb [] = buf" and "5 \<le> length buf" and "0 < median_of buf"
    and "bithumb_deviation st < \<bar>price - median_of buf\<bar> / median_of buf" and "\<bar>price - median_of buf\<bar> / median_of buf \<le> bithumb_large st"
  shows "check_bithumb_deviation st now symb price q = ((False, ''deviation''), q)"
proof -
  have "dict_has (dq_medians q) symb" using assms(1,2) by (auto simp: dict_get_def dict_has_iff split: option.splits)
  then show ?thesis using assms by (auto simp: check_bithumb_deviation_def Let_def)
qed

text \<open>A price below the median deviates by less than its whole, so with the default limit of 1 only a rise is ever put on
  the blacklist, a price that has collapsed is not.\<close>

lemma collapse_is_never_blacklisted:
  assumes "1 \<le> bithumb_large st" and "0 < price" and "price \<le> median_of (dict_get (dq_medians q) symb [])"
  shows "dq_blacklist (snd (check_bithumb_deviation st now symb price q)) = dq_blacklist q"
proof -
  let ?m = "median_of (dict_get (dq_medians q) symb [])"
  have "\<bar>price - ?m\<bar> / ?m < 1" using assms(2,3) by (simp add: divide_less_eq)
  then have "\<not> bithumb_large st < \<bar>price - ?m\<bar> / ?m" using assms(1) by simp
  then show ?thesis
    by (auto simp: check_bithumb_deviation_def median_append_def Let_def dict_get_def dict_has_iff split: option.splits)
qed

text \<open>The freshness of an update is measured from the update before it: the first price after a pause is rejected as stale,
  although it has just arrived.\<close>

lemma first_update_after_a_pause_is_stale:
  assumes "map_of (dq_last_update q) (ex, symb) = Some t" and "t \<noteq> 0" and "freshness_threshold st ex < now - t"
  shows "\<not> dq_ok (fst (dq_check st now ex symb mid None q))"
  using assms by (simp add: check_ok_iff fresh_enough_def)

end
