(* ===== verification/StaleDetector.thy ===== *)
theory StaleDetector
  imports DataQuality
begin

text \<open>
  \<open>engine/src/core/stale_detector.py\<close>: four layers against an order book that has stopped moving, and a blacklist.  A
  book is what its two queries return; an exception is any other \<open>outcome\<close>.  A call reads the clock once.
\<close>

type_synonym quote = "(decimal option \<times> decimal option) outcome"

record heartbeat =
  hb_ema :: secs
  hb_last :: secs
  hb_count :: nat
  hb_first :: secs

record stale_detector =
  sd_deviation :: pyfloat
  sd_ttl :: secs
  sd_min_comparison :: nat
  sd_blacklist :: "(pair, secs) dict"
  sd_heartbeat :: "(pair, heartbeat) dict"
  sd_last_seq :: "(pair, int) dict"
  sd_spreads :: "(pair, pyfloat list) dict"

definition detector_new :: "pyfloat option \<Rightarrow> secs option \<Rightarrow> nat \<Rightarrow> stale_detector" where
  "detector_new dev ttl n =
     \<lparr>sd_deviation = (case dev of Some d \<Rightarrow> d | None \<Rightarrow> 10 / 100), sd_ttl = (case ttl of Some t \<Rightarrow> t | None \<Rightarrow> 300),
      sd_min_comparison = n, sd_blacklist = [], sd_heartbeat = [], sd_last_seq = [], sd_spreads = []\<rparr>"

subsection \<open>Prices of other exchanges\<close>

definition quote_mid :: "quote \<Rightarrow> pyfloat option" where
  "quote_mid b = (case b of Returned (Some bid, Some ask) \<Rightarrow> Some ((bid + ask) / 2) | _ \<Rightarrow> None)"

definition comparison_prices :: "string \<Rightarrow> (string, quote) dict \<Rightarrow> pyfloat list" where
  "comparison_prices ex books =
     concat (map (\<lambda>(other, b).
       if other = ex then []
       else if ex \<in> set krw_exchanges \<and> other \<in> set krw_exchanges then []
       else case quote_mid b of None \<Rightarrow> [] | Some m \<Rightarrow> if 0 < m then [m] else []) books)"

definition check_cross_exchange :: "string \<Rightarrow> string \<Rightarrow> quote \<Rightarrow> (string, (string, quote) dict) dict \<Rightarrow> stale_detector \<Rightarrow> bool" where
  "check_cross_exchange ex symb book all_books d =
     (case quote_mid book of
        None \<Rightarrow> True
      | Some mid \<Rightarrow>
          if mid \<le> 0 then True
          else let prices = comparison_prices ex (dict_get all_books symb [])
               in if length prices < sd_min_comparison d then True
                  else let ref = median_of prices
                       in if ref \<le> 0 then True else \<not> sd_deviation d < \<bar>mid - ref\<bar> / ref)"

subsection \<open>The blacklist\<close>

definition sd_is_blacklisted :: "secs \<Rightarrow> string \<Rightarrow> string \<Rightarrow> stale_detector \<Rightarrow> bool \<times> stale_detector" where
  "sd_is_blacklisted now ex symb d =
     (case map_of (sd_blacklist d) (ex, symb) of
        None \<Rightarrow> (False, d)
      | Some t \<Rightarrow> if t \<le> now then (False, d\<lparr>sd_blacklist := AList.delete (ex, symb) (sd_blacklist d)\<rparr>) else (True, d))"

definition sd_add_blacklist :: "secs \<Rightarrow> string \<Rightarrow> string \<Rightarrow> secs option \<Rightarrow> stale_detector \<Rightarrow> stale_detector" where
  "sd_add_blacklist now ex symb ttl d =
     (if (case map_of (sd_blacklist d) (ex, symb) of None \<Rightarrow> False | Some t \<Rightarrow> now < t) then d
      else d\<lparr>sd_blacklist := AList.update (ex, symb) (now + (case ttl of Some t \<Rightarrow> t | None \<Rightarrow> sd_ttl d)) (sd_blacklist d)\<rparr>)"

definition sd_cleanup_expired :: "secs \<Rightarrow> stale_detector \<Rightarrow> stale_detector" where
  "sd_cleanup_expired now d = d\<lparr>sd_blacklist := filter (\<lambda>(k, t). now < t) (sd_blacklist d)\<rparr>"

definition blacklist_count :: "secs \<Rightarrow> stale_detector \<Rightarrow> nat \<times> stale_detector" where
  "blacklist_count now d = (let d' = sd_cleanup_expired now d in (length (sd_blacklist d'), d'))"

subsection \<open>Heartbeats\<close>

definition update_heartbeat :: "secs \<Rightarrow> string \<Rightarrow> string \<Rightarrow> stale_detector \<Rightarrow> stale_detector" where
  "update_heartbeat now ex symb d =
     (case map_of (sd_heartbeat d) (ex, symb) of
        None \<Rightarrow> d\<lparr>sd_heartbeat := AList.update (ex, symb) \<lparr>hb_ema = 0, hb_last = now, hb_count = 0, hb_first = now\<rparr> (sd_heartbeat d)\<rparr>
      | Some h \<Rightarrow>
          let interval = now - hb_last h
          in if interval \<le> 0 then d
             else let ema = (if 0 < hb_ema h then 1 / 5 * interval + (1 - 1 / 5) * hb_ema h else interval)
                  in d\<lparr>sd_heartbeat := AList.update (ex, symb) (h\<lparr>hb_ema := ema, hb_last := now, hb_count := hb_count h + 1\<rparr>) (sd_heartbeat d)\<rparr>)"

definition check_heartbeat :: "secs \<Rightarrow> string \<Rightarrow> string \<Rightarrow> stale_detector \<Rightarrow> bool" where
  "check_heartbeat now ex symb d =
     (case map_of (sd_heartbeat d) (ex, symb) of
        None \<Rightarrow> True
      | Some h \<Rightarrow>
          if hb_count h < 10 \<or> now - hb_first h < 30 then True
          else if hb_ema h \<le> 0 then True
          else \<not> 5 * hb_ema h < now - hb_last h)"

subsection \<open>Sequence numbers and spreads\<close>

definition check_sequence_gap :: "string \<Rightarrow> string \<Rightarrow> int option \<Rightarrow> stale_detector \<Rightarrow> bool \<times> stale_detector" where
  "check_sequence_gap ex symb seq d =
     (case seq of
        None \<Rightarrow> (True, d)
      | Some n \<Rightarrow>
          let d' = d\<lparr>sd_last_seq := AList.update (ex, symb) n (sd_last_seq d)\<rparr>
          in case map_of (sd_last_seq d) (ex, symb) of None \<Rightarrow> (True, d') | Some prev \<Rightarrow> (\<not> 2 < n - prev, d'))"

definition update_spread :: "string \<Rightarrow> string \<Rightarrow> pyfloat \<Rightarrow> stale_detector \<Rightarrow> stale_detector" where
  "update_spread ex symb spread d =
     (if spread \<le> 0 then d
      else d\<lparr>sd_spreads := AList.update (ex, symb) (deque_append 50 (dict_get (sd_spreads d) (ex, symb) []) spread) (sd_spreads d)\<rparr>)"

definition check_spread_normality :: "string \<Rightarrow> string \<Rightarrow> pyfloat \<Rightarrow> stale_detector \<Rightarrow> bool" where
  "check_spread_normality ex symb spread d =
     (if spread \<le> 0 then True
      else case map_of (sd_spreads d) (ex, symb) of
             None \<Rightarrow> True
           | Some history \<Rightarrow>
               if length history < 10 then True
               else let ref = median_of history in if ref \<le> 0 then True else \<not> 3 * ref < spread)"

definition check_all_layers ::
    "secs \<Rightarrow> string \<Rightarrow> string \<Rightarrow> quote \<Rightarrow> (string, (string, quote) dict) dict \<Rightarrow> int option \<Rightarrow> pyfloat option \<Rightarrow> stale_detector \<Rightarrow>
     bool \<times> stale_detector" where
  "check_all_layers now ex symb book all_books seq spread d =
     (if \<not> check_cross_exchange ex symb book all_books d then (False, d)
      else if \<not> check_heartbeat now ex symb d then (False, d)
      else let (seq_ok, d') = check_sequence_gap ex symb seq d
           in if \<not> seq_ok then (False, d')
              else case spread of
                     Some s \<Rightarrow> (check_spread_normality ex symb s d', d')
                   | None \<Rightarrow> (True, d'))"

subsection \<open>Heartbeat of a feed\<close>

definition feed :: "string \<Rightarrow> string \<Rightarrow> secs list \<Rightarrow> stale_detector \<Rightarrow> stale_detector" where
  "feed ex symb ts d = fold (\<lambda>t. update_heartbeat t ex symb) ts d"

text \<open>Increasing times whose steps lie between two bounds.\<close>

fun paced :: "secs \<Rightarrow> secs \<Rightarrow> secs \<Rightarrow> secs list \<Rightarrow> bool" where
  "paced lo hi t [] \<longleftrightarrow> True"
| "paced lo hi t (u # us) \<longleftrightarrow> lo \<le> u - t \<and> u - t \<le> hi \<and> paced lo hi u us"

lemma feed_keeps_pace:
  assumes "0 < lo" and "lo \<le> hi" and "map_of (sd_heartbeat d) (ex, symb) = Some h" and "paced lo hi (hb_last h) ts"
    and "hb_ema h = 0 \<or> lo \<le> hb_ema h \<and> hb_ema h \<le> hi"
  shows "\<exists>h'. map_of (sd_heartbeat (feed ex symb ts d)) (ex, symb) = Some h' \<and> hb_count h' = hb_count h + length ts
    \<and> hb_first h' = hb_first h \<and> hb_last h' = last (hb_last h # ts)
    \<and> (ts = [] \<and> h' = h \<or> ts \<noteq> [] \<and> lo \<le> hb_ema h' \<and> hb_ema h' \<le> hi)"
  using assms(3-5)
proof (induction ts arbitrary: d h)
  case (Cons t ts)
  let ?i = "t - hb_last h"
  define ema where "ema = (if 0 < hb_ema h then 1 / 5 * ?i + (1 - 1 / 5) * hb_ema h else ?i)"
  let ?h = "h\<lparr>hb_ema := ema, hb_last := t, hb_count := hb_count h + 1\<rparr>"
  have i: "lo \<le> ?i" "?i \<le> hi" "0 < ?i" using Cons.prems(2) assms(1) by auto
  have e: "lo \<le> ema \<and> ema \<le> hi"
  proof (cases "0 < hb_ema h")
    case True
    then have "lo \<le> hb_ema h" "hb_ema h \<le> hi" using Cons.prems(3) assms(1) by auto
    moreover have "5 * ema = ?i + 4 * hb_ema h" using True by (simp add: ema_def field_simps)
    ultimately show ?thesis using i by (intro conjI) linarith+
  qed (use i in \<open>simp add: ema_def\<close>)
  have up: "map_of (sd_heartbeat (update_heartbeat t ex symb d)) (ex, symb) = Some ?h"
    using Cons.prems(1) i(3) by (simp add: update_heartbeat_def Let_def ema_def)
  show ?case
    using Cons.IH [OF up] Cons.prems(2) e by (auto simp: feed_def)
qed (simp add: feed_def)

subsection \<open>Properties\<close>

text \<open>A feed that has ticked ten times or more, for half a minute or more, with pauses between \<open>lo\<close> and \<open>hi\<close>, is not stale
  when the last tick is at most \<open>5 * lo\<close> old and is stale when it is more than \<open>5 * hi\<close> old.\<close>

lemma heartbeat_tolerates_five_intervals:
  assumes "0 < lo" and "lo \<le> hi" and "map_of (sd_heartbeat d) (ex, symb) = None" and "paced lo hi t ts" and "10 \<le> length ts"
    and "30 \<le> now - t"
  shows "(now - last ts \<le> 5 * lo \<longrightarrow> check_heartbeat now ex symb (feed ex symb (t # ts) d))
    \<and> (5 * hi < now - last ts \<longrightarrow> \<not> check_heartbeat now ex symb (feed ex symb (t # ts) d))"
proof -
  have up: "map_of (sd_heartbeat (update_heartbeat t ex symb d)) (ex, symb) = Some \<lparr>hb_ema = 0, hb_last = t, hb_count = 0, hb_first = t\<rparr>"
    using assms(3) by (simp add: update_heartbeat_def)
  from feed_keeps_pace [OF assms(1,2) up, of ts] assms(4)
  obtain h' where h': "map_of (sd_heartbeat (feed ex symb (t # ts) d)) (ex, symb) = Some h'" "hb_count h' = length ts"
      "hb_first h' = t" "hb_last h' = last (t # ts)" "ts = [] \<or> lo \<le> hb_ema h' \<and> hb_ema h' \<le> hi"
    by (auto simp: feed_def)
  then show ?thesis using assms(1,5,6) by (auto simp: check_heartbeat_def)
qed

lemma heartbeat_tolerates_five_intervals_witness:
  "(let d = feed ''okx'' ''X'' (0 # map of_nat [3, 6, 9, 12, 15, 18, 21, 24, 27, 30]) (detector_new None None 2)
    in check_heartbeat 45 ''okx'' ''X'' d \<and> \<not> check_heartbeat 46 ''okx'' ''X'' d)"
proof -
  have p: "paced 3 3 0 (map of_nat [3, 6, 9, 12, 15, 18, 21, 24, 27, 30])" by simp
  show ?thesis
    using heartbeat_tolerates_five_intervals [of 3 3 "detector_new None None 2" "''okx''" "''X''" 0 "map of_nat [3, 6, 9, 12, 15, 18, 21, 24, 27, 30]" 45, OF _ _ _ p]
      heartbeat_tolerates_five_intervals [of 3 3 "detector_new None None 2" "''okx''" "''X''" 0 "map of_nat [3, 6, 9, 12, 15, 18, 21, 24, 27, 30]" 46, OF _ _ _ p]
    by (simp add: detector_new_def)
qed

text \<open>Calls that add pairs to the blacklist or ask about them, in any order.\<close>

datatype sd_op = AddPair secs string string "secs option" | AskPair secs string string | CleanUp secs

fun sd_step :: "sd_op \<Rightarrow> stale_detector \<Rightarrow> stale_detector" where
  "sd_step (AddPair now ex symb ttl) d = sd_add_blacklist now ex symb ttl d"
| "sd_step (AskPair now ex symb) d = snd (sd_is_blacklisted now ex symb d)"
| "sd_step (CleanUp now) d = sd_cleanup_expired now d"

fun op_time :: "sd_op \<Rightarrow> secs" where
  "op_time (AddPair now _ _ _) = now" | "op_time (AskPair now _ _) = now" | "op_time (CleanUp now) = now"

lemma map_of_filter_expired: "map_of bl k = Some t \<Longrightarrow> now < t \<Longrightarrow> map_of (filter (\<lambda>(k, t). now < t) bl) k = Some t"
  by (induction bl) auto

lemma sd_step_keeps:
  "map_of (sd_blacklist d) k = Some t \<Longrightarrow> op_time op < t \<Longrightarrow> map_of (sd_blacklist (sd_step op d)) k = Some t"
  by (cases op) (auto simp: sd_add_blacklist_def sd_is_blacklisted_def sd_cleanup_expired_def map_of_filter_expired split: option.splits)

lemma sd_steps_keep:
  "map_of (sd_blacklist d) k = Some t \<Longrightarrow> \<forall>op \<in> set ops. op_time op < t \<Longrightarrow> map_of (sd_blacklist (fold sd_step ops d)) k = Some t"
  by (induction ops arbitrary: d) (auto intro: sd_step_keeps)

text \<open>The blacklist neither ends early nor is prolonged: a pair that is added while it is free is listed until its time
  is over and free from then on, however often it is added again, asked for or cleaned up in the meantime.\<close>

lemma blacklist_is_not_prolonged:
  assumes "\<not> fst (sd_is_blacklisted t0 ex symb d)" and "\<forall>op \<in> set ops. op_time op < t0 + ttl"
  shows "fst (sd_is_blacklisted now ex symb (fold sd_step ops (sd_add_blacklist t0 ex symb (Some ttl) d))) \<longleftrightarrow> now < t0 + ttl"
proof -
  have "map_of (sd_blacklist (sd_add_blacklist t0 ex symb (Some ttl) d)) (ex, symb) = Some (t0 + ttl)"
    using assms(1) by (auto simp: sd_add_blacklist_def sd_is_blacklisted_def split: option.splits)
  from sd_steps_keep [OF this assms(2)] show ?thesis by (simp add: sd_is_blacklisted_def)
qed

lemma blacklist_is_not_prolonged_witness:
  "\<not> fst (sd_is_blacklisted 300 ''okx'' ''X'' (fold sd_step [AddPair 200 ''okx'' ''X'' None, AskPair 299 ''okx'' ''X'']
     (sd_add_blacklist 0 ''okx'' ''X'' (Some 300) (detector_new None None 2))))"
  using blacklist_is_not_prolonged [of 0 "''okx''" "''X''" "detector_new None None 2" "[AddPair 200 ''okx'' ''X'' None, AskPair 299 ''okx'' ''X'']" 300 300]
  by (simp add: sd_is_blacklisted_def [of 0] detector_new_def)

subsection \<open>Deviations\<close>

text \<open>The number of an update that an earlier layer rejects is not recorded, so the next good update, which follows it
  directly, is reported as a gap.\<close>

lemma rejected_update_opens_a_gap:
  assumes "\<not> check_cross_exchange ex symb book all_books d" and "map_of (sd_last_seq d) (ex, symb) = Some n" and "2 \<le> k"
    and "check_all_layers now ex symb book all_books (Some (n + k)) spread d = (r, d')"
  shows "\<not> fst (check_all_layers now' ex symb book' all_books' (Some (n + k + 1)) spread' d')"
  using assms by (auto simp: check_all_layers_def check_sequence_gap_def Let_def)

text \<open>Numbers that run backwards are no gap.\<close>

lemma backward_sequence_passes:
  "map_of (sd_last_seq d) (ex, symb) = Some prev \<Longrightarrow> n \<le> prev \<Longrightarrow> fst (check_sequence_gap ex symb (Some n) d)"
  by (simp add: check_sequence_gap_def Let_def)

end
