(* ===== verification/Sizing.thy ===== *)
theory Sizing
  imports BudgetLedger
begin

text \<open>
  \<open>engine/src/execution/sizer.py\<close>, \<open>engine/src/core/capital_allocator.py\<close> and
  \<open>engine/src/core/balance_tracker.py\<close> with \<open>engine/src/core/inventory_rebalancer.py\<close>: how large a trade may be,
  how the capital is divided and when it should be moved.  The sigmoid of the confidence is a
  parameter, a number the caller gives for an edge.  Left out: the file the allocator writes, time stamps.
\<close>

subsection \<open>Kelly sizes\<close>

record sizer_config =
  sz_capital :: decimal
  sz_trade_pct :: decimal
  sz_strategy_pct :: decimal

definition sizer_default :: "decimal \<Rightarrow> sizer_config" where
  "sizer_default c = \<lparr>sz_capital = c, sz_trade_pct = 2 / 100, sz_strategy_pct = 30 / 100\<rparr>"

definition kelly_fraction :: "decimal \<Rightarrow> decimal \<Rightarrow> pyfloat \<Rightarrow> pyfloat" where
  "kelly_fraction win_prob ratio mult =
     (let b = ratio; p = win_prob; q = 1 - p
      in if b \<le> 0 then 0 else max 0 ((b * p - q) / b) * mult)"

definition compute_size :: "sizer_config \<Rightarrow> decimal \<Rightarrow> decimal \<Rightarrow> decimal \<Rightarrow> decimal \<Rightarrow> pyfloat \<Rightarrow> decimal" where
  "compute_size cfg win_prob ratio price used mult =
     (let capital = sz_capital cfg; remaining = capital * sz_strategy_pct cfg - used
      in if remaining \<le> 0 then 0
         else let f = kelly_fraction win_prob ratio mult
              in if f \<le> 0 then 0
                 else let v = min (min (capital * f) (capital * sz_trade_pct cfg)) remaining
                      in if price \<le> 0 then 0 else v / price)"

definition compute_margin :: "decimal \<Rightarrow> int \<Rightarrow> bool \<Rightarrow> decimal" where
  "compute_margin v leverage cross = (if leverage \<le> 0 then v else v / of_int leverage)"

definition check_post_leg1_margin :: "decimal \<Rightarrow> decimal \<Rightarrow> int \<Rightarrow> bool \<Rightarrow> bool" where
  "check_post_leg1_margin available v leverage cross \<longleftrightarrow> compute_margin v leverage cross \<le> available"

datatype market_regime = CRISIS | HIGH | VOLATILE | MEDIUM | NORMAL | LOW | CALM

fun regime_multiplier :: "market_regime \<Rightarrow> pyfloat" where
  "regime_multiplier CRISIS = 25 / 100"
| "regime_multiplier HIGH = 75 / 100"
| "regime_multiplier VOLATILE = 75 / 100"
| "regime_multiplier MEDIUM = 1"
| "regime_multiplier NORMAL = 1"
| "regime_multiplier LOW = 3 / 2"
| "regime_multiplier CALM = 3 / 2"

record dynamic_sizer =
  ds_base :: sizer_config
  ds_liquidity :: decimal
  ds_scales :: "string \<rightharpoonup> pyfloat"

definition set_correlation_scale :: "string \<Rightarrow> pyfloat \<Rightarrow> dynamic_sizer \<Rightarrow> dynamic_sizer" where
  "set_correlation_scale sid s d = d\<lparr>ds_scales := (ds_scales d)(sid \<mapsto> max 0 (min s 1))\<rparr>"

definition liquidity_factor :: "decimal \<Rightarrow> decimal \<Rightarrow> pyfloat" where
  "liquidity_factor depth thr = (if thr \<le> 0 then 1 else min 1 (depth / thr))"

definition combined_multiplier :: "(pyfloat \<Rightarrow> pyfloat) \<Rightarrow> pyfloat \<Rightarrow> market_regime \<Rightarrow> decimal \<Rightarrow> string \<Rightarrow> dynamic_sizer \<Rightarrow> pyfloat" where
  "combined_multiplier confidence edge regime depth sid d =
     min (confidence edge * regime_multiplier regime * liquidity_factor depth (ds_liquidity d)
            * (case ds_scales d sid of None \<Rightarrow> 1 | Some s \<Rightarrow> s)) (3 / 2)"

definition compute_dynamic_size ::
    "(pyfloat \<Rightarrow> pyfloat) \<Rightarrow> decimal \<Rightarrow> decimal \<Rightarrow> decimal \<Rightarrow> string \<Rightarrow> decimal \<Rightarrow> pyfloat \<Rightarrow> market_regime \<Rightarrow> decimal \<Rightarrow> pyfloat \<Rightarrow> dynamic_sizer \<Rightarrow> decimal"
  where
  "compute_dynamic_size confidence win_prob ratio price sid used edge regime depth mult d =
     compute_size (ds_base d) win_prob ratio price used mult * combined_multiplier confidence edge regime depth sid d"

subsection \<open>Allocation of the capital\<close>

record strategy_stats =
  ss_win_rate :: pyfloat
  ss_avg_win :: pyfloat
  ss_avg_loss :: pyfloat
  ss_trades :: nat

record allocation =
  al_strategy :: string
  al_kelly :: pyfloat
  al_half :: pyfloat
  al_pct :: pyfloat
  al_stats :: strategy_stats

record allocator =
  ca_total :: pyfloat
  ca_max :: pyfloat
  ca_min :: pyfloat
  ca_min_trades :: nat

definition allocator_default :: allocator where
  "allocator_default = \<lparr>ca_total = 10000, ca_max = 40 / 100, ca_min = 2 / 100, ca_min_trades = 30\<rparr>"

definition raw_kelly :: "strategy_stats \<Rightarrow> pyfloat" where
  "raw_kelly s =
     (if ss_avg_loss s \<le> 0 \<or> ss_avg_win s \<le> 0 \<or> \<not> (0 < ss_win_rate s \<and> ss_win_rate s < 1) then 0
      else let b = ss_avg_win s / ss_avg_loss s; p = ss_win_rate s; q = 1 - p in max ((b * p - q) / b) 0)"

definition allocate_one :: "allocator \<Rightarrow> string \<times> strategy_stats \<Rightarrow> allocation list" where
  "allocate_one ca = (\<lambda>(sid, s).
     if ss_trades s < ca_min_trades ca then []
     else let f = raw_kelly s; h = f / 2
          in [\<lparr>al_strategy = sid, al_kelly = f, al_half = h, al_pct = max (ca_min ca) (min h (ca_max ca)), al_stats = s\<rparr>])"

definition total_pct :: "allocation list \<Rightarrow> pyfloat" where
  "total_pct as = (\<Sum>a\<leftarrow>as. al_pct a)"

definition scale_pct :: "pyfloat \<Rightarrow> allocation list \<Rightarrow> allocation list" where
  "scale_pct k as = map (\<lambda>a. a\<lparr>al_pct := al_pct a * k\<rparr>) as"

definition normalize :: "allocation list \<Rightarrow> allocation list" where
  "normalize as = (if 1 < total_pct as \<and> as \<noteq> [] then scale_pct (1 / total_pct as) as else as)"

definition compute_allocations :: "allocator \<Rightarrow> (string, strategy_stats) dict \<Rightarrow> allocation list" where
  "compute_allocations ca stats = normalize (concat (map (allocate_one ca) stats))"

fun allocation_usd :: "allocator \<Rightarrow> allocation list \<Rightarrow> string \<Rightarrow> pyfloat" where
  "allocation_usd ca [] sid = 0"
| "allocation_usd ca (a # as) sid = (if al_strategy a = sid then al_pct a * ca_total ca else allocation_usd ca as sid)"

definition regime_kelly :: "string \<Rightarrow> pyfloat" where
  "regime_kelly r = dict_get [(''bull'', 1), (''neutral'', 7 / 10), (''bear'', 4 / 10), (''crisis'', 1 / 10)] r (7 / 10)"

definition allocate_with_regime :: "bool \<Rightarrow> allocator \<Rightarrow> (string, strategy_stats) dict \<Rightarrow> string \<Rightarrow> allocation list" where
  "allocate_with_regime enabled ca stats regime =
     (if \<not> enabled then compute_allocations ca stats
      else normalize (scale_pct (regime_kelly regime) (compute_allocations ca stats)))"

subsection \<open>Balances\<close>

record balance_snapshot =
  bs_exchange :: string
  bs_total :: pyfloat
  bs_available :: pyfloat
  bs_locked :: pyfloat

record balance_tracker =
  bt_min :: pyfloat
  bt_history_max :: nat
  bt_history :: "(string, balance_snapshot list) dict"
  bt_latest :: "(string, balance_snapshot) dict"

definition balance_new :: "pyfloat \<Rightarrow> nat \<Rightarrow> balance_tracker" where
  "balance_new m n = \<lparr>bt_min = m, bt_history_max = n, bt_history = [], bt_latest = []\<rparr>"

definition record_balance :: "string \<Rightarrow> pyfloat \<Rightarrow> pyfloat \<Rightarrow> pyfloat \<Rightarrow> balance_tracker \<Rightarrow> balance_tracker" where
  "record_balance ex tot available locked b =
     (let s = \<lparr>bs_exchange = ex, bs_total = tot, bs_available = available, bs_locked = locked\<rparr>;
          hist = dict_get (bt_history b) ex [] @ [s];
          hist' = (if bt_history_max b < length hist then tl hist else hist)
      in b\<lparr>bt_history := AList.update ex hist' (bt_history b), bt_latest := AList.update ex s (bt_latest b)\<rparr>)"

definition is_below_threshold :: "string \<Rightarrow> balance_tracker \<Rightarrow> bool" where
  "is_below_threshold ex b = (case map_of (bt_latest b) ex of None \<Rightarrow> False | Some s \<Rightarrow> bs_available s < bt_min b)"

definition low_balance_exchanges :: "balance_tracker \<Rightarrow> string list" where
  "low_balance_exchanges b = filter (\<lambda>ex. is_below_threshold ex b) (dict_keys (bt_latest b))"

definition compute_size_scale :: "string \<Rightarrow> pyfloat \<Rightarrow> balance_tracker \<Rightarrow> pyfloat" where
  "compute_size_scale ex target b =
     (case map_of (bt_latest b) ex of
        None \<Rightarrow> 0
      | Some s \<Rightarrow>
          if target \<le> 0 then 0
          else if target \<le> bs_available s then 1
          else if bs_available s \<le> 0 then 0
          else bs_available s / target)"

definition total_balance :: "balance_tracker \<Rightarrow> pyfloat" where
  "total_balance b = (\<Sum>s\<leftarrow>map snd (bt_latest b). bs_available s)"

subsection \<open>Moving the capital\<close>

record rebalancer =
  rb_threshold :: pyfloat
  rb_min_transfer :: pyfloat
  rb_weights :: "(string, pyfloat) dict"

definition rebalancer_new :: rebalancer where
  "rebalancer_new = \<lparr>rb_threshold = 30 / 100, rb_min_transfer = 50, rb_weights = []\<rparr>"

record transfer =
  tf_from :: string
  tf_to :: string
  tf_amount :: pyfloat

definition set_target_weights :: "(string, pyfloat) dict \<Rightarrow> rebalancer \<Rightarrow> rebalancer" where
  "set_target_weights ws r =
     (let s = (\<Sum>w\<leftarrow>map snd ws. w)
      in r\<lparr>rb_weights := (if 0 < s then map (\<lambda>(k, v). (k, v / s)) ws else ws)\<rparr>)"

definition compute_deviations :: "rebalancer \<Rightarrow> balance_tracker \<Rightarrow> (string, pyfloat) dict" where
  "compute_deviations r b =
     (let tot = total_balance b; exs = bt_latest b
      in if tot \<le> 0 \<or> exs = [] then []
         else let targets = (if rb_weights r = [] then map (\<lambda>(e, _). (e, 1 / of_nat (length exs))) exs else rb_weights r)
              in map (\<lambda>(e, s). (e, bs_available s / tot - dict_get targets e 0)) exs)"

definition suggest_one :: "rebalancer \<Rightarrow> pyfloat \<Rightarrow> string \<times> pyfloat \<Rightarrow> string \<times> pyfloat \<Rightarrow> transfer list" where
  "suggest_one r tot ov un =
     (let amount = min (snd ov) \<bar>snd un\<bar> / 2 * tot
      in if amount < rb_min_transfer r then []
         else [\<lparr>tf_from = fst ov, tf_to = fst un, tf_amount = of_int (round_half_even (amount * 100)) / 100\<rparr>])"

definition check_and_suggest :: "rebalancer \<Rightarrow> balance_tracker \<Rightarrow> transfer list" where
  "check_and_suggest r b =
     (let devs = compute_deviations r b; tot = total_balance b;
          ov = filter (\<lambda>(e, d). rb_threshold r < d) devs;
          un = filter (\<lambda>(e, d). \<not> rb_threshold r < d \<and> d < - rb_threshold r) devs
      in concat (map (\<lambda>o1. concat (map (suggest_one r tot o1) (sort_key snd un))) (sort_key (\<lambda>x. - snd x) ov)))"

definition has_critical_imbalance :: "rebalancer \<Rightarrow> balance_tracker \<Rightarrow> bool" where
  "has_critical_imbalance r b = list_ex (\<lambda>(e, d). rb_threshold r * 2 < \<bar>d\<bar>) (compute_deviations r b)"

subsection \<open>Lemmas\<close>

lemma total_scale: "total_pct (scale_pct k as) = total_pct as * k"
  by (induction as) (simp_all add: total_pct_def scale_pct_def algebra_simps)

lemma total_normalize: "total_pct (normalize as) = min 1 (total_pct as)"
proof (cases "1 < total_pct as")
  case True
  then have "as \<noteq> []" by (auto simp: total_pct_def)
  then show ?thesis using True by (simp add: normalize_def total_scale)
qed (simp add: normalize_def)

lemma normalize_shrinks:
  "a \<in> set (normalize as) \<Longrightarrow> (\<forall>x \<in> set as. 0 \<le> al_pct x \<and> al_pct x \<le> m) \<Longrightarrow> 0 \<le> al_pct a \<and> al_pct a \<le> m"
proof -
  assume a: "a \<in> set (normalize as)" and b: "\<forall>x \<in> set as. 0 \<le> al_pct x \<and> al_pct x \<le> m"
  show ?thesis
  proof (cases "1 < total_pct as \<and> as \<noteq> []")
    case True
    then obtain x where x: "x \<in> set as" "a = x\<lparr>al_pct := al_pct x * (1 / total_pct as)\<rparr>"
      using a by (auto simp: normalize_def scale_pct_def)
    then have "0 \<le> al_pct x" "al_pct x \<le> m" using b by auto
    moreover have "al_pct x / total_pct as \<le> al_pct x / 1" using True \<open>0 \<le> al_pct x\<close> by (intro divide_left_mono) auto
    ultimately show ?thesis using x(2) True by auto
  qed (use a b in \<open>auto simp: normalize_def\<close>)
qed

lemma allocate_bounds:
  "0 \<le> ca_min ca \<Longrightarrow> ca_min ca \<le> ca_max ca \<Longrightarrow> a \<in> set (concat (map (allocate_one ca) stats)) \<Longrightarrow> 0 \<le> al_pct a \<and> al_pct a \<le> ca_max ca"
  by (auto simp: allocate_one_def Let_def split: if_splits)

lemma kelly_nonneg: "0 \<le> mult \<Longrightarrow> 0 \<le> kelly_fraction p r mult"
  by (simp add: kelly_fraction_def Let_def)

lemma size_value:
  assumes "0 < price"
  shows "compute_size cfg p r price used mult * price \<le> max 0 (sz_capital cfg * sz_trade_pct cfg)"
    and "compute_size cfg p r price used mult * price \<le> max 0 (sz_capital cfg * sz_strategy_pct cfg - used)"
  using assms by (auto simp: compute_size_def Let_def)

lemma size_nonneg: "0 \<le> sz_capital cfg \<Longrightarrow> 0 \<le> sz_trade_pct cfg \<Longrightarrow> 0 \<le> compute_size cfg p r price used mult"
  by (auto simp: compute_size_def Let_def)

lemma combined_bounds:
  assumes "0 \<le> confidence edge" and "\<forall>s. ds_scales d sid = Some s \<longrightarrow> 0 \<le> s" and "0 \<le> depth"
  shows "0 \<le> combined_multiplier confidence edge regime depth sid d \<and> combined_multiplier confidence edge regime depth sid d \<le> 3 / 2"
proof -
  have "0 \<le> regime_multiplier regime" by (cases regime) simp_all
  moreover have "0 \<le> liquidity_factor depth (ds_liquidity d)" using assms(3) by (simp add: liquidity_factor_def)
  moreover have "0 \<le> (case ds_scales d sid of None \<Rightarrow> 1 | Some s \<Rightarrow> s)" using assms(2) by (auto split: option.split)
  ultimately show ?thesis using assms(1) by (simp add: combined_multiplier_def)
qed

text \<open>The scale of a strategy, once set, lies between 0 and 1.\<close>

definition scales_ok :: "dynamic_sizer \<Rightarrow> bool" where
  "scales_ok d \<longleftrightarrow> (\<forall>sid s. ds_scales d sid = Some s \<longrightarrow> 0 \<le> s \<and> s \<le> 1)"

lemma scales_ok_set: "scales_ok d \<Longrightarrow> scales_ok (set_correlation_scale sid s d)"
  by (auto simp: scales_ok_def set_correlation_scale_def)

lemma scales_ok_run: "scales_ok d \<Longrightarrow> scales_ok (fold (\<lambda>(sid, s). set_correlation_scale sid s) ss d)"
  by (induction ss arbitrary: d) (auto intro: scales_ok_set)

subsection \<open>Properties\<close>

text \<open>Whatever the figures of the strategies are, with or without the regime, the parts of the capital handed out add
  up to at most the whole, and each lies between nothing and the maximum of a single strategy.\<close>

lemma allocations_fit_the_capital:
  assumes "0 \<le> ca_min ca" and "ca_min ca \<le> ca_max ca" and "as = allocate_with_regime enabled ca stats regime"
  shows "total_pct as \<le> 1 \<and> list_all (\<lambda>a. 0 \<le> al_pct a \<and> al_pct a \<le> ca_max ca) as"
proof -
  have b: "\<forall>x \<in> set (compute_allocations ca stats). 0 \<le> al_pct x \<and> al_pct x \<le> ca_max ca"
    using normalize_shrinks allocate_bounds [OF assms(1,2)] unfolding compute_allocations_def by blast
  have k: "0 \<le> regime_kelly regime \<and> regime_kelly regime \<le> 1" by (simp add: regime_kelly_def dict_get_def)
  have "\<forall>x \<in> set (scale_pct (regime_kelly regime) (compute_allocations ca stats)). 0 \<le> al_pct x \<and> al_pct x \<le> ca_max ca"
  proof
    fix x assume "x \<in> set (scale_pct (regime_kelly regime) (compute_allocations ca stats))"
    then obtain y where y: "y \<in> set (compute_allocations ca stats)" "al_pct x = al_pct y * regime_kelly regime"
      by (auto simp: scale_pct_def)
    then have "0 \<le> al_pct y" "al_pct y \<le> ca_max ca" using b by auto
    then show "0 \<le> al_pct x \<and> al_pct x \<le> ca_max ca"
      using k y(2) mult_left_le [of "regime_kelly regime" "al_pct y"] by auto
  qed
  note sc = this
  show ?thesis
  proof (cases enabled)
    case True
    then have as: "as = normalize (scale_pct (regime_kelly regime) (compute_allocations ca stats))"
      using assms(3) by (simp add: allocate_with_regime_def)
    show ?thesis using normalize_shrinks [OF _ sc] by (auto simp: as total_normalize list_all_iff)
  next
    case False
    then have as: "as = compute_allocations ca stats" using assms(3) by (simp add: allocate_with_regime_def)
    have "total_pct as \<le> 1" by (simp add: as compute_allocations_def total_normalize)
    then show ?thesis using b by (simp add: as list_all_iff)
  qed
qed

lemma allocations_fit_the_capital_witness:
  "total_pct (allocate_with_regime True allocator_default (map (\<lambda>i. ([i], \<lparr>ss_win_rate = 9 / 10, ss_avg_win = 2, ss_avg_loss = 1, ss_trades = 50\<rparr>)) ''abc'') ''bull'') \<le> 1"
  using allocations_fit_the_capital [of allocator_default _ True] by (simp add: allocator_default_def)

text \<open>A sized trade is worth at most the trade limit and at most what its strategy has left, and is never negative;
  after the dynamic adjustment it is worth at most one and a half times the trade limit.\<close>

lemma sized_trade_fits_limits:
  assumes "0 < price" and "0 \<le> sz_capital (ds_base d)" and "0 \<le> sz_trade_pct (ds_base d)" and "0 \<le> confidence edge" and "0 \<le> depth"
    and "d = fold (\<lambda>(sid, s). set_correlation_scale sid s) ss \<lparr>ds_base = cfg, ds_liquidity = thr, ds_scales = Map.empty\<rparr>"
    and "base = compute_size (ds_base d) p r price used mult"
    and "sized = compute_dynamic_size confidence p r price sid used edge regime depth mult d"
  shows "0 \<le> base \<and> base * price \<le> sz_capital (ds_base d) * sz_trade_pct (ds_base d)
    \<and> base * price \<le> max 0 (sz_capital (ds_base d) * sz_strategy_pct (ds_base d) - used)
    \<and> 0 \<le> sized \<and> sized * price \<le> 3 / 2 * (sz_capital (ds_base d) * sz_trade_pct (ds_base d))"
proof -
  have "scales_ok \<lparr>ds_base = cfg, ds_liquidity = thr, ds_scales = Map.empty\<rparr>" by (simp add: scales_ok_def)
  from scales_ok_run [OF this, of ss] have "scales_ok d" by (simp add: assms(6))
  then have s: "\<forall>s. ds_scales d sid = Some s \<longrightarrow> 0 \<le> s" by (simp add: scales_ok_def)
  define k where "k = combined_multiplier confidence edge regime depth sid d"
  have k: "0 \<le> k" "k \<le> 3 / 2" using combined_bounds [of confidence edge, OF assms(4) s assms(5)] by (auto simp: k_def)
  have c: "0 \<le> sz_capital (ds_base d) * sz_trade_pct (ds_base d)" using assms(2,3) by simp
  have b: "0 \<le> base" "base * price \<le> sz_capital (ds_base d) * sz_trade_pct (ds_base d)"
    using size_nonneg [OF assms(2,3)] size_value(1) [OF assms(1), of "ds_base d" p r used mult] c by (auto simp: assms(7))
  have "sized = base * k" by (simp add: assms(7,8) compute_dynamic_size_def k_def)
  moreover have "base * price * k \<le> sz_capital (ds_base d) * sz_trade_pct (ds_base d) * (3 / 2)"
    using b(2) k c assms(1) b(1) by (rule_tac mult_mono) auto
  ultimately show ?thesis
    using b k size_value(2) [OF assms(1), of "ds_base d" p r used mult] by (simp add: assms(7) algebra_simps)
qed

definition ex_sizer :: dynamic_sizer where
  "ex_sizer = fold (\<lambda>(sid, s). set_correlation_scale sid s) [(''ff'', 2)]
     \<lparr>ds_base = sizer_default 1000, ds_liquidity = 10000, ds_scales = Map.empty\<rparr>"

lemma sized_trade_fits_limits_witness:
  "compute_dynamic_size (\<lambda>_. 9 / 10) (6 / 10) 2 100 ''ff'' 0 20 CALM 20000 (1 / 2) ex_sizer * 100 \<le> 30"
proof -
  have b: "ds_base ex_sizer = sizer_default 1000"
    by (simp add: ex_sizer_def set_correlation_scale_def)
  have h: "0 \<le> sz_capital (ds_base ex_sizer)" "0 \<le> sz_trade_pct (ds_base ex_sizer)" by (simp_all add: b sizer_default_def)
  show ?thesis
    using sized_trade_fits_limits [where price = 100 and confidence = "\<lambda>_. 9 / 10" and edge = 20 and depth = 20000 and p = "6 / 10" and r = 2
        and used = 0 and mult = "1 / 2" and sid = "''ff''" and regime = CALM, OF _ h _ _ ex_sizer_def refl refl]
    by (simp add: b sizer_default_def)
qed

subsection \<open>Deviations\<close>

text \<open>The clamp of the dynamic multiplier is at 1.5, so the trade limit of the base sizer is not kept.\<close>

lemma dynamic_size_exceeds_the_limit:
  "compute_dynamic_size (\<lambda>_. 9 / 10) (6 / 10) 2 100 ''ff'' 0 50 CALM 20000 (1 / 2) ex_sizer * 100
     > sz_capital (ds_base ex_sizer) * sz_trade_pct (ds_base ex_sizer)"
  by (simp add: ex_sizer_def set_correlation_scale_def compute_dynamic_size_def combined_multiplier_def compute_size_def
      kelly_fraction_def sizer_default_def liquidity_factor_def Let_def)

text \<open>A strategy whose figures promise a loss still gets the minimum part.\<close>

lemma losing_strategy_gets_the_minimum:
  assumes "raw_kelly s = 0" and "ca_min_trades ca \<le> ss_trades s" and "0 \<le> ca_min ca" and "0 \<le> ca_max ca" and "ca_min ca \<le> 1"
  shows "map al_pct (compute_allocations ca [(sid, s)]) = [ca_min ca]"
  using assms by (simp add: compute_allocations_def allocate_one_def normalize_def total_pct_def Let_def)

text \<open>Every pair of a rich and a poor exchange gets a suggestion of its own, so with three of each the suggestions take more
  from an exchange than it holds.\<close>

definition ex_balances :: balance_tracker where
  "ex_balances = fold (\<lambda>(e, a). record_balance e a a 0)
     [(''a'', 310), (''b'', 310), (''c'', 310), (''x'', 20), (''y'', 25), (''z'', 25)] (balance_new 100 288)"

definition ex_rebalancer :: rebalancer where
  "ex_rebalancer = set_target_weights [(''x'', 1), (''y'', 1), (''z'', 1)] rebalancer_new"

lemma suggestions_can_overdraw:
  "(\<Sum>t\<leftarrow>filter (\<lambda>t. tf_from t = ''a'') (check_and_suggest ex_rebalancer ex_balances). tf_amount t) > 310"
  by (simp add: ex_balances_def ex_rebalancer_def set_target_weights_def rebalancer_new_def record_balance_def balance_new_def
      check_and_suggest_def compute_deviations_def total_balance_def suggest_one_def round_half_even_def dict_get_def Let_def)

end
