(* ===== verification/OrderRouter.thy ===== *)
theory OrderRouter
  imports OrderState
begin

text \<open>
  \<open>engine/src/execution/router.py\<close>: the boundary in front of the exchange adapters.  \<open>submit\<close> is cut where
  it waits for the adapter: \<open>begin_submit\<close> runs up to the call, \<open>finish_submit\<close> from its answer on, and
  between the two other submits may run.  The adapter's answer, the environment flag and the clock are
  arguments; \<open>rt_calls\<close> lists the orders that were sent, in order.
\<close>

record route_result =
  rr_order_id :: string
  rr_client_id :: string
  rr_state :: string
  rr_seq :: "nat option"

record router =
  rt_machine :: "bool option"
  rt_ttl :: secs
  rt_dedup :: "(string, secs \<times> route_result) dict"
  rt_calls :: "string list"

definition router_new :: "bool option \<Rightarrow> secs \<Rightarrow> router" where
  "router_new sm ttl = \<lparr>rt_machine = sm, rt_ttl = ttl, rt_dedup = [], rt_calls = []\<rparr>"

text \<open>\<open>f"{trace_id}.{leg_index}"\<close>\<close>

declare nat_text.simps [simp del]

definition client_order_id :: "string \<Rightarrow> nat \<Rightarrow> string" where
  "client_order_id trace leg = trace @ ''.'' @ nat_text leg"

definition evict_expired :: "secs \<Rightarrow> router \<Rightarrow> router" where
  "evict_expired now rt = rt\<lparr>rt_dedup := filter (\<lambda>(k, t, r). \<not> rt_ttl rt \<le> now - t) (rt_dedup rt)\<rparr>"

text \<open>
  The state machine is called with the texts of the states instead of the members of the enumeration: a text is
  found in its table, but has no \<open>value\<close>.
\<close>

definition transition_text :: "bool \<Rightarrow> string \<Rightarrow> string \<Rightarrow> nat option outcome" where
  "transition_text sm_flag src dst = (if \<not> sm_flag then Returned None else Raised ''AttributeError'')"

definition emit_sent :: "router \<Rightarrow> nat option" where
  "emit_sent rt =
     (case rt_machine rt of
        None \<Rightarrow> None
      | Some sm_flag \<Rightarrow> (case transition_text sm_flag ''PENDING'' ''SENT'' of Returned ev \<Rightarrow> ev | _ \<Rightarrow> None))"

text \<open>Up to the call: a cached result, or the order is sent and the number of the journal event kept.\<close>

definition begin_submit :: "bool \<Rightarrow> secs \<Rightarrow> string \<Rightarrow> router \<Rightarrow> (route_result + nat option) \<times> router" where
  "begin_submit flag now coid rt =
     (if \<not> flag then (Inr None, rt\<lparr>rt_calls := rt_calls rt @ [coid]\<rparr>)
      else let rt1 = evict_expired now rt
           in case map_of (rt_dedup rt1) coid of
                Some (t, r) \<Rightarrow> (Inl r, rt1)
              | None \<Rightarrow> (Inr (emit_sent rt1), rt1\<lparr>rt_calls := rt_calls rt1 @ [coid]\<rparr>))"

definition route_result_of :: "string \<Rightarrow> string \<Rightarrow> nat option \<Rightarrow> route_result" where
  "route_result_of coid oid ev = \<lparr>rr_order_id = oid, rr_client_id = coid, rr_state = ''SENT'', rr_seq = ev\<rparr>"

definition finish_submit :: "bool \<Rightarrow> secs \<Rightarrow> string \<Rightarrow> nat option \<Rightarrow> string outcome \<Rightarrow> router \<Rightarrow> (string + route_result) \<times> router" where
  "finish_submit flag now coid ev answer rt =
     (case answer of
        TimedOut \<Rightarrow> (Inl ''TimeoutError'', rt)
      | Raised e \<Rightarrow> (Inl e, rt)
      | Returned oid \<Rightarrow>
          let r = route_result_of coid oid ev
          in (Inr r, if flag then rt\<lparr>rt_dedup := AList.update coid (now, r) (rt_dedup rt)\<rparr> else rt))"

text \<open>A submit during which no other one runs.\<close>

definition submit :: "bool \<Rightarrow> secs \<Rightarrow> secs \<Rightarrow> string outcome \<Rightarrow> string \<Rightarrow> nat \<Rightarrow> router \<Rightarrow> (string + route_result) \<times> router" where
  "submit flag now now' answer trace leg rt =
     (let coid = client_order_id trace leg
      in case begin_submit flag now coid rt of
           (Inl r, rt1) \<Rightarrow> (Inr r, rt1)
         | (Inr ev, rt1) \<Rightarrow> finish_submit flag now' coid ev answer rt1)"

subsection \<open>Client ids\<close>

definition dot_free :: "string \<Rightarrow> bool" where
  "dot_free s \<longleftrightarrow> CHR ''.'' \<notin> set s"

lemma digit_char: "(n :: nat) < 10 \<Longrightarrow> (char_of (48 + n) :: char) \<noteq> CHR ''.''"
proof
  assume n: "n < 10" and e: "(char_of (48 + n) :: char) = CHR ''.''"
  from arg_cong [OF e, of "of_char :: char \<Rightarrow> nat"] show False using n by simp
qed

lemma digit_inj: "(m :: nat) < 10 \<Longrightarrow> n < 10 \<Longrightarrow> (char_of (48 + m) :: char) = char_of (48 + n) \<longleftrightarrow> m = n"
  by (auto dest!: arg_cong [where f = "of_char :: char \<Rightarrow> nat"] simp: of_char_of)

lemma digits_dot_free: "dot_free (nat_text n)"
proof (induction n rule: nat_text.induct)
  case (1 n)
  then show ?case
    using digit_char [of n] digit_char [of "n mod 10"] by (subst nat_text.simps) (auto simp: dot_free_def)
qed

lemma digits_nonempty: "nat_text n \<noteq> []"
  by (subst nat_text.simps) simp

lemma digits_inj: "nat_text m = nat_text n \<Longrightarrow> m = n"
proof (induction m arbitrary: n rule: nat_text.induct)
  case (1 m)
  show ?case
  proof (cases "m < 10")
    case True
    have "n < 10"
      using 1(2) True digits_nonempty [of "n div 10"] by (subst (asm) (1 2) nat_text.simps) (auto split: if_splits)
    then show ?thesis
      using 1(2) True digit_inj [of m n] by (subst (asm) (1 2) nat_text.simps) simp
  next
    case False
    have n: "\<not> n < 10"
      using 1(2) False digits_nonempty [of "m div 10"] by (subst (asm) (1 2) nat_text.simps) (auto split: if_splits)
    then have "nat_text (m div 10) = nat_text (n div 10) \<and> (char_of (48 + m mod 10) :: char) = char_of (48 + n mod 10)"
      using 1(2) False by (subst (asm) (1 2) nat_text.simps) simp
    then have "m div 10 = n div 10" "m mod 10 = n mod 10"
      using 1(1) [OF False] digit_inj [of "m mod 10" "n mod 10"] by auto
    then show ?thesis by (metis div_mult_mod_eq)
  qed
qed

lemma last_dot_unique:
  assumes "dot_free d" and "dot_free d'" and "t @ CHR ''.'' # d = t' @ CHR ''.'' # d'"
  shows "t = t' \<and> d = d'"
proof -
  have "takeWhile (\<lambda>c. c \<noteq> CHR ''.'') (rev d @ CHR ''.'' # rev t) = rev d" if "dot_free d" for t d
    using that by (subst takeWhile_append2) (auto simp: dot_free_def)
  from this [OF assms(1), of t] this [OF assms(2), of t'] have "rev d = rev d'" using arg_cong [OF assms(3), of rev] by simp
  then show ?thesis using assms(3) by simp
qed

lemma client_order_id_inj: "client_order_id t i = client_order_id t' i' \<longleftrightarrow> t = t' \<and> i = i'"
  using last_dot_unique [OF digits_dot_free digits_dot_free, of t i t' i'] digits_inj [of i i']
  by (auto simp: client_order_id_def)

subsection \<open>Submits that overlap\<close>

text \<open>A run of the router, as the event loop cuts it: beginnings and ends of submits in any order.\<close>

datatype router_step = Begin secs string | Finish secs string "nat option" "string outcome"

fun router_exec :: "router_step \<Rightarrow> router \<Rightarrow> router" where
  "router_exec (Begin now coid) rt = snd (begin_submit True now coid rt)"
| "router_exec (Finish now coid ev answer) rt = snd (finish_submit True now coid ev answer rt)"

definition cached :: "string \<Rightarrow> secs \<Rightarrow> route_result \<Rightarrow> router \<Rightarrow> bool" where
  "cached coid t0 r rt \<longleftrightarrow> map_of (rt_dedup rt) coid = Some (t0, r)"

text \<open>A step that leaves the entry of \<open>coid\<close>, cached at \<open>t0\<close>, in place.\<close>

fun spares :: "string \<Rightarrow> secs \<Rightarrow> router_step \<Rightarrow> bool" where
  "spares coid deadline (Begin now _) = (now < deadline)"
| "spares coid deadline (Finish _ other _ _) = (other \<noteq> coid)"

lemma begin_hit:
  assumes "cached coid t0 r rt" and "now < t0 + rt_ttl rt"
  shows "begin_submit True now coid rt = (Inl r, evict_expired now rt)" and "cached coid t0 r (evict_expired now rt)"
proof -
  show c: "cached coid t0 r (evict_expired now rt)"
    using assms map_of_filter_keep [of "rt_dedup rt" coid "(t0, r)" "\<lambda>(k, t, r). \<not> rt_ttl rt \<le> now - t"]
    by (simp add: cached_def evict_expired_def)
  show "begin_submit True now coid rt = (Inl r, evict_expired now rt)"
    using c by (simp add: begin_submit_def cached_def)
qed

lemma begin_spares:
  assumes "cached coid t0 r rt" and "now < t0 + rt_ttl rt"
  shows "cached coid t0 r (snd (begin_submit True now other rt))"
    and "count_list (rt_calls (snd (begin_submit True now other rt))) coid = count_list (rt_calls rt) coid"
  using begin_hit [OF assms]
  by (auto simp: begin_submit_def cached_def evict_expired_def Let_def split: option.splits)

lemma ttl_kept [simp]:
  "rt_ttl (snd (begin_submit f now coid rt)) = rt_ttl rt" "rt_ttl (snd (finish_submit f now coid ev answer rt)) = rt_ttl rt"
  by (auto simp: begin_submit_def finish_submit_def evict_expired_def Let_def split: option.split outcome.split)

lemma step_spares:
  assumes "cached coid t0 r rt" and "spares coid (t0 + rt_ttl rt) st"
  shows "cached coid t0 r (router_exec st rt) \<and> rt_ttl (router_exec st rt) = rt_ttl rt
    \<and> count_list (rt_calls (router_exec st rt)) coid = count_list (rt_calls rt) coid"
proof (cases st)
  case (Begin now other)
  then show ?thesis using begin_spares [OF assms(1), of now other] assms(2) by simp
next
  case (Finish now other ev answer)
  then show ?thesis using assms by (auto simp: finish_submit_def cached_def Let_def split: outcome.split)
qed

lemma run_spares:
  assumes "cached coid t0 r rt" and "list_all (spares coid (t0 + rt_ttl rt)) sts"
  shows "cached coid t0 r (fold router_exec sts rt) \<and> rt_ttl (fold router_exec sts rt) = rt_ttl rt
    \<and> count_list (rt_calls (fold router_exec sts rt)) coid = count_list (rt_calls rt) coid"
  using assms
proof (induction sts arbitrary: rt)
  case (Cons st sts)
  then show ?case using step_spares [of coid t0 r rt st] by simp
qed simp



subsection \<open>Distinct legs\<close>

text \<open>Submits that run to their end one after the other.\<close>

fun submit_all :: "(secs \<times> secs \<times> string outcome \<times> string \<times> nat) list \<Rightarrow> router \<Rightarrow> router" where
  "submit_all [] rt = rt"
| "submit_all ((now, now', answer, trace, leg) # xs) rt = submit_all xs (snd (submit True now now' answer trace leg rt))"

lemma submit_fresh:
  assumes "client_order_id trace leg \<notin> fst ` set (rt_dedup rt)"
  shows "rt_calls (snd (submit True now now' answer trace leg rt)) = rt_calls rt @ [client_order_id trace leg]"
    and "fst ` set (rt_dedup (snd (submit True now now' answer trace leg rt))) \<subseteq> insert (client_order_id trace leg) (fst ` set (rt_dedup rt))"
proof -
  let ?c = "client_order_id trace leg"
  have n: "map_of (rt_dedup (evict_expired now rt)) ?c = None"
    using assms by (auto simp: evict_expired_def map_of_eq_None_iff)
  have sub: "fst ` set (rt_dedup (evict_expired now rt)) \<subseteq> fst ` set (rt_dedup rt)" by (auto simp: evict_expired_def)
  show "rt_calls (snd (submit True now now' answer trace leg rt)) = rt_calls rt @ [?c]"
    using n by (cases answer) (auto simp: submit_def begin_submit_def finish_submit_def Let_def evict_expired_def)
  show "fst ` set (rt_dedup (snd (submit True now now' answer trace leg rt))) \<subseteq> insert ?c (fst ` set (rt_dedup rt))"
    using n sub by (cases answer) (auto simp: submit_def begin_submit_def finish_submit_def Let_def dom_update)
qed

lemma distinct_legs_are_all_sent:
  assumes "distinct (map (snd \<circ> snd \<circ> snd) xs)"
    and "\<And>trace leg. (trace, leg) \<in> (snd \<circ> snd \<circ> snd) ` set xs \<Longrightarrow> client_order_id trace leg \<notin> fst ` set (rt_dedup rt)"
  shows "rt_calls (submit_all xs rt) = rt_calls rt @ map (case_prod client_order_id \<circ> snd \<circ> snd \<circ> snd) xs"
  using assms
proof (induction xs arbitrary: rt)
  case (Cons x xs)
  obtain now now' answer trace leg where x: "x = (now, now', answer, trace, leg)" by (cases x)
  let ?rt = "snd (submit True now now' answer trace leg rt)"
  have f: "client_order_id trace leg \<notin> fst ` set (rt_dedup rt)" by (rule Cons.prems(2)) (simp add: x)
  have "client_order_id tr l \<notin> fst ` set (rt_dedup ?rt)" if "(tr, l) \<in> (snd \<circ> snd \<circ> snd) ` set xs" for tr l
  proof -
    have "(trace, leg) \<notin> (snd \<circ> snd \<circ> snd) ` set xs" using Cons.prems(1) by (simp add: x image_comp)
    with that have "(tr, l) \<noteq> (trace, leg)" by blast
    moreover have "client_order_id tr l \<notin> fst ` set (rt_dedup rt)" by (rule Cons.prems(2)) (use that in simp)
    ultimately show ?thesis using submit_fresh(2) [OF f, of now now' answer] client_order_id_inj [of tr l trace leg] by blast
  qed
  from Cons.IH [OF _ this] Cons.prems(1) show ?case by (simp add: x submit_fresh(1) [OF f])
qed simp

text \<open>
  Deviation: the lock is given up before the adapter is called, so two submits of the same leg that overlap both
  reach the exchange.
\<close>

lemma overlapping_submits_are_sent_twice:
  "rt_calls (fold router_exec [Begin 0 ''t.0'', Begin 1 ''t.0'', Finish 2 ''t.0'' None (Returned ''A''), Finish 3 ''t.0'' None (Returned ''B'')]
     (router_new None 600)) = [''t.0'', ''t.0'']"
  by (simp add: router_new_def begin_submit_def finish_submit_def evict_expired_def Let_def)

text \<open>
  Deviation: the number of the journal event is never set; without its flag the state machine answers with
  nothing, with it the texts raise inside the machine and the router swallows the error.
\<close>

lemma router_never_records_an_event: "emit_sent rt = None"
  by (auto simp: emit_sent_def transition_text_def split: option.split)

end
