(* ===== verification/EventBus.thy ===== *)
theory EventBus
  imports Prelude "HOL-Library.Sublist"
begin

text \<open>
  \<open>engine/src/infra/redis/memory_bus.py\<close>: the event bus of paper trading, a queue per stream and consumer
  group, with the interface of the Redis bus; the contract of a queue is a locale.  The wait for a first message
  is left out (an empty queue answers with nothing), the texts of the events are kept as they are.
\<close>

subsection \<open>A message queue\<close>

text \<open>
  What a consumer of messages relies on: a publication appends one message at the end, and may
  drop the oldest ones when the queue is full; taking removes a prefix of at most the asked
  length; what others do with the bus leaves the queue alone.  Provider: the in-memory event bus.
\<close>

datatype ('p, 'o) queue_step = Put 'p | Take nat | Other 'o

locale message_queue =
  fixes publish_m :: "'p \<Rightarrow> 's \<Rightarrow> 's"
    and content :: "'p \<Rightarrow> 'm"
    and take_m :: "nat \<Rightarrow> 's \<Rightarrow> 'm list \<times> 's"
    and other_m :: "'o \<Rightarrow> 's \<Rightarrow> 's"
    and waiting :: "'s \<Rightarrow> 'm list"
    and open_for :: "'s \<Rightarrow> bool"
  assumes publish_waiting: "open_for s \<Longrightarrow> \<exists>k. waiting (publish_m x s) = drop k (waiting s) @ [content x]"
    and publish_open: "open_for s \<Longrightarrow> open_for (publish_m x s)"
    and take_waiting: "open_for s \<Longrightarrow> take_m n s = (ms, s') \<Longrightarrow> waiting s = ms @ waiting s' \<and> length ms \<le> n"
    and take_open: "open_for s \<Longrightarrow> open_for (snd (take_m n s))"
    and other_waiting: "open_for s \<Longrightarrow> waiting (other_m y s) = waiting s"
    and other_open: "open_for s \<Longrightarrow> open_for (other_m y s)"
begin

fun queue_run :: "('p, 'o) queue_step list \<Rightarrow> 's \<Rightarrow> 'm list \<times> 's" where
  "queue_run [] s = ([], s)"
| "queue_run (Put x # sts) s = queue_run sts (publish_m x s)"
| "queue_run (Take n # sts) s = (let (ms, s1) = take_m n s; (out, s2) = queue_run sts s1 in (ms @ out, s2))"
| "queue_run (Other y # sts) s = queue_run sts (other_m y s)"

fun put_in :: "('p, 'o) queue_step list \<Rightarrow> 'm list" where
  "put_in [] = []"
| "put_in (Put x # sts) = content x # put_in sts"
| "put_in (_ # sts) = put_in sts"

lemma delivery_in_order:
  "open_for s \<Longrightarrow> queue_run sts s = (out, s') \<Longrightarrow> subseq (out @ waiting s') (waiting s @ put_in sts)"
proof (induction sts s arbitrary: out rule: queue_run.induct)
  case (2 x sts s)
  obtain k where k: "waiting (publish_m x s) = drop k (waiting s) @ [content x]" using publish_waiting [OF 2(2)] by blast
  have "subseq (out @ waiting s') (drop k (waiting s) @ content x # put_in sts)"
    using 2(1) [OF publish_open [OF 2(2)]] 2(3) k by simp
  moreover have "subseq (drop k (waiting s) @ content x # put_in sts) (waiting s @ content x # put_in sts)"
    by (simp only: subseq_append) (rule suffix_imp_subseq [OF suffix_drop])
  ultimately show ?case by (simp del: subseq_append)
next
  case (3 n sts s)
  obtain ms s1 where t: "take_m n s = (ms, s1)" by fastforce
  obtain out1 where o: "queue_run sts s1 = (out1, s')" "out = ms @ out1"
    using 3(3) t by (auto split: prod.splits)
  have "open_for s1" using take_open [OF 3(2), of n] t by simp
  then show ?case
    using 3(1) [OF t [symmetric] refl _ o(1)] take_waiting [OF 3(2) t] o(2) by (simp add: subseq_append')
next
  case (4 y sts s)
  then show ?case using other_waiting [OF 4(2), of y] other_open [OF 4(2), of y] by simp
qed simp

end

text \<open>A queue that never drops anything delivers everything.\<close>

locale lossless_queue = message_queue +
  assumes nothing_dropped: "open_for s \<Longrightarrow> waiting (publish_m x s) = waiting s @ [content x]"
begin

lemma delivery_complete:
  "open_for s \<Longrightarrow> queue_run sts s = (out, s') \<Longrightarrow> out @ waiting s' = waiting s @ put_in sts"
proof (induction sts s arbitrary: out rule: queue_run.induct)
  case (2 x sts s)
  then show ?case using nothing_dropped [OF 2(2), of x] publish_open [OF 2(2), of x] by simp
next
  case (3 n sts s)
  obtain ms s1 where t: "take_m n s = (ms, s1)" by fastforce
  obtain out1 where o: "queue_run sts s1 = (out1, s')" "out = ms @ out1"
    using 3(3) t by (auto split: prod.splits)
  have "open_for s1" using take_open [OF 3(2), of n] t by simp
  then show ?case
    using 3(1) [OF t [symmetric] refl _ o(1)] take_waiting [OF 3(2) t] o(2) by simp
next
  case (4 y sts s)
  then show ?case using other_waiting [OF 4(2), of y] other_open [OF 4(2), of y] by simp
qed simp

end

subsection \<open>The bus in memory\<close>

declare nat_text.simps [simp del]

type_synonym queue_key = "string \<times> string"

record 'e memory_bus =
  mb_maxsize :: nat
  mb_groups :: "(string, string list) dict"
  mb_queues :: "(queue_key, (string \<times> 'e) list) dict"
  mb_counters :: "(string, nat) dict"

definition memory_bus_new :: "nat \<Rightarrow> 'e memory_bus" where
  "memory_bus_new n = \<lparr>mb_maxsize = n, mb_groups = [], mb_queues = [], mb_counters = []\<rparr>"

text \<open>A queue of size 0 is unbounded.\<close>

definition put_dropping :: "nat \<Rightarrow> 'x \<Rightarrow> 'x list \<Rightarrow> 'x list" where
  "put_dropping n x q = (if 0 < n \<and> n \<le> length q then tl q @ [x] else q @ [x])"

definition fan_out :: "string \<Rightarrow> string \<times> 'e \<Rightarrow> string \<Rightarrow> 'e memory_bus \<Rightarrow> 'e memory_bus" where
  "fan_out stream msg grp b =
     (case map_of (mb_queues b) (stream, grp) of
        None \<Rightarrow> b
      | Some q \<Rightarrow> b\<lparr>mb_queues := AList.update (stream, grp) (put_dropping (mb_maxsize b) msg q) (mb_queues b)\<rparr>)"

definition bus_publish :: "nat \<Rightarrow> string \<Rightarrow> 'e \<Rightarrow> 'e memory_bus \<Rightarrow> string \<times> 'e memory_bus" where
  "bus_publish now_ms stream ev b =
     (let seq = dict_get (mb_counters b) stream 0 + 1;
          b1 = b\<lparr>mb_counters := AList.update stream seq (mb_counters b)\<rparr>;
          msg_id = nat_text now_ms @ ''-'' @ nat_text seq
      in (msg_id, fold (fan_out stream (msg_id, ev)) (dict_get (mb_groups b1) stream []) b1))"

definition bus_create_group :: "string \<Rightarrow> string \<Rightarrow> 'e memory_bus \<Rightarrow> 'e memory_bus" where
  "bus_create_group stream grp b =
     (if dict_has (mb_queues b) (stream, grp) then b
      else b\<lparr>mb_queues := AList.update (stream, grp) [] (mb_queues b),
             mb_groups := AList.update stream (dict_get (mb_groups b) stream [] @ [grp]) (mb_groups b)\<rparr>)"

definition bus_subscribe :: "string \<Rightarrow> string \<Rightarrow> nat \<Rightarrow> 'e memory_bus \<Rightarrow> (string \<times> 'e) list \<times> 'e memory_bus" where
  "bus_subscribe stream grp n b =
     (case map_of (mb_queues b) (stream, grp) of
        None \<Rightarrow> ([], b)
      | Some q \<Rightarrow> (take n q, b\<lparr>mb_queues := AList.update (stream, grp) (drop n q) (mb_queues b)\<rparr>))"

definition bus_ack :: "string \<Rightarrow> string \<Rightarrow> string \<Rightarrow> 'e memory_bus \<Rightarrow> 'e memory_bus" where
  "bus_ack stream grp msg_id b = b"

definition bus_dead_letters :: "string \<Rightarrow> string \<Rightarrow> 'e memory_bus \<Rightarrow> (string \<times> 'e) list \<times> 'e memory_bus" where
  "bus_dead_letters stream grp b = ([], b)"

subsection \<open>What a group sees\<close>

definition queue_of :: "string \<Rightarrow> string \<Rightarrow> 'e memory_bus \<Rightarrow> (string \<times> 'e) list" where
  "queue_of stream grp b = dict_get (mb_queues b) (stream, grp) []"

text \<open>Every registered group has a queue and is registered once.\<close>

definition bus_ok :: "'e memory_bus \<Rightarrow> bool" where
  "bus_ok b \<longleftrightarrow> (\<forall>stream. distinct (dict_get (mb_groups b) stream [])
     \<and> (\<forall>grp. grp \<in> set (dict_get (mb_groups b) stream []) \<longleftrightarrow> dict_has (mb_queues b) (stream, grp)))"

lemma bus_okD:
  assumes "bus_ok b"
  shows "distinct (dict_get (mb_groups b) stream [])"
    and "grp \<in> set (dict_get (mb_groups b) stream []) \<longleftrightarrow> dict_has (mb_queues b) (stream, grp)"
  using assms by (simp_all add: bus_ok_def)

lemma fan_out_groups [simp]:
  "mb_groups (fan_out stream msg grp b) = mb_groups b" "mb_maxsize (fan_out stream msg grp b) = mb_maxsize b"
  "dict_has (mb_queues (fan_out stream msg grp b)) k = dict_has (mb_queues b) k"
  by (auto simp: fan_out_def dict_has_iff split: option.split)

lemma fold_fan_out_groups [simp]:
  "mb_groups (fold (fan_out stream msg) gs b) = mb_groups b" "mb_maxsize (fold (fan_out stream msg) gs b) = mb_maxsize b"
  "dict_has (mb_queues (fold (fan_out stream msg) gs b)) k = dict_has (mb_queues b) k"
  by (induction gs arbitrary: b) auto

lemma queue_fan_out:
  "queue_of s g (fan_out stream msg grp b) =
     (if s = stream \<and> g = grp \<and> dict_has (mb_queues b) (stream, grp) then put_dropping (mb_maxsize b) msg (queue_of s g b) else queue_of s g b)"
  by (auto simp: fan_out_def queue_of_def dict_has_iff dict_get_def split: option.split)

lemma queue_fold_fan_out:
  "distinct gs \<Longrightarrow> queue_of s g (fold (fan_out stream msg) gs b) =
     (if s = stream \<and> g \<in> set gs \<and> dict_has (mb_queues b) (stream, g) then put_dropping (mb_maxsize b) msg (queue_of s g b) else queue_of s g b)"
  by (induction gs arbitrary: b) (auto simp: queue_fan_out)

lemma queue_publish:
  assumes "bus_ok b"
  shows "queue_of s g (snd (bus_publish t stream ev b)) =
     (if s = stream \<and> dict_has (mb_queues b) (s, g) then put_dropping (mb_maxsize b) (fst (bus_publish t stream ev b), ev) (queue_of s g b)
      else queue_of s g b)"
proof -
  let ?seq = "dict_get (mb_counters b) stream 0 + 1"
  let ?b = "b\<lparr>mb_counters := AList.update stream ?seq (mb_counters b)\<rparr>"
  let ?id = "nat_text t @ ''-'' @ nat_text ?seq"
  have p: "bus_publish t stream ev b = (?id, fold (fan_out stream (?id, ev)) (dict_get (mb_groups b) stream []) ?b)"
    by (simp add: bus_publish_def Let_def)
  have d: "distinct (dict_get (mb_groups b) stream [])" "g \<in> set (dict_get (mb_groups b) stream []) \<longleftrightarrow> dict_has (mb_queues b) (stream, g)"
    by (rule bus_okD [OF assms])+
  have q: "queue_of s g ?b = queue_of s g b" by (simp add: queue_of_def)
  show ?thesis
    unfolding p fst_conv snd_conv queue_fold_fan_out [OF d(1)] q d(2) by auto
qed

lemma bus_ok_new: "bus_ok (memory_bus_new n)"
  by (simp add: bus_ok_def memory_bus_new_def dict_get_def dict_has_def)

lemma bus_ok_create: "bus_ok b \<Longrightarrow> bus_ok (bus_create_group stream grp b)"
  by (auto simp: bus_ok_def bus_create_group_def dict_has_iff)

lemma bus_ok_publish: "bus_ok b \<Longrightarrow> bus_ok (snd (bus_publish t stream ev b))"
  by (simp add: bus_ok_def bus_publish_def Let_def)

lemma bus_ok_subscribe: "bus_ok b \<Longrightarrow> bus_ok (snd (bus_subscribe stream grp n b))"
  by (auto simp: bus_ok_def bus_subscribe_def dict_has_iff split: option.split)

lemma has_publish: "dict_has (mb_queues (snd (bus_publish t stream ev b))) k = dict_has (mb_queues b) k"
  by (simp add: bus_publish_def Let_def)

lemma put_dropping_drop: "put_dropping n x q = drop (if 0 < n \<and> n \<le> length q then 1 else 0) q @ [x]"
  by (simp add: put_dropping_def drop_Suc)

lemma queue_subscribe:
  "dict_has (mb_queues b) (stream, grp) \<Longrightarrow> bus_subscribe stream grp n b = (ms, b') \<Longrightarrow>
   ms = take n (queue_of stream grp b) \<and> queue_of stream grp b' = drop n (queue_of stream grp b)"
  by (auto simp: bus_subscribe_def queue_of_def dict_has_iff dict_get_def)

lemma queue_create: "queue_of s g (bus_create_group stream grp b) = queue_of s g b"
  by (auto simp: queue_of_def bus_create_group_def dict_get_def dict_has_iff split: option.split)

lemma queue_subscribe_other:
  "s \<noteq> stream \<or> g \<noteq> grp \<Longrightarrow> queue_of s g (snd (bus_subscribe stream grp n b)) = queue_of s g b"
  by (auto simp: queue_of_def bus_subscribe_def dict_get_def split: option.split)

lemma has_subscribe: "dict_has (mb_queues (snd (bus_subscribe stream grp n b))) k = dict_has (mb_queues b) k"
  by (auto simp: bus_subscribe_def dict_has_iff split: option.split)

lemma has_create: "dict_has (mb_queues b) k \<Longrightarrow> dict_has (mb_queues (bus_create_group stream grp b)) k"
  by (auto simp: bus_create_group_def dict_has_iff)

subsection \<open>Runs of the bus\<close>

text \<open>The calls of all the users of one bus, in the order the event loop runs them.\<close>

datatype 'e bus_op = Publish nat string 'e | Create string string | Subscribe string string nat | Ack string string string

fun bus_exec :: "'e bus_op \<Rightarrow> 'e memory_bus \<Rightarrow> (string \<times> 'e) list \<times> 'e memory_bus" where
  "bus_exec (Publish now_ms stream ev) b = ([], snd (bus_publish now_ms stream ev b))"
| "bus_exec (Create stream grp) b = ([], bus_create_group stream grp b)"
| "bus_exec (Subscribe stream grp n) b = bus_subscribe stream grp n b"
| "bus_exec (Ack stream grp msg_id) b = ([], bus_ack stream grp msg_id b)"

text \<open>What the group \<open>grp\<close> of a stream is handed during a run, and what was published on the stream.\<close>

fun received :: "string \<Rightarrow> string \<Rightarrow> 'e bus_op list \<Rightarrow> 'e memory_bus \<Rightarrow> 'e list \<times> 'e memory_bus" where
  "received stream grp [] b = ([], b)"
| "received stream grp (op # ops) b =
     (let (ms, b1) = bus_exec op b;
          mine = (case op of Subscribe s g n \<Rightarrow> s = stream \<and> g = grp | _ \<Rightarrow> False);
          (out, b2) = received stream grp ops b1
      in ((if mine then map snd ms else []) @ out, b2))"

fun published :: "string \<Rightarrow> 'e bus_op list \<Rightarrow> 'e list" where
  "published stream [] = []"
| "published stream (Publish t s ev # ops) = (if s = stream then ev # published stream ops else published stream ops)"
| "published stream (_ # ops) = published stream ops"

text \<open>The run as the contract of one queue sees it.\<close>

fun as_step :: "string \<Rightarrow> string \<Rightarrow> 'e bus_op \<Rightarrow> (nat \<times> 'e, 'e bus_op) queue_step" where
  "as_step stream grp (Publish t s ev) = (if s = stream then Put (t, ev) else Other (Publish t s ev))"
| "as_step stream grp (Subscribe s g n) = (if s = stream \<and> g = grp then Take n else Other (Subscribe s g n))"
| "as_step stream grp op = Other op"

definition elsewhere :: "string \<Rightarrow> string \<Rightarrow> 'e bus_op \<Rightarrow> 'e memory_bus \<Rightarrow> 'e memory_bus" where
  "elsewhere stream grp op b = (case as_step stream grp op of Other y \<Rightarrow> snd (bus_exec y b) | _ \<Rightarrow> b)"

lemma as_step_idem: "as_step stream grp op = Other y \<Longrightarrow> y = op"
  by (cases op) (auto split: if_splits)

lemma elsewhere_keeps:
  assumes "bus_ok b" and "dict_has (mb_queues b) (stream, grp)"
  shows "queue_of stream grp (elsewhere stream grp op b) = queue_of stream grp b"
    and "bus_ok (elsewhere stream grp op b) \<and> dict_has (mb_queues (elsewhere stream grp op b)) (stream, grp)
      \<and> mb_maxsize (elsewhere stream grp op b) = mb_maxsize b"
proof -
  have m: "mb_maxsize (snd (bus_publish t s ev b)) = mb_maxsize b" "mb_maxsize (snd (bus_subscribe s g n b)) = mb_maxsize b"
    "mb_maxsize (bus_create_group s g b) = mb_maxsize b" for t s ev g n
    by (auto simp: bus_publish_def bus_subscribe_def bus_create_group_def Let_def split: option.split)
  show "queue_of stream grp (elsewhere stream grp op b) = queue_of stream grp b"
    using queue_publish [OF assms(1)]
    by (cases op) (auto simp: elsewhere_def queue_create bus_ack_def queue_subscribe_other)
  show "bus_ok (elsewhere stream grp op b) \<and> dict_has (mb_queues (elsewhere stream grp op b)) (stream, grp)
      \<and> mb_maxsize (elsewhere stream grp op b) = mb_maxsize b"
    using assms m
    by (cases op) (auto simp: elsewhere_def bus_ack_def bus_ok_create bus_ok_publish bus_ok_subscribe has_publish has_subscribe has_create)
qed

definition group_open :: "string \<Rightarrow> string \<Rightarrow> 'e memory_bus \<Rightarrow> bool" where
  "group_open stream grp b \<longleftrightarrow> bus_ok b \<and> dict_has (mb_queues b) (stream, grp)"

abbreviation put_event :: "string \<Rightarrow> nat \<times> 'e \<Rightarrow> 'e memory_bus \<Rightarrow> 'e memory_bus" where
  "put_event stream p b \<equiv> snd (bus_publish (fst p) stream (snd p) b)"

definition take_events :: "string \<Rightarrow> string \<Rightarrow> nat \<Rightarrow> 'e memory_bus \<Rightarrow> 'e list \<times> 'e memory_bus" where
  "take_events stream grp n b = (let (ms, b') = bus_subscribe stream grp n b in (map snd ms, b'))"

interpretation mbus: message_queue
  "put_event stream" snd "take_events stream grp" "elsewhere stream grp" "\<lambda>b. map snd (queue_of stream grp b)" "group_open stream grp"
  for stream grp
proof unfold_locales
  fix b :: "'a memory_bus" and p :: "nat \<times> 'a"
  assume ok: "group_open stream grp b"
  show "\<exists>k. map snd (queue_of stream grp (put_event stream p b)) = drop k (map snd (queue_of stream grp b)) @ [snd p]"
    using ok queue_publish [of b stream grp "fst p" stream "snd p"]
    by (auto simp: group_open_def put_dropping_drop drop_map
        intro: exI [of _ "if 0 < mb_maxsize b \<and> mb_maxsize b \<le> length (queue_of stream grp b) then 1 else 0"])
  show "group_open stream grp (put_event stream p b)"
    using ok by (simp add: group_open_def bus_ok_publish has_publish)
next
  fix b b' :: "'a memory_bus" and n ms
  assume ok: "group_open stream grp b" and t: "take_events stream grp n b = (ms, b')"
  obtain ms1 where s: "bus_subscribe stream grp n b = (ms1, b')" "ms = map snd ms1"
    using t by (auto simp: take_events_def split: prod.splits)
  show "map snd (queue_of stream grp b) = ms @ map snd (queue_of stream grp b') \<and> length ms \<le> n"
    using queue_subscribe [OF _ s(1)] ok s(2) by (simp add: group_open_def map_append [symmetric] del: map_append)
next
  fix b :: "'a memory_bus" and n
  assume "group_open stream grp b"
  then show "group_open stream grp (snd (take_events stream grp n b))"
    by (simp add: group_open_def take_events_def case_prod_beta bus_ok_subscribe has_subscribe)
next
  fix b :: "'a memory_bus" and op
  assume ok: "group_open stream grp b"
  show "map snd (queue_of stream grp (elsewhere stream grp op b)) = map snd (queue_of stream grp b)"
    "group_open stream grp (elsewhere stream grp op b)"
    using elsewhere_keeps [of b stream grp op] ok by (simp_all add: group_open_def)
qed

text \<open>A bus built with size 0 is unbounded.\<close>

interpretation ubus: lossless_queue
  "put_event stream" snd "take_events stream grp" "elsewhere stream grp" "\<lambda>b. map snd (queue_of stream grp b)"
  "\<lambda>b. group_open stream grp b \<and> mb_maxsize b = 0"
  for stream grp
proof unfold_locales
  fix b :: "'a memory_bus" and p :: "nat \<times> 'a" and n op
  assume ok: "group_open stream grp b \<and> mb_maxsize b = 0"
  have keep: "mb_maxsize (snd (bus_publish t s ev b)) = mb_maxsize b" "mb_maxsize (snd (bus_subscribe s g n b)) = mb_maxsize b" for t s ev g n
    by (auto simp: bus_publish_def bus_subscribe_def Let_def split: option.split)
  show "map snd (queue_of stream grp (put_event stream p b)) = map snd (queue_of stream grp b) @ [snd p]"
    using ok queue_publish [of b stream grp "fst p" stream "snd p"] by (simp add: group_open_def put_dropping_def)
  then show "\<exists>k. map snd (queue_of stream grp (put_event stream p b)) = drop k (map snd (queue_of stream grp b)) @ [snd p]"
    by (auto intro: exI [of _ 0])
  show "group_open stream grp (put_event stream p b) \<and> mb_maxsize (put_event stream p b) = 0"
    using ok keep(1) [of "fst p" stream "snd p"] mbus.publish_open [of stream grp b p] by simp
  show "group_open stream grp (snd (take_events stream grp n b)) \<and> mb_maxsize (snd (take_events stream grp n b)) = 0"
    using ok keep(2) [of stream grp n] mbus.take_open [of stream grp b n] by (simp add: take_events_def case_prod_beta)
  show "map snd (queue_of stream grp (elsewhere stream grp op b)) = map snd (queue_of stream grp b)"
    using ok elsewhere_keeps(1) [of b stream grp op] by (simp add: group_open_def)
  show "group_open stream grp (elsewhere stream grp op b) \<and> mb_maxsize (elsewhere stream grp op b) = 0"
    using ok elsewhere_keeps [of b stream grp op] by (simp add: group_open_def)
qed (use mbus.take_waiting in blast)

lemma received_is_run:
  "received stream grp ops b = mbus.queue_run stream grp (map (as_step stream grp) ops) b"
proof (induction ops arbitrary: b)
  case (Cons op ops)
  then show ?case
    using elsewhere_def [of stream grp op b] take_events_def [of stream grp _ b]
    by (cases op) (auto simp: case_prod_beta bus_ack_def)
qed simp

lemma published_is_put: "published stream ops = mbus.put_in (map (as_step stream grp) ops)"
proof (induction ops)
  case (Cons op ops)
  then show ?case by (cases op) auto
qed simp



text \<open>Deviation: a message that was handed out is gone, whether or not it is acknowledged; there are no dead letters.\<close>

lemma taken_messages_are_never_redelivered:
  "fst (bus_dead_letters stream grp b) = []" "bus_ack stream grp msg_id b = b"
  by (simp_all add: bus_dead_letters_def bus_ack_def)

end
