(* ===== verification/OrderIntake.thy ===== *)
theory OrderIntake
  imports EventBus ExecutorSafety
begin

text \<open>
  \<open>engine/src/execution/trade_consumer.py\<close>: the requests of the strategies on their way from the event bus to the
  executor.  A message is processed as far as the executor's answer in one step; an execution that never
  answers is \<open>None\<close> and stops the consumer.  Parameters are the validation of a payload, the risk check, the
  ids of the orders, the clock and the configured minimum; the callback is modelled by the list of the
  results it is handed, the log and the metrics are left out.
\<close>

subsection \<open>Requests\<close>

record trade_leg =
  tl_exchange :: string
  tl_symbol :: string
  tl_side :: order_side
  tl_size :: decimal
  tl_market :: bool
  tl_price :: "decimal option"
  tl_reduce_only :: bool

record trade_request =
  tq_strategy :: string
  tq_legs :: "trade_leg list"

definition leg_to_order :: "string \<Rightarrow> trade_leg \<Rightarrow> x_order" where
  "leg_to_order oid l =
     \<lparr>xo_id = Some oid, xo_exchange = tl_exchange l, xo_symbol = tl_symbol l, xo_side = tl_side l, xo_market = tl_market l,
      xo_price = tl_price l, xo_amount = tl_size l, xo_reduce_only = tl_reduce_only l\<rparr>"

text \<open>Symbols and exchanges of a request, as sets.\<close>

type_synonym trade_key = "string set \<times> string set"

definition trade_key :: "trade_request \<Rightarrow> trade_key" where
  "trade_key q = (set (map tl_symbol (tq_legs q)), set (map tl_exchange (tq_legs q)))"

definition is_exit_request :: "trade_request \<Rightarrow> bool" where
  "is_exit_request q \<longleftrightarrow> tq_legs q \<noteq> [] \<and> list_all tl_reduce_only (tq_legs q)"

definition small_leg :: "decimal \<Rightarrow> trade_leg \<Rightarrow> bool" where
  "small_leg m l \<longleftrightarrow> (case tl_price l of None \<Rightarrow> False | Some p \<Rightarrow> 0 < p \<and> tl_size l * p < m)"

subsection \<open>The consumer\<close>

record consumer =
  tc_running :: bool
  tc_recent :: "(trade_key, secs) dict"
  tc_processed :: nat
  tc_rejected :: nat
  tc_success :: nat
  tc_failure :: nat
  tc_errors :: nat
  tc_min_edge :: decimal
  tc_ids :: nat
  tc_exec :: x_state
  tc_results :: "(trade_request \<times> x_result) list"

definition consumer_new :: "decimal \<Rightarrow> x_state \<Rightarrow> consumer" where
  "consumer_new edge s =
     \<lparr>tc_running = False, tc_recent = [], tc_processed = 0, tc_rejected = 0, tc_success = 0, tc_failure = 0, tc_errors = 0,
      tc_min_edge = edge, tc_ids = 0, tc_exec = s, tc_results = []\<rparr>"

text \<open>What one message meets: the world of its execution, the clock, the risk check and the ids.\<close>

record intake_env =
  ie_world :: x_world
  ie_now :: secs
  ie_risk :: "trade_request \<Rightarrow> bool outcome"
  ie_min_notional :: decimal
  ie_uuid :: "nat \<Rightarrow> string"

definition check_collision :: "secs \<Rightarrow> trade_request \<Rightarrow> consumer \<Rightarrow> bool \<times> consumer" where
  "check_collision now q c =
     (if tq_legs q = [] \<or> is_exit_request q then (False, c)
      else let recent = filter (\<lambda>(k, t). now - t < 10) (tc_recent c)
           in if dict_has recent (trade_key q) then (True, c\<lparr>tc_recent := recent\<rparr>)
              else (False, c\<lparr>tc_recent := AList.update (trade_key q) now recent\<rparr>))"

definition route_intake :: "x_world \<Rightarrow> decimal \<Rightarrow> string \<Rightarrow> x_order list \<Rightarrow> x_state \<Rightarrow> x_result option \<times> x_state" where
  "route_intake w edge sid ods s =
     (if 2 < length ods \<and> length (exchanges_of ods) = 1
      then let (r, s') = execute_multi_leg w (xo_exchange (ods ! 0)) ods sid s in (Some r, s')
      else if length (exchanges_of ods) = 1
      then let (r, s') = execute_same_exchange w (xo_exchange (ods ! 0)) (ods ! 0) (ods ! 1) sid s in (Some r, s')
      else execute_cross_exchange w (ods ! 0) (ods ! 1) sid edge s)"

definition record_result :: "trade_request \<Rightarrow> x_result \<Rightarrow> consumer \<Rightarrow> consumer" where
  "record_result q r c =
     (let c1 = (if xr_status r = ES_SUCCESS then c\<lparr>tc_success := tc_success c + 1\<rparr> else c\<lparr>tc_failure := tc_failure c + 1\<rparr>)
      in c1\<lparr>tc_results := tc_results c1 @ [(q, r)]\<rparr>)"

definition execute_request :: "intake_env \<Rightarrow> trade_request \<Rightarrow> consumer \<Rightarrow> bool option \<times> consumer" where
  "execute_request e q c =
     (let ods = map (\<lambda>(i, l). leg_to_order (ie_uuid e (tc_ids c + i)) l) (enumerate 0 (tq_legs q));
          (r, s) = route_intake (ie_world e) (tc_min_edge c) (tq_strategy q) ods (tc_exec c);
          c1 = c\<lparr>tc_ids := tc_ids c + length ods, tc_exec := s\<rparr>
      in case r of None \<Rightarrow> (None, c1) | Some x \<Rightarrow> (Some True, record_result q x c1))"

text \<open>The answer is whether the message is to be acknowledged.\<close>

definition process_message :: "intake_env \<Rightarrow> trade_request option \<Rightarrow> consumer \<Rightarrow> bool option \<times> consumer" where
  "process_message e payload c =
     (case payload of
        None \<Rightarrow> (Some True, c\<lparr>tc_errors := tc_errors c + 1\<rparr>)
      | Some q \<Rightarrow>
          let (collides, c1) = check_collision (ie_now e) q (c\<lparr>tc_processed := tc_processed c + 1\<rparr>)
          in if collides then (Some True, c1)
             else let (h, s) = check_halt (ie_world e) (tc_exec c1); c2 = c1\<lparr>tc_exec := s\<rparr>
             in if h then (Some False, c2)
             else case ie_risk e q of
                    Returned True \<Rightarrow>
                      if list_ex (small_leg (ie_min_notional e)) (tq_legs q) then (Some True, c2)
                      else if length (tq_legs q) < 2 then (Some True, c2\<lparr>tc_errors := tc_errors c2 + 1\<rparr>)
                      else execute_request e q c2
                  | Returned False \<Rightarrow> (Some True, c2\<lparr>tc_rejected := tc_rejected c2 + 1\<rparr>)
                  | _ \<Rightarrow> (Some True, c2\<lparr>tc_errors := tc_errors c2 + 1\<rparr>))"

subsection \<open>The loop over the bus\<close>

definition request_stream :: string where
  "request_stream = ''leviathan:trade_requests''"

definition consumer_group :: string where
  "consumer_group = ''trade_consumer_group''"

definition consumer_start :: "'e memory_bus \<times> consumer \<Rightarrow> 'e memory_bus \<times> consumer" where
  "consumer_start bc =
     (if tc_running (snd bc) then bc
      else (bus_create_group request_stream consumer_group (fst bc), snd bc\<lparr>tc_running := True\<rparr>))"

definition consumer_stop :: "'e memory_bus \<times> consumer \<Rightarrow> 'e memory_bus \<times> consumer" where
  "consumer_stop bc = (fst bc, snd bc\<lparr>tc_running := False\<rparr>)"

text \<open>The messages of one batch; the environment of the \<open>i\<close>-th is \<open>es i\<close>.\<close>

fun process_batch ::
    "('e \<Rightarrow> trade_request option) \<Rightarrow> (nat \<Rightarrow> intake_env) \<Rightarrow> nat \<Rightarrow> (string \<times> 'e) list \<Rightarrow> 'e memory_bus \<times> consumer \<Rightarrow>
     ('e memory_bus \<times> consumer) option" where
  "process_batch validate es i [] bc = Some bc"
| "process_batch validate es i ((msg_id, ev) # ms) (b, c) =
     (case process_message (es i) (validate ev) c of
        (None, c') \<Rightarrow> None
      | (Some ok, c') \<Rightarrow>
          process_batch validate es (Suc i) ms (if ok then bus_ack request_stream consumer_group msg_id b else b, c'))"

definition consume_turn ::
    "('e \<Rightarrow> trade_request option) \<Rightarrow> (nat \<Rightarrow> intake_env) \<Rightarrow> 'e memory_bus \<times> consumer \<Rightarrow> ('e memory_bus \<times> consumer) option" where
  "consume_turn validate es bc =
     (if \<not> tc_running (snd bc) then Some bc
      else let (h, s) = check_halt (ie_world (es 0)) (tc_exec (snd bc)); c1 = snd bc\<lparr>tc_exec := s\<rparr>
           in if h then Some (fst bc, c1)
              else let (ms, b1) = bus_subscribe request_stream consumer_group 5 (fst bc)
                   in process_batch validate es 0 ms (b1, c1))"

subsection \<open>What becomes of a message\<close>

text \<open>The verdicts, in the order in which they are reached.\<close>

datatype verdict = Undecodable | Collision | Halted | RiskFailed | RiskRejected | TooSmall | TooFewLegs | Executed

definition collides :: "secs \<Rightarrow> trade_request \<Rightarrow> consumer \<Rightarrow> bool" where
  "collides now q c \<longleftrightarrow> tq_legs q \<noteq> [] \<and> \<not> is_exit_request q
     \<and> list_ex (\<lambda>(k, t). k = trade_key q \<and> now - t < 10) (tc_recent c)"

definition verdict_of :: "intake_env \<Rightarrow> trade_request option \<Rightarrow> consumer \<Rightarrow> verdict" where
  "verdict_of e payload c =
     (case payload of
        None \<Rightarrow> Undecodable
      | Some q \<Rightarrow>
          if collides (ie_now e) q c then Collision
          else if KillSwitch.halted (w_rust (ie_world e)) (x_flags (tc_exec c)) then Halted
          else case ie_risk e q of
                 Returned True \<Rightarrow>
                   if list_ex (small_leg (ie_min_notional e)) (tq_legs q) then TooSmall
                   else if length (tq_legs q) < 2 then TooFewLegs else Executed
               | Returned False \<Rightarrow> RiskRejected
               | _ \<Rightarrow> RiskFailed)"

lemma collision_iff: "fst (check_collision now q c) \<longleftrightarrow> collides now q c"
  by (auto simp: check_collision_def collides_def dict_has_set list_ex_iff Let_def)

lemma collision_keeps: "snd (check_collision now q c) = c\<lparr>tc_recent := tc_recent (snd (check_collision now q c))\<rparr>"
  by (auto simp: check_collision_def Let_def)

lemma collides_processed [simp]: "collides now q (c\<lparr>tc_processed := n\<rparr>) = collides now q c"
  by (simp add: collides_def)

text \<open>The state in which the executor is reached, or the message dropped.\<close>

definition admitted :: "intake_env \<Rightarrow> trade_request \<Rightarrow> consumer \<Rightarrow> consumer" where
  "admitted e q c =
     (let c1 = snd (check_collision (ie_now e) q (c\<lparr>tc_processed := tc_processed c + 1\<rparr>))
      in c1\<lparr>tc_exec := snd (check_halt (ie_world e) (tc_exec c))\<rparr>)"

lemma admitted_keeps:
  "tc_processed (admitted e q c) = tc_processed c + 1" "tc_rejected (admitted e q c) = tc_rejected c"
  "tc_success (admitted e q c) = tc_success c" "tc_failure (admitted e q c) = tc_failure c" "tc_errors (admitted e q c) = tc_errors c"
  "tc_results (admitted e q c) = tc_results c" "tc_running (admitted e q c) = tc_running c" "tc_min_edge (admitted e q c) = tc_min_edge c"
  "tc_ids (admitted e q c) = tc_ids c" "x_log (tc_exec (admitted e q c)) = x_log (tc_exec c)"
  by (simp_all add: admitted_def Let_def check_collision_def)

lemma process_by_verdict:
  "process_message e payload c =
     (case verdict_of e payload c of
        Undecodable \<Rightarrow> (Some True, c\<lparr>tc_errors := tc_errors c + 1\<rparr>)
      | Collision \<Rightarrow> (Some True, snd (check_collision (ie_now e) (the payload) (c\<lparr>tc_processed := tc_processed c + 1\<rparr>)))
      | Halted \<Rightarrow> (Some False, admitted e (the payload) c)
      | RiskFailed \<Rightarrow> (Some True, admitted e (the payload) c\<lparr>tc_errors := tc_errors c + 1\<rparr>)
      | RiskRejected \<Rightarrow> (Some True, admitted e (the payload) c\<lparr>tc_rejected := tc_rejected c + 1\<rparr>)
      | TooSmall \<Rightarrow> (Some True, admitted e (the payload) c)
      | TooFewLegs \<Rightarrow> (Some True, admitted e (the payload) c\<lparr>tc_errors := tc_errors c + 1\<rparr>)
      | Executed \<Rightarrow> execute_request e (the payload) (admitted e (the payload) c))"
proof (cases payload)
  case (Some q)
  let ?c = "c\<lparr>tc_processed := Suc (tc_processed c)\<rparr>"
  have x: "tc_exec (snd (check_collision (ie_now e) q ?c)) = tc_exec c" "tc_errors (snd (check_collision (ie_now e) q ?c)) = tc_errors c"
    "tc_rejected (snd (check_collision (ie_now e) q ?c)) = tc_rejected c"
    by (simp_all add: check_collision_def Let_def)
  have f: "fst (check_collision (ie_now e) q ?c) = collides (ie_now e) q c" by (simp add: collision_iff)
  note step = process_message_def verdict_of_def admitted_def Some Let_def case_prod_beta fst_check_halt f x
  show ?thesis
  proof (cases "collides (ie_now e) q c \<or> KillSwitch.halted (w_rust (ie_world e)) (x_flags (tc_exec c))")
    case True
    then show ?thesis by (cases "collides (ie_now e) q c") (simp_all add: step)
  next
    case False
    then have n: "\<not> collides (ie_now e) q c" "\<not> KillSwitch.halted (w_rust (ie_world e)) (x_flags (tc_exec c))" by simp_all
    show ?thesis
    proof (cases "ie_risk e q")
      case (Returned ok)
      with n show ?thesis
        by (cases ok; cases "list_ex (small_leg (ie_min_notional e)) (tq_legs q)"; cases "length (tq_legs q) < 2") (simp_all add: step)
    qed (use n in \<open>simp_all add: step\<close>)
  qed
qed (simp add: process_message_def verdict_of_def)

subsection \<open>Every message is accounted for\<close>

lemma message_is_decided_aux:
  assumes "process_message e payload c = (ack, c')" and "v = verdict_of e payload c"
  shows "(ack = Some False \<longleftrightarrow> v = Halted) \<and> (ack = None \<longrightarrow> v = Executed)
    \<and> (v \<noteq> Executed \<longrightarrow> x_log (tc_exec c') = x_log (tc_exec c) \<and> tc_results c' = tc_results c)
    \<and> (v = Executed \<and> ack \<noteq> None \<longrightarrow> (\<exists>r. tc_results c' = tc_results c @ [(the payload, r)]))
    \<and> tc_processed c' = tc_processed c + (if v = Undecodable then 0 else 1)
    \<and> tc_rejected c' = tc_rejected c + (if v = RiskRejected then 1 else 0)
    \<and> tc_errors c' = tc_errors c + (if v \<in> {Undecodable, RiskFailed, TooFewLegs} then 1 else 0)
    \<and> tc_success c' + tc_failure c' = tc_success c + tc_failure c + (if v = Executed \<and> ack \<noteq> None then 1 else 0)"
proof -
  have coll: "tc_processed d' = tc_processed d" "tc_rejected d' = tc_rejected d" "tc_errors d' = tc_errors d" "tc_success d' = tc_success d"
    "tc_failure d' = tc_failure d" "tc_results d' = tc_results d" "tc_exec d' = tc_exec d"
    if "d' = snd (check_collision now q d)" for now q and d d' :: consumer
    unfolding that check_collision_def Let_def by simp_all
  have ex: "(ack' = None \<or> ack' = Some True) \<and> (ack' \<noteq> None \<longrightarrow> (\<exists>r. tc_results d' = tc_results d @ [(q, r)]))
      \<and> tc_processed d' = tc_processed d \<and> tc_rejected d' = tc_rejected d \<and> tc_errors d' = tc_errors d
      \<and> tc_success d' + tc_failure d' = tc_success d + tc_failure d + (if ack' \<noteq> None then 1 else 0)"
    if "execute_request e q d = (ack', d')" for q ack' and d d' :: consumer
    using that by (auto simp: execute_request_def record_result_def Let_def case_prod_beta split: option.splits if_splits)
  show ?thesis
    using assms ex [of "the payload" "admitted e (the payload) c" ack c']
    by (cases v) (auto simp: process_by_verdict admitted_keeps coll [OF refl])
qed

text \<open>What becomes of a message is decided by the first check it fails: it is undecodable, collides with a recent
  one, meets the halt, is refused by the risk check, is too small or has too few legs, and only when it passes them
  all does the executor see it.  In every other case nothing is sent, registered or handed to the callback; the
  counters add up, and exactly the messages that met the halt are not acknowledged.\<close>

lemma message_is_decided_once:
  assumes "process_message e payload c = (ack, c')" and "v = verdict_of e payload c"
  shows "(ack = Some False \<longleftrightarrow> v = Halted) \<and> (ack = None \<longrightarrow> v = Executed)
    \<and> (v \<noteq> Executed \<longrightarrow> x_log (tc_exec c') = x_log (tc_exec c) \<and> tc_results c' = tc_results c)
    \<and> (v = Executed \<and> ack \<noteq> None \<longrightarrow> (\<exists>r. tc_results c' = tc_results c @ [(the payload, r)]))
    \<and> tc_processed c' = tc_processed c + (if v = Undecodable then 0 else 1)
    \<and> tc_rejected c' = tc_rejected c + (if v = RiskRejected then 1 else 0)
    \<and> tc_errors c' = tc_errors c + (if v \<in> {Undecodable, RiskFailed, TooFewLegs} then 1 else 0)
    \<and> tc_success c' + tc_failure c' = tc_success c + tc_failure c + (if v = Executed \<and> ack \<noteq> None then 1 else 0)"
  using message_is_decided_aux [OF assms] .

subsection \<open>The window\<close>

fun intake_history :: "(intake_env \<times> trade_request option) list \<Rightarrow> consumer \<Rightarrow> (secs \<times> trade_request) list" where
  "intake_history [] c = []"
| "intake_history ((e, p) # ms) c =
     (if verdict_of e p c = Executed then [(ie_now e, the p)] else [])
     @ (case process_message e p c of (None, c') \<Rightarrow> [] | (Some ok, c') \<Rightarrow> intake_history ms c')"

definition spaced :: "secs \<times> trade_request \<Rightarrow> secs \<times> trade_request \<Rightarrow> bool" where
  "spaced x y \<longleftrightarrow> is_exit_request (snd x) \<or> is_exit_request (snd y) \<or> trade_key (snd x) \<noteq> trade_key (snd y) \<or> 10 \<le> fst y - fst x"

text \<open>A request of time \<open>t\<close> is still remembered, or too old to matter from \<open>now\<close> on.\<close>

definition remembered :: "secs \<Rightarrow> secs \<Rightarrow> trade_key \<Rightarrow> consumer \<Rightarrow> bool" where
  "remembered now t k c \<longleftrightarrow> t \<le> now \<and> (10 \<le> now - t \<or> (\<exists>t'. (k, t') \<in> set (tc_recent c) \<and> t \<le> t'))"

lemma remembered_collision:
  assumes "remembered now0 t k c" and "now0 \<le> now"
  shows "remembered now t k (snd (check_collision now q c))"
proof (cases "10 \<le> now - t")
  case False
  then obtain t' where t': "(k, t') \<in> set (tc_recent c)" "t \<le> t'" "t \<le> now"
    using assms by (auto simp: remembered_def)
  have keep: "(k, t') \<in> set (filter (\<lambda>(k, t). now - t < 10) (tc_recent c))" using t' False by auto
  show ?thesis
    using t' keep set_update_other [of k "trade_key q" t' now] set_update_same [of k now]
    by (cases "k = trade_key q") (auto simp: remembered_def check_collision_def Let_def)
qed (use assms in \<open>auto simp: remembered_def\<close>)

lemma recent_admitted: "tc_recent (admitted e q c) = tc_recent (snd (check_collision (ie_now e) q c))"
  by (simp add: admitted_def check_collision_def Let_def)

lemma recent_processed:
  "tc_recent (snd (process_message e payload c)) =
     (case payload of None \<Rightarrow> tc_recent c | Some q \<Rightarrow> tc_recent (snd (check_collision (ie_now e) q c)))"
proof -
  have "tc_recent (snd (execute_request e q d)) = tc_recent d" for q d
    by (simp add: execute_request_def record_result_def Let_def case_prod_beta split: option.split)
  moreover have "tc_recent (snd (check_collision now q (c\<lparr>tc_processed := n\<rparr>))) = tc_recent (snd (check_collision now q c))" for now q n
    by (simp add: check_collision_def Let_def)
  moreover have "verdict_of e payload c = Undecodable \<longleftrightarrow> payload = None"
    by (auto simp: verdict_of_def split: option.splits outcome.splits bool.splits)
  ultimately show ?thesis
    by (cases "verdict_of e payload c"; cases payload) (auto simp: process_by_verdict recent_admitted)
qed

lemma remembered_processed:
  "remembered now0 t k c \<Longrightarrow> now0 \<le> ie_now e \<Longrightarrow> remembered (ie_now e) t k (snd (process_message e p c))"
  using remembered_collision [of now0 t k c "ie_now e"]
  by (cases p) (auto simp: remembered_def recent_processed)

lemma history_spaced:
  assumes "sorted (now0 # map (ie_now \<circ> fst) ms)" and "\<forall>(t, k) \<in> set old. remembered now0 t k c"
  shows "sorted_wrt spaced (intake_history ms c)
    \<and> (\<forall>x \<in> set (intake_history ms c). \<forall>(t, k) \<in> set old. is_exit_request (snd x) \<or> trade_key (snd x) \<noteq> k \<or> 10 \<le> fst x - t)"
  using assms
proof (induction ms c arbitrary: now0 old rule: intake_history.induct)
  case (2 e p ms c)
  obtain ack c' where run: "process_message e p c = (ack, c')" by fastforce
  have later: "now0 \<le> ie_now e" "sorted (ie_now e # map (ie_now \<circ> fst) ms)" using 2(2) by (auto simp: comp_def)
  let ?new = "if verdict_of e p c = Executed \<and> \<not> is_exit_request (the p) then [(ie_now e, trade_key (the p))] else []"
  have old: "\<forall>(t, k) \<in> set old. remembered (ie_now e) t k c'"
    using 2(3) remembered_processed [of now0 _ _ c e p] later(1) run by fastforce
  have executed: "\<exists>q. p = Some q \<and> tq_legs q \<noteq> [] \<and> \<not> collides (ie_now e) q c" if "verdict_of e p c = Executed"
    using that by (auto simp: verdict_of_def split: option.splits if_splits outcome.splits bool.splits)
  have new: "\<forall>(t, k) \<in> set ?new. remembered (ie_now e) t k c'"
  proof (cases "verdict_of e p c = Executed \<and> \<not> is_exit_request (the p)")
    case True
    then obtain q where q: "p = Some q" "tq_legs q \<noteq> []" "\<not> collides (ie_now e) q c" "\<not> is_exit_request q"
      using executed by auto
    then have "\<not> fst (check_collision (ie_now e) q c)" by (simp add: collision_iff)
    then have "(trade_key q, ie_now e) \<in> set (tc_recent (snd (check_collision (ie_now e) q c)))"
      using q set_update_same by (auto simp: check_collision_def Let_def split: if_splits)
    then show ?thesis using recent_processed [of e p c] run q True by (auto simp: remembered_def)
  qed auto
  have far: "is_exit_request (the p) \<or> trade_key (the p) \<noteq> k \<or> 10 \<le> ie_now e - t"
    if x: "verdict_of e p c = Executed" and o: "(t, k) \<in> set old" for t k
  proof -
    obtain q where q: "p = Some q" "tq_legs q \<noteq> []" "\<not> collides (ie_now e) q c" using executed [OF x] by auto
    show ?thesis using q 2(3) o later(1) by (fastforce simp: collides_def list_ex_iff remembered_def)
  qed
  show ?case
  proof (cases ack)
    case None
    then show ?thesis using run far by auto
  next
    case (Some ok)
    have "\<forall>(t, k) \<in> set (?new @ old). remembered (ie_now e) t k c'" using old new by auto
    from 2(1) [OF run [symmetric] Some later(2) this] have
      rest: "sorted_wrt spaced (intake_history ms c')" and
      sep: "\<forall>x \<in> set (intake_history ms c'). \<forall>(t, k) \<in> set (?new @ old). is_exit_request (snd x) \<or> trade_key (snd x) \<noteq> k \<or> 10 \<le> fst x - t"
      by blast+
    have first: "\<forall>y \<in> set (intake_history ms c'). spaced (ie_now e, the p) y" if "verdict_of e p c = Executed"
      using sep that by (force simp: spaced_def)
    have far': "verdict_of e p c = Executed \<Longrightarrow> \<forall>(t, k) \<in> set old. is_exit_request (the p) \<or> trade_key (the p) \<noteq> k \<or> 10 \<le> ie_now e - t"
      using far by blast
    have sep': "\<forall>x \<in> set (intake_history ms c'). \<forall>(t, k) \<in> set old. is_exit_request (snd x) \<or> trade_key (snd x) \<noteq> k \<or> 10 \<le> fst x - t"
      using sep unfolding set_append ball_Un by blast
    show ?thesis
    proof
      show "sorted_wrt spaced (intake_history ((e, p) # ms) c)"
        using rest first by (simp add: run Some)
      show "\<forall>x \<in> set (intake_history ((e, p) # ms) c). \<forall>(t, k) \<in> set old. is_exit_request (snd x) \<or> trade_key (snd x) \<noteq> k \<or> 10 \<le> fst x - t"
      proof
        fix x
        assume "x \<in> set (intake_history ((e, p) # ms) c)"
        then have "x \<in> set (intake_history ms c') \<or> verdict_of e p c = Executed \<and> x = (ie_now e, the p)"
          by (auto simp: run Some split: if_splits)
        then show "\<forall>(t, k) \<in> set old. is_exit_request (snd x) \<or> trade_key (snd x) \<noteq> k \<or> 10 \<le> fst x - t"
          using far' sep' by (elim disjE conjE) simp_all
      qed
    qed
  qed
qed simp

text \<open>However the messages arrive, two requests on the same set of symbols and the same set of exchanges that both
  reach the executor are at least 10 seconds apart, unless one of them closes positions.\<close>

lemma executed_requests_are_spaced:
  assumes "sorted (map (ie_now \<circ> fst) ms)"
  shows "sorted_wrt spaced (intake_history ms c)"
proof (cases ms)
  case (Cons m ms')
  then show ?thesis using history_spaced [of "ie_now (fst m)" ms "[]" c] assms by auto
qed simp

subsection \<open>From the bus to the executor\<close>

text \<open>Publications on the stream of the requests, and turns of the loop.\<close>

datatype 'e intake_step = Arrive nat 'e | Turn "nat \<Rightarrow> intake_env"

fun intake_run :: "('e \<Rightarrow> trade_request option) \<Rightarrow> 'e intake_step list \<Rightarrow> 'e memory_bus \<times> consumer \<Rightarrow> ('e memory_bus \<times> consumer) option" where
  "intake_run validate [] bc = Some bc"
| "intake_run validate (Arrive t ev # sts) bc = intake_run validate sts (snd (bus_publish t request_stream ev (fst bc)), snd bc)"
| "intake_run validate (Turn es # sts) bc =
     (case consume_turn validate es bc of None \<Rightarrow> None | Some bc' \<Rightarrow> intake_run validate sts bc')"

fun arrived :: "'e intake_step list \<Rightarrow> 'e list" where
  "arrived [] = []"
| "arrived (Arrive t ev # sts) = ev # arrived sts"
| "arrived (Turn es # sts) = arrived sts"

text \<open>The requests among the payloads.\<close>

fun requests :: "('e \<Rightarrow> trade_request option) \<Rightarrow> 'e list \<Rightarrow> trade_request list" where
  "requests validate [] = []"
| "requests validate (ev # evs) = (case validate ev of None \<Rightarrow> requests validate evs | Some q \<Rightarrow> q # requests validate evs)"

lemma requests_append [simp]: "requests validate (xs @ ys) = requests validate xs @ requests validate ys"
  by (induction xs) (auto split: option.split)

lemma requests_drop: "subseq (requests validate (drop k xs)) (requests validate xs)"
proof -
  have "requests validate xs = requests validate (take k xs) @ requests validate (drop k xs)"
    using requests_append [of validate "take k xs" "drop k xs"] by simp
  then show ?thesis by (metis list_emb_append2 subseq_order.order_refl)
qed

abbreviation waiting_requests :: "'e memory_bus \<Rightarrow> 'e list" where
  "waiting_requests b \<equiv> map snd (queue_of request_stream consumer_group b)"

text \<open>The requests whose execution ended between two states of the consumer.\<close>

definition done_between :: "consumer \<Rightarrow> consumer \<Rightarrow> trade_request list \<Rightarrow> bool" where
  "done_between c c' qs \<longleftrightarrow> (\<exists>rs. tc_results c' = tc_results c @ rs \<and> map fst rs = qs)"

lemma done_refl [simp]: "done_between c c []"
  by (simp add: done_between_def)

lemma done_trans: "done_between c c1 xs \<Longrightarrow> done_between c1 c2 ys \<Longrightarrow> done_between c c2 (xs @ ys)"
  by (fastforce simp: done_between_def)

lemma message_done:
  assumes "process_message e payload c = (Some ok, c')"
  shows "\<exists>qs. done_between c c' qs \<and> subseq qs (case payload of None \<Rightarrow> [] | Some q \<Rightarrow> [q])"
proof (cases "verdict_of e payload c = Executed")
  case True
  then obtain q r where q: "payload = Some q" "tc_results c' = tc_results c @ [(q, r)]"
    using message_is_decided_aux [OF assms refl] by (auto simp: verdict_of_def split: option.splits)
  then have "done_between c c' [q]" by (simp add: done_between_def)
  then show ?thesis using q by (intro exI [of _ "[q]"]) simp
next
  case False
  then have "done_between c c' []" using message_is_decided_aux [OF assms refl] by (simp add: done_between_def)
  then show ?thesis by (intro exI [of _ "[]"]) simp
qed

lemma batch_done:
  "process_batch validate es i ms (b, c) = Some (b', c') \<Longrightarrow>
   b' = b \<and> (\<exists>qs. done_between c c' qs \<and> subseq qs (requests validate (map snd ms)))"
proof (induction ms arbitrary: i c)
  case (Cons m ms)
  obtain msg_id ev where m: "m = (msg_id, ev)" by fastforce
  obtain ok c1 where r: "process_message (es i) (validate ev) c = (Some ok, c1)" "process_batch validate es (Suc i) ms (b, c1) = Some (b', c')"
    using Cons.prems by (auto simp: m bus_ack_def split: prod.splits option.splits if_splits)
  obtain qs where qs: "done_between c c1 qs" "subseq qs (case validate ev of None \<Rightarrow> [] | Some q \<Rightarrow> [q])"
    using message_done [OF r(1)] by blast
  obtain qs' where qs': "b' = b" "done_between c1 c' qs'" "subseq qs' (requests validate (map snd ms))"
    using Cons.IH [OF r(2)] by blast
  have "subseq (qs @ qs') (requests validate (map snd (m # ms)))"
    using list_emb_append_mono [OF qs(2) qs'(3)] by (cases "validate ev") (simp_all add: m)
  then show ?case using done_trans [OF qs(1) qs'(2)] qs'(1) by blast
qed (auto intro: exI [of _ "[]"])

lemma turn_done:
  assumes "group_open request_stream consumer_group b" and "consume_turn validate es (b, c) = Some (b', c')"
  shows "group_open request_stream consumer_group b'
    \<and> (\<exists>qs. done_between c c' qs
        \<and> subseq (qs @ requests validate (waiting_requests b')) (requests validate (waiting_requests b)))"
proof (cases "tc_running c \<and> \<not> fst (check_halt (ie_world (es 0)) (tc_exec c))")
  case True
  let ?c = "c\<lparr>tc_exec := snd (check_halt (ie_world (es 0)) (tc_exec c))\<rparr>"
  obtain ms b1 where t: "bus_subscribe request_stream consumer_group 5 b = (ms, b1)" by fastforce
  have run: "process_batch validate es 0 ms (b1, ?c) = Some (b', c')"
    using assms(2) True t by (simp add: consume_turn_def case_prod_beta Let_def)
  obtain qs where qs: "b' = b1" "done_between ?c c' qs" "subseq qs (requests validate (map snd ms))"
    using batch_done [OF run] by blast
  have take: "take_events request_stream consumer_group 5 b = (map snd ms, b1)" by (simp add: take_events_def t)
  have w: "waiting_requests b = map snd ms @ waiting_requests b1" using mbus.take_waiting [OF assms(1) take] by simp
  have "group_open request_stream consumer_group b1" using mbus.take_open [OF assms(1), of 5] take by simp
  moreover have "done_between c c' qs" using qs(2) by (simp add: done_between_def)
  moreover have "subseq (qs @ requests validate (waiting_requests b1)) (requests validate (waiting_requests b))"
    using list_emb_append_mono [OF qs(3) subseq_order.order_refl] by (simp add: w)
  ultimately show ?thesis using qs(1) by blast
next
  case False
  then have "b' = b" "done_between c c' []"
    using assms(2) by (auto simp: consume_turn_def case_prod_beta Let_def done_between_def split: if_splits)
  then show ?thesis using assms(1) by (metis append_Nil subseq_order.order_refl)
qed

text \<open>C29. At most once and in order: the requests whose execution ended, followed by those that still wait, are among
  those that waited at first, followed by those published, in the same order and each at most once.\<close>

theorem requests_run_once_in_order:
  assumes "group_open request_stream consumer_group b" and "intake_run validate sts (b, c) = Some (b', c')"
  shows "\<exists>rs. tc_results c' = tc_results c @ rs
    \<and> subseq (map fst rs @ requests validate (waiting_requests b')) (requests validate (waiting_requests b @ arrived sts))"
proof -
  have "\<exists>qs. done_between c c' qs \<and> subseq (qs @ requests validate (waiting_requests b')) (requests validate (waiting_requests b @ arrived sts))"
    using assms
  proof (induction sts arbitrary: b c)
    case Nil
    then show ?case by (intro exI [of _ "[]"]) simp
  next
    case (Cons st sts)
    show ?case
    proof (cases st)
      case (Arrive t ev)
      let ?b = "snd (bus_publish t request_stream ev b)"
      have p: "group_open request_stream consumer_group ?b"
        using mbus.publish_open [OF Cons.prems(1), where x = "(t, ev)"] by simp
      obtain k where k: "waiting_requests ?b = drop k (waiting_requests b) @ [ev]"
        using mbus.publish_waiting [OF Cons.prems(1), where x = "(t, ev)"] by auto
      obtain qs where qs: "done_between c c' qs"
          "subseq (qs @ requests validate (waiting_requests b')) (requests validate (waiting_requests ?b @ arrived sts))"
        using Cons.IH [OF p] Cons.prems(2) by (auto simp: Arrive)
      have "subseq (requests validate (waiting_requests ?b @ arrived sts)) (requests validate (waiting_requests b @ arrived (st # sts)))"
        using list_emb_append_mono [OF requests_drop subseq_order.order_refl, of validate k "waiting_requests b" "requests validate (ev # arrived sts)"]
        by (cases "validate ev") (simp_all add: k Arrive)
      with qs show ?thesis using subseq_order.trans by blast
    next
      case (Turn es)
      obtain b1 c1 where t: "consume_turn validate es (b, c) = Some (b1, c1)" "intake_run validate sts (b1, c1) = Some (b', c')"
        using Cons.prems(2) by (auto simp: Turn split: option.splits)
      obtain qs where qs: "group_open request_stream consumer_group b1" "done_between c c1 qs"
          "subseq (qs @ requests validate (waiting_requests b1)) (requests validate (waiting_requests b))"
        using turn_done [OF Cons.prems(1) t(1)] by blast
      obtain qs' where qs': "done_between c1 c' qs'"
          "subseq (qs' @ requests validate (waiting_requests b')) (requests validate (waiting_requests b1 @ arrived sts))"
        using Cons.IH [OF qs(1) t(2)] by blast
      have "subseq ((qs @ qs') @ requests validate (waiting_requests b')) (qs @ requests validate (waiting_requests b1 @ arrived sts))"
        using qs'(2) by (simp add: subseq_append')
      also have "subseq \<dots> (requests validate (waiting_requests b @ arrived (st # sts)))"
        using list_emb_append_mono [OF qs(3) subseq_order.order_refl, of "requests validate (arrived sts)"] by (simp add: Turn)
      finally show ?thesis using done_trans [OF qs(2) qs'(1)] by blast
    qed
  qed
  then show ?thesis by (auto simp: done_between_def)
qed

subsection \<open>Examples\<close>

definition ex_leg :: "string \<Rightarrow> order_side \<Rightarrow> trade_leg" where
  "ex_leg ex side = \<lparr>tl_exchange = ex, tl_symbol = ''BTC'', tl_side = side, tl_size = 2, tl_market = False, tl_price = Some 100, tl_reduce_only = False\<rparr>"

definition ex_request :: "string \<Rightarrow> trade_request" where
  "ex_request sid = \<lparr>tq_strategy = sid, tq_legs = [ex_leg ''okx'' BUY, ex_leg ''bybit'' SELL]\<rparr>"

definition ex_intake :: "secs \<Rightarrow> intake_env" where
  "ex_intake now = \<lparr>ie_world = ex_world [TimedOut, TimedOut, ex_fill 2, ex_fill 2] [] TimedOut, ie_now = now, ie_risk = (\<lambda>q. Returned True),
     ie_min_notional = 5, ie_uuid = nat_text\<rparr>"

definition ex_consumer :: consumer where
  "ex_consumer = (consumer_new (1 / 10000) ex_start)\<lparr>tc_running := True\<rparr>"

lemma message_is_decided_once_witness:
  "tc_errors (snd (process_message (ex_intake 0) None ex_consumer)) = 1"
  using message_is_decided_once [of "ex_intake 0" None ex_consumer "Some True" "snd (process_message (ex_intake 0) None ex_consumer)" Undecodable]
  by (simp add: process_message_def verdict_of_def ex_consumer_def consumer_new_def)

text \<open>Two strategies ask for the same pair within the window: only one is executed.\<close>

lemma ex_history:
  "map fst (intake_history [(ex_intake 0, Some (ex_request ''a'')), (ex_intake 9, Some (ex_request ''b'')), (ex_intake 10, Some (ex_request ''b''))] ex_consumer) = [0, 10]"
  by code_simp

lemma executed_requests_are_spaced_witness:
  "sorted_wrt spaced (intake_history [(ex_intake 0, Some (ex_request ''a'')), (ex_intake 9, Some (ex_request ''b'')), (ex_intake 10, Some (ex_request ''b''))] ex_consumer)
   \<and> map fst (intake_history [(ex_intake 0, Some (ex_request ''a'')), (ex_intake 9, Some (ex_request ''b'')), (ex_intake 10, Some (ex_request ''b''))] ex_consumer) = [0, 10]"
  using executed_requests_are_spaced [of "[(ex_intake 0, Some (ex_request ''a'')), (ex_intake 9, Some (ex_request ''b'')), (ex_intake 10, Some (ex_request ''b''))]" ex_consumer] ex_history
  by (simp add: ex_intake_def)

text \<open>The payloads of the example are the requests themselves.\<close>

definition ex_bus :: "trade_request memory_bus \<times> consumer" where
  "ex_bus = consumer_start (memory_bus_new 10000, consumer_new (1 / 10000) ex_start)"

definition ex_steps :: "trade_request intake_step list" where
  "ex_steps = [Arrive 0 (ex_request ''a''), Arrive 0 (ex_request ''b''), Turn (\<lambda>i. ex_intake 0), Arrive 1 (ex_request ''c'')]"

definition ex_run :: "(trade_request memory_bus \<times> consumer) option" where
  "ex_run = intake_run Some ex_steps ex_bus"

lemma ex_run_runs: "map_option (\<lambda>bc. map (xr_status \<circ> snd) (tc_results (snd bc))) ex_run = Some [ES_SUCCESS]"
  by code_simp

lemma ex_bus_open: "group_open request_stream consumer_group (fst ex_bus)"
  by (simp add: ex_bus_def consumer_start_def consumer_new_def group_open_def bus_ok_create bus_ok_new)
    (simp add: bus_create_group_def memory_bus_new_def dict_has_def)

theorem requests_run_once_in_order_witness:
  "\<exists>(rs :: (trade_request \<times> x_result) list) b' c'. ex_run = Some (b', c') \<and> length rs = 1
     \<and> subseq (map fst rs @ requests Some (waiting_requests b')) [ex_request ''a'', ex_request ''b'', ex_request ''c'']"
proof -
  obtain b' c' where r: "ex_run = Some (b', c')" "map (xr_status \<circ> snd) (tc_results c') = [ES_SUCCESS]"
    using ex_run_runs by (cases ex_run) auto
  obtain rs where rs: "tc_results c' = tc_results (snd ex_bus) @ rs"
    "subseq (map fst rs @ requests Some (waiting_requests b')) (requests Some (waiting_requests (fst ex_bus) @ [ex_request ''a'', ex_request ''b'', ex_request ''c'']))"
    using requests_run_once_in_order [OF ex_bus_open, of Some ex_steps "snd ex_bus" b' c'] r(1) by (auto simp: ex_run_def ex_steps_def arrived.simps simp del: intake_run.simps)
  have "tc_results (snd ex_bus) = []" "waiting_requests (fst ex_bus) = []"
    by (simp_all add: ex_bus_def consumer_start_def consumer_new_def memory_bus_new_def bus_create_group_def queue_of_def dict_get_def dict_has_def)
  moreover from this rs(1) r(2) have "length (map (xr_status \<circ> snd) rs) = 1" by simp
  ultimately show ?thesis using r(1) rs(2) by (intro exI [of _ rs] exI [of _ b'] exI [of _ c']) simp
qed

subsection \<open>Deviations\<close>

text \<open>
  A message that met the halt is not acknowledged so that it is retried when the engine resumes; the bus of paper
  trading has removed it already and has no dead letters, so it is lost; its pair stays blocked all the same.
\<close>

lemma halted_message_is_lost:
  assumes "verdict_of (es i) (Some q) c = Halted" and "validate ev = Some q"
  shows "process_batch validate es i [(msg_id, ev)] (b, c) = Some (b, admitted (es i) q c)"
  using assms by (simp add: process_by_verdict)

lemma refused_request_blocks_its_pair:
  assumes "verdict_of e (Some q) c \<in> {Halted, RiskRejected, RiskFailed, TooSmall, TooFewLegs}" and "\<not> is_exit_request q" and "tq_legs q \<noteq> []"
    and "\<not> is_exit_request q'" and "trade_key q' = trade_key q" and "ie_now e' < ie_now e + 10"
  shows "verdict_of e' (Some q') (snd (process_message e (Some q) c)) = Collision"
proof -
  have n: "\<not> fst (check_collision (ie_now e) q c)"
    using assms(1) by (auto simp: verdict_of_def collision_iff)
  have "(trade_key q, ie_now e) \<in> set (tc_recent (snd (process_message e (Some q) c)))"
    using n assms(2,3) set_update_same by (auto simp: recent_processed check_collision_def Let_def split: if_splits)
  moreover have "tq_legs q' \<noteq> []" using assms(3,5) by (auto simp: trade_key_def)
  ultimately have "collides (ie_now e') q' (snd (process_message e (Some q) c))"
    using assms(4-6) by (auto simp: collides_def list_ex_iff intro!: bexI [of _ "(trade_key q, ie_now e)"])
  then show ?thesis by (simp add: verdict_of_def)
qed

text \<open>Of three legs on two exchanges only the first two are executed, and when these share an exchange the
  execution waits for its own lock for ever.\<close>

lemma third_leg_is_not_executed:
  "length (exchanges_of ods) \<noteq> 1 \<Longrightarrow> route_intake w edge sid ods s = execute_cross_exchange w (ods ! 0) (ods ! 1) sid edge s"
  by (simp add: route_intake_def)

lemma first_two_legs_on_one_exchange_hang:
  "fst (process_message (ex_intake 0) (Some \<lparr>tq_strategy = ''tri'', tq_legs = [ex_leg ''okx'' BUY, ex_leg ''okx'' SELL, ex_leg ''bybit'' SELL]\<rparr>) ex_consumer) = None"
  by code_simp

end
