(* ===== verification/PaperTrading.thy ===== *)
theory PaperTrading
  imports ExecutorCore
begin

text \<open>
  \<open>engine/src/execution/paper.py\<close> and \<open>paper_adapter.py\<close>: the simulated exchange of paper trading.  The random
  numbers are arguments, and so is the factor by which a tick moves the price; the callback, the record of
  predicted slippage, the loops that publish books and tickers and the timestamps are left out.
\<close>

subsection \<open>Simulated fills\<close>

record sim_trade =
  st_order :: "string option"
  st_exchange :: string
  st_symbol :: string
  st_side :: order_side
  st_price :: decimal
  st_amount :: decimal
  st_fee :: decimal
  st_slippage :: decimal

record paper_executor =
  pe_slippage :: decimal
  pe_volatility :: decimal
  pe_fee_rate :: decimal
  pe_partial :: decimal
  pe_reject :: decimal
  pe_history :: "sim_trade list"

definition paper_executor_new :: paper_executor where
  "paper_executor_new = \<lparr>pe_slippage = 1 / 1000, pe_volatility = 1, pe_fee_rate = 1 / 1000, pe_partial = 0, pe_reject = 0, pe_history = []\<rparr>"

text \<open>The draws of one order: the first two lie in [0, 1), the share of a partial fill in [0.5, 0.99], the last
  in [0, 0.5].\<close>

record paper_draws =
  dr_reject :: decimal
  dr_partial :: decimal
  dr_share :: decimal
  dr_slip :: decimal

definition apply_slippage :: "decimal \<Rightarrow> decimal \<Rightarrow> order_side \<Rightarrow> paper_executor \<Rightarrow> decimal" where
  "apply_slippage r p side pe =
     (let s = pe_slippage pe * (1 + r * pe_volatility pe) in case side of BUY \<Rightarrow> p * (1 + s) | SELL \<Rightarrow> p * (1 - s))"

definition paper_execute :: "paper_draws \<Rightarrow> x_order \<Rightarrow> paper_executor \<Rightarrow> (string + sim_trade) \<times> paper_executor" where
  "paper_execute d od pe =
     (if 0 < pe_reject pe \<and> dr_reject d < pe_reject pe then (Inl ''OrderRejectedError'', pe)
      else let amount = (if 0 < pe_partial pe \<and> dr_partial d < pe_partial pe then xo_amount od * dr_share d else xo_amount od);
               p = price_or_0 od;
               fill = (if 0 < p then apply_slippage (dr_slip d) p (xo_side od) pe else 0);
               t = \<lparr>st_order = xo_id od, st_exchange = xo_exchange od, st_symbol = xo_symbol od, st_side = xo_side od,
                    st_price = fill, st_amount = amount, st_fee = fill * amount * pe_fee_rate pe,
                    st_slippage = (if 0 < p then \<bar>fill - p\<bar> / p else 0)\<rparr>
           in (Inr t, pe\<lparr>pe_history := deque_append 10000 (pe_history pe) t\<rparr>))"

text \<open>The executions of several legs, which run one after the other until one is rejected; nothing is returned.\<close>

fun paper_execute_all :: "(paper_draws \<times> x_order) list \<Rightarrow> paper_executor \<Rightarrow> (string + unit) \<times> paper_executor" where
  "paper_execute_all [] pe = (Inr (), pe)"
| "paper_execute_all ((d, od) # xs) pe =
     (case paper_execute d od pe of (Inl e, pe') \<Rightarrow> (Inl e, pe') | (Inr t, pe') \<Rightarrow> paper_execute_all xs pe')"

definition trade_pnl :: "sim_trade \<Rightarrow> decimal" where
  "trade_pnl t = (case st_side t of SELL \<Rightarrow> st_price t * st_amount t - st_fee t | BUY \<Rightarrow> - (st_price t * st_amount t + st_fee t))"

definition total_pnl :: "paper_executor \<Rightarrow> decimal" where
  "total_pnl pe = (\<Sum>t\<leftarrow>pe_history pe. trade_pnl t)"

definition paper_reset :: "paper_executor \<Rightarrow> paper_executor" where
  "paper_reset pe = pe\<lparr>pe_history := []\<rparr>"

subsection \<open>The simulated exchange\<close>

record paper_balance =
  pb_free :: decimal
  pb_used :: decimal
  pb_total :: decimal

record paper_adapter =
  pa_exchange :: string
  pa_executor :: paper_executor
  pa_price :: pyfloat
  pa_depth :: nat
  pa_step_bps :: decimal
  pa_balances :: "(string, paper_balance) dict"
  pa_orders :: "(string, string) dict"

definition paper_adapter_new :: "string \<Rightarrow> decimal \<Rightarrow> paper_executor \<Rightarrow> paper_adapter" where
  "paper_adapter_new ex capital pe =
     \<lparr>pa_exchange = ex, pa_executor = pe, pa_price = 50000, pa_depth = 10, pa_step_bps = 5,
      pa_balances = [(''USDT'', \<lparr>pb_free = capital, pb_used = 0, pb_total = capital\<rparr>)], pa_orders = []\<rparr>"

definition round_cents :: "pyfloat \<Rightarrow> decimal" where
  "round_cents x = of_int (round_half_even (x * 100)) / 100"

text \<open>One tick of the price, and the middle price with an injected offset of \<open>k\<close> basis points.\<close>

definition move_price :: "pyfloat \<Rightarrow> paper_adapter \<Rightarrow> paper_adapter" where
  "move_price factor pa = pa\<lparr>pa_price := pa_price pa * factor\<rparr>"

definition mid_price :: "decimal \<Rightarrow> paper_adapter \<Rightarrow> decimal" where
  "mid_price k pa = round_cents (pa_price pa) * (1 + k / 10000)"

definition level_step :: "decimal \<Rightarrow> paper_adapter \<Rightarrow> decimal" where
  "level_step mid pa = max (1 / 100) (mid * pa_step_bps pa / 10000)"

text \<open>The levels of a book; \<open>jitter i\<close> is the random factor of the amount.\<close>

definition build_bids :: "(nat \<Rightarrow> decimal) \<Rightarrow> decimal \<Rightarrow> nat \<Rightarrow> paper_adapter \<Rightarrow> (decimal \<times> decimal) list" where
  "build_bids jitter mid depth pa =
     (let step = level_step mid pa
      in filter (\<lambda>(p, a). 0 < p) (map (\<lambda>i. (mid - (step / 2 + step * of_nat i), 1 / 2 * jitter i)) [0..<depth]))"

definition build_asks :: "(nat \<Rightarrow> decimal) \<Rightarrow> decimal \<Rightarrow> nat \<Rightarrow> paper_adapter \<Rightarrow> (decimal \<times> decimal) list" where
  "build_asks jitter mid depth pa =
     (let step = level_step mid pa in map (\<lambda>i. (mid + (step / 2 + step * of_nat i), 1 / 2 * jitter i)) [0..<depth])"

definition adjust_balance :: "string \<Rightarrow> decimal \<Rightarrow> paper_adapter \<Rightarrow> paper_adapter" where
  "adjust_balance cur d pa =
     (case map_of (pa_balances pa) cur of
        Some b \<Rightarrow> pa\<lparr>pa_balances := AList.update cur (b\<lparr>pb_free := pb_free b + d, pb_total := pb_total b + d\<rparr>) (pa_balances pa)\<rparr>
      | None \<Rightarrow> if 0 < d then pa\<lparr>pa_balances := AList.update cur \<lparr>pb_free = d, pb_used = 0, pb_total = d\<rparr> (pa_balances pa)\<rparr> else pa)"

text \<open>Base and quote currency: the two parts of a symbol with one slash, else the symbol and USDT.\<close>

definition currencies :: "string \<Rightarrow> string \<times> string" where
  "currencies symb =
     (if count_list symb (CHR ''/'') = 1 then (takeWhile (\<lambda>c. c \<noteq> CHR ''/'') symb, tl (dropWhile (\<lambda>c. c \<noteq> CHR ''/'') symb))
      else (symb, ''USDT''))"

definition update_balances :: "sim_trade \<Rightarrow> paper_adapter \<Rightarrow> paper_adapter" where
  "update_balances t pa =
     (let cost = st_price t * st_amount t; (base, quote) = currencies (st_symbol t)
      in case st_side t of
           BUY \<Rightarrow> adjust_balance base (st_amount t) (adjust_balance quote (- (cost + st_fee t)) pa)
         | SELL \<Rightarrow> adjust_balance base (- st_amount t) (adjust_balance quote (cost - st_fee t) pa))"

definition paper_place_order :: "paper_draws \<Rightarrow> x_order \<Rightarrow> paper_adapter \<Rightarrow> (string + sim_trade) \<times> paper_adapter" where
  "paper_place_order d od pa =
     (let od' = (if price_or_0 od \<le> 0 then od\<lparr>xo_price := Some (round_cents (pa_price pa))\<rparr> else od);
          (r, pe) = paper_execute d od' (pa_executor pa); pa1 = pa\<lparr>pa_executor := pe\<rparr>
      in case r of Inl e \<Rightarrow> (Inl e, pa1) | Inr t \<Rightarrow> (Inr t, update_balances t pa1))"

definition paper_cancel_order :: "string \<Rightarrow> paper_adapter \<Rightarrow> bool \<times> paper_adapter" where
  "paper_cancel_order oid pa =
     (if dict_has (pa_orders pa) oid then (True, pa\<lparr>pa_orders := AList.delete oid (pa_orders pa)\<rparr>) else (False, pa))"

definition paper_cancel_all :: "string option \<Rightarrow> paper_adapter \<Rightarrow> nat \<times> paper_adapter" where
  "paper_cancel_all symb pa =
     (case symb of
        None \<Rightarrow> (length (pa_orders pa), pa\<lparr>pa_orders := []\<rparr>)
      | Some s \<Rightarrow> (length (filter (\<lambda>(oid, s'). s' = s) (pa_orders pa)), pa\<lparr>pa_orders := filter (\<lambda>(oid, s'). s' \<noteq> s) (pa_orders pa)\<rparr>))"

fun place_all :: "(paper_draws \<times> x_order) list \<Rightarrow> paper_adapter \<Rightarrow> paper_adapter" where
  "place_all [] pa = pa"
| "place_all ((d, od) # xs) pa = place_all xs (snd (paper_place_order d od pa))"

subsection \<open>Fills are adverse\<close>

definition draws_ok :: "paper_draws \<Rightarrow> bool" where
  "draws_ok d \<longleftrightarrow> 0 \<le> dr_reject d \<and> dr_reject d < 1 \<and> 0 \<le> dr_partial d \<and> dr_partial d < 1 \<and> 1 / 2 \<le> dr_share d \<and> dr_share d \<le> 99 / 100
     \<and> 0 \<le> dr_slip d \<and> dr_slip d \<le> 1 / 2"

definition model_ok :: "paper_executor \<Rightarrow> bool" where
  "model_ok pe \<longleftrightarrow> 0 \<le> pe_slippage pe \<and> 0 \<le> pe_volatility pe \<and> pe_slippage pe * (1 + pe_volatility pe / 2) \<le> 1 \<and> 0 \<le> pe_fee_rate pe"

definition worst_slippage :: "paper_executor \<Rightarrow> decimal" where
  "worst_slippage pe = pe_slippage pe * (1 + pe_volatility pe / 2)"

lemma slippage_range:
  assumes "model_ok pe" and "draws_ok d"
  shows "pe_slippage pe \<le> pe_slippage pe * (1 + dr_slip d * pe_volatility pe)"
    and "pe_slippage pe * (1 + dr_slip d * pe_volatility pe) \<le> worst_slippage pe"
proof -
  have "0 \<le> dr_slip d * pe_volatility pe" "dr_slip d * pe_volatility pe \<le> pe_volatility pe / 2"
    using assms mult_right_mono [of "dr_slip d" "1 / 2" "pe_volatility pe"] by (auto simp: model_ok_def draws_ok_def)
  then show "pe_slippage pe \<le> pe_slippage pe * (1 + dr_slip d * pe_volatility pe)"
    "pe_slippage pe * (1 + dr_slip d * pe_volatility pe) \<le> worst_slippage pe"
    using assms(1) mult_left_mono [of 1 "1 + dr_slip d * pe_volatility pe" "pe_slippage pe"]
      mult_left_mono [of "1 + dr_slip d * pe_volatility pe" "1 + pe_volatility pe / 2" "pe_slippage pe"]
    by (auto simp: model_ok_def worst_slippage_def)
qed

text \<open>A simulated fill is never better than the price asked for and never worse than the model allows: a buy costs at
  least the base slippage more and at most the worst case more, a sale the same the other way; a partial fill is
  between half and all of the order, and the fee is the rate on what was filled.\<close>

lemma simulated_fill_is_adverse:
  assumes "paper_execute d od pe = (Inr t, pe')" and "model_ok pe" and "draws_ok d" and "xo_price od = Some p" and "0 < p" and "0 \<le> xo_amount od"
  shows "(xo_side od = BUY \<longrightarrow> p * (1 + pe_slippage pe) \<le> st_price t \<and> st_price t \<le> p * (1 + worst_slippage pe))
    \<and> (xo_side od = SELL \<longrightarrow> p * (1 - worst_slippage pe) \<le> st_price t \<and> st_price t \<le> p * (1 - pe_slippage pe) \<and> 0 \<le> st_price t)
    \<and> xo_amount od / 2 \<le> st_amount t \<and> st_amount t \<le> xo_amount od
    \<and> st_fee t = st_price t * st_amount t * pe_fee_rate pe \<and> 0 \<le> st_fee t"
proof -
  let ?s = "pe_slippage pe * (1 + dr_slip d * pe_volatility pe)"
  note r = slippage_range [OF assms(2,3)]
  have w: "worst_slippage pe \<le> 1" "0 \<le> pe_slippage pe" "0 \<le> pe_fee_rate pe" using assms(2) by (auto simp: model_ok_def worst_slippage_def)
  have price: "st_price t = (case xo_side od of BUY \<Rightarrow> p * (1 + ?s) | SELL \<Rightarrow> p * (1 - ?s))"
    and amount: "st_amount t = xo_amount od \<or> st_amount t = xo_amount od * dr_share d"
    and fee: "st_fee t = st_price t * st_amount t * pe_fee_rate pe"
    using assms(1,4,5) by (auto simp: paper_execute_def apply_slippage_def price_or_0_def Let_def split: if_splits)
  have a: "xo_amount od / 2 \<le> st_amount t \<and> st_amount t \<le> xo_amount od"
    using amount assms(3,6) mult_left_mono [of "1 / 2" "dr_share d" "xo_amount od"] mult_left_le [of "dr_share d" "xo_amount od"]
    by (auto simp: draws_ok_def)
  have nn: "0 \<le> st_price t" using price r w assms(5) by (cases "xo_side od") (auto intro!: mult_nonneg_nonneg)
  have "0 \<le> st_fee t" unfolding fee using nn a assms(6) w(3) by (auto intro!: mult_nonneg_nonneg)
  moreover have "xo_side od = BUY \<Longrightarrow> p * (1 + pe_slippage pe) \<le> st_price t \<and> st_price t \<le> p * (1 + worst_slippage pe)"
    unfolding price using r assms(5) by (auto intro!: mult_left_mono)
  moreover have "xo_side od = SELL \<Longrightarrow> p * (1 - worst_slippage pe) \<le> st_price t \<and> st_price t \<le> p * (1 - pe_slippage pe)"
    unfolding price using r assms(5) by (auto intro!: mult_left_mono)
  ultimately show ?thesis using a nn fee by blast
qed

definition ex_draws :: paper_draws where
  "ex_draws = \<lparr>dr_reject = 0, dr_partial = 0, dr_share = 1 / 2, dr_slip = 1 / 2\<rparr>"

definition ex_paper_order :: "order_side \<Rightarrow> x_order" where
  "ex_paper_order side = \<lparr>xo_id = Some ''p'', xo_exchange = ''paper'', xo_symbol = ''BTC/USDT'', xo_side = side, xo_market = False,
     xo_price = Some 100, xo_amount = 2, xo_reduce_only = False\<rparr>"

lemma simulated_fill_is_adverse_witness:
  "\<exists>t. fst (paper_execute ex_draws (ex_paper_order BUY) paper_executor_new) = Inr t \<and> 1001 / 10 \<le> st_price t \<and> st_price t \<le> 100 * (1 + 15 / 10000)"
proof -
  obtain t pe' where t: "paper_execute ex_draws (ex_paper_order BUY) paper_executor_new = (Inr t, pe')"
    by (auto simp: paper_execute_def paper_executor_new_def Let_def)
  show ?thesis
    using simulated_fill_is_adverse [OF t, of 100] t
    by (auto simp: model_ok_def draws_ok_def ex_draws_def ex_paper_order_def paper_executor_new_def worst_slippage_def)
qed

subsection \<open>The books balance\<close>

definition balance_of :: "string \<Rightarrow> paper_adapter \<Rightarrow> decimal" where
  "balance_of cur pa = (case map_of (pa_balances pa) cur of None \<Rightarrow> 0 | Some b \<Rightarrow> pb_total b)"

definition settled_in_usdt :: "x_order \<Rightarrow> bool" where
  "settled_in_usdt od \<longleftrightarrow> snd (currencies (xo_symbol od)) = ''USDT'' \<and> fst (currencies (xo_symbol od)) \<noteq> ''USDT''"

lemma adjust_known:
  "dict_has (pa_balances pa) cur \<Longrightarrow> balance_of cur' (adjust_balance cur d pa) = balance_of cur' pa + (if cur' = cur then d else 0)"
  by (auto simp: balance_of_def adjust_balance_def dict_has_iff split: option.split)

lemma adjust_other: "cur' \<noteq> cur \<Longrightarrow> balance_of cur' (adjust_balance cur d pa) = balance_of cur' pa"
  by (auto simp: balance_of_def adjust_balance_def split: option.split)

lemma adjust_keeps [simp]:
  "pa_executor (adjust_balance cur d pa) = pa_executor pa"
  "dict_has (pa_balances pa) cur' \<Longrightarrow> dict_has (pa_balances (adjust_balance cur d pa)) cur'"
  by (auto simp: adjust_balance_def dict_has_iff split: option.split)

lemma execute_effect:
  assumes "paper_execute d od pe = (r, pe')" and "length (pe_history pe) < 10000"
  shows "(case r of Inl e \<Rightarrow> pe' = pe
      | Inr t \<Rightarrow> pe_history pe' = pe_history pe @ [t] \<and> st_symbol t = xo_symbol od \<and> st_side t = xo_side od)"
  using assms by (auto simp: paper_execute_def Let_def deque_append_short split: if_splits)

lemma place_effect:
  assumes "dict_has (pa_balances pa) ''USDT''" and "settled_in_usdt od" and "length (pe_history (pa_executor pa)) < 10000"
    and "pa' = snd (paper_place_order d od pa)"
  shows "balance_of ''USDT'' pa' - total_pnl (pa_executor pa') = balance_of ''USDT'' pa - total_pnl (pa_executor pa)"
    and "dict_has (pa_balances pa') ''USDT''"
    and "length (pe_history (pa_executor pa')) \<le> Suc (length (pe_history (pa_executor pa)))"
proof -
  define od' where "od' = (if price_or_0 od \<le> 0 then od\<lparr>xo_price := Some (round_cents (pa_price pa))\<rparr> else od)"
  obtain r pe where run: "paper_execute d od' (pa_executor pa) = (r, pe)" by fastforce
  have sym: "xo_symbol od' = xo_symbol od" by (simp add: od'_def)
  have eff: "case r of Inl e \<Rightarrow> pe = pa_executor pa
      | Inr t \<Rightarrow> pe_history pe = pe_history (pa_executor pa) @ [t] \<and> st_symbol t = xo_symbol od \<and> st_side t = xo_side od'"
    using execute_effect [OF run assms(3)] sym by (cases r) simp_all
  have pa': "pa' = (case r of Inl e \<Rightarrow> pa\<lparr>pa_executor := pe\<rparr> | Inr t \<Rightarrow> update_balances t (pa\<lparr>pa_executor := pe\<rparr>))"
    using run by (auto simp: assms(4) paper_place_order_def od'_def [symmetric] Let_def split: sum.split)
  have upd [simp]: "balance_of c (pa\<lparr>pa_executor := pe\<rparr>) = balance_of c pa" for c by (simp add: balance_of_def)
  have all: "balance_of ''USDT'' pa' - total_pnl (pa_executor pa') = balance_of ''USDT'' pa - total_pnl (pa_executor pa)
      \<and> dict_has (pa_balances pa') ''USDT'' \<and> length (pe_history (pa_executor pa')) \<le> Suc (length (pe_history (pa_executor pa)))"
  proof (cases r)
    case (Inl e)
    then show ?thesis using eff assms(1) by (simp add: pa')
  next
    case (Inr t)
    obtain base where cur: "currencies (st_symbol t) = (base, ''USDT'')" "base \<noteq> ''USDT''"
      using eff Inr assms(2) by (cases "currencies (st_symbol t)") (auto simp: settled_in_usdt_def)
    have h: "pe_history pe = pe_history (pa_executor pa) @ [t]" using eff Inr by simp
    show ?thesis
      using assms(1) cur(2) cur(2) [symmetric]
      by (cases "st_side t") (simp_all add: pa' Inr update_balances_def cur adjust_known adjust_other total_pnl_def h trade_pnl_def)
  qed
  then show "balance_of ''USDT'' pa' - total_pnl (pa_executor pa') = balance_of ''USDT'' pa - total_pnl (pa_executor pa)"
    "dict_has (pa_balances pa') ''USDT''" "length (pe_history (pa_executor pa')) \<le> Suc (length (pe_history (pa_executor pa)))"
    by blast+
qed

lemma place_all_effect:
  "dict_has (pa_balances pa) ''USDT'' \<Longrightarrow> list_all (settled_in_usdt \<circ> snd) xs \<Longrightarrow>
   length (pe_history (pa_executor pa)) + length xs \<le> 10000 \<Longrightarrow>
   balance_of ''USDT'' (place_all xs pa) - total_pnl (pa_executor (place_all xs pa)) = balance_of ''USDT'' pa - total_pnl (pa_executor pa)"
proof (induction xs pa rule: place_all.induct)
  case (2 d od xs pa)
  have "length (pe_history (pa_executor pa)) < 10000" "settled_in_usdt od" using 2(3,4) by simp_all
  note e = place_effect [OF 2(2) this(2,1) refl, of d]
  show ?case using 2(1) [OF e(2)] 2(3,4) e(1,3) by simp
qed simp

text \<open>The books of the simulated exchange balance: after any orders settled in USDT the balance in USDT is the initial
  capital plus the profit and loss reported by the executor, as long as its history (10,000 fills) is not full.\<close>

lemma paper_books_balance:
  assumes "list_all (settled_in_usdt \<circ> snd) xs" and "length xs \<le> 10000" and "pe_history pe = []"
  shows "balance_of ''USDT'' (place_all xs (paper_adapter_new ex capital pe))
    = capital + total_pnl (pa_executor (place_all xs (paper_adapter_new ex capital pe)))"
  using place_all_effect [of "paper_adapter_new ex capital pe" xs] assms
  by (simp add: paper_adapter_new_def dict_has_def balance_of_def total_pnl_def)

lemma paper_books_balance_witness:
  "balance_of ''USDT'' (place_all [(ex_draws, ex_paper_order BUY), (ex_draws, ex_paper_order SELL)] (paper_adapter_new ''paper'' 1000 paper_executor_new))
   = 1000 + total_pnl (pa_executor (place_all [(ex_draws, ex_paper_order BUY), (ex_draws, ex_paper_order SELL)] (paper_adapter_new ''paper'' 1000 paper_executor_new)))"
  using paper_books_balance [of "[(ex_draws, ex_paper_order BUY), (ex_draws, ex_paper_order SELL)]" paper_executor_new "''paper''" 1000]
  by (simp add: settled_in_usdt_def currencies_def ex_paper_order_def paper_executor_new_def)

subsection \<open>Synthetic books\<close>



subsection \<open>Deviations\<close>

text \<open>
  A negative change of a currency that is not held is dropped: a sale of what is not held earns its proceeds and
  leaves no debt.
\<close>

lemma short_sale_leaves_no_debt:
  assumes "map_of (pa_balances pa) base = None" and "currencies (st_symbol t) = (base, quote)" and "base \<noteq> quote" and "st_side t = SELL" and "0 \<le> st_amount t"
  shows "balance_of base (update_balances t pa) = 0"
    and "dict_has (pa_balances pa) quote \<Longrightarrow> balance_of quote (update_balances t pa) = balance_of quote pa + st_price t * st_amount t - st_fee t"
proof -
  have n: "map_of (pa_balances (adjust_balance quote d pa)) base = None" for d
    using assms(1,3) by (auto simp: adjust_balance_def split: option.split)
  show "balance_of base (update_balances t pa) = 0"
    using n assms by (simp add: update_balances_def adjust_balance_def [of base] balance_of_def)
  show "dict_has (pa_balances pa) quote \<Longrightarrow> balance_of quote (update_balances t pa) = balance_of quote pa + st_price t * st_amount t - st_fee t"
    using assms by (simp add: update_balances_def adjust_other adjust_known)
qed

text \<open>The profit and loss adds every fill at its own price, so an open position counts as a loss of its whole cost.\<close>

lemma open_position_counts_as_loss:
  "total_pnl (snd (paper_execute ex_draws (ex_paper_order BUY) paper_executor_new)) < - 200"
  by (simp add: paper_execute_def paper_executor_new_def ex_draws_def ex_paper_order_def apply_slippage_def price_or_0_def
      total_pnl_def trade_pnl_def deque_append_def Let_def)

text \<open>A limit order always fills completely at once, however far from the market its price is.\<close>

lemma limit_orders_always_fill:
  assumes "pe_reject pe \<le> 0" and "pe_partial pe \<le> 0"
  shows "\<exists>t. fst (paper_execute d od pe) = Inr t \<and> st_amount t = xo_amount od"
  using assms by (auto simp: paper_execute_def Let_def)

end
