(* ===== verification/WalRecovery.thy ===== *)
theory WalRecovery
  imports Prelude
begin

text \<open>
  \<open>engine/src/execution/position_recovery.py\<close>: the write-ahead log of trades in flight, kept in Redis, and the
  scan of it after a crash.  A key maps to its text and its expiry; a text is garbled or holds a state, whose
  fields may be absent.  The clock is an argument, one reading per scan.
\<close>

subsection \<open>Entries\<close>

datatype opened_at = NotGiven | Aware secs | Naive | Unreadable

record wal_state =
  ws_trade :: "string option"
  ws_strategy :: "string option"
  ws_exchange :: "string option"
  ws_symbol :: "string option"
  ws_side :: "string option"
  ws_size :: "pyfloat option"
  ws_price :: "pyfloat option"
  ws_opened :: opened_at

datatype wal_text = Garbled | State wal_state

type_synonym wal = "(string, wal_text \<times> secs) dict"

record open_position =
  op_trade :: string
  op_strategy :: string
  op_exchange :: string
  op_symbol :: string
  op_side :: string
  op_size :: pyfloat
  op_price :: pyfloat
  op_age :: secs

record recovery =
  rv_stale :: secs
  rv_prefix :: string

definition recovery_new :: recovery where
  "recovery_new = \<lparr>rv_stale = 300, rv_prefix = ''leviathan:wal:''\<rparr>"

definition or_default :: "'a \<Rightarrow> 'a option \<Rightarrow> 'a" where
  "or_default d o1 = (case o1 of None \<Rightarrow> d | Some x \<Rightarrow> x)"

definition write_wal :: "secs \<Rightarrow> string \<Rightarrow> wal_state \<Rightarrow> recovery \<Rightarrow> wal \<Rightarrow> wal" where
  "write_wal now tid st rv w = AList.update (rv_prefix rv @ tid) (State st, now + 3600) w"

definition clear_wal :: "string \<Rightarrow> recovery \<Rightarrow> wal \<Rightarrow> wal" where
  "clear_wal tid rv w = AList.delete (rv_prefix rv @ tid) w"

text \<open>The keys that match the pattern and have not expired.\<close>

definition live_entries :: "secs \<Rightarrow> recovery \<Rightarrow> wal \<Rightarrow> (string \<times> wal_text) list" where
  "live_entries now rv w =
     map (\<lambda>(k, v, t). (k, v)) (filter (\<lambda>(k, v, t). take (length (rv_prefix rv)) k = rv_prefix rv \<and> now < t) w)"

text \<open>One entry: a position, an entry that is skipped with a warning, or an exception of another kind.\<close>

datatype parsed = Position open_position | Skipped | Fails string

definition position_at :: "secs \<Rightarrow> string \<Rightarrow> wal_state \<Rightarrow> secs \<Rightarrow> open_position" where
  "position_at now key s opened =
     \<lparr>op_trade = or_default key (ws_trade s), op_strategy = or_default ''unknown'' (ws_strategy s),
      op_exchange = or_default ''unknown'' (ws_exchange s), op_symbol = or_default [] (ws_symbol s), op_side = or_default ''buy'' (ws_side s),
      op_size = or_default 0 (ws_size s), op_price = or_default 0 (ws_price s), op_age = now - opened\<rparr>"

definition parse_entry :: "secs \<Rightarrow> string \<Rightarrow> wal_text \<Rightarrow> parsed" where
  "parse_entry now key v =
     (case v of
        Garbled \<Rightarrow> Skipped
      | State s \<Rightarrow>
          (case ws_opened s of
             Unreadable \<Rightarrow> Skipped
           | Naive \<Rightarrow> Fails ''TypeError''
           | NotGiven \<Rightarrow> Position (position_at now key s now)
           | Aware t \<Rightarrow> Position (position_at now key s t)))"

fun collect_positions :: "secs \<Rightarrow> (string \<times> wal_text) list \<Rightarrow> string + open_position list" where
  "collect_positions now [] = Inr []"
| "collect_positions now ((k, v) # es) =
     (case parse_entry now k v of
        Fails e \<Rightarrow> Inl e
      | Skipped \<Rightarrow> collect_positions now es
      | Position p \<Rightarrow> (case collect_positions now es of Inl e \<Rightarrow> Inl e | Inr ps \<Rightarrow> Inr (p # ps)))"

definition scan_wal :: "secs \<Rightarrow> recovery \<Rightarrow> wal \<Rightarrow> string + open_position list" where
  "scan_wal now rv w = collect_positions now (live_entries now rv w)"

subsection \<open>Decisions\<close>

datatype recovery_action = CLOSE | RESUME | SKIP

definition decide_action :: "recovery \<Rightarrow> open_position \<Rightarrow> recovery_action" where
  "decide_action rv p = (if op_size p \<le> 0 then SKIP else if rv_stale rv < op_age p then CLOSE else RESUME)"

record recovery_result =
  rr_found :: nat
  rr_closed :: nat
  rr_resumed :: nat
  rr_skipped :: nat
  rr_actions :: "(string \<times> recovery_action) list"

definition no_recovery :: "nat \<Rightarrow> recovery_result" where
  "no_recovery n = \<lparr>rr_found = n, rr_closed = 0, rr_resumed = 0, rr_skipped = 0, rr_actions = []\<rparr>"

definition count_action :: "string \<Rightarrow> recovery_action \<Rightarrow> recovery_result \<Rightarrow> recovery_result" where
  "count_action tid a r =
     (case a of
        CLOSE \<Rightarrow> r\<lparr>rr_closed := rr_closed r + 1, rr_actions := rr_actions r @ [(tid, a)]\<rparr>
      | RESUME \<Rightarrow> r\<lparr>rr_resumed := rr_resumed r + 1, rr_actions := rr_actions r @ [(tid, a)]\<rparr>
      | SKIP \<Rightarrow> r\<lparr>rr_skipped := rr_skipped r + 1, rr_actions := rr_actions r @ [(tid, a)]\<rparr>)"

fun act_on :: "recovery \<Rightarrow> open_position list \<Rightarrow> recovery_result \<Rightarrow> wal \<Rightarrow> recovery_result \<times> wal" where
  "act_on rv [] r w = (r, w)"
| "act_on rv (p # ps) r w =
     (let a = decide_action rv p
      in act_on rv ps (count_action (op_trade p) a r) (if a = RESUME then w else clear_wal (op_trade p) rv w))"

definition recover :: "secs \<Rightarrow> recovery \<Rightarrow> wal \<Rightarrow> string + recovery_result \<times> wal" where
  "recover now rv w =
     (case scan_wal now rv w of
        Inl e \<Rightarrow> Inl e
      | Inr ps \<Rightarrow> Inr (act_on rv ps (no_recovery (length ps)) w))"

text \<open>The scan at start-up, which skips whatever it cannot read and changes nothing; \<open>reconcile\<close> is the same.\<close>

fun scan_entries :: "secs \<Rightarrow> recovery \<Rightarrow> (string \<times> wal_text) list \<Rightarrow> recovery_result \<Rightarrow> recovery_result" where
  "scan_entries now rv [] r = r"
| "scan_entries now rv ((k, v) # es) r =
     (case parse_entry now k v of
        Position p \<Rightarrow> scan_entries now rv es (count_action (op_trade p) (decide_action rv p) (r\<lparr>rr_found := rr_found r + 1\<rparr>))
      | _ \<Rightarrow> scan_entries now rv es r)"

definition scan_async :: "secs \<Rightarrow> recovery \<Rightarrow> wal outcome option \<Rightarrow> recovery_result" where
  "scan_async now rv redis =
     (case redis of
        Some (Returned w) \<Rightarrow> scan_entries now rv (live_entries now rv w) (no_recovery 0)
      | _ \<Rightarrow> no_recovery 0)"

subsection \<open>Round trip\<close>

text \<open>A log as the writer leaves it: every state carries its own id and a readable time with a zone.\<close>

definition well_written :: "string \<Rightarrow> wal_state \<Rightarrow> bool" where
  "well_written tid s \<longleftrightarrow> ws_trade s = Some tid \<and> (\<exists>t. ws_opened s = Aware t)"

definition wal_ok :: "recovery \<Rightarrow> wal \<Rightarrow> bool" where
  "wal_ok rv w \<longleftrightarrow> distinct (dict_keys w)
     \<and> (\<forall>(k, v, t) \<in> set w. \<exists>tid s. k = rv_prefix rv @ tid \<and> v = State s \<and> well_written tid s)"

definition opened_time :: "wal_state \<Rightarrow> secs" where
  "opened_time s = (case ws_opened s of Aware t \<Rightarrow> t | _ \<Rightarrow> 0)"

datatype wal_op = WriteWal secs string wal_state | ClearWal string

fun wal_step :: "recovery \<Rightarrow> wal_op \<Rightarrow> wal \<Rightarrow> wal" where
  "wal_step rv (WriteWal now tid s) w = write_wal now tid s rv w"
| "wal_step rv (ClearWal tid) w = clear_wal tid rv w"

fun op_ok :: "wal_op \<Rightarrow> bool" where
  "op_ok (WriteWal now tid s) = well_written tid s"
| "op_ok (ClearWal tid) = True"

text \<open>The log as a map from ids to the time and state last written.\<close>

fun wal_spec :: "wal_op \<Rightarrow> (string \<rightharpoonup> secs \<times> wal_state) \<Rightarrow> (string \<rightharpoonup> secs \<times> wal_state)" where
  "wal_spec (WriteWal now tid s) m = m(tid \<mapsto> (now, s))"
| "wal_spec (ClearWal tid) m = m(tid := None)"

definition represents :: "recovery \<Rightarrow> wal \<Rightarrow> (string \<rightharpoonup> secs \<times> wal_state) \<Rightarrow> bool" where
  "represents rv w m \<longleftrightarrow> wal_ok rv w \<and> (\<forall>tid. map_of w (rv_prefix rv @ tid) = map_option (\<lambda>(t, s). (State s, t + 3600)) (m tid))"

lemma set_delete: "(k, x) \<in> set (AList.delete k' d) \<longleftrightarrow> k \<noteq> k' \<and> (k, x) \<in> set d"
  by (auto simp: AList.delete_eq)

lemma wal_ok_write: "wal_ok rv w \<Longrightarrow> well_written tid s \<Longrightarrow> wal_ok rv (write_wal now tid s rv w)"
  by (auto simp: wal_ok_def write_wal_def distinct_update dest!: in_set_updateD)

lemma wal_ok_clear: "wal_ok rv w \<Longrightarrow> wal_ok rv (clear_wal tid rv w)"
  by (auto simp: wal_ok_def clear_wal_def distinct_delete set_delete)

lemma represents_step: "represents rv w m \<Longrightarrow> op_ok op \<Longrightarrow> represents rv (wal_step rv op w) (wal_spec op m)"
  by (cases op) (auto simp: represents_def wal_ok_write wal_ok_clear, auto simp: write_wal_def clear_wal_def)

lemma represents_run:
  "represents rv w m \<Longrightarrow> list_all op_ok ops \<Longrightarrow> represents rv (fold (wal_step rv) ops w) (fold wal_spec ops m)"
  by (induction ops arbitrary: w m) (auto intro: represents_step)

lemma represents_empty: "represents rv [] Map.empty"
  by (simp add: represents_def wal_ok_def)

text \<open>What the scan of a well-written log finds.\<close>

definition found_in :: "secs \<Rightarrow> recovery \<Rightarrow> string \<times> wal_text \<Rightarrow> open_position" where
  "found_in now rv = (\<lambda>(k, v). case v of State s \<Rightarrow> position_at now k s (opened_time s) | Garbled \<Rightarrow> undefined)"

lemma live_ok:
  assumes "wal_ok rv w" and "(k, v) \<in> set (live_entries now rv w)"
  shows "\<exists>tid s t. k = rv_prefix rv @ tid \<and> v = State s \<and> well_written tid s \<and> (k, v, t) \<in> set w \<and> now < t"
  using assms by (fastforce simp: wal_ok_def live_entries_def)

lemma parse_ok: "well_written tid s \<Longrightarrow> parse_entry now k (State s) = Position (position_at now k s (opened_time s))"
  by (auto simp: parse_entry_def well_written_def opened_time_def)

lemma collect_ok:
  "\<forall>(k, v) \<in> set es. \<exists>tid s. v = State s \<and> well_written tid s \<Longrightarrow> collect_positions now es = Inr (map (found_in now rv) es)"
proof (induction es)
  case (Cons e es)
  obtain k v where e: "e = (k, v)" by fastforce
  then obtain tid s where "v = State s" "well_written tid s" using Cons.prems by auto
  then show ?case using Cons.IH Cons.prems by (simp add: e parse_ok found_in_def)
qed simp

lemma scan_ok: "wal_ok rv w \<Longrightarrow> scan_wal now rv w = Inr (map (found_in now rv) (live_entries now rv w))"
  unfolding scan_wal_def using live_ok [of rv w _ _ now] by (intro collect_ok) blast

lemma found_trade:
  assumes "wal_ok rv w" and "(k, v) \<in> set (live_entries now rv w)"
  shows "k = rv_prefix rv @ op_trade (found_in now rv (k, v))"
  using live_ok [OF assms] by (auto simp: found_in_def position_at_def well_written_def or_default_def)

lemma distinct_live: "wal_ok rv w \<Longrightarrow> distinct (map fst (live_entries now rv w))"
proof -
  have "map fst (live_entries now rv w) = map fst (filter (\<lambda>(k, v, t). take (length (rv_prefix rv)) k = rv_prefix rv \<and> now < t) w)"
    by (auto simp: live_entries_def)
  then show "wal_ok rv w \<Longrightarrow> distinct (map fst (live_entries now rv w))"
    by (simp add: wal_ok_def distinct_map_filter)
qed


definition ex_wal_state :: "string \<Rightarrow> secs \<Rightarrow> wal_state" where
  "ex_wal_state tid t = \<lparr>ws_trade = Some tid, ws_strategy = None, ws_exchange = Some ''okx'', ws_symbol = Some ''BTC'', ws_side = Some ''sell'',
     ws_size = Some 2, ws_price = Some 100, ws_opened = Aware t\<rparr>"

definition ex_wal_ops :: "wal_op list" where
  "ex_wal_ops = [WriteWal 0 ''a'' (ex_wal_state ''a'' 0), WriteWal 10 ''b'' (ex_wal_state ''b'' 10), ClearWal ''a'', WriteWal 400 ''c'' (ex_wal_state ''c'' 400)]"


subsection \<open>Recovery\<close>

definition disposed :: "recovery \<Rightarrow> open_position list \<Rightarrow> string \<Rightarrow> bool" where
  "disposed rv ps k \<longleftrightarrow> (\<exists>p \<in> set ps. decide_action rv p \<noteq> RESUME \<and> k = rv_prefix rv @ op_trade p)"

lemma act_on_wal: "snd (act_on rv ps r w) = filter (\<lambda>e. \<not> disposed rv ps (fst e)) w"
proof (induction ps arbitrary: r w)
  case (Cons p ps)
  have "filter (\<lambda>e. \<not> disposed rv ps (fst e)) (clear_wal (op_trade p) rv w)
      = filter (\<lambda>e. \<not> disposed rv ps (fst e) \<and> fst e \<noteq> rv_prefix rv @ op_trade p) w"
    by (auto simp: clear_wal_def AList.delete_eq intro!: filter_cong)
  then show ?case
    by (auto simp: Let_def Cons.IH disposed_def intro!: filter_cong)
qed (simp add: disposed_def)

lemma count_actions:
  "rr_found (fst (act_on rv ps r w)) = rr_found r
   \<and> rr_closed (fst (act_on rv ps r w)) = rr_closed r + length (filter (\<lambda>p. decide_action rv p = CLOSE) ps)
   \<and> rr_resumed (fst (act_on rv ps r w)) = rr_resumed r + length (filter (\<lambda>p. decide_action rv p = RESUME) ps)
   \<and> rr_skipped (fst (act_on rv ps r w)) = rr_skipped r + length (filter (\<lambda>p. decide_action rv p = SKIP) ps)
   \<and> rr_actions (fst (act_on rv ps r w)) = rr_actions r @ map (\<lambda>p. (op_trade p, decide_action rv p)) ps"
  by (induction ps arbitrary: r w) (auto simp: Let_def count_action_def split: recovery_action.split)

lemma split_by_action:
  "length ps = length (filter (\<lambda>p. decide_action rv p = CLOSE) ps) + length (filter (\<lambda>p. decide_action rv p = RESUME) ps)
     + length (filter (\<lambda>p. decide_action rv p = SKIP) ps)"
proof (induction ps)
  case (Cons p ps)
  then show ?case by (cases "decide_action rv p") simp_all
qed simp

lemma live_filter: "live_entries now rv (filter (\<lambda>e. P (fst e)) w) = filter (\<lambda>e. P (fst e)) (live_entries now rv w)"
  by (induction w) (auto simp: live_entries_def)

lemma wal_ok_filter: "wal_ok rv w \<Longrightarrow> wal_ok rv (filter P w)"
  by (auto simp: wal_ok_def distinct_map_filter)

text \<open>Recovery accounts for every position of a well-written log, once: the counters add up to what was found and there is
  one action for each.  Afterwards exactly the positions to resume are left in the log, so a second recovery at
  the same time finds these and changes nothing.\<close>

lemma recovery_disposes_once:
  assumes "wal_ok rv w" and "recover now rv w = Inr (r, w')"
  shows "rr_found r = rr_closed r + rr_resumed r + rr_skipped r \<and> length (rr_actions r) = rr_found r
    \<and> live_entries now rv w' = filter (\<lambda>e. decide_action rv (found_in now rv e) = RESUME) (live_entries now rv w)
    \<and> (\<exists>r2. recover now rv w' = Inr (r2, w') \<and> rr_closed r2 = 0 \<and> rr_skipped r2 = 0 \<and> rr_resumed r2 = rr_resumed r)"
proof -
  let ?es = "live_entries now rv w"
  let ?ps = "map (found_in now rv) ?es"
  have run: "act_on rv ?ps (no_recovery (length ?ps)) w = (r, w')"
    using assms(2) by (simp add: recover_def scan_ok [OF assms(1)])
  note c = count_actions [of rv ?ps "no_recovery (length ?ps)" w, unfolded run fst_conv]
  have w': "w' = filter (\<lambda>e. \<not> disposed rv ?ps (fst e)) w"
    using act_on_wal [of rv ?ps "no_recovery (length ?ps)" w] run by simp
  have keep: "\<not> disposed rv ?ps (fst e) \<longleftrightarrow> decide_action rv (found_in now rv e) = RESUME" if "e \<in> set ?es" for e
  proof -
    have key: "fst x = rv_prefix rv @ op_trade (found_in now rv x)" if "x \<in> set ?es" for x
      using found_trade [OF assms(1), of "fst x" "snd x" now] that by simp
    have same: "x = e" if "x \<in> set ?es" "fst x = fst e" for x
      using distinct_live [OF assms(1), of now] that \<open>e \<in> set ?es\<close> by (metis distinct_map inj_onD)
    show ?thesis using that key same by (fastforce simp: disposed_def)
  qed
  have live: "live_entries now rv w' = filter (\<lambda>e. decide_action rv (found_in now rv e) = RESUME) ?es"
    unfolding w' live_filter [where P = "\<lambda>k. \<not> disposed rv ?ps k"] using keep by (intro filter_cong) auto
  have ok': "wal_ok rv w'" unfolding w' by (rule wal_ok_filter [OF assms(1)])
  let ?ps' = "map (found_in now rv) (live_entries now rv w')"
  have all: "\<forall>p \<in> set ?ps'. decide_action rv p = RESUME" by (auto simp: live)
  have "\<not> disposed rv ?ps' k" for k using all by (auto simp: disposed_def)
  then have same: "snd (act_on rv ?ps' (no_recovery (length ?ps')) w') = w'" by (simp add: act_on_wal)
  have none: "filter (\<lambda>p. decide_action rv p = CLOSE) ?ps' = []" "filter (\<lambda>p. decide_action rv p = SKIP) ?ps' = []"
    "filter (\<lambda>p. decide_action rv p = RESUME) ?ps' = ?ps'"
    using all by (auto simp: filter_empty_conv)
  note c2 = count_actions [of rv ?ps' "no_recovery (length ?ps')" w', unfolded none]
  have "recover now rv w' = Inr (fst (act_on rv ?ps' (no_recovery (length ?ps')) w'), w')"
    using same by (simp add: recover_def scan_ok [OF ok'] prod_eq_iff)
  moreover have "length ?ps' = length (filter (\<lambda>p. decide_action rv p = RESUME) ?ps)"
    by (simp add: live filter_map comp_def)
  ultimately show ?thesis
    using c c2 live split_by_action [of ?ps rv] by (auto simp: no_recovery_def)
qed

lemma recovery_disposes_once_witness:
  "\<exists>r w'. recover 500 recovery_new (fold (wal_step recovery_new) ex_wal_ops []) = Inr (r, w') \<and> rr_found r = rr_closed r + rr_resumed r + rr_skipped r"
proof -
  let ?w = "fold (wal_step recovery_new) ex_wal_ops []"
  have "represents recovery_new ?w (fold wal_spec ex_wal_ops Map.empty)"
    by (rule represents_run [OF represents_empty]) (simp add: ex_wal_ops_def well_written_def ex_wal_state_def)
  then have ok: "wal_ok recovery_new ?w" by (simp add: represents_def)
  obtain r w' where "recover 500 recovery_new ?w = Inr (r, w')" by (simp add: recover_def scan_ok [OF ok]) (metis prod.collapse)
  then show ?thesis using recovery_disposes_once [OF ok] by blast
qed

subsection \<open>Deviations\<close>

text \<open>A time without a zone ends the recovery with an exception that is not one of those it expects.\<close>

lemma naive_time_stops_recovery:
  "ws_opened s = Naive \<Longrightarrow> (rv_prefix rv @ tid, State s, t) = hd w \<Longrightarrow> w \<noteq> [] \<Longrightarrow> now < t \<Longrightarrow> recover now rv w = Inl ''TypeError''"
  by (cases w) (auto simp: recover_def scan_wal_def live_entries_def parse_entry_def)

text \<open>A state without its id is known by its whole key, prefix included, and can never be cleared: it is closed by every
  recovery until it expires.\<close>

lemma nameless_entry_is_never_cleared:
  assumes "rv_prefix rv \<noteq> []"
  shows "map_of (clear_wal (op_trade (position_at now (rv_prefix rv @ tid) (s\<lparr>ws_trade := None\<rparr>) t)) rv w) (rv_prefix rv @ tid)
    = map_of w (rv_prefix rv @ tid)"
  using assms by (auto simp: position_at_def or_default_def clear_wal_def)

end
