(* ===== verification/TradeRecon.thy ===== *)
theory TradeRecon
  imports Prelude
begin

text \<open>
  \<open>engine/src/execution/trade_reconciler.py\<close>: the fills an exchange reports against the rows of \<open>execution_log\<close>.
  The table is a list of rows; queries filter, sort and cut it as the SQL does.  What the adapter answers and whether
  a query succeeds are arguments.  Alerts and the messages are left out; the first-cycle marks only choose between them.
\<close>

subsection \<open>Symbols\<close>

definition quote_suffixes :: "string list" where
  "quote_suffixes = [''USDT'', ''USDC'', ''BUSD'', ''BTC'', ''ETH'', ''BNB'', ''FDUSD'']"

text \<open>The leftmost place where a known quote currency ends the text.\<close>

fun split_quote :: "string \<Rightarrow> (string \<times> string) option" where
  "split_quote s =
     (if s \<in> set quote_suffixes then Some ([], s)
      else case s of [] \<Rightarrow> None | c # cs \<Rightarrow> map_option (\<lambda>(b, q). (c # b, q)) (split_quote cs))"

declare split_quote.simps [simp del]

definition normalize_symbol :: "string \<Rightarrow> string" where
  "normalize_symbol raw =
     (let s = (if CHR '':'' \<in> set raw then takeWhile (\<lambda>c. c \<noteq> CHR '':'') raw else raw)
      in if CHR ''/'' \<in> set s then s
         else case split_quote s of None \<Rightarrow> s | Some (b, q) \<Rightarrow> b @ ''/'' @ q)"

subsection \<open>Fills and rows\<close>

record ex_fill =
  ef_symbol :: string
  ef_ts_ms :: int
  ef_price :: pyfloat
  ef_qty :: pyfloat

record log_row =
  lg_live :: bool
  lg_ts :: secs
  lg_symbol :: string
  lg_buy :: string
  lg_sell :: string
  lg_buy_price :: "pyfloat option"
  lg_sell_price :: "pyfloat option"
  lg_size :: "pyfloat option"
  lg_matched :: bool

record recon_report =
  rp_matched :: nat
  rp_internal :: "log_row list"
  rp_exchange :: "ex_fill list"
  rp_p50 :: "pyfloat option"
  rp_p95 :: "pyfloat option"

definition empty_report :: recon_report where
  "empty_report = \<lparr>rp_matched = 0, rp_internal = [], rp_exchange = [], rp_p50 = None, rp_p95 = None\<rparr>"

definition row_ts_ms :: "log_row \<Rightarrow> int" where
  "row_ts_ms r = (let x = lg_ts r * 1000 in if 0 \<le> x then \<lfloor>x\<rfloor> else \<lceil>x\<rceil>)"

definition of_exchange :: "string \<Rightarrow> log_row \<Rightarrow> bool" where
  "of_exchange ex r \<longleftrightarrow> lg_buy r = ex \<or> lg_sell r = ex"

definition query_symbols :: "string \<Rightarrow> secs \<Rightarrow> log_row list \<Rightarrow> string list" where
  "query_symbols ex since tbl =
     remdups (map lg_symbol (filter (\<lambda>r. lg_live r \<and> since \<le> lg_ts r \<and> of_exchange ex r \<and> \<not> lg_matched r) tbl))"

definition query_present :: "string \<Rightarrow> secs \<Rightarrow> log_row list \<Rightarrow> log_row list" where
  "query_present ex since tbl = take 50 (filter (\<lambda>r. lg_live r \<and> since \<le> lg_ts r \<and> (ex = [] \<or> of_exchange ex r)) tbl)"

definition query_rows :: "string \<Rightarrow> secs \<Rightarrow> log_row list \<Rightarrow> log_row list" where
  "query_rows ex since tbl =
     take 500 (sort_key lg_ts (filter (\<lambda>r. lg_live r \<and> since \<le> lg_ts r \<and> (ex = [] \<or> of_exchange ex r) \<and> \<not> lg_matched r) tbl))"

text \<open>The rows a status update reaches: the same time, symbol and exchanges.\<close>

definition mark_matched :: "secs \<Rightarrow> string \<Rightarrow> string \<Rightarrow> string \<Rightarrow> log_row list \<Rightarrow> log_row list" where
  "mark_matched ts symb buy sell tbl =
     map (\<lambda>r. if lg_ts r = ts \<and> lg_symbol r = symb \<and> lg_buy r = buy \<and> lg_sell r = sell then r\<lparr>lg_matched := True\<rparr> else r) tbl"

subsection \<open>Matching\<close>

definition size_fits :: "ex_fill \<Rightarrow> log_row \<Rightarrow> bool" where
  "size_fits f r =
     (let q = (case lg_size r of None \<Rightarrow> 0 | Some x \<Rightarrow> x)
      in 0 < q \<and> 0 < ef_qty f \<longrightarrow> \<not> (ef_qty f / q < 80 / 100 \<or> 120 / 100 < ef_qty f / q))"

definition time_gap :: "ex_fill \<Rightarrow> log_row \<Rightarrow> secs" where
  "time_gap f r = \<bar>lg_ts r - of_int (ef_ts_ms f) / 1000\<bar>"

text \<open>The loop over the rows of the symbol; \<open>best\<close> is the best row so far.\<close>

fun best_match :: "int set \<Rightarrow> ex_fill \<Rightarrow> log_row list \<Rightarrow> log_row option \<Rightarrow> log_row option" where
  "best_match keys f [] best = best"
| "best_match keys f (r # rs) best =
     (if 30 \<le> time_gap f r \<or> (case best of None \<Rightarrow> False | Some b \<Rightarrow> time_gap f b \<le> time_gap f r) \<or> row_ts_ms r \<in> keys
         \<or> \<not> size_fits f r
      then best_match keys f rs best else best_match keys f rs (Some r))"

record match_state =
  ms_keys :: "int set"
  ms_pairs :: "(ex_fill \<times> log_row) list"
  ms_shortfall :: "pyfloat list"
  ms_unmatched :: "ex_fill list"
  ms_log :: "log_row list"

definition match_start :: "log_row list \<Rightarrow> match_state" where
  "match_start tbl = \<lparr>ms_keys = {}, ms_pairs = [], ms_shortfall = [], ms_unmatched = [], ms_log = tbl\<rparr>"

text \<open>Implementation shortfall in basis points, when both prices are known.\<close>

definition shortfall :: "string \<Rightarrow> ex_fill \<Rightarrow> log_row \<Rightarrow> pyfloat list" where
  "shortfall ex f r =
     (let p = (case (if ex = lg_buy r then lg_buy_price r else lg_sell_price r) of None \<Rightarrow> 0 | Some x \<Rightarrow> x)
      in if 0 < ef_price f \<and> 0 < p then [\<bar>ef_price f - p\<bar> / p * 10000] else [])"

text \<open>\<open>upd\<close>: whether the status update of a row succeeds.\<close>

definition match_fill :: "string \<Rightarrow> (log_row \<Rightarrow> bool) \<Rightarrow> log_row list \<Rightarrow> ex_fill \<Rightarrow> match_state \<Rightarrow> match_state" where
  "match_fill ex upd rows f s =
     (let symb = normalize_symbol (ef_symbol f)
      in case best_match (ms_keys s) f (filter (\<lambda>r. lg_symbol r = symb) rows) None of
           None \<Rightarrow> s\<lparr>ms_unmatched := ms_unmatched s @ [f]\<rparr>
         | Some r \<Rightarrow>
             s\<lparr>ms_keys := insert (row_ts_ms r) (ms_keys s), ms_pairs := ms_pairs s @ [(f, r)],
               ms_shortfall := ms_shortfall s @ shortfall ex f r,
               ms_log := (if upd r then mark_matched (lg_ts r) symb (lg_buy r) (lg_sell r) (ms_log s) else ms_log s)\<rparr>)"

definition match_fills :: "string \<Rightarrow> (log_row \<Rightarrow> bool) \<Rightarrow> log_row list \<Rightarrow> ex_fill list \<Rightarrow> log_row list \<Rightarrow> match_state" where
  "match_fills ex upd rows fills tbl = fold (match_fill ex upd rows) fills (match_start tbl)"

text \<open>Nearest-rank percentiles of the sorted values.\<close>

definition percentile50 :: "pyfloat list \<Rightarrow> pyfloat option" where
  "percentile50 xs = (if xs = [] then None else Some (sort xs ! min (nat \<lfloor>of_nat (length xs) * (1 / 2 :: rat)\<rfloor>) (length xs - 1)))"

definition percentile95 :: "pyfloat list \<Rightarrow> pyfloat option" where
  "percentile95 xs = (if xs = [] then None else Some (sort xs ! min (nat (\<lceil>of_nat (length xs) * (95 / 100 :: rat)\<rceil> - 1)) (length xs - 1)))"

definition report_of :: "log_row list \<Rightarrow> match_state \<Rightarrow> recon_report" where
  "report_of rows s =
     \<lparr>rp_matched = length (ms_pairs s),
      rp_internal = concat (map (\<lambda>symb. filter (\<lambda>r. lg_symbol r = symb \<and> row_ts_ms r \<notin> ms_keys s) rows) (rev (remdups (rev (map lg_symbol rows))))),
      rp_exchange = ms_unmatched s, rp_p50 = percentile50 (ms_shortfall s), rp_p95 = percentile95 (ms_shortfall s)\<rparr>"

subsection \<open>One reconciliation\<close>

text \<open>The adapter (\<open>None\<close> without \<open>get_trades\<close>), the table (\<open>None\<close> without a pool) and which of its queries succeed.\<close>

record recon_env =
  re_trades :: "(string \<Rightarrow> ex_fill list outcome) option"
  re_log :: "log_row list option"
  re_symbols_ok :: bool
  re_rows_ok :: bool
  re_update_ok :: "log_row \<Rightarrow> bool"

fun gather_fills :: "(string \<Rightarrow> ex_fill list outcome) \<Rightarrow> string list \<Rightarrow> ex_fill list option" where
  "gather_fills get [] = Some []"
| "gather_fills get (s # ss) =
     (case get s of Returned fs \<Rightarrow> map_option (\<lambda>rest. fs @ rest) (gather_fills get ss) | _ \<Rightarrow> None)"

definition symbols_to_check :: "recon_env \<Rightarrow> string \<Rightarrow> secs \<Rightarrow> string list \<Rightarrow> string list option" where
  "symbols_to_check e ex since symbols =
     (if symbols \<noteq> [] then Some symbols
      else case re_log e of
             None \<Rightarrow> Some []
           | Some tbl \<Rightarrow> if re_symbols_ok e then Some (query_symbols ex since tbl) else None)"

definition reconcile_period :: "recon_env \<Rightarrow> string \<Rightarrow> secs \<Rightarrow> string list \<Rightarrow> recon_report \<times> log_row list option" where
  "reconcile_period e ex since symbols =
     (case re_trades e of
        None \<Rightarrow> (empty_report, re_log e)
      | Some get \<Rightarrow>
          (case symbols_to_check e ex since symbols of
             None \<Rightarrow> (empty_report, re_log e)
           | Some ss \<Rightarrow>
               if ss = [] then (empty_report, re_log e)
               else case gather_fills get ss of
                      None \<Rightarrow> (empty_report, re_log e)
                    | Some fills \<Rightarrow>
                        (case re_log e of
                           None \<Rightarrow> (empty_report, None)
                         | Some tbl \<Rightarrow>
                             if fills = []
                             then (if re_rows_ok e then empty_report\<lparr>rp_internal := query_present ex since tbl\<rparr> else empty_report, Some tbl)
                             else if \<not> re_rows_ok e then (empty_report, Some tbl)
                             else let rows = query_rows ex since tbl; s = match_fills ex (re_update_ok e) rows fills tbl
                                  in (report_of rows s, Some (ms_log s)))))"

subsection \<open>Symbols in canonical form\<close>

lemma split_quote_append:
  assumes "q \<in> set quote_suffixes"
  shows "\<exists>b' q'. split_quote (b @ q) = Some (b', q') \<and> b' @ q' = b @ q"
proof (induction b)
  case (Cons c b)
  then show ?case by (subst split_quote.simps) auto
qed (use assms in \<open>subst split_quote.simps; simp\<close>)

text \<open>No known quote currency ends in another one.\<close>

lemma no_suffix_of_another: "\<forall>q \<in> set quote_suffixes. \<forall>q' \<in> set quote_suffixes. drop (length q' - length q) q' = q \<longrightarrow> q = q'"
  by code_simp

lemma suffix_same: "q \<in> set quote_suffixes \<Longrightarrow> us @ q \<in> set quote_suffixes \<Longrightarrow> us = []"
  using no_suffix_of_another [rule_format, of q "us @ q"] by simp

lemma split_quote_known: "q \<in> set quote_suffixes \<Longrightarrow> split_quote (b @ q) = Some (b, q)"
proof (induction b)
  case (Cons c b)
  then have "(c # b) @ q \<notin> set quote_suffixes" using suffix_same [of q "c # b"] by auto
  then show ?case using Cons by (subst split_quote.simps) simp
qed (simp add: split_quote.simps)

lemma split_quote_sound: "split_quote s = Some (b, q) \<Longrightarrow> s = b @ q \<and> q \<in> set quote_suffixes"
proof (induction s arbitrary: b)
  case Nil
  then show ?case by (auto simp: split_quote.simps quote_suffixes_def)
next
  case (Cons c s)
  show ?case
  proof (cases "c # s \<in> set quote_suffixes")
    case False
    then obtain b' where "split_quote s = Some (b', q)" "b = c # b'"
      using Cons.prems by (subst (asm) split_quote.simps) auto
    then show ?thesis using Cons.IH by simp
  qed (use Cons.prems in \<open>auto simp: split_quote.simps\<close>)
qed

definition plain :: "string \<Rightarrow> bool" where
  "plain s \<longleftrightarrow> CHR ''/'' \<notin> set s \<and> CHR '':'' \<notin> set s"

lemma quotes_plain: "q \<in> set quote_suffixes \<Longrightarrow> plain q"
  by (auto simp: quote_suffixes_def plain_def)

lemma take_colon: "CHR '':'' \<notin> set s \<Longrightarrow> takeWhile (\<lambda>c. c \<noteq> CHR '':'') (s @ CHR '':'' # t) = s"
  by (induction s) auto

lemma normal_fixed: "CHR '':'' \<notin> set s \<Longrightarrow> CHR ''/'' \<in> set s \<Longrightarrow> normalize_symbol s = s"
  by (simp add: normalize_symbol_def Let_def)

text \<open>C31. Round trip of the symbols: a canonical symbol over a known quote currency is recovered from the raw form of the exchange,
  which leaves the slash out, and from the form of a perpetual contract, which adds the settlement currency; it
  is itself unchanged.  Normalizing a second time never changes anything.\<close>

theorem symbol_round_trip:
  assumes "plain b" and "q \<in> set quote_suffixes"
  shows "normalize_symbol (b @ q) = b @ ''/'' @ q \<and> normalize_symbol (b @ ''/'' @ q @ '':'' @ settle) = b @ ''/'' @ q
    \<and> normalize_symbol (b @ ''/'' @ q) = b @ ''/'' @ q \<and> normalize_symbol (normalize_symbol raw) = normalize_symbol raw"
proof -
  have p: "CHR ''/'' \<notin> set b" "CHR '':'' \<notin> set b" "CHR ''/'' \<notin> set q" "CHR '':'' \<notin> set q"
    using assms(1) quotes_plain [OF assms(2)] by (auto simp: plain_def)
  have "takeWhile (\<lambda>c. c \<noteq> CHR '':'') (b @ CHR ''/'' # q @ CHR '':'' # settle) = b @ CHR ''/'' # q"
    using take_colon [of "b @ CHR ''/'' # q" settle] p by simp
  moreover have "normalize_symbol (normalize_symbol raw) = normalize_symbol raw"
  proof -
    let ?s = "if CHR '':'' \<in> set raw then takeWhile (\<lambda>c. c \<noteq> CHR '':'') raw else raw"
    have nc: "CHR '':'' \<notin> set ?s" by (auto dest: set_takeWhileD)
    show ?thesis
    proof (cases "CHR ''/'' \<in> set ?s \<or> split_quote ?s = None")
      case True
      then have n: "normalize_symbol raw = ?s" by (auto simp: normalize_symbol_def Let_def)
      from True nc have "normalize_symbol ?s = ?s" unfolding normalize_symbol_def [of ?s] Let_def by auto
      then show ?thesis unfolding n .
    next
      case False
      then obtain b' q' where s: "split_quote ?s = Some (b', q')" by fastforce
      then have n: "normalize_symbol raw = b' @ ''/'' @ q'" using False by (auto simp: normalize_symbol_def Let_def)
      have "CHR '':'' \<notin> set (b' @ ''/'' @ q')" using split_quote_sound [OF s] nc by auto
      then show ?thesis unfolding n by (rule normal_fixed) simp
    qed
  qed
  ultimately show ?thesis
    using p split_quote_known [OF assms(2), of b] by (simp add: normalize_symbol_def Let_def)
qed

theorem symbol_round_trip_witness:
  "normalize_symbol ''BTCUSDT'' = ''BTC/USDT'' \<and> normalize_symbol ''BTC/USDT:USDT'' = ''BTC/USDT''"
  using symbol_round_trip [of "''BTC''" "''USDT''" "''USDT''"] by (simp add: plain_def quote_suffixes_def)

subsection \<open>Matches\<close>

definition eligible :: "int set \<Rightarrow> ex_fill \<Rightarrow> log_row \<Rightarrow> bool" where
  "eligible keys f r \<longleftrightarrow> time_gap f r < 30 \<and> row_ts_ms r \<notin> keys \<and> size_fits f r"

lemma best_match_spec:
  "(case best_match keys f rs best of
      None \<Rightarrow> best = None \<and> (\<forall>r \<in> set rs. \<not> eligible keys f r)
    | Some m \<Rightarrow> (m \<in> set rs \<and> eligible keys f m \<or> best = Some m)
        \<and> (\<forall>r \<in> set rs. eligible keys f r \<longrightarrow> time_gap f m \<le> time_gap f r)
        \<and> (\<forall>b. best = Some b \<longrightarrow> time_gap f m \<le> time_gap f b))"
proof (induction rs arbitrary: best)
  case (Cons r rs)
  show ?case
  proof (cases "eligible keys f r \<and> (\<forall>b. best = Some b \<longrightarrow> time_gap f r < time_gap f b)")
    case True
    then have "best_match keys f (r # rs) best = best_match keys f rs (Some r)"
      by (auto simp: eligible_def split: option.splits)
    then show ?thesis using Cons.IH [of "Some r"] True by (fastforce split: option.splits)
  next
    case False
    then have "best_match keys f (r # rs) best = best_match keys f rs best"
      by (auto simp: eligible_def not_less split: option.splits)
    then show ?thesis using Cons.IH [of best] False by (fastforce simp: not_less split: option.splits)
  qed
qed (simp split: option.split)

text \<open>What holds of the matches made so far: each pairs a fill with a row of its symbol less than 30 seconds and at most
  20 percent away, no two of them share a millisecond, and no other row was remembered.\<close>

definition matches_ok :: "log_row list \<Rightarrow> match_state \<Rightarrow> bool" where
  "matches_ok rows s \<longleftrightarrow>
     (\<forall>(f, r) \<in> set (ms_pairs s). r \<in> set rows \<and> lg_symbol r = normalize_symbol (ef_symbol f) \<and> time_gap f r < 30 \<and> size_fits f r)
     \<and> distinct (map (row_ts_ms \<circ> snd) (ms_pairs s)) \<and> ms_keys s = set (map (row_ts_ms \<circ> snd) (ms_pairs s))"

lemma match_fill_ok:
  assumes "matches_ok rows s"
  shows "matches_ok rows (match_fill ex upd rows f s)"
    and "length (ms_pairs (match_fill ex upd rows f s)) + length (ms_unmatched (match_fill ex upd rows f s))
      = Suc (length (ms_pairs s) + length (ms_unmatched s))"
proof -
  let ?cs = "filter (\<lambda>r. lg_symbol r = normalize_symbol (ef_symbol f)) rows"
  note spec = best_match_spec [where keys = "ms_keys s" and f = f and rs = ?cs and best = None]
  show "matches_ok rows (match_fill ex upd rows f s)"
    using assms spec
    by (cases "best_match (ms_keys s) f ?cs None") (auto simp: match_fill_def matches_ok_def eligible_def)
  show "length (ms_pairs (match_fill ex upd rows f s)) + length (ms_unmatched (match_fill ex upd rows f s))
      = Suc (length (ms_pairs s) + length (ms_unmatched s))"
    by (simp add: match_fill_def Let_def split: option.split)
qed

lemma match_fills_ok:
  "matches_ok rows s \<Longrightarrow> matches_ok rows (fold (match_fill ex upd rows) fills s)
   \<and> length (ms_pairs (fold (match_fill ex upd rows) fills s)) + length (ms_unmatched (fold (match_fill ex upd rows) fills s))
     = length (ms_pairs s) + length (ms_unmatched s) + length fills"
proof (induction fills arbitrary: s)
  case (Cons f fills)
  then show ?case using match_fill_ok [OF Cons.prems, of ex upd f] by simp
qed simp

lemma internal_rows: "set (rp_internal (report_of rows s)) = {r \<in> set rows. row_ts_ms r \<notin> ms_keys s}"
  by (auto simp: report_of_def)

lemma match_start_ok: "matches_ok rows (match_start tbl)"
  by (simp add: matches_ok_def match_start_def)

text \<open>C32. The reconciliation accounts for every fill and every row: fills are matched or reported, a matched fill has a row of its
  symbol less than 30 seconds and at most 20 percent of its size away, no row is matched twice, and the
  reported rows are exactly those at whose millisecond nothing was matched.\<close>

theorem reconciliation_accounts_for_all:
  assumes "s = match_fills ex upd rows fills tbl" and "rep = report_of rows s"
  shows "rp_matched rep + length (rp_exchange rep) = length fills
    \<and> distinct (map snd (ms_pairs s)) \<and> length (ms_pairs s) = rp_matched rep
    \<and> (\<forall>(f, r) \<in> set (ms_pairs s). r \<in> set rows \<and> lg_symbol r = normalize_symbol (ef_symbol f) \<and> time_gap f r < 30 \<and> size_fits f r)
    \<and> set (rp_internal rep) = {r \<in> set rows. \<forall>p \<in> set (ms_pairs s). row_ts_ms (snd p) \<noteq> row_ts_ms r}"
proof -
  note ok = match_fills_ok [OF match_start_ok [of rows tbl], where ex = ex and upd = upd and fills = fills, folded match_fills_def, folded assms(1)]
  then have keys: "ms_keys s = set (map (row_ts_ms \<circ> snd) (ms_pairs s))" by (simp add: matches_ok_def)
  have "distinct (map row_ts_ms (map snd (ms_pairs s)))" using ok by (simp add: matches_ok_def)
  then have "distinct (map snd (ms_pairs s))" by (simp only: distinct_map)
  moreover have "set (rp_internal rep) = {r \<in> set rows. \<forall>p \<in> set (ms_pairs s). row_ts_ms (snd p) \<noteq> row_ts_ms r}"
    unfolding assms(2) internal_rows keys by (auto simp: image_iff)
  ultimately show ?thesis
    using ok by (auto simp: assms(2) report_of_def matches_ok_def match_start_def)
qed

definition ex_log_row :: "secs \<Rightarrow> string \<Rightarrow> log_row" where
  "ex_log_row t symb = \<lparr>lg_live = True, lg_ts = t, lg_symbol = symb, lg_buy = ''binance'', lg_sell = ''bitget'', lg_buy_price = Some 100,
     lg_sell_price = Some 101, lg_size = Some 2, lg_matched = False\<rparr>"

definition ex_ex_fill :: "int \<Rightarrow> string \<Rightarrow> ex_fill" where
  "ex_ex_fill t symb = \<lparr>ef_symbol = symb, ef_ts_ms = t, ef_price = 100, ef_qty = 2\<rparr>"

theorem reconciliation_accounts_for_all_witness:
  "rp_matched (report_of [ex_log_row 100 ''BTC/USDT''] (match_fills ''binance'' (\<lambda>r. True) [ex_log_row 100 ''BTC/USDT'']
       [ex_ex_fill 100500 ''BTCUSDT'', ex_ex_fill 101000 ''BTCUSDT''] [ex_log_row 100 ''BTC/USDT'']))
   + length (rp_exchange (report_of [ex_log_row 100 ''BTC/USDT''] (match_fills ''binance'' (\<lambda>r. True) [ex_log_row 100 ''BTC/USDT'']
       [ex_ex_fill 100500 ''BTCUSDT'', ex_ex_fill 101000 ''BTCUSDT''] [ex_log_row 100 ''BTC/USDT'']))) = 2"
  using reconciliation_accounts_for_all [OF refl refl, of "[ex_log_row 100 ''BTC/USDT'']" "''binance''" "\<lambda>r. True"
      "[ex_ex_fill 100500 ''BTCUSDT'', ex_ex_fill 101000 ''BTCUSDT'']" "[ex_log_row 100 ''BTC/USDT'']"]
  by simp

subsection \<open>Deviations\<close>

text \<open>The key of a row is its millisecond alone: a row of another symbol in the same millisecond as a matched one is neither
  matched nor reported.\<close>

lemma row_hidden_by_its_millisecond:
  "let rows = [ex_log_row 100 ''BTC/USDT'', ex_log_row 100 ''ETH/USDT''];
       s = match_fills ''binance'' (\<lambda>r. True) rows [ex_ex_fill 100000 ''BTCUSDT''] rows
   in rp_matched (report_of rows s) = 1 \<and> rp_internal (report_of rows s) = []"
  by code_simp

text \<open>Two fills that make up one order each miss its size by more than a fifth: nothing is matched.\<close>

lemma partial_fills_never_match:
  "let rows = [ex_log_row 100 ''BTC/USDT'']; f = (ex_ex_fill 100000 ''BTCUSDT'')\<lparr>ef_qty := 1\<rparr>;
       s = match_fills ''binance'' (\<lambda>r. True) rows [f, f] rows
   in rp_matched (report_of rows s) = 0 \<and> length (rp_exchange (report_of rows s)) = 2 \<and> length (rp_internal (report_of rows s)) = 1"
  by code_simp

text \<open>When the exchange reports no fill at all, rows that were matched before are reported as missing.\<close>

lemma matched_rows_reported_missing:
  "rp_internal (fst (reconcile_period \<lparr>re_trades = Some (\<lambda>s. Returned []), re_log = Some [(ex_log_row 100 ''BTC/USDT'')\<lparr>lg_matched := True\<rparr>],
       re_symbols_ok = True, re_rows_ok = True, re_update_ok = (\<lambda>r. True)\<rparr> ''binance'' 0 [''BTC/USDT'']))
   = [(ex_log_row 100 ''BTC/USDT'')\<lparr>lg_matched := True\<rparr>]"
  by code_simp

end
