(* ===== verification/Workflow.thy ===== *)
theory Workflow
  imports Prelude
begin

text \<open>
  \<open>engine/src/workflow/\<close>: the state machine of a release (\<open>fsm.py\<close>), the exit conditions of the steps of the
  second phase (\<open>phase2_fsm.py\<close>), the gate of the canary test (\<open>sit3_gate.py\<close>) and the checkpoints
  (\<open>checkpoint_engine.py\<close>).  What the database, Redis, the engine's interface and Docker answer, the clock and
  the JSON codec are arguments.
\<close>

subsection \<open>The state machine\<close>

definition transitions :: "((string \<times> string) \<times> string) list" where
  "transitions =
     [((''A'', ''entry_gate_pass''), ''A_plan''),
      ((''A_plan'', ''plan_review_pass''), ''A_quant''),
      ((''A_plan'', ''plan_review_skip''), ''B''),
      ((''A_quant'', ''quant_pass''), ''B''),
      ((''A_quant'', ''quant_fail''), ''A_plan''),
      ((''B'', ''build_complete''), ''B_test''),
      ((''B_test'', ''pytest_pass''), ''B_shadow''),
      ((''B_test'', ''pytest_fail''), ''B''),
      ((''B_shadow'', ''shadow_pass''), ''C''),
      ((''B_shadow'', ''shadow_fail_type_w''), ''ESCALATE_L2''),
      ((''B_shadow'', ''shadow_fail_type_p''), ''B_fix''),
      ((''B_shadow'', ''shadow_fail_type_b''), ''B_fix''),
      ((''B_fix'', ''fix_complete''), ''B_test''),
      ((''C'', ''assembly_pass''), ''C_review''),
      ((''C'', ''assembly_fail''), ''B''),
      ((''C_review'', ''review_pass''), ''C_go''),
      ((''C_review'', ''review_fail''), ''B''),
      ((''C_go'', ''go''), ''C_release''),
      ((''C_go'', ''no_go''), ''B''),
      ((''C_release'', ''pushed''), ''NEXT_US''),
      ((''NEXT_US'', ''more_us''), ''A''),
      ((''NEXT_US'', ''phase_complete''), ''NEXT_PHASE''),
      ((''ESCALATE_L2'', ''escalation_resolved''), ''A''),
      ((''TF_QF'', ''qf_pass''), ''TF_SF''),
      ((''TF_QF'', ''qf_fail''), ''REGRESSION''),
      ((''TF_SF'', ''sf_pass''), ''TF_PF''),
      ((''TF_SF'', ''sf_fail''), ''REGRESSION''),
      ((''TF_PF'', ''pf_pass''), ''TF_FINAL''),
      ((''TF_PF'', ''pf_fail''), ''TF_PF''),
      ((''TF_PF'', ''pf_skip''), ''TF_FINAL''),
      ((''TF_FINAL'', ''final_pass''), ''LIVE''),
      ((''TF_FINAL'', ''final_fail''), ''TF_SF''),
      ((''REGRESSION'', ''regression_complete''), ''TF_QF''),
      ((''SIT3_AUDIT'', ''audit_done''), ''SIT3_PLAN''),
      ((''SIT3_PLAN'', ''plan_done''), ''SIT3_EXECUTE''),
      ((''SIT3_EXECUTE'', ''execute_done''), ''SIT3_VERIFY''),
      ((''SIT3_VERIFY'', ''verify_pass''), ''SIT3_AUDIT''),
      ((''SIT3_VERIFY'', ''verify_fail''), ''SIT3_AUDIT''),
      ((''SIT3_AUDIT'', ''sit3_pass''), ''TF_QF'')]"

definition next_state :: "string \<Rightarrow> string \<Rightarrow> string option" where
  "next_state s e = map_of transitions (s, e)"

definition allowed_events :: "string \<Rightarrow> string list" where
  "allowed_events s = map (snd \<circ> fst) (filter (\<lambda>((s', e), t). s' = s) transitions)"

text \<open>The current state and the file it is kept in: absent, unreadable or without a state (\<open>None\<close>), or a state.\<close>

record fsm =
  fs_current :: string
  fs_file :: "string option"

definition load_state :: "string option \<Rightarrow> string" where
  "load_state file = (case file of None \<Rightarrow> ''A'' | Some s \<Rightarrow> s)"

definition fsm_new :: "string option \<Rightarrow> fsm" where
  "fsm_new file = \<lparr>fs_current = load_state file, fs_file = file\<rparr>"

datatype fsm_error = InvalidTransition "string list" | SaveFailed

text \<open>\<open>ok\<close>: the file could be written; otherwise the exception is raised after the state has changed in memory.\<close>

definition save_state :: "bool \<Rightarrow> fsm \<Rightarrow> fsm" where
  "save_state ok f = (if ok then f\<lparr>fs_file := Some (fs_current f)\<rparr> else f)"

definition can_transition :: "string \<Rightarrow> fsm \<Rightarrow> bool" where
  "can_transition e f \<longleftrightarrow> next_state (fs_current f) e \<noteq> None"

definition fsm_transition :: "bool \<Rightarrow> string \<Rightarrow> fsm \<Rightarrow> (fsm_error + string) \<times> fsm" where
  "fsm_transition ok e f =
     (case next_state (fs_current f) e of
        None \<Rightarrow> (Inl (InvalidTransition (allowed_events (fs_current f))), f)
      | Some t \<Rightarrow> (if ok then Inr t else Inl SaveFailed, save_state ok (f\<lparr>fs_current := t\<rparr>)))"

definition set_state :: "bool \<Rightarrow> string \<Rightarrow> fsm \<Rightarrow> (fsm_error + unit) \<times> fsm" where
  "set_state ok s f = (if ok then Inr () else Inl SaveFailed, save_state ok (f\<lparr>fs_current := s\<rparr>))"

subsection \<open>A release is earned\<close>

fun walk :: "string \<Rightarrow> string list \<Rightarrow> string option" where
  "walk s [] = Some s"
| "walk s (e # es) = (case next_state s e of None \<Rightarrow> None | Some t \<Rightarrow> walk t es)"

text \<open>The events of a sequence of requests that were accepted, and the machine after them.\<close>

fun attempts :: "(bool \<times> string) list \<Rightarrow> fsm \<Rightarrow> string list \<times> fsm" where
  "attempts [] f = ([], f)"
| "attempts ((ok, e) # xs) f =
     (let f' = snd (fsm_transition ok e f); (es, f'') = attempts xs f' in (if can_transition e f then e # es else es, f''))"

definition sources_of :: "string \<Rightarrow> (string \<times> string) list" where
  "sources_of t = map fst (filter (\<lambda>(k, t'). t' = t) transitions)"

lemma walk_append: "walk s (es @ es') = Option.bind (walk s es) (\<lambda>t. walk t es')"
  by (induction es arbitrary: s) (auto split: option.split)

lemma attempts_walk: "walk (fs_current f) (fst (attempts xs f)) = Some (fs_current (snd (attempts xs f)))"
proof (induction xs f rule: attempts.induct)
  case (2 ok e xs f)
  then show ?case
    by (auto simp: Let_def case_prod_beta can_transition_def fsm_transition_def save_state_def split: option.splits)
qed simp

lemma last_event:
  assumes "walk s es = Some t" and "s \<noteq> t"
  obtains u e es' where "es = es' @ [e]" "walk s es' = Some u" "(u, e) \<in> set (sources_of t)"
proof (cases es rule: rev_cases)
  case Nil
  then show ?thesis using assms by simp
next
  case (snoc es' e)
  then obtain u where u: "walk s es' = Some u" "next_state u e = Some t"
    using assms(1) by (auto simp: walk_append bind_eq_Some_conv split: option.splits)
  then have "((u, e), t) \<in> set transitions" by (auto simp: next_state_def dest: map_of_SomeD)
  then have "(u, e) \<in> set (sources_of t)" by (force simp: sources_of_def)
  then show ?thesis using that snoc u(1) by blast
qed

lemma release_sources:
  "sources_of ''C_release'' = [(''C_go'', ''go'')]" "sources_of ''C_go'' = [(''C_review'', ''review_pass'')]"
  "sources_of ''C_review'' = [(''C'', ''assembly_pass'')]" "sources_of ''C'' = [(''B_shadow'', ''shadow_pass'')]"
  "sources_of ''B_shadow'' = [(''B_test'', ''pytest_pass'')]"
  "sources_of ''B_test'' = [(''B'', ''build_complete''), (''B_fix'', ''fix_complete'')]"
  by code_simp+

lemma live_sources:
  "sources_of ''LIVE'' = [(''TF_FINAL'', ''final_pass'')]"
  "sources_of ''TF_FINAL'' = [(''TF_PF'', ''pf_pass''), (''TF_PF'', ''pf_skip'')]"
  "sources_of ''TF_PF'' = [(''TF_SF'', ''sf_pass''), (''TF_PF'', ''pf_fail'')]"
  by code_simp+

definition build_events :: "string list" where
  "build_events = [''build_complete'', ''fix_complete'']"

lemma release_walk:
  assumes "walk ''A'' es = Some ''C_release''"
  shows "\<exists>pre b. b \<in> set build_events
    \<and> es = pre @ [b, ''pytest_pass'', ''shadow_pass'', ''assembly_pass'', ''review_pass'', ''go'']"
proof -
  from assms obtain es1 where 1: "es = es1 @ [''go'']" "walk ''A'' es1 = Some ''C_go''"
    by (rule last_event) (auto simp: release_sources)
  from 1(2) obtain es2 where 2: "es1 = es2 @ [''review_pass'']" "walk ''A'' es2 = Some ''C_review''"
    by (rule last_event) (auto simp: release_sources)
  from 2(2) obtain es3 where 3: "es2 = es3 @ [''assembly_pass'']" "walk ''A'' es3 = Some ''C''"
    by (rule last_event) (auto simp: release_sources)
  from 3(2) obtain es4 where 4: "es3 = es4 @ [''shadow_pass'']" "walk ''A'' es4 = Some ''B_shadow''"
    by (rule last_event) (auto simp: release_sources)
  from 4(2) obtain es5 where 5: "es4 = es5 @ [''pytest_pass'']" "walk ''A'' es5 = Some ''B_test''"
    by (rule last_event) (auto simp: release_sources)
  from 5(2) obtain es6 b where "es5 = es6 @ [b]" "b \<in> set build_events"
    by (rule last_event) (auto simp: release_sources build_events_def)
  then show ?thesis using 1 2 3 4 5 by auto
qed

text \<open>C40. A release is earned: whatever events are tried from the start, when the machine is in the release state the last
  six accepted events are a completed build or fix, then the tests, the shadow run, the assembly, the review and
  the decision to go, all passed and nothing in between.\<close>

theorem release_is_earned:
  assumes "fs_current f = ''A''" and "attempts xs f = (es, f')" and "fs_current f' = ''C_release''"
  shows "\<exists>pre b. b \<in> set build_events
    \<and> es = pre @ [b, ''pytest_pass'', ''shadow_pass'', ''assembly_pass'', ''review_pass'', ''go'']"
  using release_walk attempts_walk [of f xs] assms by simp

definition ex_attempts :: "(bool \<times> string) list" where
  "ex_attempts = map (Pair True)
     [''entry_gate_pass'', ''go'', ''plan_review_skip'', ''build_complete'', ''pytest_fail'', ''shadow_pass'', ''build_complete'', ''pytest_pass'',
      ''shadow_pass'', ''assembly_pass'', ''review_pass'', ''go'']"

theorem release_is_earned_witness:
  "\<exists>pre b. b \<in> set build_events
     \<and> fst (attempts ex_attempts (fsm_new None)) = pre @ [b, ''pytest_pass'', ''shadow_pass'', ''assembly_pass'', ''review_pass'', ''go'']"
proof -
  have "fs_current (fsm_new None) = ''A''" "fs_current (snd (attempts ex_attempts (fsm_new None))) = ''C_release''" by code_simp+
  then show ?thesis using release_is_earned [OF _ prod.collapse [symmetric]] by blast
qed

text \<open>What the machine keeps on disk: a restart goes on where the last operation left, whatever it was.\<close>

datatype fsm_op = Event string | Force string | Restart

fun fsm_op_step :: "fsm_op \<Rightarrow> fsm \<Rightarrow> fsm" where
  "fsm_op_step (Event e) f = snd (fsm_transition True e f)"
| "fsm_op_step (Force s) f = snd (set_state True s f)"
| "fsm_op_step Restart f = fsm_new (fs_file f)"

lemma restart_changes_nothing:
  "fsm_new (fs_file (fold fsm_op_step ops (fsm_new file))) = fold fsm_op_step ops (fsm_new file)"
proof (induction ops rule: rev_induct)
  case (snoc op ops)
  then show ?case
    by (cases op) (auto simp: fsm_new_def fsm_transition_def set_state_def save_state_def load_state_def split: option.split)
qed (simp add: fsm_new_def)

text \<open>The states of a release cycle form a closed set without the state \<open>LIVE\<close>.\<close>

definition cycle_states :: "string list" where
  "cycle_states = [''A'', ''A_plan'', ''A_quant'', ''B'', ''B_test'', ''B_shadow'', ''B_fix'', ''C'', ''C_review'', ''C_go'', ''C_release'',
     ''NEXT_US'', ''NEXT_PHASE'', ''ESCALATE_L2'']"

lemma cycle_closed: "list_all (\<lambda>((s, e), t). s \<in> set cycle_states \<longrightarrow> t \<in> set cycle_states) transitions"
  by code_simp

lemma cycle_step: "s \<in> set cycle_states \<Longrightarrow> next_state s e = Some t \<Longrightarrow> t \<in> set cycle_states"
  using cycle_closed by (fastforce simp: next_state_def list_all_iff dest: map_of_SomeD)

lemma cycle_walk: "s \<in> set cycle_states \<Longrightarrow> walk s es = Some t \<Longrightarrow> t \<in> set cycle_states"
  by (induction es arbitrary: s) (auto split: option.splits dest: cycle_step)

text \<open>From the start neither the tournament nor \<open>LIVE\<close> is ever reached by events: the last state of the cycle allows none.\<close>

lemma events_never_reach_live: "walk ''A'' es = Some t \<Longrightarrow> t \<noteq> ''LIVE'' \<and> t \<noteq> ''TF_QF''"
  using cycle_walk [of "''A''" es t] by (auto simp: cycle_states_def)

lemma next_phase_is_a_dead_end: "allowed_events ''NEXT_PHASE'' = []"
  by code_simp

text \<open>The comment allows two retries of the pre-final; the machine counts none.\<close>

lemma pre_final_retries_without_end: "walk ''TF_PF'' (replicate n ''pf_fail'') = Some ''TF_PF''"
proof (induction n)
  case (Suc n)
  have "next_state ''TF_PF'' ''pf_fail'' = Some ''TF_PF''" by code_simp
  then show ?case using Suc by simp
qed simp

subsection \<open>Exit conditions of the second phase\<close>

record step_condition =
  sc_hours :: pyfloat
  sc_pnl :: pyfloat
  sc_crashes :: int
  sc_fires :: int
  sc_opens :: int
  sc_drawdown :: pyfloat

fun step_conditions :: "string \<Rightarrow> step_condition option" where
  "step_conditions s =
     map_of
       [(''2-1'', \<lparr>sc_hours = 48, sc_pnl = -1, sc_crashes = 0, sc_fires = 0, sc_opens = 5, sc_drawdown = 5\<rparr>),
        (''2-1.5'', \<lparr>sc_hours = 24, sc_pnl = -2, sc_crashes = 0, sc_fires = 0, sc_opens = 5, sc_drawdown = 5\<rparr>),
        (''2-2'', \<lparr>sc_hours = 24, sc_pnl = -3, sc_crashes = 0, sc_fires = 0, sc_opens = 10, sc_drawdown = 7\<rparr>),
        (''2-3'', \<lparr>sc_hours = 24, sc_pnl = -4, sc_crashes = 0, sc_fires = 0, sc_opens = 10, sc_drawdown = 7\<rparr>),
        (''2-4'', \<lparr>sc_hours = 24, sc_pnl = -5, sc_crashes = 0, sc_fires = 0, sc_opens = 10, sc_drawdown = 7\<rparr>),
        (''2-5'', \<lparr>sc_hours = 24, sc_pnl = -6, sc_crashes = 0, sc_fires = 0, sc_opens = 10, sc_drawdown = 7\<rparr>),
        (''2-6'', \<lparr>sc_hours = 24, sc_pnl = -8, sc_crashes = 0, sc_fires = 0, sc_opens = 10, sc_drawdown = 7\<rparr>),
        (''2-8'', \<lparr>sc_hours = 72, sc_pnl = -10, sc_crashes = 0, sc_fires = 0, sc_opens = 20, sc_drawdown = 10\<rparr>)] s"

declare step_conditions.simps [simp del]

text \<open>The sources of the figures: absent, or the outcomes of the two queries, in the order they are asked.\<close>

record phase_env =
  ph_elapsed :: secs
  ph_db :: "(pyfloat outcome \<times> int outcome) option"
  ph_redis :: "(int outcome \<times> int outcome) option"

datatype exit_reason = UnknownStep | TooEarly | PnlBelow | TooManyCrashes | KillSwitchFired | TooManyOpens | AllMet

record exit_evidence =
  ee_pnl :: "pyfloat option"
  ee_crashes :: "int option"
  ee_db_error :: bool
  ee_fires :: "int option"
  ee_opens :: "int option"
  ee_redis_error :: bool

definition no_evidence :: exit_evidence where
  "no_evidence = \<lparr>ee_pnl = None, ee_crashes = None, ee_db_error = False, ee_fires = None, ee_opens = None, ee_redis_error = False\<rparr>"

text \<open>Each source: a reason to stop, if any, and the evidence.\<close>

definition check_db :: "step_condition \<Rightarrow> phase_env \<Rightarrow> exit_evidence \<Rightarrow> exit_reason option \<times> exit_evidence" where
  "check_db c env ev =
     (case ph_db env of
        None \<Rightarrow> (None, ev)
      | Some (p, n) \<Rightarrow>
          (case p of
             Returned pnl \<Rightarrow>
               let ev1 = ev\<lparr>ee_pnl := Some pnl\<rparr>
               in if pnl < sc_pnl c then (Some PnlBelow, ev1)
                  else (case n of
                          Returned k \<Rightarrow>
                            let ev2 = ev1\<lparr>ee_crashes := Some k\<rparr> in if sc_crashes c < k then (Some TooManyCrashes, ev2) else (None, ev2)
                        | _ \<Rightarrow> (None, ev1\<lparr>ee_db_error := True\<rparr>))
           | _ \<Rightarrow> (None, ev\<lparr>ee_db_error := True\<rparr>)))"

definition check_redis :: "step_condition \<Rightarrow> phase_env \<Rightarrow> exit_evidence \<Rightarrow> exit_reason option \<times> exit_evidence" where
  "check_redis c env ev =
     (case ph_redis env of
        None \<Rightarrow> (None, ev)
      | Some (k, o1) \<Rightarrow>
          (case k of
             Returned fires \<Rightarrow>
               let ev1 = ev\<lparr>ee_fires := Some fires\<rparr>
               in if sc_fires c < fires then (Some KillSwitchFired, ev1)
                  else (case o1 of
                          Returned opens \<Rightarrow>
                            let ev2 = ev1\<lparr>ee_opens := Some opens\<rparr> in if sc_opens c < opens then (Some TooManyOpens, ev2) else (None, ev2)
                        | _ \<Rightarrow> (None, ev1\<lparr>ee_redis_error := True\<rparr>))
           | _ \<Rightarrow> (None, ev\<lparr>ee_redis_error := True\<rparr>)))"

definition step_exit :: "string \<Rightarrow> phase_env \<Rightarrow> exit_reason \<times> exit_evidence" where
  "step_exit s env =
     (case step_conditions s of
        None \<Rightarrow> (UnknownStep, no_evidence)
      | Some c \<Rightarrow>
          if ph_elapsed env / 3600 < sc_hours c then (TooEarly, no_evidence)
          else case check_db c env no_evidence of
                 (Some r, ev) \<Rightarrow> (r, ev)
               | (None, ev) \<Rightarrow> (case check_redis c env ev of (Some r, ev') \<Rightarrow> (r, ev') | (None, ev') \<Rightarrow> (AllMet, ev')))"

text \<open>A figure that was read does not exceed its bound.\<close>

definition none_or :: "('a \<Rightarrow> bool) \<Rightarrow> 'a option \<Rightarrow> bool" where
  "none_or P o1 = (case o1 of None \<Rightarrow> True | Some x \<Rightarrow> P x)"

lemma check_db_result:
  assumes "check_db c env no_evidence = (r, ev)"
  shows "r \<noteq> Some AllMet \<and> ee_fires ev = None \<and> ee_opens ev = None \<and> \<not> ee_redis_error ev
    \<and> (r = None \<longrightarrow> none_or (\<lambda>p. sc_pnl c \<le> p) (ee_pnl ev) \<and> none_or (\<lambda>n. n \<le> sc_crashes c) (ee_crashes ev)
        \<and> (ee_pnl ev = None \<or> ee_crashes ev = None \<longleftrightarrow> ph_db env = None \<or> ee_db_error ev))"
  using assms by (auto simp: check_db_def no_evidence_def none_or_def Let_def split: option.splits outcome.splits if_splits)

lemma check_redis_result:
  assumes "check_redis c env ev = (r, ev')" and "ee_fires ev = None" and "ee_opens ev = None" and "\<not> ee_redis_error ev"
  shows "r \<noteq> Some AllMet \<and> ee_pnl ev' = ee_pnl ev \<and> ee_crashes ev' = ee_crashes ev \<and> ee_db_error ev' = ee_db_error ev
    \<and> (r = None \<longrightarrow> none_or (\<lambda>n. n \<le> sc_fires c) (ee_fires ev') \<and> none_or (\<lambda>n. n \<le> sc_opens c) (ee_opens ev')
        \<and> (ee_fires ev' = None \<or> ee_opens ev' = None \<longleftrightarrow> ph_redis env = None \<or> ee_redis_error ev'))"
  using assms by (auto simp: check_redis_def none_or_def Let_def split: option.splits outcome.splits if_splits)

text \<open>A step of the second phase ends only when it is known, has lasted its hours, and every figure that could be read is
  within its bound; the evidence holds the figures that were compared, and a figure is missing only where its
  source is absent or a query failed, which is on record.\<close>

lemma finished_step_met_conditions:
  assumes "step_exit s env = (AllMet, ev)"
  shows "\<exists>c. step_conditions s = Some c \<and> sc_hours c * 3600 \<le> ph_elapsed env
    \<and> none_or (\<lambda>p. sc_pnl c \<le> p) (ee_pnl ev) \<and> none_or (\<lambda>n. n \<le> sc_crashes c) (ee_crashes ev)
    \<and> none_or (\<lambda>n. n \<le> sc_fires c) (ee_fires ev) \<and> none_or (\<lambda>n. n \<le> sc_opens c) (ee_opens ev)
    \<and> (ee_pnl ev = None \<or> ee_crashes ev = None \<longleftrightarrow> ph_db env = None \<or> ee_db_error ev)
    \<and> (ee_fires ev = None \<or> ee_opens ev = None \<longleftrightarrow> ph_redis env = None \<or> ee_redis_error ev)"
proof -
  obtain c where c: "step_conditions s = Some c" "\<not> ph_elapsed env / 3600 < sc_hours c"
    using assms by (auto simp: step_exit_def split: option.splits if_splits)
  obtain r1 ev1 where db: "check_db c env no_evidence = (r1, ev1)" by fastforce
  obtain r2 ev2 where re: "check_redis c env ev1 = (r2, ev2)" by fastforce
  note d = check_db_result [OF db]
  note r = check_redis_result [OF re]
  have "r1 = None" "r2 = None" "ev2 = ev"
    using assms c db re d r by (auto simp: step_exit_def split: option.splits)
  then show ?thesis using c d r by (intro exI [of _ c]) auto
qed

lemma finished_step_met_conditions_witness:
  "let env = \<lparr>ph_elapsed = 180000, ph_db = Some (Returned (1 / 2), Returned 0), ph_redis = Some (Returned 0, TimedOut)\<rparr>
   in fst (step_exit ''2-1'' env) = AllMet \<and> ee_pnl (snd (step_exit ''2-1'' env)) = Some (1 / 2) \<and> ee_redis_error (snd (step_exit ''2-1'' env))
     \<and> (\<exists>c. step_conditions ''2-1'' = Some c \<and> sc_hours c * 3600 \<le> 180000 \<and> none_or (\<lambda>p. sc_pnl c \<le> p) (Some (1 / 2)))"
proof -
  let ?env = "\<lparr>ph_elapsed = 180000, ph_db = Some (Returned (1 / 2), Returned 0), ph_redis = Some (Returned 0, TimedOut)\<rparr> :: phase_env"
  have e: "fst (step_exit ''2-1'' ?env) = AllMet" "ee_pnl (snd (step_exit ''2-1'' ?env)) = Some (1 / 2)"
    "ee_redis_error (snd (step_exit ''2-1'' ?env))" by code_simp+
  then have "step_exit ''2-1'' ?env = (AllMet, snd (step_exit ''2-1'' ?env))" by (simp add: prod_eq_iff)
  from finished_step_met_conditions [OF this] show ?thesis using e by (auto simp: Let_def)
qed

text \<open>Without a database and without Redis, or when both fail, time alone ends a step.\<close>

lemma unread_figures_pass:
  assumes "step_conditions s = Some c" and "sc_hours c * 3600 \<le> ph_elapsed env"
    and "ph_db env \<in> {None, Some (TimedOut, n)}" and "ph_redis env \<in> {None, Some (TimedOut, m)}"
  shows "fst (step_exit s env) = AllMet"
  using assms by (auto simp: step_exit_def check_db_def check_redis_def)

text \<open>The drawdown that the table and the description of the conditions allow is never looked at, and the table has no
  step 2-7.\<close>

lemma no_step_2_7: "step_conditions ''2-7'' = None"
  by code_simp


subsection \<open>The gate of the canary test\<close>

text \<open>What the engine answers: the health, the health scores of the exchanges when a list is returned, the number of signals
  (0 when it is not reported), the endpoints that answer, the state of the circuit breaker; and what Docker shows of the
  container: nothing when it is absent, else the number read from the CPU column, if it is one, and the memory.\<close>

record gate_env =
  ge_health :: bool
  ge_exchanges :: "pyfloat list option"
  ge_docker :: "(pyfloat option \<times> string) option outcome"
  ge_signals :: int
  ge_endpoint :: "string \<Rightarrow> bool"
  ge_breaker :: "string option"

definition cp_criteria :: "string \<Rightarrow> string list" where
  "cp_criteria cp =
     (case map_of
        [(''CP1'', [''crash_zero'', ''ws_connected'', ''subsystems_init'', ''health_ok'']),
         (''CP2'', [''dqm_stable'', ''signals_generated'', ''memory_stable'']),
         (''CP3'', [''strategy_signals'', ''api_all_200'', ''telegram_ok'']),
         (''CP4'', [''trades_positive'', ''risk_check_active'']),
         (''CP5'', [''memory_limit'', ''cpu_limit'', ''cb_closed'']),
         (''CP6'', [''livegate_tracking'']),
         (''CP7'', [''livegate_eligible'', ''strategy_sharpe'', ''mdd_limit'']),
         (''CP8'', [''memory_no_leak'', ''stability_continues'']),
         (''CP9'', [''all_stable'', ''scenarios_all_green''])] cp of None \<Rightarrow> [] | Some cs \<Rightarrow> cs)"

definition gate_endpoints :: "string list" where
  "gate_endpoints = [''/health'', ''/api/v1/settings'', ''/api/v1/shadow/stats'', ''/api/v1/portfolio-summary'', ''/api/v1/exchanges'',
     ''/api/v1/risk/metrics'']"

definition memory_ok :: "gate_env \<Rightarrow> bool" where
  "memory_ok g = (case ge_docker g of Returned None \<Rightarrow> True | Returned (Some (c, mem)) \<Rightarrow> \<not> occurs_in ''GiB'' mem | _ \<Rightarrow> False)"

definition cpu_ok :: "gate_env \<Rightarrow> bool" where
  "cpu_ok g = (case ge_docker g of Returned None \<Rightarrow> True | Returned (Some (Some c, mem)) \<Rightarrow> c < 80 | _ \<Rightarrow> False)"

definition check_criterion :: "gate_env \<Rightarrow> string \<Rightarrow> bool" where
  "check_criterion g name =
     (if name \<in> set [''health_ok'', ''crash_zero'', ''subsystems_init''] then ge_health g
      else if name = ''ws_connected''
        then (case ge_exchanges g of None \<Rightarrow> False | Some hs \<Rightarrow> 8 \<le> length (filter (\<lambda>h. 0 < h) hs))
      else if name \<in> set [''memory_stable'', ''memory_limit'', ''memory_no_leak''] then memory_ok g
      else if name = ''cpu_limit'' then cpu_ok g
      else if name \<in> set [''signals_generated'', ''strategy_signals''] then 0 < ge_signals g
      else if name = ''api_all_200'' then list_all (ge_endpoint g) gate_endpoints
      else if name = ''telegram_ok'' then True
      else if name = ''cb_closed'' then ge_breaker g = Some ''CLOSED''
      else False)"

definition evaluate_checkpoint :: "gate_env \<Rightarrow> string \<Rightarrow> bool \<times> (string \<times> bool) list" where
  "evaluate_checkpoint g cp =
     (let checks = map (\<lambda>n. (n, check_criterion g n)) (cp_criteria cp) in (checks \<noteq> [] \<and> list_all snd checks, checks))"

text \<open>The verdict and the required checkpoints that failed.\<close>

definition final_verdict :: "(string \<times> bool) list \<Rightarrow> bool \<times> string list" where
  "final_verdict rs =
     (if rs = [] then (False, [])
      else let required = filter (\<lambda>(cp, ok). cp \<notin> set [''CP8'', ''CP9'']) rs
           in (list_all snd required, map fst (filter (\<lambda>(cp, ok). \<not> ok) required)))"

text \<open>Most checkpoints have a criterion that no code looks at, which counts as failed: a canary test whose seven required
  checkpoints are all evaluated is never passed, whatever the engine does.\<close>

lemma unchecked_criteria: "check_criterion g ''dqm_stable'' = False" "check_criterion g ''livegate_tracking'' = False"
  "check_criterion g ''trades_positive'' = False" "check_criterion g ''mdd_limit'' = False"
  by (simp_all add: check_criterion_def)

lemma full_canary_never_passes:
  "\<not> fst (final_verdict (map (\<lambda>cp. (cp, fst (evaluate_checkpoint g cp))) [''CP1'', ''CP2'', ''CP3'', ''CP4'', ''CP5'', ''CP6'', ''CP7'']))"
  by (simp add: final_verdict_def evaluate_checkpoint_def cp_criteria_def unchecked_criteria Let_def)

text \<open>The verdict only looks at the results it is given: without any required one it is a pass.\<close>

lemma verdict_without_required_passes: "final_verdict [(''CP8'', False)] = (True, [])"
  by code_simp

text \<open>The limit of 500 MB is described; anything below a gibibyte passes, and so does a container that is not there.\<close>

lemma memory_limit_is_not_500: "check_criterion (g\<lparr>ge_docker := Returned (Some (None, ''1023MiB / 7.6''))\<rparr>) ''memory_limit''
   \<and> check_criterion (g\<lparr>ge_docker := Returned None\<rparr>) ''memory_limit''"
  by (simp add: check_criterion_def memory_ok_def)

subsection \<open>Checkpoints\<close>

record work_state =
  wt_phase :: "string option"
  wt_stage :: "string option"
  wt_passed :: "int option"
  wt_stories :: "int option"
  wt_tests :: "int option"
  wt_rest :: string
  wt_restored :: "string option"

record checkpoint =
  ck_id :: string
  ck_phase :: string
  ck_stage :: string
  ck_json :: string
  ck_hash :: string
  ck_passed :: "int option"
  ck_stories :: "int option"
  ck_tests :: "int option"
  ck_trigger :: string
  ck_created :: secs

definition text_or_unknown :: "string option \<Rightarrow> string" where
  "text_or_unknown o1 = (case o1 of None \<Rightarrow> ''unknown'' | Some s \<Rightarrow> s)"

text \<open>\<open>stamp\<close>: the formatted time and the random digits of the id.\<close>

definition save_checkpoint ::
    "(work_state \<Rightarrow> string) \<Rightarrow> secs \<Rightarrow> string \<Rightarrow> string \<Rightarrow> work_state \<Rightarrow> string \<Rightarrow> checkpoint list \<Rightarrow> string \<times> checkpoint list" where
  "save_checkpoint dumps now stamp file_hash st trig db =
     (let phase = text_or_unknown (wt_phase st); stage = text_or_unknown (wt_stage st);
          cid = phase @ ''_'' @ stage @ ''_'' @ stamp;
          row = \<lparr>ck_id = cid, ck_phase = phase, ck_stage = stage, ck_json = dumps st, ck_hash = file_hash, ck_passed = wt_passed st,
                 ck_stories = wt_stories st, ck_tests = wt_tests st, ck_trigger = trig, ck_created = now\<rparr>
      in (cid, filter (\<lambda>r. ck_id r \<noteq> cid) db @ [row]))"

text \<open>The newest first; rows of the same time stay in the order of insertion.\<close>

definition by_age :: "checkpoint list \<Rightarrow> checkpoint list" where
  "by_age db = sort_key (\<lambda>r. - ck_created r) db"

definition of_phase :: "string option \<Rightarrow> checkpoint list \<Rightarrow> checkpoint list" where
  "of_phase phase db = (case phase of None \<Rightarrow> db | Some p \<Rightarrow> if p = [] then db else filter (\<lambda>r. ck_phase r = p) db)"

text \<open>\<open>LIMIT\<close>: a negative number is no limit.\<close>

definition limit :: "int \<Rightarrow> 'a list \<Rightarrow> 'a list" where
  "limit n xs = (if n < 0 then xs else take (nat n) xs)"

definition restore_latest :: "(string \<Rightarrow> work_state) \<Rightarrow> string option \<Rightarrow> checkpoint list \<Rightarrow> work_state option" where
  "restore_latest loads phase db =
     (case by_age (of_phase phase db) of
        [] \<Rightarrow> None
      | r # rs \<Rightarrow> Some (loads (ck_json r)\<lparr>wt_restored := Some (ck_id r)\<rparr>))"

definition get_checkpoint :: "(string \<Rightarrow> work_state) \<Rightarrow> string \<Rightarrow> checkpoint list \<Rightarrow> work_state option" where
  "get_checkpoint loads cid db = map_option (\<lambda>r. loads (ck_json r)) (find (\<lambda>r. ck_id r = cid) db)"

definition list_history :: "string option \<Rightarrow> int \<Rightarrow> checkpoint list \<Rightarrow> checkpoint list" where
  "list_history phase n db = limit n (by_age (of_phase phase db))"

definition prune_checkpoints :: "int \<Rightarrow> checkpoint list \<Rightarrow> checkpoint list" where
  "prune_checkpoints keep db = (let kept = map ck_id (limit keep (by_age db)) in filter (\<lambda>r. ck_id r \<in> set kept) db)"

datatype ck_op = Save secs string string work_state string | Prune int

fun ck_step :: "(work_state \<Rightarrow> string) \<Rightarrow> ck_op \<Rightarrow> checkpoint list \<Rightarrow> checkpoint list" where
  "ck_step dumps (Save now stamp h st trig) db = snd (save_checkpoint dumps now stamp h st trig db)"
| "ck_step dumps (Prune keep) db = prune_checkpoints keep db"

text \<open>Saves come later than everything before them, and pruning keeps at least one row.\<close>

fun ck_ops_ok :: "secs option \<Rightarrow> ck_op list \<Rightarrow> bool" where
  "ck_ops_ok t [] = True"
| "ck_ops_ok t (Save now stamp h st trig # ops) = ((case t of None \<Rightarrow> True | Some t' \<Rightarrow> t' < now) \<and> ck_ops_ok (Some now) ops)"
| "ck_ops_ok t (Prune keep # ops) = (keep \<noteq> 0 \<and> ck_ops_ok t ops)"

fun last_saved :: "ck_op list \<Rightarrow> work_state option \<Rightarrow> work_state option" where
  "last_saved [] acc = acc"
| "last_saved (Save now stamp h st trig # ops) acc = last_saved ops (Some st)"
| "last_saved (Prune keep # ops) acc = last_saved ops acc"

text \<open>The newest row is the last one, and holds the state saved last.\<close>

definition newest_last :: "(work_state \<Rightarrow> string) \<Rightarrow> secs option \<Rightarrow> work_state option \<Rightarrow> checkpoint list \<Rightarrow> bool" where
  "newest_last dumps t acc db =
     (case (t, acc) of
        (None, None) \<Rightarrow> db = []
      | (Some t', Some st) \<Rightarrow> \<exists>xs r. db = xs @ [r] \<and> (\<forall>x \<in> set xs. ck_created x < ck_created r) \<and> ck_created r = t' \<and> ck_json r = dumps st
      | _ \<Rightarrow> False)"

lemma newest_first:
  assumes "\<forall>x \<in> set xs. ck_created x < ck_created r"
  shows "\<exists>ys. by_age (xs @ [r]) = r # ys"
proof -
  obtain y ys where y: "by_age (xs @ [r]) = y # ys"
    by (cases "by_age (xs @ [r])") (auto simp: by_age_def dest: arg_cong [where f = length])
  have s: "set (y # ys) = set (xs @ [r])" unfolding y [symmetric] by (simp add: by_age_def)
  have "sorted (map (\<lambda>x. - ck_created x) (y # ys))" unfolding y [symmetric] by (simp add: by_age_def)
  then have "\<forall>x \<in> set (y # ys). ck_created x \<le> ck_created y" by auto
  then have "ck_created r \<le> ck_created y" "y \<in> set (xs @ [r])" using s by auto
  then have "y = r" using assms by auto
  then show ?thesis using y by blast
qed

lemma newest_last_step:
  assumes "newest_last dumps t acc db" and "ck_ops_ok t (op # ops)"
  shows "\<exists>t' acc'. newest_last dumps t' acc' (ck_step dumps op db) \<and> ck_ops_ok t' ops \<and> last_saved (op # ops) acc = last_saved ops acc'"
proof (cases op)
  case (Save now stamp h st trig)
  have "\<forall>x \<in> set db. ck_created x < now"
    using assms Save by (force simp: newest_last_def split: option.splits)
  then have "newest_last dumps (Some now) (Some st) (ck_step dumps op db)"
    by (auto simp: Save save_checkpoint_def Let_def newest_last_def)
  then show ?thesis using assms(2) Save by auto
next
  case (Prune keep)
  have "newest_last dumps t acc (ck_step dumps op db)"
  proof (cases "t = None \<or> acc = None")
    case True
    then show ?thesis using assms(1) Prune by (auto simp: newest_last_def prune_checkpoints_def by_age_def split: option.splits)
  next
    case False
    then obtain t' st xs r where *: "t = Some t'" "acc = Some st" "db = xs @ [r]" "\<forall>x \<in> set xs. ck_created x < ck_created r"
      "ck_created r = t'" "ck_json r = dumps st"
      using assms(1) by (auto simp: newest_last_def split: option.splits)
    obtain ys where "by_age db = r # ys" using newest_first [OF *(4)] *(3) by blast
    then have "r \<in> set (limit keep (by_age db))" using assms(2) Prune by (cases "nat keep") (auto simp: limit_def)
    then show ?thesis using * by (auto simp: Prune prune_checkpoints_def Let_def newest_last_def)
  qed
  then show ?thesis using assms(2) Prune by auto
qed

lemma newest_last_run:
  "newest_last dumps t acc db \<Longrightarrow> ck_ops_ok t ops \<Longrightarrow> \<exists>t'. newest_last dumps t' (last_saved ops acc) (fold (ck_step dumps) ops db)"
proof (induction ops arbitrary: t acc db)
  case (Cons op ops)
  from newest_last_step [OF Cons.prems] obtain t' acc' where "newest_last dumps t' acc' (ck_step dumps op db)" "ck_ops_ok t' ops"
    "last_saved (op # ops) acc = last_saved ops acc'" by blast
  then show ?case using Cons.IH by simp
qed auto

text \<open>Round trip: whatever is saved and pruned, as long as pruning keeps something and the clock moves, the latest checkpoint
  that is restored is the state saved last, marked with the id it was restored from.\<close>

lemma checkpoint_round_trip:
  assumes "loads (dumps st) = st" and "ck_ops_ok None ops" and "last_saved ops None = Some st"
  shows "\<exists>cid. restore_latest loads None (fold (ck_step dumps) ops []) = Some (st\<lparr>wt_restored := Some cid\<rparr>)
    \<and> get_checkpoint loads cid (fold (ck_step dumps) ops []) \<noteq> None"
proof -
  have "newest_last dumps None None []" by (simp add: newest_last_def)
  from newest_last_run [OF this assms(2)] obtain t xs r where *: "fold (ck_step dumps) ops [] = xs @ [r]"
    "\<forall>x \<in> set xs. ck_created x < ck_created r" "ck_json r = dumps st"
    using assms(3) by (auto simp: newest_last_def split: option.splits)
  from newest_first [OF *(2)] obtain ys where ys: "by_age (xs @ [r]) = r # ys" by blast
  then have "restore_latest loads None (xs @ [r]) = Some (st\<lparr>wt_restored := Some (ck_id r)\<rparr>)"
    using *(3) assms(1) by (simp add: restore_latest_def of_phase_def)
  moreover have "get_checkpoint loads (ck_id r) (xs @ [r]) \<noteq> None" by (auto simp: get_checkpoint_def find_None_iff)
  ultimately show ?thesis using *(1) by auto
qed

definition ex_work :: "string \<Rightarrow> work_state" where
  "ex_work rest = \<lparr>wt_phase = Some ''K'', wt_stage = None, wt_passed = Some 3, wt_stories = None, wt_tests = None, wt_rest = rest, wt_restored = None\<rparr>"

definition ex_ck_ops :: "ck_op list" where
  "ex_ck_ops = [Save 1 ''t1'' [] (ex_work ''a'') ''start'', Save 2 ''t2'' [] (ex_work ''b'') ''go'', Prune 1]"

lemma checkpoint_round_trip_witness:
  "\<exists>cid. restore_latest ex_work None (fold (ck_step wt_rest) ex_ck_ops []) = Some (ex_work ''b''\<lparr>wt_restored := Some cid\<rparr>)"
  using checkpoint_round_trip [of ex_work wt_rest "ex_work ''b''" ex_ck_ops] by (auto simp: ex_work_def ex_ck_ops_def)

end
