(* ===== verification/Friction.thy ===== *)
theory Friction
  imports OrderBook
begin

text \<open>
  \<open>engine/src/friction/\<close>: trading and withdrawal fees (\<open>fee_model.py\<close>), the predicted market impact
  (\<open>slippage_model.py\<close>), the costs of an arbitrage (\<open>cost_calculator.py\<close>), the correction of predicted slippage
  (\<open>slippage_feedback.py\<close>) and the least spread worth trading (\<open>cost_feedback_loop.py\<close>); with the calibration of
  \<open>engine/src/risk/slippage.py\<close>.  The square root and the power function are arguments.
\<close>

subsection \<open>Fees\<close>

record fee_config =
  fc_tier :: int
  fc_maker :: decimal
  fc_taker :: decimal

definition fee_row :: "int \<Rightarrow> decimal \<Rightarrow> decimal \<Rightarrow> fee_config" where
  "fee_row t m k = \<lparr>fc_tier = t, fc_maker = m / 100000, fc_taker = k / 100000\<rparr>"

text \<open>The schedules; the rates of a row are given in thousandths of a percent.\<close>

definition default_fees :: "(string, fee_config list) dict" where
  "default_fees =
     [(''binance'', [fee_row 0 100 100, fee_row 1 90 100, fee_row 2 80 100]),
      (''okx'', [fee_row 0 80 100, fee_row 1 70 90]),
      (''bybit'', [fee_row 0 100 100, fee_row 1 80 90]),
      (''bitget'', [fee_row 0 100 100, fee_row 1 80 90]),
      (''upbit'', [fee_row 0 50 139]),
      (''bithumb'', [fee_row 0 250 250, fee_row 1 50 140]),
      (''coinone'', [fee_row 0 20 20]),
      (''mexc'', [fee_row 0 0 10, fee_row 1 0 0]),
      (''gateio'', [fee_row 0 200 200, fee_row 1 160 180]),
      (''binance_futures'', [fee_row 0 20 50, fee_row 1 0 40]),
      (''bybit_futures'', [fee_row 0 20 55, fee_row 1 16 50]),
      (''okx_futures'', [fee_row 0 20 50, fee_row 1 15 45]),
      (''bitget_futures'', [fee_row 0 20 60, fee_row 1 16 50])]"

definition coin_fees :: "decimal \<Rightarrow> decimal \<Rightarrow> decimal \<Rightarrow> decimal \<Rightarrow> decimal \<Rightarrow> (string, decimal) dict" where
  "coin_fees btc eth xrp usdt d =
     [(''BTC'', btc / 100), (''ETH'', eth / 100), (''XRP'', xrp / 100), (''USDT'', usdt / 100), (''DEFAULT'', d / 100)]"

text \<open>The withdrawal fees in dollars, given in cents.\<close>

definition withdrawal_fees :: "(string, (string, decimal) dict) dict" where
  "withdrawal_fees =
     [(''binance'', coin_fees 139 6 40 1 40), (''bybit'', coin_fees 1240 19 40 100 100), (''okx'', coin_fees 150 10 40 10 40),
      (''bitget'', coin_fees 150 10 50 0 50), (''upbit'', coin_fees 840 450 60 500 60), (''bithumb'', coin_fees 930 250 60 500 60),
      (''coinone'', coin_fees 930 250 60 500 60), (''binance_futures'', [(''DEFAULT'', 0)]), (''bybit_futures'', [(''DEFAULT'', 0)]),
      (''okx_futures'', [(''DEFAULT'', 0)]), (''bitget_futures'', [(''DEFAULT'', 0)]), (''mexc'', coin_fees 120 5 25 0 30),
      (''gateio'', coin_fees 150 8 50 100 50)]"

record fee_model =
  fm_fees :: "(string, fee_config list) dict"
  fm_withdrawal :: "(string, (string, decimal) dict) dict"
  fm_tiers :: "(string, int) dict"

definition fee_model_new :: fee_model where
  "fee_model_new = \<lparr>fm_fees = default_fees, fm_withdrawal = withdrawal_fees, fm_tiers = []\<rparr>"

definition set_tier :: "string \<Rightarrow> int \<Rightarrow> fee_model \<Rightarrow> fee_model" where
  "set_tier ex t fm = fm\<lparr>fm_tiers := AList.update ex t (fm_tiers fm)\<rparr>"

definition get_tier :: "string \<Rightarrow> fee_model \<Rightarrow> int" where
  "get_tier ex fm = (case map_of (fm_tiers fm) ex of None \<Rightarrow> 0 | Some t \<Rightarrow> t)"

definition get_config :: "string \<Rightarrow> fee_model \<Rightarrow> fee_config" where
  "get_config ex fm =
     (case map_of (fm_fees fm) ex of
        Some (c # cs) \<Rightarrow> (case find (\<lambda>c. fc_tier c = get_tier ex fm) (c # cs) of Some c' \<Rightarrow> c' | None \<Rightarrow> c)
      | _ \<Rightarrow> fee_row 0 250 250)"

definition maker_fee :: "string \<Rightarrow> decimal \<Rightarrow> fee_model \<Rightarrow> decimal" where
  "maker_fee ex amount fm = amount * fc_maker (get_config ex fm)"

definition taker_fee :: "string \<Rightarrow> decimal \<Rightarrow> fee_model \<Rightarrow> decimal" where
  "taker_fee ex amount fm = amount * fc_taker (get_config ex fm)"

datatype fee_type = MAKER | TAKER

definition fee :: "string \<Rightarrow> decimal \<Rightarrow> fee_type \<Rightarrow> fee_model \<Rightarrow> decimal" where
  "fee ex amount t fm = (case t of MAKER \<Rightarrow> maker_fee ex amount fm | TAKER \<Rightarrow> taker_fee ex amount fm)"

definition round_trip_fee_rate :: "string \<Rightarrow> string \<Rightarrow> fee_model \<Rightarrow> decimal" where
  "round_trip_fee_rate buy sell fm = fc_taker (get_config buy fm) + fc_taker (get_config sell fm)"

definition venue :: "string \<Rightarrow> string" where
  "venue ex = remove_prefix ''sandbox_'' (remove_prefix ''paper_'' ex)"

definition withdrawal_fee :: "string \<Rightarrow> string \<Rightarrow> fee_model \<Rightarrow> decimal" where
  "withdrawal_fee ex coin fm =
     (case map_of (fm_withdrawal fm) (venue ex) of
        None \<Rightarrow> 1
      | Some cs \<Rightarrow>
          if cs = [] then 1
          else case map_of cs (upper coin) of
                 Some f \<Rightarrow> f
               | None \<Rightarrow> (case map_of cs ''DEFAULT'' of Some f \<Rightarrow> f | None \<Rightarrow> 1))"

text \<open>\<open>s.replace(pat, "")\<close> for a non-empty \<open>pat\<close>; \<open>n\<close> counts the characters still to be skipped.\<close>

fun drop_all :: "string \<Rightarrow> nat \<Rightarrow> string \<Rightarrow> string" where
  "drop_all pat n [] = []"
| "drop_all pat (Suc n) (c # cs) = drop_all pat n cs"
| "drop_all pat 0 (c # cs) = (if take (length pat) (c # cs) = pat then drop_all pat (length pat - 1) cs else c # drop_all pat 0 cs)"

definition network_cost :: "string \<Rightarrow> string \<Rightarrow> string \<Rightarrow> fee_model \<Rightarrow> decimal" where
  "network_cost from_ex to_ex coin fm =
     (if drop_all ''_futures'' 0 (venue from_ex) = drop_all ''_futures'' 0 (venue to_ex) then 0
      else withdrawal_fee (venue from_ex) coin fm)"

subsection \<open>Market impact\<close>

record slippage_model =
  sm_k :: decimal
  sm_cold :: bool
  sm_multiplier :: decimal

definition slippage_model_new :: slippage_model where
  "slippage_model_new = \<lparr>sm_k = 1, sm_cold = True, sm_multiplier = 3 / 2\<rparr>"

record prediction =
  sp_expected :: decimal
  sp_lower :: decimal
  sp_upper :: decimal
  sp_ratio :: pyfloat

datatype impact_error = NoVolume | NoBook | NegativeRatio

text \<open>\<open>sqrt_of\<close>: the square root of a number that is not negative.\<close>

definition expected_impact :: "(pyfloat \<Rightarrow> pyfloat) \<Rightarrow> decimal \<Rightarrow> pyfloat \<Rightarrow> decimal \<Rightarrow> slippage_model \<Rightarrow> decimal" where
  "expected_impact sqrt_of sigma ratio mid sm =
     sigma * (if sm_cold sm then sm_k sm * sm_multiplier sm else sm_k sm) * sqrt_of ratio * mid"

definition confidence :: "pyfloat \<Rightarrow> decimal" where
  "confidence ratio = (if ratio \<le> 1 then 20 / 100 else if ratio \<le> 3 then 50 / 100 else if ratio \<le> 10 then 1 else 10)"

definition predict :: "(pyfloat \<Rightarrow> pyfloat) \<Rightarrow> order_book \<Rightarrow> decimal \<Rightarrow> decimal \<Rightarrow> decimal \<Rightarrow> slippage_model \<Rightarrow> impact_error + prediction" where
  "predict sqrt_of book sz adv sigma sm =
     (if adv \<le> 0 then Inl NoVolume
      else case (best_ask book, best_bid book) of
             (Some ask, Some bid) \<Rightarrow>
               let ratio = sz / adv
               in if ratio < 0 then Inl NegativeRatio
                  else let e = expected_impact sqrt_of sigma ratio ((ask + bid) / 2) sm; ci = confidence ratio
                       in Inr \<lparr>sp_expected = e, sp_lower = max 0 (e * (1 - ci)), sp_upper = e * (1 + ci), sp_ratio = ratio\<rparr>
           | _ \<Rightarrow> Inl NoBook)"

text \<open>\<open>pow\<close>: \<open>x ** y\<close>.\<close>

definition impact_decay :: "(pyfloat \<Rightarrow> pyfloat \<Rightarrow> pyfloat) \<Rightarrow> pyfloat \<Rightarrow> secs \<Rightarrow> secs \<Rightarrow> pyfloat \<Rightarrow> pyfloat" where
  "impact_decay pow impact0 t t0 gamma = impact0 * pow (1 + t / t0) (- gamma)"

definition cross_venue_impact :: "(pyfloat \<Rightarrow> pyfloat \<Rightarrow> pyfloat) \<Rightarrow> pyfloat \<Rightarrow> secs \<Rightarrow> pyfloat \<Rightarrow> secs \<Rightarrow> pyfloat \<Rightarrow> pyfloat" where
  "cross_venue_impact pow impact_a t alpha t_prop gamma = alpha * impact_a * pow (1 + t / t_prop) (- gamma)"

subsection \<open>Costs\<close>

record trade_outcome =
  to_rolled_back :: bool
  to_cost :: decimal

record friction_cost =
  fr_fee_buy :: decimal
  fr_fee_sell :: decimal
  fr_slip_buy :: decimal
  fr_slip_sell :: decimal
  fr_network :: decimal
  fr_funding :: decimal
  fr_opportunity :: decimal
  fr_rollback :: decimal
  fr_gross :: decimal

definition total_cost :: "friction_cost \<Rightarrow> decimal" where
  "total_cost f = fr_fee_buy f + fr_fee_sell f + fr_slip_buy f + fr_slip_sell f + fr_network f + fr_funding f + fr_opportunity f + fr_rollback f"

definition net_profit :: "friction_cost \<Rightarrow> decimal" where
  "net_profit f = fr_gross f - total_cost f"

record cost_calculator =
  cc_fees :: fee_model
  cc_slippage :: slippage_model
  cc_network :: decimal
  cc_funding :: decimal
  cc_opportunity :: decimal
  cc_coin :: string
  cc_history :: "trade_outcome list"

definition calculator_new :: "fee_model \<Rightarrow> cost_calculator" where
  "calculator_new fm = \<lparr>cc_fees = fm, cc_slippage = slippage_model_new, cc_network = 0, cc_funding = 0, cc_opportunity = 0,
     cc_coin = ''XRP'', cc_history = []\<rparr>"

definition record_trade :: "trade_outcome \<Rightarrow> cost_calculator \<Rightarrow> cost_calculator" where
  "record_trade o1 cc = cc\<lparr>cc_history := deque_append 30 (cc_history cc) o1\<rparr>"

text \<open>\<open>off\<close>: the environment variable that disables the cost of a cold start.\<close>

definition rollback_probability :: "bool \<Rightarrow> cost_calculator \<Rightarrow> decimal" where
  "rollback_probability off cc =
     (if cc_history cc = [] then (if off then 0 else 5 / 100)
      else of_nat (length (filter to_rolled_back (cc_history cc))) / of_nat (length (cc_history cc)))"

definition avg_rollback_cost :: "cost_calculator \<Rightarrow> decimal" where
  "avg_rollback_cost cc =
     (let costs = map to_cost (filter to_rolled_back (cc_history cc)) in if costs = [] then 0 else sum_list costs / of_nat (length costs))"

definition expected_rollback_cost :: "bool \<Rightarrow> decimal \<Rightarrow> cost_calculator \<Rightarrow> decimal" where
  "expected_rollback_cost off avg cc = rollback_probability off cc * avg"

definition estimate_cost :: "bool \<Rightarrow> string \<Rightarrow> decimal \<Rightarrow> decimal \<Rightarrow> string option \<Rightarrow> cost_calculator \<Rightarrow> decimal" where
  "estimate_cost off ex sz price dest cc =
     (let net = (case dest of None \<Rightarrow> cc_network cc | Some d \<Rightarrow> if d = [] then cc_network cc else if venue d = venue ex then 0 else cc_network cc)
      in taker_fee (venue ex) (price * sz) (cc_fees cc) + net + expected_rollback_cost off 5 cc)"

definition estimate_futures_cost :: "bool \<Rightarrow> string \<Rightarrow> string \<Rightarrow> decimal \<Rightarrow> decimal \<Rightarrow> bool \<Rightarrow> cost_calculator \<Rightarrow> decimal" where
  "estimate_futures_cost off buy sell nb ns entry_only cc =
     (let entry = taker_fee (venue buy) nb (cc_fees cc) + taker_fee (venue sell) ns (cc_fees cc);
          rollback = expected_rollback_cost off (taker_fee (venue buy) ((nb + ns) / 2) (cc_fees cc)) cc
      in if entry_only then entry + rollback else entry + entry + rollback)"

definition calculate ::
    "(pyfloat \<Rightarrow> pyfloat) \<Rightarrow> bool \<Rightarrow> string \<Rightarrow> string \<Rightarrow> order_book \<Rightarrow> order_book \<Rightarrow> decimal \<Rightarrow> decimal \<Rightarrow> decimal \<Rightarrow> decimal \<Rightarrow> decimal \<Rightarrow>
     decimal option \<Rightarrow> string option \<Rightarrow> cost_calculator \<Rightarrow> impact_error + friction_cost" where
  "calculate sqrt_of off buy sell bbook sbook sz bp sp adv sigma avg coin cc =
     (case (predict sqrt_of bbook sz adv sigma (cc_slippage cc), predict sqrt_of sbook sz adv sigma (cc_slippage cc)) of
        (Inl e, _) \<Rightarrow> Inl e
      | (_, Inl e) \<Rightarrow> Inl e
      | (Inr pb, Inr ps) \<Rightarrow>
          let avg' = (case avg of None \<Rightarrow> avg_rollback_cost cc | Some a \<Rightarrow> a);
              coin' = (case coin of None \<Rightarrow> cc_coin cc | Some c \<Rightarrow> if c = [] then cc_coin cc else c);
              net = (if cc_network cc = 0 then network_cost (venue buy) (venue sell) coin' (cc_fees cc) else cc_network cc)
          in Inr \<lparr>fr_fee_buy = taker_fee (venue buy) (bp * sz) (cc_fees cc), fr_fee_sell = taker_fee (venue sell) (sp * sz) (cc_fees cc),
                  fr_slip_buy = sp_expected pb, fr_slip_sell = sp_expected ps, fr_network = net, fr_funding = cc_funding cc,
                  fr_opportunity = cc_opportunity cc, fr_rollback = expected_rollback_cost off avg' cc, fr_gross = sp * sz - bp * sz\<rparr>)"

subsection \<open>Predicted and actual slippage\<close>

record feedback_record =
  sf_exchange :: string
  sf_pair :: string
  sf_predicted :: pyfloat
  sf_actual :: pyfloat

record slippage_feedback =
  sf_enabled :: bool
  sf_records :: "feedback_record list"

definition feedback_new :: "bool \<Rightarrow> slippage_feedback" where
  "feedback_new on = \<lparr>sf_enabled = on, sf_records = []\<rparr>"

definition delta_bps :: "feedback_record \<Rightarrow> pyfloat" where
  "delta_bps r = sf_actual r - sf_predicted r"

definition record_feedback :: "feedback_record \<Rightarrow> slippage_feedback \<Rightarrow> slippage_feedback" where
  "record_feedback r sf = (if sf_enabled sf then sf\<lparr>sf_records := deque_append 1000 (sf_records sf) r\<rparr> else sf)"

definition mean :: "pyfloat list \<Rightarrow> pyfloat" where
  "mean xs = sum_list xs / of_nat (length xs)"

text \<open>The last \<open>n\<close> entries of a list, \<open>xs[-n:]\<close>.\<close>

definition last_n :: "nat \<Rightarrow> 'a list \<Rightarrow> 'a list" where
  "last_n n xs = drop (length xs - n) xs"

definition adjustment_bps :: "string \<Rightarrow> string \<Rightarrow> slippage_feedback \<Rightarrow> pyfloat" where
  "adjustment_bps ex pair sf =
     (if \<not> sf_enabled sf then 0
      else let rs = filter (\<lambda>r. sf_exchange r = ex \<and> sf_pair r = pair) (last_n 100 (sf_records sf))
           in if rs = [] then 0
              else let m = mean (map sf_actual rs) in max (- 1 / 2 * m) (min m (mean (map delta_bps rs))))"

text \<open>The calibration by an exponential moving average.\<close>

record calibration =
  ca_alpha :: pyfloat
  ca_window :: nat
  ca_errors :: "pyfloat list"
  ca_adjustment :: pyfloat
  ca_count :: nat

definition calibration_new :: calibration where
  "calibration_new = \<lparr>ca_alpha = 1 / 10, ca_window = 100, ca_errors = [], ca_adjustment = 0, ca_count = 0\<rparr>"

definition clamp_error :: "pyfloat \<Rightarrow> pyfloat" where
  "clamp_error e = max (- 1 / 100) (min (1 / 100) e)"

definition record_fill :: "decimal \<Rightarrow> decimal \<Rightarrow> string \<Rightarrow> calibration \<Rightarrow> calibration" where
  "record_fill expected actual side ca =
     (if expected \<le> 0 then ca
      else let e = (if upper side = ''BUY'' then (actual - expected) / expected else (expected - actual) / expected);
               err = clamp_error e
           in ca\<lparr>ca_errors := deque_append (ca_window ca) (ca_errors ca) err, ca_count := ca_count ca + 1,
                 ca_adjustment := (if ca_count ca = 0 then err else ca_alpha ca * err + (1 - ca_alpha ca) * ca_adjustment ca)\<rparr>)"

definition adjusted_slippage :: "pyfloat \<Rightarrow> calibration \<Rightarrow> pyfloat" where
  "adjusted_slippage base ca = max 0 (base * (1 + ca_adjustment ca))"

subsection \<open>The least spread worth trading\<close>

record tca_feedback =
  tf_window :: nat
  tf_fees :: "fee_model option"
  tf_min_samples :: nat
  tf_funding :: decimal
  tf_margin :: decimal
  tf_static :: decimal
  tf_seen :: "string \<times> string \<Rightarrow> pyfloat list"

definition tca_new :: "fee_model option \<Rightarrow> tca_feedback" where
  "tca_new fm = \<lparr>tf_window = 100, tf_fees = fm, tf_min_samples = 20, tf_funding = 5, tf_margin = 5, tf_static = 27, tf_seen = (\<lambda>k. [])\<rparr>"

definition or_unknown :: "string \<Rightarrow> string" where
  "or_unknown s = (if s = [] then ''unknown'' else s)"

definition record_observation :: "string \<Rightarrow> pyfloat \<Rightarrow> string \<Rightarrow> tca_feedback \<Rightarrow> tca_feedback" where
  "record_observation strategy bps ex tf =
     (let k = (or_unknown strategy, or_unknown ex)
      in tf\<lparr>tf_seen := (tf_seen tf)(k := deque_append (tf_window tf) (tf_seen tf k) (max 0 bps))\<rparr>)"

definition p95_rank :: "nat \<Rightarrow> pyfloat" where
  "p95_rank n = 95 / 100 * of_nat (n - 1)"

definition p95_of :: "pyfloat list \<Rightarrow> pyfloat" where
  "p95_of data =
     (let n = length data
      in if n = 0 then 0
         else if n = 1 then data ! 0
         else let xs = sort data; k = p95_rank n; f = nat \<lfloor>k\<rfloor>; c = min (f + 1) (n - 1)
              in if f = c then xs ! f else xs ! f + (k - of_nat f) * (xs ! c - xs ! f))"

definition p95_bps :: "string \<Rightarrow> string \<Rightarrow> tca_feedback \<Rightarrow> pyfloat" where
  "p95_bps strategy ex tf = p95_of (tf_seen tf (strategy, ex))"

definition sample_count :: "string \<Rightarrow> string \<Rightarrow> tca_feedback \<Rightarrow> nat" where
  "sample_count strategy ex tf = length (tf_seen tf (strategy, ex))"

definition taker_roundtrip_bps :: "string \<times> string \<Rightarrow> tca_feedback \<Rightarrow> decimal" where
  "taker_roundtrip_bps pair tf =
     (case tf_fees tf of None \<Rightarrow> 10 | Some fm \<Rightarrow> round_trip_fee_rate (fst pair) (snd pair) fm * 10000)"

definition dynamic_min_spread :: "string \<Rightarrow> string \<times> string \<Rightarrow> decimal option \<Rightarrow> tca_feedback \<Rightarrow> decimal" where
  "dynamic_min_spread strategy pair static tf =
     (let fallback = (case static of Some x \<Rightarrow> x | None \<Rightarrow> tf_static tf)
      in if sample_count strategy (fst pair) tf < tf_min_samples tf \<or> sample_count strategy (snd pair) tf < tf_min_samples tf then fallback
         else let p = max (p95_bps strategy (fst pair) tf) (p95_bps strategy (snd pair) tf);
                  charge = taker_roundtrip_bps pair tf
              in max (charge + 1) (charge + p + tf_funding tf + tf_margin tf))"

subsection \<open>Fees are bounded\<close>

definition rates_ok :: "fee_config \<Rightarrow> bool" where
  "rates_ok c \<longleftrightarrow> 0 \<le> fc_maker c \<and> fc_maker c \<le> fc_taker c \<and> fc_taker c \<le> 1 / 400"

lemma default_rates_ok: "list_all (list_all rates_ok \<circ> snd) default_fees"
  by code_simp

lemma get_config_ok:
  assumes "fm_fees fm = default_fees"
  shows "rates_ok (get_config ex fm)"
proof (cases "map_of default_fees ex")
  case None
  then show ?thesis using assms by (simp add: get_config_def rates_ok_def fee_row_def)
next
  case (Some cs)
  then have "(ex, cs) \<in> set default_fees" by (rule map_of_SomeD)
  then have all: "\<forall>c \<in> set cs. rates_ok c" using default_rates_ok by (fastforce simp: list_all_iff)
  then show ?thesis
    using assms Some
    by (cases cs) (simp add: get_config_def rates_ok_def fee_row_def,
        auto simp: get_config_def split: option.split dest!: find_Some_iff [THEN iffD1])
qed

lemma tiers_keep_fees: "fm_fees (fold (\<lambda>(ex, t). set_tier ex t) ts fm) = fm_fees fm"
  by (induction ts arbitrary: fm) (auto simp: set_tier_def)

text \<open>Whatever tiers are set, known to the schedule or not, on a known exchange or not: no fee is negative, a maker never pays
  more than a taker, and no fee exceeds a quarter of a percent of the notional.\<close>

lemma fees_are_bounded:
  assumes "fm = fold (\<lambda>(ex, t). set_tier ex t) ts fee_model_new" and "0 \<le> amount"
  shows "0 \<le> fee ex amount MAKER fm \<and> fee ex amount MAKER fm \<le> fee ex amount TAKER fm \<and> fee ex amount TAKER fm \<le> amount / 400"
proof -
  have "rates_ok (get_config ex fm)"
    by (rule get_config_ok) (simp add: assms(1) tiers_keep_fees fee_model_new_def)
  then have r: "0 \<le> fc_maker (get_config ex fm)" "fc_maker (get_config ex fm) \<le> fc_taker (get_config ex fm)" "fc_taker (get_config ex fm) \<le> 1 / 400"
    by (simp_all add: rates_ok_def)
  show ?thesis
    using assms(2) r mult_left_mono [OF r(2) assms(2)] mult_left_mono [OF r(3) assms(2)] by (simp add: fee_def maker_fee_def taker_fee_def)
qed

lemma fees_are_bounded_witness:
  "fee ''bithumb'' 1000 TAKER (fold (\<lambda>(ex, t). set_tier ex t) [(''bithumb'', 1)] fee_model_new) \<le> 1000 / 400"
  using fees_are_bounded [OF refl, of 1000 "''bithumb''" "[(''bithumb'', 1)]"] by simp

subsection \<open>Friction\<close>

definition history_ok :: "cost_calculator \<Rightarrow> bool" where
  "history_ok cc \<longleftrightarrow> (\<forall>o1 \<in> set (cc_history cc). 0 \<le> to_cost o1)"

lemma probability_unit: "0 \<le> rollback_probability off cc \<and> rollback_probability off cc \<le> 1"
  using length_filter_le [of to_rolled_back "cc_history cc"]
  by (auto simp: rollback_probability_def divide_le_eq_1)

lemma avg_nonneg: "history_ok cc \<Longrightarrow> 0 \<le> avg_rollback_cost cc"
  by (auto simp: avg_rollback_cost_def history_ok_def Let_def intro!: divide_nonneg_nonneg sum_list_nonneg)

lemma default_withdrawals_nonneg: "list_all (list_all (\<lambda>cf. 0 \<le> snd cf) \<circ> snd) withdrawal_fees"
  by code_simp

lemma withdrawal_nonneg: "fm_withdrawal fm = withdrawal_fees \<Longrightarrow> 0 \<le> withdrawal_fee ex coin fm"
  using default_withdrawals_nonneg
  by (fastforce simp: withdrawal_fee_def list_all_iff split: option.split dest!: map_of_SomeD)

definition prices_ok :: "order_book \<Rightarrow> bool" where
  "prices_ok book \<longleftrightarrow> (\<forall>p \<in> set (dict_keys (bids book)) \<union> set (dict_keys (asks book)). 0 \<le> p)"

definition calculator_ok :: "cost_calculator \<Rightarrow> bool" where
  "calculator_ok cc \<longleftrightarrow> fm_fees (cc_fees cc) = default_fees \<and> fm_withdrawal (cc_fees cc) = withdrawal_fees \<and> history_ok cc
     \<and> 0 \<le> cc_network cc \<and> 0 \<le> cc_funding cc \<and> 0 \<le> cc_opportunity cc \<and> 0 \<le> sm_k (cc_slippage cc) \<and> 0 \<le> sm_multiplier (cc_slippage cc)"

lemma best_prices_nonneg:
  "prices_ok book \<Longrightarrow> best_ask book = Some a \<Longrightarrow> 0 \<le> a"
  "prices_ok book \<Longrightarrow> best_bid book = Some b \<Longrightarrow> 0 \<le> b"
proof -
  assume ok: "prices_ok book"
  show "0 \<le> a" if "best_ask book = Some a"
  proof -
    have "a \<in> set (dict_keys (asks book))"
      using that Min_in [of "set (dict_keys (asks book))"] by (auto simp: best_ask_def split: if_splits)
    then show ?thesis using ok by (simp add: prices_ok_def)
  qed
  show "0 \<le> b" if "best_bid book = Some b"
  proof -
    have "b \<in> set (dict_keys (bids book))"
      using that Max_in [of "set (dict_keys (bids book))"] by (auto simp: best_bid_def split: if_splits)
    then show ?thesis using ok by (simp add: prices_ok_def)
  qed
qed

text \<open>The expected impact lies between its bounds and none of them is negative.\<close>

lemma predict_ok:
  assumes "predict sqrt_of book sz adv sigma sm = Inr p" and "prices_ok book" and "\<And>x. 0 \<le> x \<Longrightarrow> 0 \<le> sqrt_of x" and "0 \<le> sigma"
    and "0 \<le> sm_k sm" and "0 \<le> sm_multiplier sm"
  shows "0 \<le> sp_lower p \<and> sp_lower p \<le> sp_expected p \<and> sp_expected p \<le> sp_upper p"
proof -
  obtain ask bid where b: "best_ask book = Some ask" "best_bid book = Some bid" "0 \<le> sz / adv"
    using assms(1) by (auto simp: predict_def Let_def split: if_splits option.splits)
  define e where "e = expected_impact sqrt_of sigma (sz / adv) ((ask + bid) / 2) sm"
  have "0 \<le> (if sm_cold sm then sm_k sm * sm_multiplier sm else sm_k sm)" using assms(5,6) by simp
  moreover have "0 \<le> (ask + bid) / 2" using best_prices_nonneg [OF assms(2)] b by simp
  ultimately have e: "0 \<le> e" unfolding e_def expected_impact_def using assms(3) [OF b(3)] assms(4) by (intro mult_nonneg_nonneg)
  define ci where "ci = confidence (sz / adv)"
  have ci: "sp_expected p = e" "sp_lower p = max 0 (e * (1 - ci))" "sp_upper p = e * (1 + ci)"
    using assms(1) b by (auto simp: predict_def Let_def e_def ci_def split: if_splits)
  have "0 \<le> ci" by (simp add: ci_def confidence_def)
  then have "0 \<le> e * ci" using e by simp
  then show ?thesis using e by (auto simp: ci algebra_simps)
qed


definition ex_market :: "decimal \<Rightarrow> order_book" where
  "ex_market p = book_new\<lparr>bids := [(p, 1)], asks := [(p + 1, 1)]\<rparr>"

definition ex_friction :: friction_cost where
  "ex_friction = (case calculate id False ''binance'' ''paper_okx'' (ex_market 100) (ex_market 110) 1 101 110 1000 (1 / 100) None None
     (calculator_new fee_model_new) of Inr f \<Rightarrow> f)"


text \<open>The impact is a price difference for one unit and is charged as the cost of the whole trade: a trade and a market a
  thousand times as large pay the same for slippage.\<close>

lemma slippage_ignores_the_size:
  assumes "0 < c"
  shows "predict sqrt_of book (c * sz) (c * adv) sigma sm = predict sqrt_of book sz adv sigma sm"
proof -
  have "c * sz / (c * adv) = sz / adv" "c * adv \<le> 0 \<longleftrightarrow> adv \<le> 0" using assms by (simp_all add: mult_le_0_iff)
  then show ?thesis unfolding predict_def by (simp only:)
qed

text \<open>Undoing a futures trade costs the fee of the exchange bought on, whichever leg has to be closed.\<close>

lemma rollback_ignores_the_sell_side:
  "estimate_futures_cost off buy sell nb ns e cc - estimate_futures_cost off buy sell' nb ns e cc
   = (if e then 1 else 2) * (taker_fee (venue sell) ns (cc_fees cc) - taker_fee (venue sell') ns (cc_fees cc))"
  by (simp add: estimate_futures_cost_def Let_def)

subsection \<open>Corrections are bounded\<close>

lemma blend_bound:
  assumes "\<bar>x\<bar> \<le> c" and "\<bar>y\<bar> \<le> c" and "0 \<le> a" and "a \<le> (1 :: rat)"
  shows "\<bar>a * x + (1 - a) * y\<bar> \<le> c"
proof -
  have "\<bar>a * x + (1 - a) * y\<bar> \<le> \<bar>a * x\<bar> + \<bar>(1 - a) * y\<bar>" by (rule abs_triangle_ineq)
  also have "\<dots> = a * \<bar>x\<bar> + (1 - a) * \<bar>y\<bar>" using assms(3,4) by (simp add: abs_mult)
  also have "\<dots> \<le> a * c + (1 - a) * c" using assms by (intro add_mono mult_left_mono) simp_all
  finally show ?thesis by (simp add: algebra_simps)
qed

lemma clamp_error_bound: "\<bar>clamp_error e\<bar> \<le> 1 / 100"
  by (auto simp: clamp_error_def)

lemma calibration_step:
  assumes "0 \<le> ca_alpha ca" and "ca_alpha ca \<le> 1" and "\<bar>ca_adjustment ca\<bar> \<le> 1 / 100"
  shows "\<bar>ca_adjustment (record_fill expected actual side ca)\<bar> \<le> 1 / 100 \<and> ca_alpha (record_fill expected actual side ca) = ca_alpha ca"
  using assms(3) clamp_error_bound blend_bound [OF clamp_error_bound assms(3,1,2)] by (simp add: record_fill_def Let_def)

text \<open>However far the fills are from the prediction, the calibration never changes it by more than one percent of itself.\<close>

lemma calibration_never_exceeds_a_percent:
  "\<bar>ca_adjustment (fold (\<lambda>(e, a, s). record_fill e a s) fills calibration_new)\<bar> \<le> 1 / 100"
proof -
  have "\<bar>ca_adjustment ca'\<bar> \<le> 1 / 100" if "ca' = fold (\<lambda>(e, a, s). record_fill e a s) fills ca" "\<bar>ca_adjustment ca\<bar> \<le> 1 / 100" "ca_alpha ca = 1 / 10" for ca ca'
    using that
  proof (induction fills arbitrary: ca)
    case (Cons x fills)
    obtain e a s where x: "x = (e, a, s)" by (cases x) auto
    from calibration_step [of ca e a s] Cons.prems have "\<bar>ca_adjustment (record_fill e a s ca)\<bar> \<le> 1 / 100" "ca_alpha (record_fill e a s ca) = 1 / 10"
      by auto
    with Cons show ?case by (simp add: x)
  qed simp
  from this [OF refl, of calibration_new] show ?thesis by (simp add: calibration_new_def)
qed

text \<open>When the fills were better than the price asked for on average, the limits of the correction are the wrong way round and
  the prediction is raised.\<close>

lemma favourable_fills_raise_the_prediction:
  "adjustment_bps ''okx'' ''BTC'' (record_feedback \<lparr>sf_exchange = ''okx'', sf_pair = ''BTC'', sf_predicted = 4, sf_actual = - 2\<rparr> (feedback_new True)) = 1"
  by code_simp

subsection \<open>The least spread covers the costs\<close>

lemma filter_sort_length: "length (filter P (sort xs)) = length (filter P xs)"
proof -
  have "size (filter_mset P (mset (sort xs))) = size (filter_mset P (mset xs))" by simp
  then show ?thesis by (metis mset_filter size_mset)
qed

abbreviation p95_index :: "nat \<Rightarrow> nat" where
  "p95_index n \<equiv> nat \<lfloor>p95_rank n\<rfloor>"

lemma p95_index_bounds: "of_nat (p95_index n) \<le> p95_rank n" "95 * (n - 1) < 100 * (p95_index n + 1)" "p95_index n \<le> n - 1"
proof -
  have r: "0 \<le> p95_rank n" "p95_rank n \<le> of_nat (n - 1)" by (simp_all add: p95_rank_def)
  then show "of_nat (p95_index n) \<le> p95_rank n" by (simp add: of_nat_nat)
  have "p95_rank n < of_nat (p95_index n + 1)" using r(1) by (simp add: of_nat_nat) linarith
  then have "of_nat (95 * (n - 1)) < (of_nat (100 * (p95_index n + 1)) :: rat)" by (simp add: p95_rank_def)
  then show "95 * (n - 1) < 100 * (p95_index n + 1)" using of_nat_less_iff by blast
  have "\<lfloor>p95_rank n\<rfloor> \<le> int (n - 1)" using floor_mono [OF r(2)] by simp
  then show "p95_index n \<le> n - 1" by simp
qed

lemma p95_reaches_floor:
  assumes "xs \<noteq> []"
  shows "sort xs ! p95_index (length xs) \<le> p95_of xs" and "p95_index (length xs) < length xs"
proof -
  let ?n = "length xs" let ?f = "p95_index ?n"
  note f = p95_index_bounds [of ?n]
  show "?f < ?n" using f(3) assms by (cases xs) auto
  show "sort xs ! ?f \<le> p95_of xs"
  proof (cases "?n = 1")
    case True
    then obtain x where "xs = [x]" by (cases xs) auto
    then show ?thesis by (simp add: p95_of_def p95_rank_def)
  next
    case False
    have "sort xs ! ?f \<le> sort xs ! min (?f + 1) (?n - 1)"
      using f(3) \<open>?f < ?n\<close> by (intro sorted_nth_mono) auto
    then have "0 \<le> (p95_rank ?n - of_nat ?f) * (sort xs ! min (?f + 1) (?n - 1) - sort xs ! ?f)" using f(1) by simp
    then show ?thesis using False assms by (simp add: p95_of_def Let_def)
  qed
qed

lemma p95_share:
  "20 * length (filter (\<lambda>x. p95_of xs < x) xs) < length xs + 20"
proof (cases "xs = []")
  case False
  let ?n = "length xs"
  define f where "f = p95_index ?n"
  note p = p95_reaches_floor [OF False, folded f_def]
  have "{i. i < ?n \<and> p95_of xs < sort xs ! i} \<subseteq> {f <..< ?n}"
  proof
    fix i
    assume i: "i \<in> {i. i < ?n \<and> p95_of xs < sort xs ! i}"
    have "\<not> i \<le> f"
    proof
      assume "i \<le> f"
      then have "sort xs ! i \<le> sort xs ! f" using p(2) by (intro sorted_nth_mono) simp_all
      then show False using i p(1) by simp
    qed
    then show "i \<in> {f <..< ?n}" using i by simp
  qed
  then have "card {i. i < ?n \<and> p95_of xs < sort xs ! i} \<le> ?n - (f + 1)"
    using card_mono [of "{f <..< ?n}"] by simp
  then have c: "length (filter (\<lambda>x. p95_of xs < x) xs) \<le> ?n - (f + 1)"
    using filter_sort_length [of "\<lambda>x. p95_of xs < x" xs] by (simp add: length_filter_conv_card)
  have "95 * (?n - 1) < 100 * (f + 1)" using p95_index_bounds(2) by (simp add: f_def)
  then show ?thesis using c p(2) by simp
qed simp

lemma record_nonneg:
  assumes "\<forall>x \<in> set (tf_seen tf k). 0 \<le> x"
  shows "\<forall>x \<in> set (tf_seen (record_observation s b e tf) k). 0 \<le> x"
proof (cases "k = (or_unknown s, or_unknown e)")
  case True
  have sub: "set (deque_append (tf_window tf) (tf_seen tf k) (max 0 b)) \<subseteq> insert (max 0 b) (set (tf_seen tf k))" by (rule set_deque_append)
  have "tf_seen (record_observation s b e tf) k = deque_append (tf_window tf) (tf_seen tf k) (max 0 b)"
    using True by (simp add: record_observation_def Let_def)
  then show ?thesis using sub assms by (metis insertE max.cobounded1 subsetD)
qed (use assms in \<open>simp add: record_observation_def Let_def\<close>)

lemma seen_nonneg:
  "\<forall>x \<in> set (tf_seen tf k). 0 \<le> x \<Longrightarrow> \<forall>x \<in> set (tf_seen (fold (\<lambda>(s, b, e). record_observation s b e) obs tf) k). 0 \<le> x"
proof (induction obs arbitrary: tf)
  case (Cons x obs)
  obtain s b e where x: "x = (s, b, e)" by (cases x) auto
  show ?case using Cons.IH [OF record_nonneg [OF Cons.prems]] by (simp only: x fold.simps comp_def prod.case)
qed simp

lemma tca_settings:
  "tf_funding (fold (\<lambda>(s, b, e). record_observation s b e) obs tf) = tf_funding tf"
  "tf_margin (fold (\<lambda>(s, b, e). record_observation s b e) obs tf) = tf_margin tf"
  "tf_min_samples (fold (\<lambda>(s, b, e). record_observation s b e) obs tf) = tf_min_samples tf"
proof -
  have keep: "tf_funding (record_observation s b e tf) = tf_funding tf" "tf_margin (record_observation s b e tf) = tf_margin tf"
    "tf_min_samples (record_observation s b e tf) = tf_min_samples tf" for s b e tf
    by (simp_all add: record_observation_def Let_def)
  show "tf_funding (fold (\<lambda>(s, b, e). record_observation s b e) obs tf) = tf_funding tf"
    "tf_margin (fold (\<lambda>(s, b, e). record_observation s b e) obs tf) = tf_margin tf"
    "tf_min_samples (fold (\<lambda>(s, b, e). record_observation s b e) obs tf) = tf_min_samples tf"
    by (induction obs arbitrary: tf) (simp_all add: keep split_beta)
qed

text \<open>C39. Once each leg has twenty observations, the least spread covers the fees of the round trip and ten basis points on top, and of
  the slippages remembered for either leg at most one in twenty, rounded up, was larger than what it leaves for slippage.\<close>

theorem dynamic_spread_covers_costs:
  assumes "tf = fold (\<lambda>(s, b, e). record_observation s b e) obs (tca_new fees)"
    and "20 \<le> sample_count s buy tf" and "20 \<le> sample_count s sell tf" and "ex \<in> {buy, sell}"
  shows "taker_roundtrip_bps (buy, sell) tf + 10 \<le> dynamic_min_spread s (buy, sell) static tf
    \<and> 20 * length (filter (\<lambda>x. dynamic_min_spread s (buy, sell) static tf < taker_roundtrip_bps (buy, sell) tf + x + 10) (tf_seen tf (s, ex)))
        < length (tf_seen tf (s, ex)) + 20"
proof -
  define c where "c = taker_roundtrip_bps (buy, sell) tf"
  define d where "d = dynamic_min_spread s (buy, sell) static tf"
  have set: "tf_funding tf = 5" "tf_margin tf = 5" "tf_min_samples tf = 20" by (simp_all add: assms(1) tca_settings tca_new_def)
  have d: "c + p95_bps s ex tf + 10 \<le> d"
    using assms(2-4) set by (auto simp: d_def c_def dynamic_min_spread_def Let_def)
  have ne: "tf_seen tf (s, ex) \<noteq> []" using assms(2-4) by (auto simp: sample_count_def)
  have "0 \<le> p95_bps s ex tf"
  proof -
    have "sort (tf_seen tf (s, ex)) ! p95_index (length (tf_seen tf (s, ex))) \<in> set (tf_seen tf (s, ex))"
      using p95_reaches_floor(2) [OF ne] by (metis length_sort nth_mem set_sort)
    then have "0 \<le> sort (tf_seen tf (s, ex)) ! p95_index (length (tf_seen tf (s, ex)))"
      using seen_nonneg [of "tca_new fees" "(s, ex)" obs] unfolding assms(1) by (simp add: tca_new_def)
    then show ?thesis using p95_reaches_floor(1) [OF ne] by (simp add: p95_bps_def)
  qed
  moreover have "length (filter (\<lambda>x. d < c + x + 10) xs) \<le> length (filter (\<lambda>x. p95_of (tf_seen tf (s, ex)) < x) xs)" for xs
    using d unfolding p95_bps_def by (induction xs) auto
  from this [of "tf_seen tf (s, ex)"]
  have "20 * length (filter (\<lambda>x. d < c + x + 10) (tf_seen tf (s, ex))) < length (tf_seen tf (s, ex)) + 20"
    using p95_share [of "tf_seen tf (s, ex)"] by linarith
  ultimately show ?thesis using d unfolding c_def d_def by simp
qed

definition ex_observations :: "(string \<times> pyfloat \<times> string) list" where
  "ex_observations = concat (map (\<lambda>i. [(''ff'', of_nat i, ''okx''), (''ff'', - 1, ''bybit'')]) [0..<20])"

theorem dynamic_spread_covers_costs_witness:
  "let tf = fold (\<lambda>(s, b, e). record_observation s b e) ex_observations (tca_new (Some fee_model_new))
   in 20 * length (filter (\<lambda>x. dynamic_min_spread ''ff'' (''okx'', ''bybit'') None tf < taker_roundtrip_bps (''okx'', ''bybit'') tf + x + 10)
        (tf_seen tf (''ff'', ''okx''))) < 40"
proof -
  let ?tf = "fold (\<lambda>(s, b, e). record_observation s b e) ex_observations (tca_new (Some fee_model_new))"
  have "sample_count ''ff'' ''okx'' ?tf = 20" "sample_count ''ff'' ''bybit'' ?tf = 20" by code_simp+
  then show ?thesis
    using dynamic_spread_covers_costs [of ?tf ex_observations "Some fee_model_new" "''ff''" "''okx''" "''bybit''" "''okx''" None]
    by (simp add: Let_def sample_count_def)
qed

text \<open>Before there are enough observations the fixed value is used without the floor: on exchanges that are not in the schedule it is
  little more than half of the fees.\<close>

lemma cold_start_ignores_the_floor:
  "dynamic_min_spread ''ff'' (''kraken'', ''htx'') None (tca_new (Some fee_model_new)) = 27
   \<and> taker_roundtrip_bps (''kraken'', ''htx'') (tca_new (Some fee_model_new)) = 50"
  by code_simp

end
