(* ===== verification/Triangles.thy ===== *)
theory Triangles
  imports Friction
begin

text \<open>
  \<open>engine/src/core/triangle_finder.py\<close> and \<open>triangular_scanner.py\<close>: the search for three conversions on one exchange
  that end with more than they started with.  The scanner adds the negative logarithms of the rates and asks whether
  the sum is negative; the model multiplies the rates and asks whether the product exceeds one.
\<close>

subsection \<open>The graph of rates\<close>

record pair_rate =
  pr_base :: string
  pr_quote :: string
  pr_bid :: decimal
  pr_ask :: decimal

type_synonym edge = "decimal \<times> string \<times> string"
type_synonym graph = "(string, (string, edge) dict) dict"

record triangle_path =
  tp_currencies :: "string list"
  tp_pairs :: "string list"
  tp_sides :: "string list"
  tp_rates :: "decimal list"
  tp_profit :: decimal

definition row :: "graph \<Rightarrow> string \<Rightarrow> (string, edge) dict" where
  "row g a = (case map_of g a of None \<Rightarrow> [] | Some es \<Rightarrow> es)"

definition add_edge :: "string \<Rightarrow> string \<Rightarrow> decimal \<Rightarrow> string \<Rightarrow> string \<Rightarrow> graph \<Rightarrow> graph" where
  "add_edge a b r pair side g =
     (case map_of (row g a) b of
        Some (r', e) \<Rightarrow> if r' < r then AList.update a (AList.update b (r, pair, side) (row g a)) g else g
      | None \<Rightarrow> AList.update a (AList.update b (r, pair, side) (row g a)) g)"

definition pair_name :: "pair_rate \<Rightarrow> string" where
  "pair_name p = pr_base p @ ''/'' @ pr_quote p"

definition add_pair :: "pair_rate \<Rightarrow> graph \<Rightarrow> graph" where
  "add_pair p g =
     (let g1 = add_edge (pr_base p) (pr_quote p) (pr_bid p) (pair_name p) ''sell'' g
      in if 0 < pr_ask p then add_edge (pr_quote p) (pr_base p) (1 / pr_ask p) (pair_name p) ''buy'' g1 else g1)"

definition update_graph :: "pair_rate list \<Rightarrow> graph" where
  "update_graph rates = fold add_pair rates []"

text \<open>The cycles in the order of the three loops.\<close>

definition closing :: "graph \<Rightarrow> string \<Rightarrow> string \<times> edge \<Rightarrow> string \<times> edge \<Rightarrow> triangle_path list" where
  "closing g a be ce =
     (case (be, ce) of ((b, (r1, p1, s1)), (c, (r2, p2, s2))) \<Rightarrow>
        if c = a \<or> c = b then []
        else case map_of (row g c) a of
               None \<Rightarrow> []
             | Some (r3, p3, s3) \<Rightarrow>
                 [\<lparr>tp_currencies = [a, b, c], tp_pairs = [p1, p2, p3], tp_sides = [s1, s2, s3], tp_rates = [r1, r2, r3],
                   tp_profit = r1 * r2 * r3 - 1\<rparr>])"

definition cycles_from :: "graph \<Rightarrow> string \<Rightarrow> triangle_path list" where
  "cycles_from g a = concat (map (\<lambda>be. if fst be = a then [] else concat (map (closing g a be) (row g (fst be)))) (row g a))"

text \<open>Only the first cycle on a set of currencies is kept: \<open>key\<close> is the set, \<open>seen\<close> the sets kept so far.\<close>

fun first_by :: "('a \<Rightarrow> 'k) \<Rightarrow> 'k list \<Rightarrow> 'a list \<Rightarrow> 'a list" where
  "first_by key seen [] = []"
| "first_by key seen (p # ps) = (if key p \<in> set seen then first_by key seen ps else p # first_by key (key p # seen) ps)"

abbreviation currency_set :: "triangle_path \<Rightarrow> string set" where
  "currency_set p \<equiv> set (tp_currencies p)"

definition find_in_graph :: "decimal \<Rightarrow> graph \<Rightarrow> triangle_path list" where
  "find_in_graph min_profit g =
     sort_key (\<lambda>p. - tp_profit p)
       (first_by currency_set [] (filter (\<lambda>p. min_profit < tp_profit p) (concat (map (cycles_from g) (dict_keys g)))))"

definition find_triangles :: "decimal \<Rightarrow> pair_rate list \<Rightarrow> triangle_path list" where
  "find_triangles min_profit rates = find_in_graph min_profit (update_graph rates)"

subsection \<open>The best offers\<close>

text \<open>What is offered for one unit of \<open>a\<close> in units of \<open>b\<close>.\<close>

definition offers :: "pair_rate list \<Rightarrow> (string \<times> string \<times> decimal) set" where
  "offers rates = {(pr_base p, pr_quote p, pr_bid p) | p. p \<in> set rates}
     \<union> {(pr_quote p, pr_base p, 1 / pr_ask p) | p. p \<in> set rates \<and> 0 < pr_ask p}"

definition best_for :: "(string \<times> string \<times> decimal) set \<Rightarrow> string \<Rightarrow> string \<Rightarrow> edge option \<Rightarrow> bool" where
  "best_for S a b o1 =
     (case o1 of
        None \<Rightarrow> \<forall>r. (a, b, r) \<notin> S
      | Some e \<Rightarrow> (a, b, fst e) \<in> S \<and> (\<forall>r. (a, b, r) \<in> S \<longrightarrow> r \<le> fst e))"

definition best_edges :: "(string \<times> string \<times> decimal) set \<Rightarrow> graph \<Rightarrow> bool" where
  "best_edges S g \<longleftrightarrow> distinct (dict_keys g) \<and> (\<forall>a. distinct (dict_keys (row g a)))
     \<and> (\<forall>a b. best_for S a b (map_of (row g a) b))"

lemma offers_Nil: "offers [] = {}"
  by (simp add: offers_def)

lemma offers_Cons: "offers (p # ps) = insert (pr_base p, pr_quote p, pr_bid p)
    (if 0 < pr_ask p then insert (pr_quote p, pr_base p, 1 / pr_ask p) (offers ps) else offers ps)"
  by (auto simp: offers_def)

lemma row_update: "row (AList.update a es g) x = (if x = a then es else row g x)"
  by (simp add: row_def)

lemma best_for_other: "(x, y) \<noteq> (a, b) \<Longrightarrow> best_for (insert (a, b, r) S) x y o1 = best_for S x y o1"
  by (auto simp: best_for_def split: option.split)

lemma best_edges_add:
  assumes "best_edges S g"
  shows "best_edges (insert (a, b, r) S) (add_edge a b r pair side g)"
proof -
  have d: "distinct (dict_keys g)" "distinct (dict_keys (row g x))" and b: "best_for S x y (map_of (row g x) y)" for x y
    using assms by (auto simp: best_edges_def)
  show ?thesis
  proof (cases "\<exists>e. map_of (row g a) b = Some e \<and> r \<le> fst e")
    case True
    then obtain e where e: "map_of (row g a) b = Some e" "r \<le> fst e" by blast
    then have "add_edge a b r pair side g = g" by (auto simp: add_edge_def split: prod.split)
    moreover have "best_for (insert (a, b, r) S) x y (map_of (row g x) y)" for x y
      using b [of x y] e by (cases "(x, y) = (a, b)") (auto simp: best_for_other, auto simp: best_for_def)
    ultimately show ?thesis using d by (simp add: best_edges_def)
  next
    case False
    then have eq: "add_edge a b r pair side g = AList.update a (AList.update b (r, pair, side) (row g a)) g"
      by (auto simp: add_edge_def not_le split: option.split)
    have "best_for (insert (a, b, r) S) x y (map_of (row (add_edge a b r pair side g) x) y)" for x y
    proof (cases "(x, y) = (a, b)")
      case True
      then show ?thesis using b [of a b] False
        by (cases "map_of (row g a) b") (auto simp: eq row_update best_for_def not_le intro: order_trans less_imp_le)
    next
      case False
      then show ?thesis using b [of x y] by (auto simp: best_for_other eq row_update)
    qed
    then show ?thesis using d by (simp add: best_edges_def eq row_update distinct_update)
  qed
qed

lemma best_edges_pair:
  "best_edges S g \<Longrightarrow> best_edges (S \<union> offers [p]) (add_pair p g)"
proof -
  assume S: "best_edges S g"
  let ?g1 = "add_edge (pr_base p) (pr_quote p) (pr_bid p) (pair_name p) ''sell'' g"
  have 1: "best_edges (insert (pr_base p, pr_quote p, pr_bid p) S) ?g1" by (rule best_edges_add [OF S])
  show ?thesis
  proof (cases "0 < pr_ask p")
    case True
    have "S \<union> offers [p] = insert (pr_quote p, pr_base p, 1 / pr_ask p) (insert (pr_base p, pr_quote p, pr_bid p) S)"
      using True by (auto simp: offers_def)
    then show ?thesis using best_edges_add [OF 1] True by (simp add: add_pair_def)
  next
    case False
    then have "S \<union> offers [p] = insert (pr_base p, pr_quote p, pr_bid p) S" by (auto simp: offers_def)
    then show ?thesis using 1 False by (simp add: add_pair_def)
  qed
qed

lemma best_edges_update: "best_edges (offers rates) (update_graph rates)"
proof (induction rates rule: rev_induct)
  case Nil
  then show ?case by (simp add: best_edges_def best_for_def offers_def update_graph_def row_def)
next
  case (snoc p rates)
  have "offers (rates @ [p]) = offers rates \<union> offers [p]" by (auto simp: offers_def)
  then show ?case using best_edges_pair [OF snoc] by (simp add: update_graph_def)
qed

subsection \<open>Every profitable triangle is found\<close>

text \<open>A way round three currencies at the edges of a graph.\<close>

definition way_round :: "graph \<Rightarrow> triangle_path \<Rightarrow> bool" where
  "way_round g p \<longleftrightarrow> (\<exists>a b c r1 r2 r3 p1 p2 p3 s1 s2 s3. distinct [a, b, c]
     \<and> map_of (row g a) b = Some (r1, p1, s1) \<and> map_of (row g b) c = Some (r2, p2, s2) \<and> map_of (row g c) a = Some (r3, p3, s3)
     \<and> p = \<lparr>tp_currencies = [a, b, c], tp_pairs = [p1, p2, p3], tp_sides = [s1, s2, s3], tp_rates = [r1, r2, r3],
            tp_profit = r1 * r2 * r3 - 1\<rparr>)"

lemma enumerated:
  assumes "best_edges S g"
  shows "p \<in> set (concat (map (cycles_from g) (dict_keys g))) \<longleftrightarrow> way_round g p"
proof -
  have entry: "(b, e) \<in> set (row g a) \<longleftrightarrow> map_of (row g a) b = Some e" for a b e
    using assms by (simp add: best_edges_def)
  have key: "a \<in> set (dict_keys g)" if e: "map_of (row g a) b = Some e" for a b e
  proof -
    obtain es where "map_of g a = Some es" using e by (auto simp: row_def split: option.splits)
    then show ?thesis by (force dest: map_of_SomeD)
  qed
  have "p \<in> set (concat (map (cycles_from g) (dict_keys g))) \<longleftrightarrow>
      (\<exists>a \<in> set (dict_keys g). \<exists>b e. (b, e) \<in> set (row g a) \<and> b \<noteq> a \<and> (\<exists>c e'. (c, e') \<in> set (row g b) \<and> p \<in> set (closing g a (b, e) (c, e'))))"
    by (fastforce simp: cycles_from_def)
  also have "\<dots> \<longleftrightarrow> way_round g p"
  proof
    assume "\<exists>a \<in> set (dict_keys g). \<exists>b e. (b, e) \<in> set (row g a) \<and> b \<noteq> a \<and> (\<exists>c e'. (c, e') \<in> set (row g b) \<and> p \<in> set (closing g a (b, e) (c, e')))"
    then obtain a b r1 p1 s1 c r2 p2 s2 where 1: "map_of (row g a) b = Some (r1, p1, s1)" "b \<noteq> a" "map_of (row g b) c = Some (r2, p2, s2)"
      and cl: "p \<in> set (closing g a (b, (r1, p1, s1)) (c, (r2, p2, s2)))"
      unfolding entry by (metis prod.collapse)
    have 2: "c \<noteq> a" "c \<noteq> b" using cl by (auto simp: closing_def)
    then obtain r3 p3 s3 where 3: "map_of (row g c) a = Some (r3, p3, s3)"
      using cl by (cases "map_of (row g c) a") (auto simp: closing_def)
    have "p = \<lparr>tp_currencies = [a, b, c], tp_pairs = [p1, p2, p3], tp_sides = [s1, s2, s3], tp_rates = [r1, r2, r3], tp_profit = r1 * r2 * r3 - 1\<rparr>"
      using cl 2 3 by (simp add: closing_def)
    moreover have "distinct [a, b, c]" using 1(2) 2 by auto
    ultimately show "way_round g p" unfolding way_round_def using 1 3 by blast
  next
    assume "way_round g p"
    then obtain a b c r1 r2 r3 p1 p2 p3 s1 s2 s3 where w: "distinct [a, b, c]" "map_of (row g a) b = Some (r1, p1, s1)"
      "map_of (row g b) c = Some (r2, p2, s2)" "map_of (row g c) a = Some (r3, p3, s3)"
      "p = \<lparr>tp_currencies = [a, b, c], tp_pairs = [p1, p2, p3], tp_sides = [s1, s2, s3], tp_rates = [r1, r2, r3],
            tp_profit = r1 * r2 * r3 - 1\<rparr>"
      unfolding way_round_def by blast
    then have "p \<in> set (closing g a (b, (r1, p1, s1)) (c, (r2, p2, s2)))" by (auto simp: closing_def)
    moreover have "b \<noteq> a" using w(1) by auto
    ultimately show "\<exists>a \<in> set (dict_keys g). \<exists>b e. (b, e) \<in> set (row g a) \<and> b \<noteq> a \<and> (\<exists>c e'. (c, e') \<in> set (row g b) \<and> p \<in> set (closing g a (b, e) (c, e')))"
      unfolding entry using key [OF w(2)] w(2,3) by blast
  qed
  finally show ?thesis .
qed

lemma first_by_sound: "set (first_by key seen ps) \<subseteq> set ps"
  by (induction ps arbitrary: seen) auto

lemma first_by_new: "p \<in> set (first_by key seen ps) \<Longrightarrow> key p \<notin> set seen"
  by (induction ps arbitrary: seen) (fastforce split: if_splits)+

lemma first_by_distinct: "distinct (map key (first_by key seen ps))"
  by (induction ps arbitrary: seen) (auto dest: first_by_new)

lemma first_by_complete: "p \<in> set ps \<Longrightarrow> key p \<in> set seen \<or> (\<exists>q \<in> set (first_by key seen ps). key q = key p)"
proof (induction ps arbitrary: seen)
  case (Cons p' ps)
  then show ?case by auto (metis list.set_intros set_ConsD)+
qed simp

lemma found_iff:
  "p \<in> set (find_triangles m rates) \<Longrightarrow> way_round (update_graph rates) p \<and> m < tp_profit p"
  using first_by_sound [of currency_set "[]"] enumerated [OF best_edges_update]
  by (fastforce simp: find_triangles_def find_in_graph_def)

lemma found_complete:
  assumes "way_round (update_graph rates) p" and "m < tp_profit p"
  shows "\<exists>q \<in> set (find_triangles m rates). set (tp_currencies q) = set (tp_currencies p)"
proof -
  let ?ps = "filter (\<lambda>p. m < tp_profit p) (concat (map (cycles_from (update_graph rates)) (dict_keys (update_graph rates))))"
  have "p \<in> set ?ps" using assms enumerated [OF best_edges_update] by simp
  from first_by_complete [OF this, of currency_set "[]"] show ?thesis by (simp add: find_triangles_def find_in_graph_def)
qed

lemma offer_nonneg: "\<forall>p \<in> set rates. 0 \<le> pr_bid p \<Longrightarrow> (a, b, r) \<in> offers rates \<Longrightarrow> 0 \<le> r"
  by (auto simp: offers_def)

lemma best_offer:
  "(a, b, r') \<in> offers rates \<Longrightarrow> \<exists>r p s. map_of (row (update_graph rates) a) b = Some (r, p, s) \<and> (a, b, r) \<in> offers rates \<and> r' \<le> r"
proof -
  assume "(a, b, r') \<in> offers rates"
  moreover have "best_for (offers rates) a b (map_of (row (update_graph rates) a) b)"
    using best_edges_update [of rates] by (simp add: best_edges_def)
  ultimately show ?thesis by (cases "map_of (row (update_graph rates) a) b") (auto simp: best_for_def)
qed

text \<open>C36. A set of three currencies is reported exactly when some way round it, at any of the offered rates, earns more than the
  minimum; no set is reported twice, and the reports come in the order of their profit, best first.\<close>

theorem triangles_are_found:
  assumes "\<forall>p \<in> set rates. 0 \<le> pr_bid p"
  shows "((\<exists>p \<in> set (find_triangles m rates). currency_set p = S) \<longleftrightarrow>
      (\<exists>x y z r1 r2 r3. S = {x, y, z} \<and> distinct [x, y, z] \<and> (x, y, r1) \<in> offers rates \<and> (y, z, r2) \<in> offers rates
        \<and> (z, x, r3) \<in> offers rates \<and> m < r1 * r2 * r3 - 1))
    \<and> distinct (map currency_set (find_triangles m rates))
    \<and> sorted_wrt (\<lambda>p q. tp_profit q \<le> tp_profit p) (find_triangles m rates)"
proof (intro conjI iffI)
  assume "\<exists>p \<in> set (find_triangles m rates). currency_set p = S"
  then obtain p where p: "way_round (update_graph rates) p" "m < tp_profit p" "currency_set p = S" using found_iff by blast
  have off: "(a, b, r) \<in> offers rates" if "map_of (row (update_graph rates) a) b = Some (r, e)" for a b r e
  proof -
    have "best_for (offers rates) a b (map_of (row (update_graph rates) a) b)"
      using best_edges_update [of rates] by (simp add: best_edges_def)
    then show ?thesis by (simp add: that best_for_def)
  qed
  show "\<exists>x y z r1 r2 r3. S = {x, y, z} \<and> distinct [x, y, z] \<and> (x, y, r1) \<in> offers rates \<and> (y, z, r2) \<in> offers rates
      \<and> (z, x, r3) \<in> offers rates \<and> m < r1 * r2 * r3 - 1"
  proof -
    from p(1) obtain a b c r1 r2 r3 p1 p2 p3 s1 s2 s3 where w: "distinct [a, b, c]" "map_of (row (update_graph rates) a) b = Some (r1, p1, s1)"
      "map_of (row (update_graph rates) b) c = Some (r2, p2, s2)" "map_of (row (update_graph rates) c) a = Some (r3, p3, s3)"
      "tp_currencies p = [a, b, c]" "tp_profit p = r1 * r2 * r3 - 1"
      unfolding way_round_def by fastforce
    have "S = {a, b, c}" "m < r1 * r2 * r3 - 1" using p(2,3) w(5,6) by auto
    then show ?thesis using w(1) off [OF w(2)] off [OF w(3)] off [OF w(4)] by blast
  qed
next
  assume "\<exists>x y z r1 r2 r3. S = {x, y, z} \<and> distinct [x, y, z] \<and> (x, y, r1) \<in> offers rates \<and> (y, z, r2) \<in> offers rates
      \<and> (z, x, r3) \<in> offers rates \<and> m < r1 * r2 * r3 - 1"
  then obtain x y z r1 r2 r3 where c: "S = {x, y, z}" "distinct [x, y, z]" "(x, y, r1) \<in> offers rates" "(y, z, r2) \<in> offers rates"
    "(z, x, r3) \<in> offers rates" "m < r1 * r2 * r3 - 1" by blast
  obtain q1 p1 s1 where 1: "map_of (row (update_graph rates) x) y = Some (q1, p1, s1)" "r1 \<le> q1" using best_offer c(3) by blast
  obtain q2 p2 s2 where 2: "map_of (row (update_graph rates) y) z = Some (q2, p2, s2)" "r2 \<le> q2" using best_offer c(4) by blast
  obtain q3 p3 s3 where 3: "map_of (row (update_graph rates) z) x = Some (q3, p3, s3)" "r3 \<le> q3" using best_offer c(5) by blast
  have n: "0 \<le> r1" "0 \<le> r2" "0 \<le> r3" using offer_nonneg [OF assms] c(3-5) by blast+
  have "r1 * r2 * r3 \<le> q1 * q2 * q3"
    using 1(2) 2(2) 3(2) n by (intro mult_mono) (auto intro: mult_nonneg_nonneg)
  moreover define p where "p = \<lparr>tp_currencies = [x, y, z], tp_pairs = [p1, p2, p3], tp_sides = [s1, s2, s3], tp_rates = [q1, q2, q3],
      tp_profit = q1 * q2 * q3 - 1\<rparr>"
  ultimately have "way_round (update_graph rates) p" "m < tp_profit p"
    using c(2,6) 1(1) 2(1) 3(1) unfolding way_round_def by (blast, simp)
  from found_complete [OF this] show "\<exists>p \<in> set (find_triangles m rates). currency_set p = S" by (simp add: c(1) p_def)
next
  let ?ps = "first_by currency_set [] (filter (\<lambda>p. m < tp_profit p) (concat (map (cycles_from (update_graph rates)) (dict_keys (update_graph rates)))))"
  have "mset (map currency_set (find_triangles m rates)) = mset (map currency_set ?ps)"
    by (simp add: find_triangles_def find_in_graph_def mset_map [symmetric] del: mset_map) (simp add: mset_map)
  then show "distinct (map currency_set (find_triangles m rates))"
    using first_by_distinct [of currency_set "[]"] mset_eq_imp_distinct_iff by blast
  have "sorted (map (\<lambda>p. - tp_profit p) (find_triangles m rates))" by (simp add: find_triangles_def find_in_graph_def)
  then show "sorted_wrt (\<lambda>p q. tp_profit q \<le> tp_profit p) (find_triangles m rates)" by (simp add: sorted_wrt_map)
qed

definition ex_rates :: "pair_rate list" where
  "ex_rates = [\<lparr>pr_base = ''BTC'', pr_quote = ''USDT'', pr_bid = 100, pr_ask = 101\<rparr>, \<lparr>pr_base = ''ETH'', pr_quote = ''BTC'', pr_bid = 1 / 11, pr_ask = 1 / 10\<rparr>,
     \<lparr>pr_base = ''ETH'', pr_quote = ''USDT'', pr_bid = 11, pr_ask = 12\<rparr>]"

theorem triangles_are_found_witness:
  "\<exists>p \<in> set (find_triangles (1 / 1000) ex_rates). set (tp_currencies p) = {''USDT'', ''BTC'', ''ETH''}"
proof -
  have "(''USDT'', ''BTC'', 1 / 101) \<in> offers ex_rates" "(''BTC'', ''ETH'', 10) \<in> offers ex_rates" "(''ETH'', ''USDT'', 11) \<in> offers ex_rates"
    by (simp_all add: offers_Cons ex_rates_def)
  moreover have "1 / 1000 < 1 / 101 * 10 * 11 - (1 :: rat)" by simp
  moreover have "distinct [''USDT'', ''BTC'', ''ETH'']" by simp
  moreover have "\<forall>p \<in> set ex_rates. 0 \<le> pr_bid p" by (simp add: ex_rates_def)
  ultimately show ?thesis using triangles_are_found [of ex_rates "1 / 1000" "{''USDT'', ''BTC'', ''ETH''}"] by blast
qed

text \<open>Of two profitable ways round the same currencies the first is reported, not the better one.\<close>

definition crossed_rates :: "pair_rate list" where
  "crossed_rates = [\<lparr>pr_base = ''A'', pr_quote = ''B'', pr_bid = 2, pr_ask = 1 / 4\<rparr>, \<lparr>pr_base = ''B'', pr_quote = ''C'', pr_bid = 1, pr_ask = 1\<rparr>,
     \<lparr>pr_base = ''C'', pr_quote = ''A'', pr_bid = 1, pr_ask = 1\<rparr>]"

lemma first_way_round_wins:
  "map (\<lambda>p. (tp_currencies p, tp_profit p)) (find_triangles 0 crossed_rates) = [([''A'', ''B'', ''C''], 1)]
   \<and> (''B'', ''A'', 4) \<in> offers crossed_rates \<and> (''A'', ''C'', 1) \<in> offers crossed_rates \<and> (''C'', ''B'', 1) \<in> offers crossed_rates"
proof -
  have "map (\<lambda>p. (tp_currencies p, tp_profit p)) (find_triangles 0 crossed_rates) = [([''A'', ''B'', ''C''], 1)]" by code_simp
  moreover have "(''B'', ''A'', 4) \<in> offers crossed_rates \<and> (''A'', ''C'', 1) \<in> offers crossed_rates \<and> (''C'', ''B'', 1) \<in> offers crossed_rates"
    by (simp add: offers_Cons crossed_rates_def)
  ultimately show ?thesis by blast
qed


subsection \<open>The scanner\<close>

text \<open>An edge from one currency to another: what is left of one unit after the fee, the symbol and the side.\<close>

type_synonym scan_edges = "(string \<times> string, edge) dict"

record scanner =
  sc_min_bps :: decimal
  sc_costs :: "cost_calculator option"
  sc_min_volume :: decimal
  sc_books :: "(string, (string, order_book) dict) dict"

record triangle_cycle =
  tc_path :: "string list"
  tc_pairs :: "string list"
  tc_sides :: "string list"
  tc_prices :: "decimal list"
  tc_profit :: decimal
  tc_volume :: decimal

definition scanner_new :: "cost_calculator option \<Rightarrow> scanner" where
  "scanner_new cc = \<lparr>sc_min_bps = 10, sc_costs = cc, sc_min_volume = 0, sc_books = []\<rparr>"

definition split_pair :: "string \<Rightarrow> (string \<times> string) option" where
  "split_pair symb =
     (let clean = before '':'' symb
      in if count_list clean (CHR ''/'') = 1
         then Some (takeWhile (\<lambda>c. c \<noteq> CHR ''/'') clean, tl (dropWhile (\<lambda>c. c \<noteq> CHR ''/'') clean))
         else None)"

definition side_quantity :: "string \<Rightarrow> order_book \<Rightarrow> decimal" where
  "side_quantity side book = total_quantity (take 5 (if side = ''sell'' then descending (bids book) else ascending (asks book)))"

definition edge_depth :: "string \<Rightarrow> decimal \<Rightarrow> order_book \<Rightarrow> decimal" where
  "edge_depth side price book = (let q = side_quantity side book in if 0 < q then q * price else 0)"

text \<open>The costs of a conversion of 100 units of the quote currency, as a share; none without a calculator.\<close>

definition fee_rate :: "bool \<Rightarrow> string \<Rightarrow> decimal \<Rightarrow> scanner \<Rightarrow> pyfloat" where
  "fee_rate off ex price sc =
     (case sc_costs sc of None \<Rightarrow> 0 | Some cc \<Rightarrow> estimate_cost off ex (if 0 < price then 100 / price else 1) price None cc / 100)"

definition converted :: "string \<Rightarrow> decimal \<Rightarrow> decimal" where
  "converted side price = (if side = ''buy'' then 1 / price else price)"

definition after_fee :: "pyfloat \<Rightarrow> decimal \<Rightarrow> decimal" where
  "after_fee f r = (if f < 1 then r * (1 - f) else r)"

definition scan_edge :: "bool \<Rightarrow> string \<Rightarrow> scanner \<Rightarrow> string \<Rightarrow> string \<Rightarrow> order_book \<Rightarrow> decimal \<Rightarrow> string \<times> string \<Rightarrow> scan_edges \<Rightarrow> scan_edges" where
  "scan_edge off ex sc symb side book price k es =
     (if 0 < sc_min_volume sc \<and> edge_depth side price book < sc_min_volume sc then es
      else AList.update k (after_fee (fee_rate off ex price sc) (converted side price), symb, side) es)"

definition scan_book :: "bool \<Rightarrow> string \<Rightarrow> scanner \<Rightarrow> string \<times> order_book \<Rightarrow> scan_edges \<Rightarrow> scan_edges" where
  "scan_book off ex sc sb es =
     (case (split_pair (fst sb), best_bid (snd sb), best_ask (snd sb)) of
        (Some (base, quote), Some bid, Some ask) \<Rightarrow>
          if bid \<le> 0 \<or> ask \<le> 0 then es
          else scan_edge off ex sc (fst sb) ''buy'' (snd sb) ask (quote, base)
                 (scan_edge off ex sc (fst sb) ''sell'' (snd sb) bid (base, quote) es)
      | _ \<Rightarrow> es)"

definition books_of :: "string \<Rightarrow> scanner \<Rightarrow> (string, order_book) dict" where
  "books_of ex sc = (case map_of (sc_books sc) ex of None \<Rightarrow> [] | Some bs \<Rightarrow> bs)"

definition build_edges :: "bool \<Rightarrow> string \<Rightarrow> scanner \<Rightarrow> scan_edges" where
  "build_edges off ex sc = fold (scan_book off ex sc) (books_of ex sc) []"

definition leaving :: "string \<Rightarrow> scan_edges \<Rightarrow> (string \<times> decimal) list" where
  "leaving a es = map (\<lambda>((x, y), e). (y, fst e)) (filter (\<lambda>((x, y), e). x = a) es)"

text \<open>The paths of three conversions from USDT that gain, one for each set of currencies.\<close>

definition gaining_paths :: "scan_edges \<Rightarrow> string list list" where
  "gaining_paths es =
     first_by set []
       (concat (map (\<lambda>(b, w1). if b = ''USDT'' then []
          else concat (map (\<lambda>(c, w2). if c = ''USDT'' \<or> c = b then []
             else (case map_of es (c, ''USDT'') of
                     None \<Rightarrow> []
                   | Some (w3, e) \<Rightarrow> if 1 < w1 * w2 * w3 then [[''USDT'', b, c]] else [])) (leaving b es))) (leaving ''USDT'' es)))"

fun bottleneck :: "(string, order_book) dict \<Rightarrow> (string \<times> string \<times> decimal) list \<Rightarrow> decimal \<Rightarrow> decimal" where
  "bottleneck bs [] m = (if m < 999999999 then m else 0)"
| "bottleneck bs ((symb, side, price) # ls) m =
     (case map_of bs symb of
        None \<Rightarrow> 0
      | Some book \<Rightarrow>
          let q = side_quantity side book
          in if q \<le> 0 then 0 else bottleneck bs ls (min m (if 0 < price then q * price else q)))"

text \<open>A leg: symbol, side and the best price on that side.\<close>

definition leg_of :: "(string, order_book) dict \<Rightarrow> scan_edges \<Rightarrow> string \<times> string \<Rightarrow> (string \<times> string \<times> decimal) option" where
  "leg_of bs es k =
     (case map_of es k of
        None \<Rightarrow> None
      | Some (w, symb, side) \<Rightarrow>
          (case map_of bs symb of
             None \<Rightarrow> None
           | Some book \<Rightarrow>
               (case (if side = ''buy'' then best_ask book else best_bid book) of
                  None \<Rightarrow> None
                | Some p \<Rightarrow> if p \<le> 0 then None else Some (symb, side, p))))"

definition build_cycle :: "string \<Rightarrow> scanner \<Rightarrow> scan_edges \<Rightarrow> string list \<Rightarrow> triangle_cycle option" where
  "build_cycle ex sc es path =
     (case path of
        [a, b, c] \<Rightarrow>
          (case (leg_of (books_of ex sc) es (a, b), leg_of (books_of ex sc) es (b, c), leg_of (books_of ex sc) es (c, a)) of
             (Some (y1, s1, p1), Some (y2, s2, p2), Some (y3, s3, p3)) \<Rightarrow>
               let profit = converted s1 p1 * converted s2 p2 * converted s3 p3 - 1
               in if profit \<le> sc_min_bps sc / 10000 then None
                  else Some \<lparr>tc_path = path, tc_pairs = [before '':'' y1, before '':'' y2, before '':'' y3], tc_sides = [s1, s2, s3],
                             tc_prices = [p1, p2, p3], tc_profit = profit,
                             tc_volume = bottleneck (books_of ex sc) [(y1, s1, p1), (y2, s2, p2), (y3, s3, p3)] 999999999\<rparr>
           | _ \<Rightarrow> None)
      | _ \<Rightarrow> None)"

definition on_orderbook_update :: "bool \<Rightarrow> string \<Rightarrow> string \<Rightarrow> order_book \<Rightarrow> scanner \<Rightarrow> triangle_cycle list \<times> scanner" where
  "on_orderbook_update off ex symb book sc =
     (let sc1 = sc\<lparr>sc_books := AList.update ex (AList.update symb book (books_of ex sc)) (sc_books sc)\<rparr>;
          es = build_edges off ex sc1
      in (List.map_filter (build_cycle ex sc1 es) (gaining_paths es), sc1))"

text \<open>What a leg stands for: the best price, on its side, of a book whose symbol is the pair of the two currencies.\<close>

definition offered :: "(string, order_book) dict \<Rightarrow> string \<Rightarrow> string \<Rightarrow> decimal \<Rightarrow> string \<times> string \<Rightarrow> bool" where
  "offered bs symb side p k \<longleftrightarrow> (\<exists>book. map_of bs symb = Some book \<and> 0 < p
     \<and> (side = ''sell'' \<and> best_bid book = Some p \<and> split_pair symb = Some k
        \<or> side = ''buy'' \<and> best_ask book = Some p \<and> split_pair symb = Some (snd k, fst k)))"

definition edges_ok :: "bool \<Rightarrow> string \<Rightarrow> scanner \<Rightarrow> (string, order_book) dict \<Rightarrow> scan_edges \<Rightarrow> bool" where
  "edges_ok off ex sc bs es \<longleftrightarrow> distinct (dict_keys es)
     \<and> (\<forall>k w symb side. map_of es k = Some (w, symb, side) \<longrightarrow>
          (\<exists>p. offered bs symb side p k \<and> w = after_fee (fee_rate off ex p sc) (converted side p)))"

lemma edges_ok_scan_edge:
  "edges_ok off ex sc bs es \<Longrightarrow> offered bs symb side p k \<Longrightarrow> edges_ok off ex sc bs (scan_edge off ex sc symb side book p k es)"
  by (auto simp: edges_ok_def scan_edge_def distinct_update map_of_update simp del: map_of_eq_Some_iff split: if_splits)

lemma edges_ok_scan_book:
  assumes "edges_ok off ex sc bs es" and "map_of bs symb = Some book"
  shows "edges_ok off ex sc bs (scan_book off ex sc (symb, book) es)"
proof (cases "\<exists>base quote bid ask. split_pair symb = Some (base, quote) \<and> best_bid book = Some bid \<and> best_ask book = Some ask \<and> 0 < bid \<and> 0 < ask")
  case True
  then obtain base quote bid ask where h: "split_pair symb = Some (base, quote)" "best_bid book = Some bid" "best_ask book = Some ask" "0 < bid" "0 < ask"
    by blast
  then have "offered bs symb ''sell'' bid (base, quote)" "offered bs symb ''buy'' ask (quote, base)"
    using assms(2) by (auto simp: offered_def)
  then show ?thesis using h assms(1) by (simp add: scan_book_def edges_ok_scan_edge)
next
  case False
  then show ?thesis using assms(1) by (auto simp: scan_book_def not_le split: option.splits)
qed

lemma edges_ok_build:
  assumes "distinct (dict_keys (books_of ex sc))"
  shows "edges_ok off ex sc (books_of ex sc) (build_edges off ex sc)"
proof -
  have "edges_ok off ex sc (books_of ex sc) (fold (scan_book off ex sc) bs es)"
    if "set bs \<subseteq> set (books_of ex sc)" "edges_ok off ex sc (books_of ex sc) es" for bs es
    using that
  proof (induction bs arbitrary: es)
    case (Cons sb bs)
    obtain symb book where sb: "sb = (symb, book)" by fastforce
    then have "map_of (books_of ex sc) symb = Some book" using Cons.prems(1) assms by simp
    from edges_ok_scan_book [OF Cons.prems(2) this] Cons show ?case by (simp add: sb)
  qed simp
  from this [of "books_of ex sc" "[]"] show ?thesis by (simp add: build_edges_def edges_ok_def)
qed

lemma leg_offered:
  assumes "edges_ok off ex sc bs es" and "leg_of bs es k = Some (symb, side, p)"
  shows "offered bs symb side p k \<and> fst (the (map_of es k)) = after_fee (fee_rate off ex p sc) (converted side p)"
proof -
  obtain w where w: "map_of es k = Some (w, symb, side)"
    using assms(2) by (auto simp: leg_of_def split: option.splits if_splits)
  then obtain q where q: "offered bs symb side q k" "w = after_fee (fee_rate off ex q sc) (converted side q)"
    using assms(1) unfolding edges_ok_def by blast
  then have "p = q" using assms(2) w by (auto simp: leg_of_def offered_def split: option.splits if_splits)
  then show ?thesis using q w by simp
qed

lemma gaining_path:
  assumes "path \<in> set (gaining_paths es)" and "distinct (dict_keys es)"
  shows "\<exists>b c w1 w2 w3 e1 e2 e3. path = [''USDT'', b, c] \<and> distinct path \<and> map_of es (''USDT'', b) = Some (w1, e1)
    \<and> map_of es (b, c) = Some (w2, e2) \<and> map_of es (c, ''USDT'') = Some (w3, e3) \<and> 1 < w1 * w2 * w3"
proof -
  have leave: "\<exists>e. map_of es (a, b) = Some (w, e)" if "(b, w) \<in> set (leaving a es)" for a b w
    using that assms(2) unfolding leaving_def by (force simp: map_of_eq_Some_iff)
  from assms(1) first_by_sound obtain b w1 c w2 where 1: "(b, w1) \<in> set (leaving ''USDT'' es)" "b \<noteq> ''USDT''" "(c, w2) \<in> set (leaving b es)"
    "c \<noteq> ''USDT''" "c \<noteq> b"
    and p: "path \<in> set (case map_of es (c, ''USDT'') of None \<Rightarrow> [] | Some (w3, e) \<Rightarrow> if 1 < w1 * w2 * w3 then [[''USDT'', b, c]] else [])"
    unfolding gaining_paths_def by (fastforce split: if_splits)
  from p obtain w3 e3 where "map_of es (c, ''USDT'') = Some (w3, e3)" "1 < w1 * w2 * w3" "path = [''USDT'', b, c]"
    by (cases "map_of es (c, ''USDT'')") (auto split: if_splits)
  moreover have "distinct [''USDT'', b, c]" using 1 by auto
  ultimately show ?thesis using leave [OF 1(1)] leave [OF 1(3)] by blast
qed

text \<open>C37. A cycle the scanner reports is real: it starts from USDT over two other currencies, each leg is the best price of a book of
  the pair, on the side that converts the one currency into the other, the conversions gain more than the minimum, and
  they still gain after the fees of every leg.\<close>

theorem reported_cycles_gain:
  assumes "on_orderbook_update off ex symb book sc = (cs, sc')" and "distinct (dict_keys (books_of ex sc))" and "cy \<in> set cs"
  shows "\<exists>b c y1 y2 y3 s1 s2 s3 p1 p2 p3. tc_path cy = [''USDT'', b, c] \<and> distinct (tc_path cy)
    \<and> offered (books_of ex sc') y1 s1 p1 (''USDT'', b) \<and> offered (books_of ex sc') y2 s2 p2 (b, c) \<and> offered (books_of ex sc') y3 s3 p3 (c, ''USDT'')
    \<and> tc_pairs cy = map (before '':'') [y1, y2, y3] \<and> tc_sides cy = [s1, s2, s3] \<and> tc_prices cy = [p1, p2, p3]
    \<and> tc_profit cy = converted s1 p1 * converted s2 p2 * converted s3 p3 - 1 \<and> sc_min_bps sc / 10000 < tc_profit cy
    \<and> 1 < after_fee (fee_rate off ex p1 sc') (converted s1 p1) * after_fee (fee_rate off ex p2 sc') (converted s2 p2)
          * after_fee (fee_rate off ex p3 sc') (converted s3 p3)"
proof -
  define es where "es = build_edges off ex sc'"
  have sc': "sc' = sc\<lparr>sc_books := AList.update ex (AList.update symb book (books_of ex sc)) (sc_books sc)\<rparr>"
    and cs: "cs = List.map_filter (build_cycle ex sc' es) (gaining_paths es)"
    using assms(1) by (auto simp: on_orderbook_update_def Let_def es_def)
  have "books_of ex sc' = AList.update symb book (books_of ex sc)" by (simp add: sc' books_of_def)
  then have ok: "edges_ok off ex sc' (books_of ex sc') es"
    unfolding es_def using assms(2) by (intro edges_ok_build) (simp add: distinct_update)
  obtain path where path: "path \<in> set (gaining_paths es)" "build_cycle ex sc' es path = Some cy"
    using assms(3) by (auto simp: cs List.map_filter_def)
  from gaining_path [OF path(1)] ok obtain b c w1 w2 w3 e1 e2 e3 where g: "path = [''USDT'', b, c]" "distinct path"
    "map_of es (''USDT'', b) = Some (w1, e1)" "map_of es (b, c) = Some (w2, e2)" "map_of es (c, ''USDT'') = Some (w3, e3)" "1 < w1 * w2 * w3"
    by (auto simp: edges_ok_def)
  obtain y1 s1 p1 where l1: "leg_of (books_of ex sc') es (''USDT'', b) = Some (y1, s1, p1)"
    using path(2) g(1) by (auto simp: build_cycle_def split: option.splits)
  obtain y2 s2 p2 where l2: "leg_of (books_of ex sc') es (b, c) = Some (y2, s2, p2)"
    using path(2) g(1) by (auto simp: build_cycle_def split: option.splits)
  obtain y3 s3 p3 where l3: "leg_of (books_of ex sc') es (c, ''USDT'') = Some (y3, s3, p3)"
    using path(2) g(1) by (auto simp: build_cycle_def split: option.splits)
  note o = leg_offered [OF ok l1] leg_offered [OF ok l2] leg_offered [OF ok l3]
  have cy: "tc_path cy = path" "tc_pairs cy = map (before '':'') [y1, y2, y3]" "tc_sides cy = [s1, s2, s3]" "tc_prices cy = [p1, p2, p3]"
    "tc_profit cy = converted s1 p1 * converted s2 p2 * converted s3 p3 - 1" "sc_min_bps sc / 10000 < tc_profit cy"
    using path(2) g(1) l1 l2 l3 by (auto simp: build_cycle_def Let_def sc' split: if_splits)
  have "1 < after_fee (fee_rate off ex p1 sc') (converted s1 p1) * after_fee (fee_rate off ex p2 sc') (converted s2 p2)
      * after_fee (fee_rate off ex p3 sc') (converted s3 p3)"
    using o g(3-6) by simp
  then show ?thesis using cy g(1,2) o by metis
qed

definition one_level :: "decimal \<Rightarrow> decimal \<Rightarrow> order_book" where
  "one_level bid ask = book_new\<lparr>bids := [(bid, 100)], asks := [(ask, 100)]\<rparr>"

definition ex_scanner :: scanner where
  "ex_scanner = (scanner_new None)\<lparr>sc_books := [(''okx'', [(''BTC/USDT:USDT'', one_level 100 101), (''ETH/BTC'', one_level (1 / 11) (1 / 10))])]\<rparr>"

definition ex_cycles :: "triangle_cycle list" where
  "ex_cycles = fst (on_orderbook_update False ''okx'' ''ETH/USDT'' (one_level 11 12) ex_scanner)"

lemma ex_cycles_one: "map (\<lambda>cy. (tc_path cy, tc_pairs cy)) ex_cycles = [([''USDT'', ''BTC'', ''ETH''], [''BTC/USDT'', ''ETH/BTC'', ''ETH/USDT''])]"
  by code_simp

theorem reported_cycles_gain_witness:
  "ex_cycles \<noteq> [] \<and> sc_min_bps ex_scanner / 10000 < tc_profit (hd ex_cycles)"
proof -
  have ne: "ex_cycles \<noteq> []" using ex_cycles_one by auto
  have d: "distinct (dict_keys (books_of ''okx'' ex_scanner))" by code_simp
  have "on_orderbook_update False ''okx'' ''ETH/USDT'' (one_level 11 12) ex_scanner
      = (ex_cycles, snd (on_orderbook_update False ''okx'' ''ETH/USDT'' (one_level 11 12) ex_scanner))" by (simp add: ex_cycles_def)
  from reported_cycles_gain [OF this d hd_in_set [OF ne]] show ?thesis using ne by blast
qed

text \<open>The depth of a leg is in its quote currency and is compared with an amount in USDT all the same: five bitcoin count as five
  dollars.\<close>

lemma cross_depth_counts_as_usdt:
  "edge_depth ''sell'' (1 / 20) (one_level (1 / 20) (1 / 19)) = 5"
  by code_simp

text \<open>The profit reported, and compared with the minimum, does not see the fees.\<close>

lemma gross_profit_is_reported:
  "build_cycle ex (sc\<lparr>sc_costs := cc\<rparr>) es path = build_cycle ex sc es path"
proof -
  have "sc_books (sc\<lparr>sc_costs := cc\<rparr>) = sc_books sc" "sc_min_bps (sc\<lparr>sc_costs := cc\<rparr>) = sc_min_bps sc" by simp_all
  then show ?thesis unfolding build_cycle_def books_of_def by (simp only:)
qed

end
