(* ===== verification/PnlRecon.thy ===== *)
theory PnlRecon
  imports KillSwitch
begin

text \<open>
  \<open>engine/src/reconciliation/exchange_pnl_snapshot.py\<close>, \<open>pnl_reconciler.py\<close> and \<open>pnl_ledger.py\<close>: the income the
  exchanges report is collected, compared with the profit the engine counts, and trading is halted when the two stay
  apart.  The events an exchange returns, the outcomes of the database and the clock are arguments; a time is in
  seconds.  Left out: the requests to the exchanges, the fallback file, metrics and messages.
\<close>

subsection \<open>The snapshots\<close>

record income_row =
  in_ts :: secs
  in_exchange :: string
  in_type :: string
  in_amount :: decimal
  in_tran :: string

text \<open>The tables: rows by exchange, transaction and time; \<open>None\<close> without a pool.\<close>

record snapshot =
  sn_seen :: "string \<Rightarrow> string list"
  sn_memory :: "income_row list"
  sn_db :: "income_row list option"
  sn_ready :: bool
  sn_failed :: bool

definition snapshot_new :: "income_row list option \<Rightarrow> snapshot" where
  "snapshot_new db = \<lparr>sn_seen = (\<lambda>ex. []), sn_memory = [], sn_db = db, sn_ready = False, sn_failed = False\<rparr>"

definition contributing_types :: "string list" where
  "contributing_types = [''REALIZED_PNL'', ''COMMISSION'', ''FUNDING_FEE'', ''COMMISSION_REBATE'', ''REFERRAL_KICKBACK'']"

definition ensure_schema :: "bool \<Rightarrow> snapshot \<Rightarrow> snapshot" where
  "ensure_schema ok sn =
     (if sn_ready sn \<or> sn_failed sn then sn
      else if sn_db sn = None then sn\<lparr>sn_failed := True\<rparr>
      else if ok then sn\<lparr>sn_ready := True\<rparr> else sn\<lparr>sn_failed := True\<rparr>)"

text \<open>The events of one poll that were not seen among the last 2,000 of the exchange; an event without a transaction is never
  taken for a repetition.\<close>

fun unseen :: "income_row list \<Rightarrow> string list \<Rightarrow> income_row list \<times> string list" where
  "unseen [] seen = ([], seen)"
| "unseen (r # rs) seen =
     (if in_tran r \<noteq> [] \<and> in_tran r \<in> set seen then unseen rs seen
      else let seen1 = (if in_tran r = [] then seen else deque_append 2000 seen (in_tran r)); (out, seen2) = unseen rs seen1 in (r # out, seen2))"

definition fetch_once :: "string \<Rightarrow> income_row list \<Rightarrow> snapshot \<Rightarrow> income_row list \<times> snapshot" where
  "fetch_once ex raw sn = (let (out, seen) = unseen raw (sn_seen sn ex) in (out, sn\<lparr>sn_seen := (sn_seen sn)(ex := seen)\<rparr>))"

definition same_row :: "income_row \<Rightarrow> income_row \<Rightarrow> bool" where
  "same_row r r' \<longleftrightarrow> in_exchange r = in_exchange r' \<and> in_tran r = in_tran r' \<and> in_ts r = in_ts r'"

definition insert_row :: "income_row \<Rightarrow> income_row list \<Rightarrow> income_row list" where
  "insert_row r rows = (if list_ex (same_row r) rows then rows else rows @ [r])"

text \<open>\<open>n\<close>: the number of rows inserted before an insertion fails; all of them when it is at least their number.\<close>

definition persist :: "nat \<Rightarrow> income_row list \<Rightarrow> snapshot \<Rightarrow> snapshot" where
  "persist n rows sn =
     (let sn1 = sn\<lparr>sn_memory := sn_memory sn @ rows\<rparr>
      in case sn_db sn1 of
           Some tbl \<Rightarrow>
             if sn_ready sn1
             then sn1\<lparr>sn_db := Some (fold insert_row (take n rows) tbl), sn_ready := length rows \<le> n\<rparr>
             else sn1
         | None \<Rightarrow> sn1)"

definition poll :: "string \<Rightarrow> income_row list \<Rightarrow> nat \<Rightarrow> snapshot \<Rightarrow> snapshot" where
  "poll ex raw n sn = (let (rows, sn1) = fetch_once ex raw sn in if rows = [] then sn1 else persist n rows sn1)"

text \<open>At the start: the history of every futures adapter; the events it returned (none when its request failed), with the number of
  rows the table takes.\<close>

definition prime :: "bool \<Rightarrow> (string \<times> income_row list \<times> nat) list \<Rightarrow> snapshot \<Rightarrow> snapshot" where
  "prime ok hs sn = fold (\<lambda>(ex, raw, n). poll ex raw n) hs (ensure_schema ok sn)"

definition counts_between :: "secs \<Rightarrow> secs \<Rightarrow> income_row \<Rightarrow> bool" where
  "counts_between since until r \<longleftrightarrow> since \<le> in_ts r \<and> in_ts r < until \<and> in_type r \<in> set contributing_types"

definition pnl_sum :: "secs \<Rightarrow> secs \<Rightarrow> income_row list \<Rightarrow> decimal" where
  "pnl_sum since until rows = (\<Sum>r\<leftarrow>filter (counts_between since until) rows. in_amount r)"

text \<open>\<open>ok\<close>: the query of the table succeeds.\<close>

definition cumulative_pnl :: "bool \<Rightarrow> secs \<Rightarrow> secs \<Rightarrow> snapshot \<Rightarrow> decimal" where
  "cumulative_pnl ok since until sn =
     (case sn_db sn of
        Some tbl \<Rightarrow> if sn_ready sn \<and> ok then pnl_sum since until tbl else pnl_sum since until (sn_memory sn)
      | None \<Rightarrow> pnl_sum since until (sn_memory sn))"

definition has_data :: "snapshot \<Rightarrow> bool" where
  "has_data sn \<longleftrightarrow> sn_memory sn \<noteq> [] \<or> sn_ready sn"

subsection \<open>The ledger\<close>

datatype pnl_status = VERIFIED | PENDING | DIVERGED

record ledger_state =
  ls_engine :: decimal
  ls_exchange :: decimal
  ls_divergence :: decimal
  ls_status :: pnl_status
  ls_ts :: "secs option"

definition ledger_new :: ledger_state where
  "ledger_new = \<lparr>ls_engine = 0, ls_exchange = 0, ls_divergence = 0, ls_status = PENDING, ls_ts = None\<rparr>"

definition resolve_status :: "decimal \<Rightarrow> bool \<Rightarrow> pnl_status" where
  "resolve_status d data =
     (if \<not> data then PENDING else if 1 / 2 < \<bar>d\<bar> then DIVERGED else if \<bar>d\<bar> < 1 / 10 then VERIFIED else PENDING)"

definition refresh_ledger :: "secs \<Rightarrow> decimal \<Rightarrow> decimal \<Rightarrow> bool \<Rightarrow> ledger_state \<Rightarrow> ledger_state" where
  "refresh_ledger now engine exchange data ls =
     (let st = resolve_status (engine - exchange) data
      in \<lparr>ls_engine = engine, ls_exchange = exchange, ls_divergence = engine - exchange, ls_status = st,
          ls_ts = (if st = PENDING then None else Some now)\<rparr>)"

text \<open>What the dashboard reads; only a ledger that was never filled is computed on demand.\<close>

definition live_pnl :: "secs \<Rightarrow> decimal \<Rightarrow> decimal \<Rightarrow> bool \<Rightarrow> ledger_state \<Rightarrow> ledger_state" where
  "live_pnl now engine exchange data ls = (if ls_ts ls = None then refresh_ledger now engine exchange data ls else ls)"

subsection \<open>The reconciler\<close>

record reconciler_config =
  rc_warn :: decimal
  rc_critical :: decimal
  rc_verified :: decimal
  rc_breaches :: nat
  rc_lookback :: secs

definition reconciler_default :: reconciler_config where
  "reconciler_default = \<lparr>rc_warn = 1 / 2, rc_critical = 1, rc_verified = 1 / 10, rc_breaches = 3, rc_lookback = 86400\<rparr>"

datatype severity = NoBreach | Tracking | Warn | Critical | Pending

record pnl_result =
  pr_engine :: decimal
  pr_exchange :: decimal
  pr_divergence :: decimal
  pr_warns :: nat
  pr_criticals :: nat
  pr_severity :: severity
  pr_halted :: bool

record pnl_reconciler =
  rn_config :: reconciler_config
  rn_warn :: nat
  rn_critical :: nat
  rn_last :: "pnl_result option"
  rn_ledger :: ledger_state
  rn_flags :: halt_flags

definition reconciler_new :: "reconciler_config \<Rightarrow> halt_flags \<Rightarrow> pnl_reconciler" where
  "reconciler_new cfg h = \<lparr>rn_config = cfg, rn_warn = 0, rn_critical = 0, rn_last = None, rn_ledger = ledger_new, rn_flags = h\<rparr>"

definition publish :: "secs \<Rightarrow> pnl_result \<Rightarrow> bool \<Rightarrow> pnl_reconciler \<Rightarrow> pnl_reconciler" where
  "publish now res pending rn =
     (let d = \<bar>pr_divergence res\<bar>;
          st = (if pending then PENDING else if rc_warn (rn_config rn) < d then DIVERGED else if d < rc_verified (rn_config rn) then VERIFIED else PENDING)
      in rn\<lparr>rn_ledger := \<lparr>ls_engine = pr_engine res, ls_exchange = pr_exchange res, ls_divergence = pr_divergence res, ls_status = st, ls_ts = Some now\<rparr>\<rparr>)"

text \<open>The two streaks after a comparison.\<close>

definition count_breach :: "decimal \<Rightarrow> pnl_reconciler \<Rightarrow> pnl_reconciler" where
  "count_breach d rn =
     (if rc_critical (rn_config rn) < \<bar>d\<bar> then rn\<lparr>rn_critical := rn_critical rn + 1, rn_warn := rn_warn rn + 1\<rparr>
      else if rc_warn (rn_config rn) < \<bar>d\<bar> then rn\<lparr>rn_warn := rn_warn rn + 1, rn_critical := 0\<rparr>
      else rn\<lparr>rn_warn := 0, rn_critical := 0\<rparr>)"

definition severity_of :: "decimal \<Rightarrow> pnl_reconciler \<Rightarrow> severity" where
  "severity_of d rn =
     (if rc_breaches (rn_config rn) \<le> rn_critical rn then Critical
      else if rc_breaches (rn_config rn) \<le> rn_warn rn then Warn
      else if rc_warn (rn_config rn) < \<bar>d\<bar> \<or> rc_critical (rn_config rn) < \<bar>d\<bar> then Tracking
      else NoBreach)"

text \<open>One check: the profit the engine counts, the answer of the snapshot and whether it has data.\<close>

definition run_check :: "rust_env \<Rightarrow> secs \<Rightarrow> decimal \<Rightarrow> decimal outcome \<Rightarrow> bool \<Rightarrow> pnl_reconciler \<Rightarrow> pnl_result \<times> pnl_reconciler" where
  "run_check rust now engine answer data rn =
     (case answer of
        Returned exchange \<Rightarrow>
          let d = engine - exchange;
              rn1 = (if data then count_breach d rn else rn\<lparr>rn_warn := 0, rn_critical := 0\<rparr>);
              sev = (if data then severity_of d rn1 else Pending);
              rn2 = (if sev = Critical then rn1\<lparr>rn_flags := halt_local rust (rn_flags rn1)\<rparr> else rn1);
              res = \<lparr>pr_engine = engine, pr_exchange = exchange, pr_divergence = d, pr_warns = rn_warn rn2, pr_criticals = rn_critical rn2,
                     pr_severity = sev, pr_halted = (sev = Critical)\<rparr>
          in (res, publish now res (\<not> data) (rn2\<lparr>rn_last := Some res\<rparr>))
      | _ \<Rightarrow>
          let res = \<lparr>pr_engine = engine, pr_exchange = 0, pr_divergence = 0, pr_warns = rn_warn rn, pr_criticals = rn_critical rn,
                     pr_severity = Pending, pr_halted = False\<rparr>
          in (res, publish now res True rn))"

text \<open>A check against a snapshot: the income of the last hours of the configuration.\<close>

definition check_snapshot :: "rust_env \<Rightarrow> secs \<Rightarrow> decimal \<Rightarrow> bool \<Rightarrow> snapshot \<Rightarrow> pnl_reconciler \<Rightarrow> pnl_result \<times> pnl_reconciler" where
  "check_snapshot rust now engine ok sn rn =
     run_check rust now engine (Returned (cumulative_pnl ok (now - rc_lookback (rn_config rn)) now sn)) (has_data sn) rn"

subsection \<open>Every event counts once\<close>

lemma unseen_spec:
  assumes "\<forall>r \<in> set raw. in_tran r \<noteq> []" and "distinct seen" and "card (set seen \<union> in_tran ` set raw) \<le> 2000"
    and "unseen raw seen = (out, seen')"
  shows "seen' = seen @ map in_tran out \<and> distinct seen' \<and> set seen' = set seen \<union> in_tran ` set raw \<and> set out \<subseteq> set raw"
  using assms
proof (induction raw arbitrary: seen out seen')
  case (Cons r raw)
  show ?case
  proof (cases "in_tran r \<in> set seen")
    case True
    then have "set seen \<union> in_tran ` set (r # raw) = set seen \<union> in_tran ` set raw" by auto
    with Cons.prems(3) have c: "card (set seen \<union> in_tran ` set raw) \<le> 2000" by (simp only:)
    have "unseen raw seen = (out, seen')" using Cons.prems(1,4) True by simp
    moreover have "\<forall>r \<in> set raw. in_tran r \<noteq> []" using Cons.prems(1) by simp
    ultimately have h: "seen' = seen @ map in_tran out \<and> distinct seen' \<and> set seen' = set seen \<union> in_tran ` set raw \<and> set out \<subseteq> set raw"
      using Cons.IH [OF _ Cons.prems(2) c] by blast
    have "set seen \<union> in_tran ` set (r # raw) = set seen \<union> in_tran ` set raw" using True by auto
    with h show ?thesis by (metis set_subset_Cons subset_trans)
  next
    case False
    let ?seen = "seen @ [in_tran r]"
    have "card (set ?seen) \<le> card (set seen \<union> in_tran ` set (r # raw))" by (intro card_mono) auto
    then have "length ?seen \<le> 2000" using Cons.prems(2,3) False distinct_card [of ?seen] by simp
    then have d: "deque_append 2000 seen (in_tran r) = ?seen" by (intro deque_append_short) simp
    obtain out1 where o: "unseen raw ?seen = (out1, seen')" "out = r # out1"
      using Cons.prems(1,4) False d by (simp add: Let_def split: prod.splits)
    have "set ?seen \<union> in_tran ` set raw = set seen \<union> in_tran ` set (r # raw)" by simp
    then have "card (set ?seen \<union> in_tran ` set raw) \<le> 2000" using Cons.prems(3) by (simp only:)
    moreover have "\<forall>r \<in> set raw. in_tran r \<noteq> []" "distinct ?seen" using Cons.prems(1,2) False by simp_all
    ultimately have "seen' = ?seen @ map in_tran out1 \<and> distinct seen' \<and> set seen' = set ?seen \<union> in_tran ` set raw \<and> set out1 \<subseteq> set raw"
      using Cons.IH o(1) by blast
    moreover have "?seen @ map in_tran out1 = seen @ map in_tran out" by (simp add: o(2))
    moreover have "set ?seen \<union> in_tran ` set raw = set seen \<union> in_tran ` set (r # raw)" by simp
    moreover have "set out1 \<subseteq> set raw \<Longrightarrow> set out \<subseteq> set (r # raw)" by (auto simp: o(2))
    ultimately show ?thesis by metis
  qed
qed simp

definition polled_ids :: "(income_row list \<times> nat) list \<Rightarrow> string set" where
  "polled_ids ps = (\<Union>(raw, n) \<in> set ps. in_tran ` set raw)"

lemma poll_memory:
  "sn_memory (poll ex raw n sn) = sn_memory sn @ fst (unseen raw (sn_seen sn ex)) \<and> sn_seen (poll ex raw n sn) ex = snd (unseen raw (sn_seen sn ex))"
  by (auto simp: poll_def fetch_once_def persist_def Let_def case_prod_beta split: option.splits)

lemma polls_count_once:
  assumes "\<forall>(raw, n) \<in> set ps. \<forall>r \<in> set raw. in_tran r \<noteq> []" and "card (polled_ids ps) \<le> 2000"
    and "sn = fold (\<lambda>(raw, n). poll ex raw n) ps sn0" and "sn_seen sn0 ex = [] \<and> sn_memory sn0 = []"
  shows "distinct (map in_tran (sn_memory sn)) \<and> in_tran ` set (sn_memory sn) = polled_ids ps"
proof -
  have "sn_seen sn ex = map in_tran (sn_memory sn) \<and> distinct (map in_tran (sn_memory sn)) \<and> in_tran ` set (sn_memory sn) = polled_ids ps"
    using assms
  proof (induction ps arbitrary: sn rule: rev_induct)
    case Nil
    then show ?case by (simp add: polled_ids_def)
  next
    case (snoc p ps)
    obtain raw n where p: "p = (raw, n)" by fastforce
    let ?sn = "fold (\<lambda>(raw, n). poll ex raw n) ps sn0"
    have ids: "polled_ids (ps @ [p]) = polled_ids ps \<union> in_tran ` set raw" by (auto simp: polled_ids_def p)
    have "finite (polled_ids (ps @ [p]))" by (auto simp: polled_ids_def split: prod.split)
    then have "card (polled_ids ps) \<le> 2000" using snoc.prems(2) card_mono [of "polled_ids (ps @ [p])" "polled_ids ps"] by (auto simp: ids)
    with snoc have IH: "sn_seen ?sn ex = map in_tran (sn_memory ?sn)" "distinct (map in_tran (sn_memory ?sn))" "in_tran ` set (sn_memory ?sn) = polled_ids ps"
      by auto
    obtain out seen' where u: "unseen raw (sn_seen ?sn ex) = (out, seen')" by fastforce
    have s: "set (sn_seen ?sn ex) = polled_ids ps" by (simp add: IH(1) IH(3) [symmetric])
    have a: "\<forall>r \<in> set raw. in_tran r \<noteq> []" using snoc.prems(1) by (simp add: p)
    have b: "distinct (sn_seen ?sn ex)" using IH(1,2) by simp
    have c: "card (set (sn_seen ?sn ex) \<union> in_tran ` set raw) \<le> 2000" using snoc.prems(2) by (simp only: s ids)
    have h: "seen' = sn_seen ?sn ex @ map in_tran out" "distinct seen'" "set seen' = polled_ids ps \<union> in_tran ` set raw"
      using unseen_spec [OF a b c u] unfolding s by blast+
    have n: "sn_memory sn = sn_memory ?sn @ out" "sn_seen sn ex = seen'"
      using poll_memory [of ex raw n ?sn] u by (simp_all add: snoc.prems(3) p)
    have m: "map in_tran (sn_memory sn) = seen'" by (simp only: n(1) h(1) IH(1) map_append)
    then have "in_tran ` set (sn_memory sn) = set seen'" by (metis set_map)
    then show ?case using m n(2) h(2,3) by (simp only: ids)
  qed
  then show ?thesis by blast
qed

text \<open>C35. However the history read at the start and the polls of an exchange overlap, whether the table can be written or not: as
  long as no more than 2,000 transactions were seen, the memory holds exactly the transactions that were read,
  each of them once.\<close>

theorem every_transaction_counts_once:
  assumes "\<forall>(raw, n) \<in> set ((history, m) # ps). \<forall>r \<in> set raw. in_tran r \<noteq> []" and "card (polled_ids ((history, m) # ps)) \<le> 2000"
    and "sn = fold (\<lambda>(raw, n). poll ex raw n) ps (prime ok [(ex, history, m)] (snapshot_new db))"
  shows "distinct (map in_tran (sn_memory sn)) \<and> in_tran ` set (sn_memory sn) = polled_ids ((history, m) # ps)"
proof -
  have "sn = fold (\<lambda>(raw, n). poll ex raw n) ((history, m) # ps) (ensure_schema ok (snapshot_new db))" by (simp add: assms(3) prime_def)
  moreover have "sn_seen (ensure_schema ok (snapshot_new db)) ex = [] \<and> sn_memory (ensure_schema ok (snapshot_new db)) = []"
    by (simp add: ensure_schema_def snapshot_new_def)
  ultimately show ?thesis using polls_count_once [OF assms(1,2)] by blast
qed

definition ex_income :: "secs \<Rightarrow> string \<Rightarrow> decimal \<Rightarrow> string \<Rightarrow> income_row" where
  "ex_income t typ a tid = \<lparr>in_ts = t, in_exchange = ''binance'', in_type = typ, in_amount = a, in_tran = tid\<rparr>"

definition ex_history :: "income_row list" where
  "ex_history = [ex_income 1 ''REALIZED_PNL'' 3 ''1'', ex_income 2 ''FUNDING_FEE'' (- 1) ''2'']"

definition ex_polls :: "(income_row list \<times> nat) list" where
  "ex_polls = [([ex_income 2 ''FUNDING_FEE'' (- 1) ''2'', ex_income 4 ''REALIZED_PNL'' 5 ''4''], 0)]"

theorem every_transaction_counts_once_witness:
  "in_tran ` set (sn_memory (fold (\<lambda>(raw, n). poll ''binance'' raw n) ex_polls (prime True [(''binance'', ex_history, 2)] (snapshot_new (Some []))))) = {''1'', ''2'', ''4''}"
proof -
  have ids: "polled_ids ((ex_history, 2) # ex_polls) = {''1'', ''2'', ''4''}" by (auto simp: polled_ids_def ex_polls_def ex_history_def ex_income_def)
  have "\<forall>(raw, n) \<in> set ((ex_history, 2) # ex_polls). \<forall>r \<in> set raw. in_tran r \<noteq> []" by (simp add: ex_polls_def ex_history_def ex_income_def)
  from every_transaction_counts_once [OF this _ refl] show ?thesis by (simp add: ids)
qed

subsection \<open>Divergence halts\<close>

record pnl_cycle =
  cy_now :: secs
  cy_engine :: decimal
  cy_answer :: "decimal outcome"
  cy_data :: bool

definition check_cycle :: "rust_env \<Rightarrow> pnl_cycle \<Rightarrow> pnl_reconciler \<Rightarrow> pnl_reconciler" where
  "check_cycle rust c rn = snd (run_check rust (cy_now c) (cy_engine c) (cy_answer c) (cy_data c) rn)"

definition answered :: "pnl_cycle \<Rightarrow> bool" where
  "answered c \<longleftrightarrow> (\<exists>x. cy_answer c = Returned x)"

definition exceeds :: "decimal \<Rightarrow> pnl_cycle \<Rightarrow> bool" where
  "exceeds limit c \<longleftrightarrow> cy_data c \<and> (case cy_answer c of Returned x \<Rightarrow> limit < \<bar>cy_engine c - x\<bar> | _ \<Rightarrow> False)"

text \<open>The run of cycles, among those that were answered, at the end of a history that exceed a limit.\<close>

definition streak :: "decimal \<Rightarrow> pnl_cycle list \<Rightarrow> nat" where
  "streak limit cs = length (takeWhile (exceeds limit) (rev (filter answered cs)))"

lemma streak_snoc:
  "streak limit (cs @ [c]) = (if \<not> answered c then streak limit cs else if exceeds limit c then Suc (streak limit cs) else 0)"
  by (simp add: streak_def)

lemma publish_keeps [simp]:
  "rn_config (publish now res p rn) = rn_config rn" "rn_warn (publish now res p rn) = rn_warn rn" "rn_critical (publish now res p rn) = rn_critical rn"
  "rn_flags (publish now res p rn) = rn_flags rn"
  by (simp_all add: publish_def Let_def)

lemma check_cycle_effect:
  "rn_config (check_cycle rust c rn) = rn_config rn
   \<and> rn_critical (check_cycle rust c rn) = (if \<not> answered c then rn_critical rn else if exceeds (rc_critical (rn_config rn)) c then Suc (rn_critical rn) else 0)
   \<and> rn_flags (check_cycle rust c rn) =
       (if answered c \<and> cy_data c \<and> rc_breaches (rn_config rn) \<le> rn_critical (check_cycle rust c rn) then halt_local rust (rn_flags rn) else rn_flags rn)"
  by (cases "cy_answer c"; cases "cy_data c")
    (auto simp: check_cycle_def run_check_def answered_def exceeds_def count_breach_def severity_of_def Let_def)

lemma checks_effect:
  "rn_config (fold (check_cycle rust) cs (reconciler_new cfg h)) = cfg
   \<and> rn_critical (fold (check_cycle rust) cs (reconciler_new cfg h)) = streak (rc_critical cfg) cs"
  by (induction cs rule: rev_induct) (simp_all add: reconciler_new_def streak_def [of _ "[]"] streak_snoc check_cycle_effect)

text \<open>C34. Trading is halted by the reconciliation exactly when, at some point of its history, as many checks in a row as the
  configuration asks for found the engine and the exchanges further apart than the critical limit.  Checks whose
  answer was not read are passed over, those without data end a streak.\<close>

theorem divergence_halts_exactly:
  assumes "1 \<le> rc_breaches cfg" and "rn = fold (check_cycle rust) cs (reconciler_new cfg h)"
  shows "halt_flag (rn_flags rn) \<longleftrightarrow> halt_flag h \<or> (\<exists>n \<le> length cs. rc_breaches cfg \<le> streak (rc_critical cfg) (take n cs))"
  using assms(2)
proof (induction cs arbitrary: rn rule: rev_induct)
  case Nil
  then show ?case using assms(1) by (simp add: reconciler_new_def streak_def)
next
  case (snoc c cs)
  let ?rn = "fold (check_cycle rust) cs (reconciler_new cfg h)"
  let ?hit = "\<lambda>xs. rc_breaches cfg \<le> streak (rc_critical cfg) xs"
  have split: "(\<exists>n \<le> length (cs @ [c]). ?hit (take n (cs @ [c]))) \<longleftrightarrow> (\<exists>n \<le> length cs. ?hit (take n cs)) \<or> ?hit (cs @ [c])"
  proof
    assume "\<exists>n \<le> length (cs @ [c]). ?hit (take n (cs @ [c]))"
    then obtain n where n: "n \<le> Suc (length cs)" "?hit (take n (cs @ [c]))" by auto
    show "(\<exists>n \<le> length cs. ?hit (take n cs)) \<or> ?hit (cs @ [c])"
    proof (cases "n = Suc (length cs)")
      case False
      with n(1) have "n \<le> length cs" by simp
      with n(2) show ?thesis by auto
    qed (use n(2) in simp)
  next
    assume "(\<exists>n \<le> length cs. ?hit (take n cs)) \<or> ?hit (cs @ [c])"
    then show "\<exists>n \<le> length (cs @ [c]). ?hit (take n (cs @ [c]))"
    proof
      assume "\<exists>n \<le> length cs. ?hit (take n cs)"
      then obtain n where "n \<le> length cs" "?hit (take n cs)" by blast
      then show ?thesis by (intro exI [of _ n]) simp
    next
      assume "?hit (cs @ [c])"
      then show ?thesis by (intro exI [of _ "length (cs @ [c])"]) simp
    qed
  qed
  have self: "?hit cs \<Longrightarrow> \<exists>n \<le> length cs. ?hit (take n cs)" by (intro exI [of _ "length cs"]) simp
  have rn: "rn = check_cycle rust c ?rn" using snoc.prems by simp
  note e = check_cycle_effect [of rust c ?rn] checks_effect [of rust cs cfg h] checks_effect [of rust "cs @ [c]" cfg h]
  have flags: "rn_flags rn = (if answered c \<and> cy_data c \<and> ?hit (cs @ [c]) then halt_local rust (rn_flags ?rn) else rn_flags ?rn)"
    using e by (simp add: rn)
  show ?case
  proof (cases "answered c \<and> cy_data c \<and> ?hit (cs @ [c])")
    case True
    then show ?thesis unfolding split flags by simp
  next
    case False
    then have "?hit (cs @ [c]) \<Longrightarrow> ?hit cs"
      using assms(1) by (auto simp: streak_snoc exceeds_def split: if_splits)
    then have "(\<exists>n \<le> length cs. ?hit (take n cs)) \<or> ?hit (cs @ [c]) \<longleftrightarrow> (\<exists>n \<le> length cs. ?hit (take n cs))" using self by blast
    moreover have "rn_flags rn = rn_flags ?rn" using False flags by (simp only: if_False)
    ultimately show ?thesis unfolding split using snoc.IH [OF refl] by (simp only:)
  qed
qed

definition example_check :: "secs \<Rightarrow> decimal \<Rightarrow> decimal outcome \<Rightarrow> pnl_cycle" where
  "example_check t e a = \<lparr>cy_now = t, cy_engine = e, cy_answer = a, cy_data = True\<rparr>"

definition example_checks :: "pnl_cycle list" where
  "example_checks = [example_check 0 5 (Returned 5), example_check 60 5 (Returned 3), example_check 120 5 (Returned 3), example_check 180 5 TimedOut, example_check 240 5 (Returned 2)]"

theorem divergence_halts_exactly_witness:
  "halt_flag (rn_flags (fold (check_cycle (\<lparr>metrics_ok = True, rust_import_ok = True, rust_halt_ok = True, rust_check_ok = True, rust_clear_ok = True\<rparr>))
      example_checks (reconciler_new reconciler_default initial_flags)))"
proof -
  have "rc_breaches reconciler_default \<le> streak (rc_critical reconciler_default) (take 5 example_checks)"
    by (simp add: reconciler_default_def streak_def example_checks_def example_check_def answered_def exceeds_def)
  moreover have "5 \<le> length example_checks" by (simp add: example_checks_def)
  moreover have "1 \<le> rc_breaches reconciler_default" by (simp add: reconciler_default_def)
  ultimately show ?thesis using divergence_halts_exactly [OF _ refl] by blast
qed

subsection \<open>Deviations\<close>

text \<open>
  The engine's profit counts from its start, the exchanges' income is summed over the last 24 hours.  An engine that counts every
  event correctly diverges by the income that is older; an engine that was just started by all of it.
\<close>

lemma correct_engine_diverges_by_old_income:
  assumes "\<forall>r \<in> set (sn_memory sn). in_type r \<in> set contributing_types \<and> in_ts r < now" and "sn_db sn = None"
    and "engine = (\<Sum>r\<leftarrow>sn_memory sn. in_amount r)"
  shows "engine - cumulative_pnl ok (now - 86400) now sn = (\<Sum>r\<leftarrow>filter (\<lambda>r. in_ts r < now - 86400) (sn_memory sn). in_amount r)"
proof -
  have "(\<Sum>r\<leftarrow>rows. in_amount r) - pnl_sum (now - 86400) now rows = (\<Sum>r\<leftarrow>filter (\<lambda>r. in_ts r < now - 86400) rows. in_amount r)"
    if "\<forall>r \<in> set rows. in_type r \<in> set contributing_types \<and> in_ts r < now" for rows
    using that by (induction rows) (auto simp: pnl_sum_def counts_between_def)
  then show ?thesis using assms by (simp add: cumulative_pnl_def)
qed

definition two_days :: snapshot where
  "two_days = poll ''binance'' [ex_income 0 ''REALIZED_PNL'' 2 ''1'', ex_income 86000 ''REALIZED_PNL'' 1 ''2''] 0 (snapshot_new None)"

lemma two_days_pnl:
  "has_data two_days \<and> cumulative_pnl True (t - 86400) t two_days = (if 0 < t \<and> t \<le> 86400 then 2 else 0) + (if 86000 < t \<and> t \<le> 172400 then 1 else 0)"
proof -
  have m: "sn_memory two_days = [ex_income 0 ''REALIZED_PNL'' 2 ''1'', ex_income 86000 ''REALIZED_PNL'' 1 ''2'']" and d: "sn_db two_days = None"
    unfolding two_days_def by code_simp+
  show ?thesis unfolding has_data_def cumulative_pnl_def m d
    by (simp add: pnl_sum_def counts_between_def contributing_types_def ex_income_def)
qed

definition check_day :: "secs \<Rightarrow> pnl_reconciler \<Rightarrow> pnl_reconciler" where
  "check_day t rn =
     snd (check_snapshot \<lparr>metrics_ok = True, rust_import_ok = False, rust_halt_ok = False, rust_check_ok = False, rust_clear_ok = False\<rparr> t 3 True two_days rn)"

lemma check_day_effect:
  "rn_config rn = reconciler_default \<Longrightarrow> 86000 < t \<Longrightarrow> t \<le> 172400 \<Longrightarrow>
   rn_config (check_day t rn) = reconciler_default
   \<and> rn_critical (check_day t rn) = (if t \<le> 86400 then 0 else Suc (rn_critical rn))
   \<and> halt_flag (rn_flags (check_day t rn)) = (halt_flag (rn_flags rn) \<or> 86400 < t \<and> 2 \<le> rn_critical rn)"
  using two_days_pnl [of t]
  by (simp add: check_day_def check_snapshot_def run_check_def count_breach_def severity_of_def reconciler_default_def Let_def)

lemma day_old_profit_halts:
  "\<not> halt_flag (rn_flags (check_day 86300 (check_day 86240 (check_day 86180 (reconciler_new reconciler_default initial_flags)))))
   \<and> halt_flag (rn_flags (check_day 86580 (check_day 86520 (check_day 86460 (reconciler_new reconciler_default initial_flags)))))"
  by (simp add: check_day_effect reconciler_new_def initial_flags_def)

text \<open>A database that is there but empty counts as data: the engine is compared with nothing.\<close>

lemma empty_database_counts_as_data:
  "has_data (ensure_schema True (snapshot_new (Some []))) \<and> cumulative_pnl True a b (ensure_schema True (snapshot_new (Some []))) = 0"
  by (simp add: has_data_def ensure_schema_def snapshot_new_def cumulative_pnl_def pnl_sum_def)

text \<open>A commission that has the transaction number of its trade is taken for a repetition.\<close>

lemma commission_of_a_trade_is_dropped:
  "map in_type (sn_memory (poll ''binance'' [ex_income 1 ''REALIZED_PNL'' 3 ''7'', ex_income 1 ''COMMISSION'' (- 2) ''7''] 0 (snapshot_new None)))
   = [''REALIZED_PNL'']"
  by code_simp

text \<open>When an insertion fails the rows before it stay in the table, and from then on only the memory is summed: what was in the
  table before the start no longer counts.\<close>

lemma failed_insert_forgets_the_table:
  assumes "sn_db sn = Some tbl" and "sn_ready sn" and "n < length rows"
  shows "cumulative_pnl ok since until (persist n rows sn) = pnl_sum since until (sn_memory sn @ rows)"
  using assms by (simp add: cumulative_pnl_def persist_def Let_def)

end
