(* ===== verification/Spec2Isabelle.thy ===== *)
theory Spec2Isabelle
  imports KillSwitch CircuitBreaker PerStrategyCB FlashGuard Guardian BudgetLedger Journal OrderState
    MarginTracker Stranded DualWrite Exposure PositionManager PositionRegistry OrderBook DepthAnalyzer
    AtomicExecutor Reconciler Lifecycle TwoLeg TokenBucket PreTrade ExecutorGaps
    Registry Supervisor LiveGate StaleDetector Sizing OrderRouter OrderIntake
    PaperTrading WalRecovery TradeRecon Workflow Friction Triangles PnlRecon
begin

text \<open>
  LEVIATHAN is a Python engine that trades crypto-currency arbitrage on several exchanges
  (\<open>engine/src/\<close> under the repository root; the dashboard, the infrastructure files and a small
  Rust library surround it).  Strategies emit trade requests; a request passes the risk guardian,
  is executed on the exchanges, and its fills flow to listeners that update positions, exposure,
  journal and budgets; background tasks reconcile the engine's view with the exchanges' and halt
  trading when they must.  The development models the part that keeps the engine safe: risk,
  execution state and its records, and the order book underneath.

  \<^bold>\<open>Reading the model.\<close>  Each theory names its source file.  A class is a record of its fields, an
  enumeration a datatype, a method a function that takes the state and returns its result with the
  new state; a raised exception is \<open>Inl\<close> of an error or \<open>None\<close>.  A dictionary whose order matters
  is an association list (\<open>dict\<close>), otherwise a map.  A Python float or \<open>Decimal\<close> is a rational, so
  rounding, NaN and infinities are outside the model, except where the code rounds on purpose
  (\<open>quantize4\<close>); integers are unbounded, as in Python.  Each clock reading is an argument.  What
  a call into code outside the repository does (Redis, PostgreSQL, an exchange, SHA-256, JSON,
  CRC-32, the Rust library) is an argument too: an \<open>outcome\<close>, a flag, or a function; theorems
  quantify over it.  Coroutines that hold a lock are one step; where the code releases
  control in the middle and it matters (kill switch, budget ledger, exposure tracker, position
  manager with its queue), the operation is also cut at that point and the interleaving is stated.

  \<^bold>\<open>Theories and what they show.\<close>
  \<^item> \<open>Prelude\<close>: types, dictionaries, strings, bounded deques, sums.  \<open>Interfaces\<close>: the contracts as
    locales (\<open>trip_switch\<close>, \<open>halt_switch\<close>, \<open>admission\<close>, \<open>expiring\<close>, \<open>signed_book\<close>, \<open>event_log\<close>), each
    interpreted on the operations of the components that provide it.
  \<^item> \<open>KillSwitch\<close> (\<open>risk/kill_switch.py\<close>): the process-wide halt flag, the three tiers, reset; a trigger
    always halts, the invariant between the switch and the flag under interleaving, and, as lemmas, two
    ways the code falls short of it.
  \<^item> \<open>CircuitBreaker\<close> (\<open>risk/circuit_breaker.py\<close>): the refinement to the three-state graph, the
    cool-down, the exact trip condition, recovery.
  \<^item> \<open>PerStrategyCB\<close> (\<open>risk/per_strategy_cb.py\<close>): independence of strategies, time a halt lasts,
    escalation, the score as a weighted sum in the unit interval.
  \<^item> \<open>FlashGuard\<close> (\<open>risk/flash_guard.py\<close>): confirmation and cool-down.  \<open>Guardian\<close>
    (\<open>risk/guardian.py\<close>): approval is the conjunction of all the checks, the halt check comes first.
  \<^item> \<open>BudgetLedger\<close> (\<open>risk/strategy_budget_ledger.py\<close>): the account of each strategy, halts, the
    daily roll, persistence and restart.
  \<^item> \<open>TokenBucket\<close> (\<open>infra/exchange/rate_limiter.py\<close>): what is granted is bounded by capacity and rate.
  \<^item> \<open>PreTrade\<close> (\<open>execution/pre_trade_validator.py\<close>, \<open>execution/dedup.py\<close>, \<open>core/reason_codes.py\<close>,
    \<open>infra/exchange/min_notional_registry.py\<close>): the twelve gates of the live path over the components
    above; they amount to one condition, no order goes out twice within the window, the session-loss
    limit stops the engine, the bump of small legs is bounded.
  \<^item> \<open>Journal\<close> (\<open>execution/journal.py\<close>): the hash chain stays verifiable and pins the history
    unless the hash collides, and, as lemmas, two ways around it.  \<open>OrderState\<close>
    (\<open>execution/order_state.py\<close>): transitions are written exactly when legal, driven orders follow the graph.
  \<^item> \<open>MarginTracker\<close>, \<open>Stranded\<close> (\<open>execution/\<close>): bounds on reserved margin and on tolerated
    stranded value.
  \<^item> \<open>AtomicExecutor\<close> (\<open>execution/atomic.py\<close>): what an execution really leaves.  \<open>TwoLeg\<close>
    (\<open>execution/cross_exchange_v2.py\<close>): both legs at once over the atomic executor, the state machine and
    the stranded tracker; the outcome table with what is handed over, and the journal of the two orders,
    for every interleaving.
  \<^item> \<open>Reconciler\<close> (\<open>execution/reconciler.py\<close>): exactly what is reported.
  \<^item> \<open>DualWrite\<close> (\<open>infra/db/dual_write.py\<close>): the two-store protocol.  \<open>Exposure\<close>
    (\<open>risk/exposure_tracker.py\<close>): an account of the fills.  \<open>PositionManager\<close> (\<open>risk/position_manager.py\<close>, the
    listener and the drain loop that call it): the exposure is that of the open positions, and, as a
    lemma, the order of index and queue in which it is not.
  \<^item> \<open>PositionRegistry\<close> (\<open>core/position_registry.py\<close>): exclusion and preemption.  \<open>OrderBook\<close>,
    \<open>DepthAnalyzer\<close> (\<open>core/\<close>): well-formed books and the optimality of the depth walk; the two walks agree.
  \<^item> \<open>Lifecycle\<close> (\<open>runtime/lifecycle_manager.py\<close>): start order, shutdown order, and exactly when
    an order exists.
  \<^item> This theory: the halt flag across position manager, dual writer and guardian.

  \<^bold>\<open>Bounds.\<close>  The only fuel is in \<open>Lifecycle.kahn\<close>: as many rounds as there are tasks, shown to be
  enough by \<open>start_order_exists_iff\<close> (each round places a new task).  Every other loop is structural.

  \<^bold>\<open>Not modelled.\<close>  Logs, metrics and alert texts; the wiring in \<open>main.py\<close>, \<open>runtime/\<close> and \<open>modes/\<close>
  apart from the drain loop; exchange adapters, database and notification code (input and output);
  strategies, signals, statistics, machine learning and tuning (floating-point series);
  configuration, HTTP routes and tooling; the Rust library.

  \<^bold>\<open>Plan.\<close>  Next: the executor and its intake (\<open>execution/executor.py\<close>, \<open>trade_consumer.py\<close>,
  \<open>router.py\<close>, \<open>sizer.py\<close>) over the atomic executor, the margin tracker and the
  stranded tracker; then the supervisor and its halt requests, the strategy registry, the balance and
  capital components and the data quality manager whose score the guardian takes; then the
  income reconciliation that feeds the budget ledger, and paper execution.
\<close>

subsection \<open>The halt flag across components\<close>

lemma open_position_stores:
  "pm_stores (snd (open_position v io key side qty avg P))
     = pm_stores (snd (log_event v io (event_for key side qty avg ''OPEN'' []) P))"
  by (auto simp: open_position_def Let_def split: prod.split)

lemma log_event_redis_failure:
  assumes "pm_writer P" and "succeeded (pg_result (pi_dual io))" and "\<not> succeeded (redis_result (pi_dual io))"
  shows "halt_flag (dw_flags (pm_stores (snd (log_event v io e P))))"
  using assms
  by (cases "pg_result (pi_dual io)"; cases "redis_result (pi_dual io)") (simp_all add: log_event_def dual_defs)

lemma flag_survives:
  "halt_flag h \<Longrightarrow> CmdClear \<notin> set cs \<Longrightarrow> halt_flag (fold (flag_step env) cs h)"
proof (induction cs arbitrary: h)
  case (Cons c cs)
  then show ?case by (cases c) auto
qed simp

text \<open>A Redis failure while a position is opened stops the whole engine: the position is recorded
  all the same, the halt flag the dual writer shares with the guardian is up, and from then on,
  whatever halts and checks of the flag follow, every check of a guardian over that flag is
  rejected at check 0 and the live path's check refuses, until \<open>clear_halt\<close> is called.\<close>

lemma redis_failure_stops_trading:
  assumes "pm_writer P" and "succeeded (pg_result (pi_dual io))" and "\<not> succeeded (redis_result (pi_dual io))"
    and "CmdClear \<notin> set cs"
    and "rg_flags g = fold (flag_step env) cs (dw_flags (pm_stores (snd (open_position v io key side qty avg P))))"
  shows "dict_has (pm_positions (snd (open_position v io key side qty avg P))) key
    \<and> fst (check env' now inp p pf g) = reject 0 EngineHalted
    \<and> \<not> fst (check_trade_request env' legs capital g)"
proof -
  have flag: "halt_flag (rg_flags g)"
    unfolding assms(5) open_position_stores using log_event_redis_failure [OF assms(1-3)] assms(4)
    by (intro flag_survives)
  have "dict_has (pm_positions (snd (open_position v io key side qty avg P))) key"
    by (auto simp: open_position_def Let_def dict_has_iff split: prod.split)
  moreover have "fst (check env' now inp p pf g) = reject 0 EngineHalted"
    using flag by (intro check_halted) simp
  moreover have "\<not> fst (check_trade_request env' legs capital g)"
    using flag by (simp add: check_trade_request_def KillSwitch.is_halted_def)
  ultimately show ?thesis by blast
qed

lemma redis_failure_stops_trading_witness:
  "fst (check ex_env 5 ex_inputs ex_proposal ex_portfolio ((ex_guardian thrice_halted)\<lparr>rg_flags :=
      dw_flags (pm_stores (snd (open_position ex_pm_env ex_pm_io (''arb'', ''okx'', ''BTC/USDT'') ''LONG'' 1 5
        (pm_new True True initial_flags))))\<rparr>)) = reject 0 EngineHalted"
  using redis_failure_stops_trading [of "pm_new True True initial_flags" ex_pm_io "[]"
      "(ex_guardian thrice_halted)\<lparr>rg_flags :=
      dw_flags (pm_stores (snd (open_position ex_pm_env ex_pm_io (''arb'', ''okx'', ''BTC/USDT'') ''LONG'' 1 5
        (pm_new True True initial_flags))))\<rparr>" ex_env ex_pm_env "(''arb'', ''okx'', ''BTC/USDT'')" "''LONG''" 1 5
      ex_env 5 ex_inputs ex_proposal ex_portfolio]
  by (simp add: pm_new_def ex_pm_io_def ex_dual_io_def)

end
